(* ===== verification/Prelude.thy ===== *)
theory Prelude
  imports Main "HOL-Library.AList" "HOL-Library.List_Lexorder" "HOL-Library.Char_ord"
begin

section \<open>Shared model of the JavaScript library the sources use\<close>

text \<open>
  The generic part of the development: the JavaScript string operations (\<open>split\<close>,
  \<open>join\<close>, \<open>startsWith\<close>), the insertion-ordered \<open>Map\<close> as an association list, and
  the interface \<open>map_ops\<close> through which the components use a map, with its
  interpretation on association lists. A JavaScript string is a \<^typ>\<open>string\<close>: one
  \<^typ>\<open>char\<close> per UTF-16 code unit, for code units up to 255; \<open>Array.prototype.sort\<close>
  compares code units, which is the lexicographic order of List_Lexorder.
\<close>

named_theorems js_simps \<open>laws of the modelled JavaScript library\<close>

subsection \<open>Strings\<close>

text \<open>\<open>s.startsWith(p)\<close>\<close>

definition js_startsWith :: "string \<Rightarrow> string \<Rightarrow> bool" where
  "js_startsWith s p \<longleftrightarrow> take (length p) s = p"

text \<open>\<open>s.split(c)\<close> for a separator of one character; always at least one segment.\<close>

fun js_split :: "'a \<Rightarrow> 'a list \<Rightarrow> 'a list list" where
  "js_split c [] = [[]]"
| "js_split c (x # xs) =
     (if x = c then [] # js_split c xs
      else (x # hd (js_split c xs)) # tl (js_split c xs))"

text \<open>\<open>segments.join(sep)\<close>\<close>

fun js_join :: "'a list \<Rightarrow> 'a list list \<Rightarrow> 'a list" where
  "js_join sep [] = []"
| "js_join sep [s] = s"
| "js_join sep (s # t # ss) = s @ sep @ js_join sep (t # ss)"

text \<open>\<open>s.includes(p)\<close>\<close>

fun js_includes :: "'a list \<Rightarrow> 'a list \<Rightarrow> bool" where
  "js_includes [] p = (p = [])"
| "js_includes (c # s) p = (take (length p) (c # s) = p \<or> js_includes s p)"

lemma js_startsWith_iff [js_simps]: "js_startsWith s p \<longleftrightarrow> (\<exists>r. s = p @ r)"
  by (metis append_eq_conv_conj append_take_drop_id js_startsWith_def)

lemma js_split_not_Nil [simp]: "js_split c xs \<noteq> []"
  by (cases xs) auto

lemma js_join_Cons: "ss \<noteq> [] \<Longrightarrow> js_join sep (s # ss) = s @ sep @ js_join sep ss"
  by (cases ss) auto

lemma js_join_split [js_simps]: "js_join [c] (js_split c xs) = xs"
proof (induction xs)
  case Nil
  then show ?case by simp
next
  case (Cons x xs)
  obtain s ss where ss: "js_split c xs = s # ss"
    by (cases "js_split c xs") auto
  show ?case
    using Cons.IH by (cases ss) (auto simp: ss js_join_Cons)
qed

lemma js_split_append:
  "js_split c (xs @ c # ys) = js_split c xs @ js_split c ys"
  by (induction xs) auto

lemma js_split_no_sep: "c \<notin> set xs \<Longrightarrow> js_split c xs = [xs]"
  by (induction xs) auto

lemma js_split_segment: "s \<in> set (js_split c xs) \<Longrightarrow> c \<notin> set s"
proof (induction xs arbitrary: s)
  case Nil
  then show ?case by simp
next
  case (Cons x xs)
  obtain t ts where ts: "js_split c xs = t # ts"
    by (cases "js_split c xs") auto
  show ?case
    using Cons.prems Cons.IH by (auto simp: ts split: if_splits)
qed

lemma js_join_append:
  "ss \<noteq> [] \<Longrightarrow> ts \<noteq> [] \<Longrightarrow> js_join sep (ss @ ts) = js_join sep ss @ sep @ js_join sep ts"
  by (induction sep ss rule: js_join.induct) (auto simp: js_join_Cons)

lemma js_split_join:
  "ss \<noteq> [] \<Longrightarrow> (\<And>s. s \<in> set ss \<Longrightarrow> c \<notin> set s) \<Longrightarrow> js_split c (js_join [c] ss) = ss"
proof (induction ss)
  case Nil
  then show ?case by simp
next
  case (Cons s ss)
  show ?case
  proof (cases "ss = []")
    case True
    with Cons.prems show ?thesis by (simp add: js_split_no_sep)
  next
    case False
    with Cons show ?thesis
      by (simp add: js_join_Cons js_split_append js_split_no_sep)
  qed
qed

subsection \<open>Maps\<close>

text \<open>
  A JavaScript \<open>Map\<close> iterates in insertion order, and \<open>set\<close> on a present key keeps
  its position: this is \<^const>\<open>AList.update\<close>. \<open>get\<close> is \<^const>\<open>map_of\<close>, \<open>has\<close> is
  membership of the domain and \<open>delete\<close> is \<^const>\<open>AList.delete\<close>.
\<close>

type_synonym ('k, 'v) jsmap = "('k \<times> 'v) list"

abbreviation js_has :: "('k, 'v) jsmap \<Rightarrow> 'k \<Rightarrow> bool" where
  "js_has m k \<equiv> map_of m k \<noteq> None"

text \<open>\<open>m.get(k) ?? d\<close>\<close>

definition js_get_or :: "'v \<Rightarrow> ('k, 'v) jsmap \<Rightarrow> 'k \<Rightarrow> 'v" where
  "js_get_or d m k = (case map_of m k of None \<Rightarrow> d | Some v \<Rightarrow> v)"

text \<open>\<open>new Map(entries)\<close>: the entries are set one after the other.\<close>

definition js_map_of_entries :: "('k \<times> 'v) list \<Rightarrow> ('k, 'v) jsmap" where
  "js_map_of_entries es = foldl (\<lambda>m (k, v). AList.update k v m) [] es"

text \<open>Setting a new key appends it.\<close>

lemma update_fresh: "AList.update k v m = m @ [(k, v)]" if "k \<notin> fst ` set m" for k v m
  using that by (induction m) auto

text \<open>A loop keeps what its body keeps.\<close>

lemma foldl_invariant:
  assumes "P s" and "\<And>s x. x \<in> set xs \<Longrightarrow> P s \<Longrightarrow> P (f s x)"
  shows "P (foldl f s xs)"
  using assms by (induction xs arbitrary: s) auto

text \<open>\<open>Array.from(new Set(xs))\<close>: the first occurrence of every element, in order.\<close>

fun js_uniq_acc :: "'a list \<Rightarrow> 'a list \<Rightarrow> 'a list" where
  "js_uniq_acc seen [] = []"
| "js_uniq_acc seen (x # xs) =
     (if x \<in> set seen then js_uniq_acc seen xs else x # js_uniq_acc (x # seen) xs)"

definition js_uniq :: "'a list \<Rightarrow> 'a list" where
  "js_uniq xs = js_uniq_acc [] xs"

lemma set_js_uniq_acc: "set (js_uniq_acc seen xs) = set xs - set seen"
  by (induction seen xs rule: js_uniq_acc.induct) auto

lemma distinct_js_uniq_acc: "distinct (js_uniq_acc seen xs)"
  by (induction seen xs rule: js_uniq_acc.induct) (auto simp: set_js_uniq_acc)

lemma set_js_uniq [simp]: "set (js_uniq xs) = set xs"
  by (simp add: js_uniq_def set_js_uniq_acc)

lemma distinct_js_uniq [simp]: "distinct (js_uniq xs)"
  by (simp add: js_uniq_def distinct_js_uniq_acc)

text \<open>
  The interface of a map as the components use it. The laws say what a lookup returns
  after each operation; the lemmas proved from them are the counting and grouping loops
  that recur in the sources.
\<close>

locale map_ops =
  fixes empty :: "'m"
    and get :: "'m \<Rightarrow> 'k \<Rightarrow> 'v option"
    and put :: "'k \<Rightarrow> 'v \<Rightarrow> 'm \<Rightarrow> 'm"
    and remove :: "'k \<Rightarrow> 'm \<Rightarrow> 'm"
  assumes get_empty: "get empty k = None"
    and get_put: "get (put k v m) j = (if j = k then Some v else get m j)"
    and get_remove: "get (remove k m) j = (if j = k then None else get m j)"
begin

lemma get_put_entries:
  "get (foldl (\<lambda>m (k, v). put k v m) m es) j =
     (case map_of (rev es) j of None \<Rightarrow> get m j | Some v \<Rightarrow> Some v)"
  by (induction es arbitrary: m) (auto simp: get_put map_add_def split: option.splits)

lemma get_put_all:
  "get (foldl (\<lambda>m k. put k (f k) m) m ks) j =
     (if j \<in> set ks then Some (f j) else get m j)"
  by (induction ks arbitrary: m) (auto simp: get_put)

text \<open>\<open>for (k of ks) m.set(k, upd(m.get(k)))\<close> leaves the keys outside \<open>ks\<close> alone.\<close>

lemma get_fold_other:
  "j \<notin> set ks \<Longrightarrow> get (foldl (\<lambda>m k. put k (upd k (get m k)) m) m ks) j = get m j"
  by (induction ks arbitrary: m) (auto simp: get_put)

lemma get_remove_all:
  "get (foldl (\<lambda>m k. remove k m) m ks) j = (if j \<in> set ks then None else get m j)"
  by (induction ks arbitrary: m) (auto simp: get_remove)

end

text \<open>A counter map \<open>m.set(k, (m.get(k) ?? 0) + 1)\<close>, over any map interface.\<close>

locale counter_map = map_ops empty get put remove
  for empty :: "'m" and get :: "'m \<Rightarrow> 'k \<Rightarrow> int option"
    and put :: "'k \<Rightarrow> int \<Rightarrow> 'm \<Rightarrow> 'm" and remove :: "'k \<Rightarrow> 'm \<Rightarrow> 'm"
begin

lemma get_count:
  assumes "get m j = Some n"
  shows "get (foldl (\<lambda>m k. put k ((case get m k of None \<Rightarrow> 0 | Some c \<Rightarrow> c) + 1) m) m ks) j =
    Some (n + int (count_list ks j))"
  using assms
proof (induction ks arbitrary: m n)
  case Nil
  then show ?case by simp
next
  case (Cons k ks)
  show ?case
  proof (cases "k = j")
    case True
    with Cons.prems have "get (put k ((case get m k of None \<Rightarrow> 0 | Some c \<Rightarrow> c) + 1) m) j = Some (n + 1)"
      by (simp add: get_put)
    from Cons.IH [OF this] True show ?thesis by simp
  next
    case False
    with Cons.prems have "get (put k ((case get m k of None \<Rightarrow> 0 | Some c \<Rightarrow> c) + 1) m) j = Some n"
      by (simp add: get_put)
    from Cons.IH [OF this] False show ?thesis by simp
  qed
qed

end

interpretation js: map_ops "[]" map_of AList.update AList.delete
  by unfold_locales (auto simp: update_conv' delete_conv')

interpretation jsc: counter_map "[]" map_of AList.update AList.delete
  by unfold_locales

lemma dropWhile_none: "list_all (\<lambda>c. \<not> P c) xs \<Longrightarrow> dropWhile P xs = xs"
  by (cases xs) auto

lemma map_of_js_entries [js_simps]: "map_of (js_map_of_entries es) = map_of (rev es)"
  by (rule ext) (simp add: js_map_of_entries_def js.get_put_entries split: option.splits)

lemma js_get_or_update [js_simps]:
  "js_get_or d (AList.update k v m) j = (if j = k then v else js_get_or d m j)"
  by (simp add: js_get_or_def js.get_put)

end
