(* ===== verification/Web.thy ===== *)
theory Web
  imports Prelude Complex_Main
begin

section \<open>Web values: characters, encodings, headers, cookies, JSON\<close>

text \<open>
  What the middleware and the BFF routes use of the web platform: case folding, trimming,
  percent-encoding, base64, header lists, cookies with their path scope, and parsed JSON
  values. URL parsing and \<open>JSON.parse\<close> are arguments of the definitions that call them.
\<close>

subsection \<open>Characters\<close>

abbreviation code_unit :: "char \<Rightarrow> nat" where
  "code_unit c \<equiv> of_char c"

definition is_upper :: "char \<Rightarrow> bool" where
  "is_upper c \<longleftrightarrow> 65 \<le> code_unit c \<and> code_unit c \<le> 90"

definition is_lower :: "char \<Rightarrow> bool" where
  "is_lower c \<longleftrightarrow> 97 \<le> code_unit c \<and> code_unit c \<le> 122"

definition is_digit :: "char \<Rightarrow> bool" where
  "is_digit c \<longleftrightarrow> 48 \<le> code_unit c \<and> code_unit c \<le> 57"

definition is_alpha :: "char \<Rightarrow> bool" where
  "is_alpha c \<longleftrightarrow> is_upper c \<or> is_lower c"

definition is_alnum :: "char \<Rightarrow> bool" where
  "is_alnum c \<longleftrightarrow> is_alpha c \<or> is_digit c"

text \<open>\<open>s.toLowerCase()\<close> on code units up to 255: A-Z and the accented capitals.\<close>

definition js_lower_char :: "char \<Rightarrow> char" where
  "js_lower_char c =
     (if is_upper c \<or> 192 \<le> code_unit c \<and> code_unit c \<le> 222 \<and> code_unit c \<noteq> 215
      then char_of (code_unit c + 32) else c)"

definition js_toLowerCase :: "string \<Rightarrow> string" where
  "js_toLowerCase s = map js_lower_char s"

text \<open>\<open>s.trim()\<close>: white space and line terminators up to code unit 255.\<close>

definition js_is_space :: "char \<Rightarrow> bool" where
  "js_is_space c \<longleftrightarrow> code_unit c \<in> {9, 10, 11, 12, 13, 32, 160}"

definition js_trim :: "string \<Rightarrow> string" where
  "js_trim s = rev (dropWhile js_is_space (rev (dropWhile js_is_space s)))"

text \<open>The decimal text of an integer, as a template literal prints it.\<close>

fun nat_text :: "nat \<Rightarrow> string" where
  "nat_text n = (if n < 10 then [char_of (48 + n)] else nat_text (n div 10) @ [char_of (48 + n mod 10)])"

declare nat_text.simps [simp del]

definition int_text :: "int \<Rightarrow> string" where
  "int_text z = (if z < 0 then CHR ''-'' # nat_text (nat (- z)) else nat_text (nat z))"

subsection \<open>Encodings\<close>

definition hex_digit :: "nat \<Rightarrow> char" where
  "hex_digit n = ''0123456789ABCDEF'' ! n"

definition pct_byte :: "nat \<Rightarrow> string" where
  "pct_byte b = [CHR ''%'', hex_digit (b div 16), hex_digit (b mod 16)]"

definition utf8_bytes :: "char \<Rightarrow> nat list" where
  "utf8_bytes c =
     (let n = code_unit c in if n < 128 then [n] else [192 + n div 64, 128 + n mod 64])"

definition pct_char :: "char \<Rightarrow> string" where
  "pct_char c = concat (map pct_byte (utf8_bytes c))"

text \<open>\<open>encodeURIComponent\<close> and the serializer of \<open>URLSearchParams\<close>.\<close>

definition js_encodeURIComponent :: "string \<Rightarrow> string" where
  "js_encodeURIComponent s =
     concat (map (\<lambda>c. if is_alnum c \<or> c \<in> set ''-_.!~*()'' \<or> code_unit c = 39 then [c] else pct_char c) s)"

definition url_param_value :: "string \<Rightarrow> string" where
  "url_param_value s =
     concat (map (\<lambda>c. if is_alnum c \<or> c \<in> set ''*-._'' then [c]
                       else if c = CHR '' '' then ''+'' else pct_char c) s)"

definition url_params :: "(string \<times> string) list \<Rightarrow> string" where
  "url_params ps = js_join ''&'' (map (\<lambda>(k, v). url_param_value k @ ''='' @ url_param_value v) ps)"

text \<open>\<open>atob\<close>: strips ASCII white space, drops at most two pads of a full last group, fails on
  a foreign character or a single left-over sextet.\<close>

definition b64_alphabet :: string where
  "b64_alphabet = ''ABCDEFGHIJKLMNOPQRSTUVWXYZabcdefghijklmnopqrstuvwxyz0123456789+/''"

definition b64_value :: "char \<Rightarrow> nat option" where
  "b64_value c = map_of (zip b64_alphabet [0..<64]) c"

fun b64_bytes :: "nat list \<Rightarrow> string option" where
  "b64_bytes [] = Some []"
| "b64_bytes [a] = None"
| "b64_bytes [a, b] = Some [char_of (a * 4 + b div 16)]"
| "b64_bytes [a, b, c] = Some [char_of (a * 4 + b div 16), char_of (b mod 16 * 16 + c div 4)]"
| "b64_bytes (a # b # c # d # xs) =
     map_option (\<lambda>r. char_of (a * 4 + b div 16) # char_of (b mod 16 * 16 + c div 4) #
       char_of (c mod 4 * 64 + d) # r) (b64_bytes xs)"

definition js_atob :: "string \<Rightarrow> string option" where
  "js_atob s =
     (let t = filter (\<lambda>c. code_unit c \<notin> {9, 10, 12, 13, 32}) s;
          u = (if length t mod 4 = 0
               then (if 2 \<le> length t \<and> drop (length t - 2) t = ''=='' then take (length t - 2) t
                     else if t \<noteq> [] \<and> last t = CHR ''='' then butlast t else t)
               else t);
          vs = map b64_value u
      in if list_ex (\<lambda>v. v = None) vs then None else b64_bytes (map the vs))"

subsection \<open>JSON values\<close>

text \<open>A JavaScript number: a finite value (as a rational), an infinity or NaN.\<close>

datatype js_num = Fin rat | PosInf | NegInf | NaN

fun js_gt :: "js_num \<Rightarrow> js_num \<Rightarrow> bool" where
  "js_gt (Fin a) (Fin b) \<longleftrightarrow> b < a"
| "js_gt PosInf (Fin _) \<longleftrightarrow> True"
| "js_gt PosInf NegInf \<longleftrightarrow> True"
| "js_gt (Fin _) NegInf \<longleftrightarrow> True"
| "js_gt _ _ \<longleftrightarrow> False"

text \<open>A number is truthy unless it is zero or NaN.\<close>

definition js_num_truthy :: "js_num \<Rightarrow> bool" where
  "js_num_truthy n \<longleftrightarrow> n \<noteq> Fin 0 \<and> n \<noteq> NaN"

text \<open>\<open>Math.round\<close>: to the nearest integer, halves up.\<close>

definition js_round :: "rat \<Rightarrow> rat" where
  "js_round x = of_int \<lfloor>x + 1/2\<rfloor>"

datatype json =
    JNull
  | JBool bool
  | JNum js_num
  | JStr string
  | JArr "json list"
  | JObj "(string \<times> json) list"

fun json_truthy :: "json \<Rightarrow> bool" where
  "json_truthy JNull = False"
| "json_truthy (JBool b) = b"
| "json_truthy (JNum n) = js_num_truthy n"
| "json_truthy (JStr s) = (s \<noteq> [])"
| "json_truthy _ = True"

text \<open>Reading a property \<open>v[k]\<close>: of an object the last entry of the key, else undefined.\<close>

definition json_get :: "json \<Rightarrow> string \<Rightarrow> json option" where
  "json_get v k = (case v of JObj es \<Rightarrow> map_of (rev es) k | _ \<Rightarrow> None)"

subsection \<open>Headers and cookies\<close>

text \<open>Header names are case-insensitive: a header list is keyed by the lower-case name.\<close>

type_synonym headers = "(string, string) jsmap"

definition header_set :: "string \<Rightarrow> string \<Rightarrow> headers \<Rightarrow> headers" where
  "header_set name v hs = AList.update (js_toLowerCase name) v hs"

definition header_get :: "headers \<Rightarrow> string \<Rightarrow> string option" where
  "header_get hs name = map_of hs (js_toLowerCase name)"

definition header_delete :: "string \<Rightarrow> headers \<Rightarrow> headers" where
  "header_delete name hs = AList.delete (js_toLowerCase name) hs"

lemma header_get_set [js_simps]:
  "header_get (header_set n v hs) m = (if js_toLowerCase m = js_toLowerCase n then Some v else header_get hs m)"
  by (simp add: header_get_def header_set_def js.get_put)

lemma header_get_delete [js_simps]:
  "header_get (header_delete n hs) m = (if js_toLowerCase m = js_toLowerCase n then None else header_get hs m)"
  by (simp add: header_get_def header_delete_def js.get_remove)

text \<open>A \<open>Set-Cookie\<close> instruction of a response, with the attributes the sources give; an absent
  \<open>Max-Age\<close> makes a cookie that ends with the browser.\<close>

record set_cookie =
  ck_name :: string
  ck_value :: string
  ck_path :: string
  ck_domain :: string
  ck_max_age :: "int option"
  ck_http_only :: bool
  ck_secure :: bool
  ck_same_site :: "string option"

text \<open>The parts of a \<open>NextRequest\<close> the middleware and the routes read.\<close>

record request =
  rq_pathname :: string
  rq_cookies :: "(string, string) jsmap"
  rq_headers :: headers
  rq_protocol :: string
  rq_origin :: string

text \<open>A parsed absolute URL: protocol with its colon, host and serialized origin.\<close>

record parsed_url =
  u_protocol :: string
  u_host :: string
  u_origin :: string

text \<open>\<open>req.cookies.get(name)?.value\<close>, when it is not the empty string.\<close>

definition cookie_value :: "request \<Rightarrow> string \<Rightarrow> string option" where
  "cookie_value rq name =
     (case map_of (rq_cookies rq) name of Some v \<Rightarrow> if v = [] then None else Some v | None \<Rightarrow> None)"

text \<open>
  Path matching of cookies as RFC 6265, section 5.1.4 documents it: the request path is the
  cookie path or lies below it.
\<close>

definition cookie_path_match :: "string \<Rightarrow> string \<Rightarrow> bool" where
  "cookie_path_match cpath rpath \<longleftrightarrow>
     cpath = rpath \<or>
     js_startsWith rpath cpath \<and>
       (cpath \<noteq> [] \<and> last cpath = CHR ''/'' \<or>
        length cpath < length rpath \<and> rpath ! length cpath = CHR ''/'')"

subsection \<open>Facts about the encodings\<close>

lemma is_alnum_cases:
  "is_alnum c \<longleftrightarrow> code_unit c \<in> {48..57} \<union> {65..90} \<union> {97..122}"
  by (auto simp: is_alnum_def is_alpha_def is_upper_def is_lower_def is_digit_def)

lemma hex_digit_alnum: "n < 16 \<Longrightarrow> is_alnum (hex_digit n)"
proof -
  assume "n < 16"
  then have "n \<in> set [0..<16]" by simp
  moreover have "list_all (\<lambda>n. is_alnum (hex_digit n)) [0..<16]" by code_simp
  ultimately show ?thesis by (simp add: list_all_iff)
qed

lemma utf8_bytes_bound: "b \<in> set (utf8_bytes c) \<Longrightarrow> b < 256"
proof -
  have "code_unit c < 256" by (rule nat_of_char_less_256)
  then have "code_unit c div 64 < 4" by (simp add: less_mult_imp_div_less)
  moreover assume "b \<in> set (utf8_bytes c)"
  ultimately show ?thesis by (auto simp: utf8_bytes_def Let_def split: if_splits)
qed

lemma pct_char_chars: "x \<in> set (pct_char c) \<Longrightarrow> is_alnum x \<or> x = CHR ''%''"
proof -
  assume "x \<in> set (pct_char c)"
  then obtain b where b: "b \<in> set (utf8_bytes c)" and x: "x \<in> set (pct_byte b)"
    by (auto simp: pct_char_def)
  from utf8_bytes_bound [OF b] have "b div 16 < 16" "b mod 16 < 16" by auto
  with x show ?thesis by (auto simp: pct_byte_def hex_digit_alnum)
qed

text \<open>An encoded value holds none of the characters that delimit a query string.\<close>

lemma encodeURIComponent_no_delimiter:
  "x \<in> set (js_encodeURIComponent s) \<Longrightarrow> x \<notin> set ''&=?#/ ''"
  by (auto simp: js_encodeURIComponent_def is_alnum_cases dest!: pct_char_chars split: if_splits)

lemma url_param_value_no_delimiter:
  "x \<in> set (url_param_value s) \<Longrightarrow> x \<notin> set ''&=?#/ ''"
  by (auto simp: url_param_value_def is_alnum_cases dest!: pct_char_chars split: if_splits)

subsection \<open>Reading a parameter back\<close>

text \<open>\<open>URLSearchParams.get\<close> decodes \<open>+\<close> and the percent escapes to bytes and reads them as UTF-8;
  None stands for a value outside the modelled code units.\<close>

definition hex_value :: "char \<Rightarrow> nat option" where
  "hex_value c = map_of (zip ''0123456789ABCDEFabcdef'' ([0..<16] @ [10..<16])) c"

fun param_bytes :: "string \<Rightarrow> nat list" where
  "param_bytes [] = []"
| "param_bytes (c # r) =
     (if c = CHR ''%'' then
        (case r of
           a # b # r' \<Rightarrow>
             (case (hex_value a, hex_value b) of
                (Some h, Some l) \<Rightarrow> (h * 16 + l) # param_bytes (drop 2 r)
              | _ \<Rightarrow> 37 # param_bytes r)
         | _ \<Rightarrow> 37 # param_bytes r)
      else if c = CHR ''+'' then 32 # param_bytes r
      else utf8_bytes c @ param_bytes r)"

fun utf8_read :: "nat list \<Rightarrow> string option" where
  "utf8_read [] = Some []"
| "utf8_read (b # bs) =
     (if b < 128 then map_option (\<lambda>s. char_of b # s) (utf8_read bs)
      else case bs of
          c # cs \<Rightarrow>
            if b \<in> {194, 195} \<and> 128 \<le> c \<and> c < 192
            then map_option (\<lambda>s. char_of ((b - 192) * 64 + (c - 128)) # s) (utf8_read (drop 1 bs))
            else None
        | [] \<Rightarrow> None)"

definition url_param_read :: "string \<Rightarrow> string option" where
  "url_param_read v = utf8_read (param_bytes v)"

lemma hex_value_digit: "n < 16 \<Longrightarrow> hex_value (hex_digit n) = Some n"
proof -
  assume "n < 16"
  then have "n \<in> set [0..<16]" by simp
  moreover have "list_all (\<lambda>n. hex_value (hex_digit n) = Some n) [0..<16]" by code_simp
  ultimately show ?thesis by (simp add: list_all_iff)
qed

lemma param_bytes_pct_byte: "b < 256 \<Longrightarrow> param_bytes (pct_byte b @ r) = b # param_bytes r"
  by (simp add: pct_byte_def hex_value_digit less_mult_imp_div_less)

lemma param_bytes_pct_bytes:
  "list_all (\<lambda>b. b < 256) bs \<Longrightarrow> param_bytes (concat (map pct_byte bs) @ r) = bs @ param_bytes r"
  by (induction bs) (auto simp: param_bytes_pct_byte)

lemma param_bytes_pct_char: "param_bytes (pct_char c @ r) = utf8_bytes c @ param_bytes r"
  unfolding pct_char_def
  by (rule param_bytes_pct_bytes) (auto simp: list_all_iff dest: utf8_bytes_bound)

lemma param_bytes_encode: "param_bytes (js_encodeURIComponent s) = concat (map utf8_bytes s)"
proof (induction s)
  case Nil
  then show ?case by (simp add: js_encodeURIComponent_def)
next
  case (Cons c s)
  let ?plain = "is_alnum c \<or> c \<in> set ''-_.!~*()'' \<or> code_unit c = 39"
  have split: "js_encodeURIComponent (c # s) = (if ?plain then [c] else pct_char c) @ js_encodeURIComponent s"
    by (simp add: js_encodeURIComponent_def)
  have "?plain \<Longrightarrow> c \<noteq> CHR ''%'' \<and> c \<noteq> CHR ''+''"
    by (auto simp: is_alnum_cases)
  then show ?case
    using Cons.IH unfolding split by (cases ?plain) (auto simp: param_bytes_pct_char)
qed

lemma utf8_read_bytes: "utf8_read (utf8_bytes c @ bs) = map_option (\<lambda>s. c # s) (utf8_read bs)"
proof -
  let ?n = "code_unit c"
  have n: "?n < 256" by simp
  show ?thesis
  proof (cases "?n < 128")
    case True
    then show ?thesis by (simp add: utf8_bytes_def)
  next
    case False
    have "2 \<le> ?n div 64" "?n div 64 < 4"
      using n False by linarith+
    then have "192 + ?n div 64 \<in> {194, 195}" by auto
    moreover have "?n mod 64 < 64" by simp
    moreover have "?n div 64 * 64 + ?n mod 64 = ?n" by simp
    ultimately show ?thesis using False by (auto simp: utf8_bytes_def Let_def)
  qed
qed

lemma param_bytes_param_value: "param_bytes (url_param_value s) = concat (map utf8_bytes s)"
proof (induction s)
  case Nil
  then show ?case by (simp add: url_param_value_def)
next
  case (Cons c s)
  let ?plain = "is_alnum c \<or> c \<in> set ''*-._''"
  have split: "url_param_value (c # s) =
      (if ?plain then [c] else if c = CHR '' '' then ''+'' else pct_char c) @ url_param_value s"
    by (simp add: url_param_value_def)
  have "?plain \<Longrightarrow> c \<noteq> CHR ''%'' \<and> c \<noteq> CHR ''+''"
    by (auto simp: is_alnum_cases)
  then show ?case
    using Cons.IH unfolding split
    by (cases ?plain; cases "c = CHR '' ''") (auto simp: param_bytes_pct_char utf8_bytes_def)
qed

text \<open>What \<open>encodeURIComponent\<close> and \<open>URLSearchParams\<close> write is read back unchanged.\<close>

lemma utf8_read_all: "utf8_read (concat (map utf8_bytes s)) = Some s"
  by (induction s) (simp_all add: utf8_read_bytes)

lemma url_param_read_encode [js_simps]: "url_param_read (js_encodeURIComponent s) = Some s"
  unfolding url_param_read_def param_bytes_encode by (rule utf8_read_all)

lemma url_param_read_value [js_simps]: "url_param_read (url_param_value s) = Some s"
  unfolding url_param_read_def param_bytes_param_value by (rule utf8_read_all)

end
