(* ===== verification/JsNumber.thy ===== *)
theory JsNumber
  imports Web
begin

section \<open>JavaScript numbers\<close>

text \<open>
  \<open>Number(s)\<close> on strings, \<open>Number(v)\<close> on JSON values, \<open>String(v)\<close>, and the arithmetic the stores and the
  form engine use, on the numbers of Web: finite values are exact rationals. How a number is printed
  (\<open>Number::toString\<close>) is an argument of \<open>js_String\<close>.
\<close>

subsection \<open>Arithmetic\<close>

fun js_add :: "js_num \<Rightarrow> js_num \<Rightarrow> js_num" where
  "js_add (Fin a) (Fin b) = Fin (a + b)"
| "js_add NaN y = NaN"
| "js_add x NaN = NaN"
| "js_add PosInf NegInf = NaN"
| "js_add NegInf PosInf = NaN"
| "js_add PosInf y = PosInf"
| "js_add NegInf y = NegInf"
| "js_add (Fin a) y = y"

definition js_max :: "js_num \<Rightarrow> js_num \<Rightarrow> js_num" where
  "js_max x y = (if x = NaN \<or> y = NaN then NaN else if js_gt y x then y else x)"

definition js_lt :: "js_num \<Rightarrow> js_num \<Rightarrow> bool" where
  "js_lt x y \<longleftrightarrow> js_gt y x"

definition js_num_eq :: "js_num \<Rightarrow> js_num \<Rightarrow> bool" where
  "js_num_eq x y \<longleftrightarrow> x = y \<and> x \<noteq> NaN"

definition js_ge :: "js_num \<Rightarrow> js_num \<Rightarrow> bool" where
  "js_ge x y \<longleftrightarrow> js_gt x y \<or> js_num_eq x y"

definition js_le :: "js_num \<Rightarrow> js_num \<Rightarrow> bool" where
  "js_le x y \<longleftrightarrow> js_ge y x"

fun js_neg :: "js_num \<Rightarrow> js_num" where
  "js_neg (Fin a) = Fin (- a)"
| "js_neg PosInf = NegInf"
| "js_neg NegInf = PosInf"
| "js_neg NaN = NaN"

subsection \<open>Number(s)\<close>

definition digit_value :: "char \<Rightarrow> nat" where
  "digit_value c =
     (let n = code_unit c
      in if is_digit c then n - 48 else if is_upper c then n - 55 else if is_lower c then n - 87 else 99)"

definition radix_value :: "nat \<Rightarrow> string \<Rightarrow> nat" where
  "radix_value b ds = foldl (\<lambda>v c. v * b + digit_value c) 0 ds"

definition radix_literal :: "nat \<Rightarrow> string \<Rightarrow> js_num" where
  "radix_literal b ds =
     (if ds \<noteq> [] \<and> (\<forall>c \<in> set ds. digit_value c < b) then Fin (of_nat (radix_value b ds)) else NaN)"

text \<open>The exponent part: empty, or \<open>e\<close> with an optional sign and at least one digit.\<close>

definition exponent_part :: "string \<Rightarrow> rat option" where
  "exponent_part s =
     (case s of
        [] \<Rightarrow> Some 1
      | c # r \<Rightarrow>
          if c \<noteq> CHR ''e'' \<and> c \<noteq> CHR ''E'' then None
          else (let neg = (r \<noteq> [] \<and> hd r = CHR ''-'');
                    ds = (if r \<noteq> [] \<and> (hd r = CHR ''-'' \<or> hd r = CHR ''+'') then tl r else r)
                in if ds \<noteq> [] \<and> list_all is_digit ds
                   then Some (if neg then 1 / 10 ^ radix_value 10 ds else 10 ^ radix_value 10 ds)
                   else None))"

definition decimal_literal :: "string \<Rightarrow> js_num" where
  "decimal_literal s =
     (if s = ''Infinity'' then PosInf
      else (let ip = takeWhile is_digit s;
                r = dropWhile is_digit s;
                dot = (r \<noteq> [] \<and> hd r = CHR ''.'');
                fp = (if dot then takeWhile is_digit (tl r) else []);
                r2 = (if dot then dropWhile is_digit (tl r) else r)
            in if ip = [] \<and> fp = [] then NaN
               else (case exponent_part r2 of
                       None \<Rightarrow> NaN
                     | Some e \<Rightarrow> Fin ((of_nat (radix_value 10 (ip @ fp)) / 10 ^ length fp) * e))))"

definition js_Number :: "string \<Rightarrow> js_num" where
  "js_Number s =
     (case js_trim s of
        [] \<Rightarrow> Fin 0
      | c # r \<Rightarrow>
          if c = CHR ''0'' \<and> r \<noteq> [] \<and> hd r \<in> {CHR ''x'', CHR ''X''} then radix_literal 16 (tl r)
          else if c = CHR ''0'' \<and> r \<noteq> [] \<and> hd r \<in> {CHR ''o'', CHR ''O''} then radix_literal 8 (tl r)
          else if c = CHR ''0'' \<and> r \<noteq> [] \<and> hd r \<in> {CHR ''b'', CHR ''B''} then radix_literal 2 (tl r)
          else if c = CHR ''-'' then js_neg (decimal_literal r)
          else if c = CHR ''+'' then decimal_literal r
          else decimal_literal (c # r))"

subsection \<open>Conversions of JSON values\<close>

text \<open>\<open>String(v)\<close>; an array joins its elements with commas, \<open>null\<close> elements as the empty string.\<close>

fun js_String :: "(js_num \<Rightarrow> string) \<Rightarrow> json \<Rightarrow> string" where
  "js_String num JNull = ''null''"
| "js_String num (JBool b) = (if b then ''true'' else ''false'')"
| "js_String num (JNum n) = num n"
| "js_String num (JStr s) = s"
| "js_String num (JArr vs) = js_join '','' (map (\<lambda>v. if v = JNull then [] else js_String num v) vs)"
| "js_String num (JObj es) = ''[object Object]''"

text \<open>\<open>Number(v)\<close>, of a value that may be undefined.\<close>

definition json_Number :: "(js_num \<Rightarrow> string) \<Rightarrow> json option \<Rightarrow> js_num" where
  "json_Number num v =
     (case v of
        None \<Rightarrow> NaN
      | Some JNull \<Rightarrow> Fin 0
      | Some (JBool b) \<Rightarrow> Fin (if b then 1 else 0)
      | Some (JNum n) \<Rightarrow> n
      | Some w \<Rightarrow> js_Number (js_String num w))"

subsection \<open>Laws\<close>

lemma js_gt_irrefl [simp]: "\<not> js_gt x x"
  by (cases x) auto

lemma js_gt_trans: "js_gt x y \<Longrightarrow> js_gt y z \<Longrightarrow> js_gt x z"
  by (cases x; cases y; cases z) auto

lemma js_gt_antisym: "js_gt x y \<Longrightarrow> \<not> js_gt y x"
  by (cases x; cases y) auto

lemma js_gt_total: "x \<noteq> NaN \<Longrightarrow> y \<noteq> NaN \<Longrightarrow> x = y \<or> js_gt x y \<or> js_gt y x"
  by (cases x; cases y) auto

lemma js_gt_NaN [simp]: "\<not> js_gt NaN x" "\<not> js_gt x NaN"
  by (cases x; simp)+

lemma js_ge_iff: "x \<noteq> NaN \<Longrightarrow> y \<noteq> NaN \<Longrightarrow> js_ge x y \<longleftrightarrow> \<not> js_gt y x"
  using js_gt_total [of x y] by (auto simp: js_ge_def js_num_eq_def js_gt_antisym)

lemma js_max_0 [simp]: "js_max (Fin 0) (Fin a) = Fin (max 0 a)"
  by (auto simp: js_max_def max_def)

lemma js_Number_examples:
  "js_Number ''  42 '' = Fin 42" "js_Number '''' = Fin 0" "js_Number ''-1.5e2'' = Fin (- 150)"
  "js_Number ''0x1F'' = Fin 31" "js_Number ''1e'' = NaN" "js_Number ''.'' = NaN" "js_Number ''12px'' = NaN"
  by code_simp+

end
