(* ===== verification/NotificationStore.thy ===== *)
theory NotificationStore
  imports JsNumber
begin

section \<open>The notification store\<close>

text \<open>
  \<open>stores/notification-store.ts\<close> and the helpers of \<open>lib/notification-utils.ts\<close> it uses: the unread badge,
  the ten most recent notifications, the connection status, and the two server reads that reconcile them.
  The current time as an ISO string is the argument \<open>now\<close>; a settled request is \<open>None\<close> when it was rejected.
\<close>

subsection \<open>State\<close>

record notification =
  nf_id :: string
  nf_type :: "string option"
  nf_title :: string
  nf_body :: string
  nf_category :: string
  nf_priority :: string
  nf_data :: "json option"
  nf_action_url :: "string option"
  nf_read :: "bool option"
  nf_read_at :: "string option"
  nf_created_at :: string

datatype connection_status = Connecting | Connected | Disconnected | Reconnecting | Failed

record notification_store =
  ns_unreadCount :: js_num
  ns_recent :: "notification list"
  ns_connectionStatus :: connection_status
  ns_reconnectAttempt :: nat
  ns_nextRetryAt :: "int option"
  ns_reconnectToken :: nat
  ns_isInitialized :: bool

definition initial_notifications :: notification_store where
  "initial_notifications =
     \<lparr>ns_unreadCount = Fin 0, ns_recent = [], ns_connectionStatus = Disconnected, ns_reconnectAttempt = 0,
      ns_nextRetryAt = None, ns_reconnectToken = 0, ns_isInitialized = False\<rparr>"

definition isNotificationRead :: "notification \<Rightarrow> bool" where
  "isNotificationRead n \<longleftrightarrow> nf_read n = Some True \<or> (case nf_read_at n of None \<Rightarrow> False | Some t \<Rightarrow> t \<noteq> [])"

subsection \<open>Operations\<close>

definition setUnreadCount :: "js_num \<Rightarrow> notification_store \<Rightarrow> notification_store" where
  "setUnreadCount count s = s\<lparr>ns_unreadCount := js_max (Fin 0) count\<rparr>"

definition incrementUnreadCount :: "notification_store \<Rightarrow> notification_store" where
  "incrementUnreadCount s = s\<lparr>ns_unreadCount := js_add (ns_unreadCount s) (Fin 1)\<rparr>"

definition decrementUnreadCount :: "notification_store \<Rightarrow> notification_store" where
  "decrementUnreadCount s = s\<lparr>ns_unreadCount := js_max (Fin 0) (js_add (ns_unreadCount s) (Fin (- 1)))\<rparr>"

definition addNotification :: "notification \<Rightarrow> notification_store \<Rightarrow> notification_store" where
  "addNotification notif s =
     (let existing = filter (\<lambda>item. nf_id item \<noteq> nf_id notif) (ns_recent s);
          isUnread = (\<not> isNotificationRead notif)
      in s\<lparr>ns_recent := take 10 (notif # existing),
           ns_unreadCount := (if isUnread then js_add (ns_unreadCount s) (Fin 1) else ns_unreadCount s)\<rparr>)"

definition mark_read :: "string \<Rightarrow> notification \<Rightarrow> notification" where
  "mark_read now n =
     n\<lparr>nf_read := Some True, nf_read_at := (case nf_read_at n of None \<Rightarrow> Some now | Some t \<Rightarrow> Some t)\<rparr>"

definition markAsRead :: "string \<Rightarrow> string option \<Rightarrow> notification_store \<Rightarrow> notification_store" where
  "markAsRead now nid s =
     s\<lparr>ns_recent := map (\<lambda>n. if Some (nf_id n) = nid then mark_read now n else n) (ns_recent s),
       ns_unreadCount := js_max (Fin 0)
         (js_add (ns_unreadCount s)
           (Fin (if \<exists>n \<in> set (ns_recent s). Some (nf_id n) = nid \<and> \<not> isNotificationRead n then - 1 else 0)))\<rparr>"

definition markAllAsRead :: "string \<Rightarrow> notification_store \<Rightarrow> notification_store" where
  "markAllAsRead now s = s\<lparr>ns_recent := map (mark_read now) (ns_recent s), ns_unreadCount := Fin 0\<rparr>"

definition deleteNotification :: "string \<Rightarrow> notification_store \<Rightarrow> notification_store" where
  "deleteNotification nid s =
     s\<lparr>ns_recent := filter (\<lambda>item. nf_id item \<noteq> nid) (ns_recent s),
       ns_unreadCount :=
         (case find (\<lambda>item. nf_id item = nid) (ns_recent s) of
            Some n \<Rightarrow> if \<not> isNotificationRead n
                      then js_max (Fin 0) (js_add (ns_unreadCount s) (Fin (- 1))) else ns_unreadCount s
          | None \<Rightarrow> ns_unreadCount s)\<rparr>"

definition setConnectionStatus :: "connection_status \<Rightarrow> notification_store \<Rightarrow> notification_store" where
  "setConnectionStatus status s = s\<lparr>ns_connectionStatus := status\<rparr>"

definition setReconnectState :: "nat \<Rightarrow> int option \<Rightarrow> notification_store \<Rightarrow> notification_store" where
  "setReconnectState attempt nextRetryAt s = s\<lparr>ns_reconnectAttempt := attempt, ns_nextRetryAt := nextRetryAt\<rparr>"

definition requestReconnect :: "notification_store \<Rightarrow> notification_store" where
  "requestReconnect s = s\<lparr>ns_reconnectToken := ns_reconnectToken s + 1, ns_nextRetryAt := None\<rparr>"

subsection \<open>Reconciling with the server\<close>

text \<open>The \<open>count\<close> of the first answer and the \<open>data\<close> of the second, each of which may be missing.\<close>

definition received_notification :: "notification \<Rightarrow> notification" where
  "received_notification n =
     n\<lparr>nf_read := Some (case nf_read n of
          Some b \<Rightarrow> b
        | None \<Rightarrow> (case nf_read_at n of None \<Rightarrow> False | Some t \<Rightarrow> t \<noteq> []))\<rparr>"

definition refreshFromServer ::
  "js_num option \<Rightarrow> notification list option option \<Rightarrow> notification_store \<Rightarrow> notification_store" where
  "refreshFromServer countResp listResp s =
     (let s1 = (case countResp of None \<Rightarrow> s | Some c \<Rightarrow> s\<lparr>ns_unreadCount := js_max (Fin 0) c\<rparr>)
      in (case listResp of
            None \<Rightarrow> s1\<lparr>ns_isInitialized := True\<rparr>
          | Some data \<Rightarrow> s1\<lparr>ns_recent := map received_notification (case data of None \<Rightarrow> [] | Some ns \<Rightarrow> ns),
                            ns_isInitialized := True\<rparr>))"

text \<open>Whether the two requests are sent: \<open>fetchInitialData\<close> only before the first answer, \<open>backfill\<close> always.\<close>

definition fetchInitialData_sends :: "notification_store \<Rightarrow> bool" where
  "fetchInitialData_sends s \<longleftrightarrow> \<not> ns_isInitialized s"

definition backfill ::
  "js_num option \<Rightarrow> notification list option option \<Rightarrow> notification_store \<Rightarrow> notification_store" where
  "backfill = refreshFromServer"

subsection \<open>Grouping by date\<close>

text \<open>
  The calendar tests of date-fns, on the parsed creation time, are arguments of the grouping.
\<close>

datatype date_group = Today | Yesterday | This_Week | This_Month | Older

definition date_group_of ::
  "(string \<Rightarrow> bool) \<Rightarrow> (string \<Rightarrow> bool) \<Rightarrow> (string \<Rightarrow> bool) \<Rightarrow> (string \<Rightarrow> bool) \<Rightarrow> notification \<Rightarrow> date_group" where
  "date_group_of isToday isYesterday isThisWeek isThisMonth n =
     (let d = nf_created_at n
      in if isToday d then Today else if isYesterday d then Yesterday
         else if isThisWeek d then This_Week else if isThisMonth d then This_Month else Older)"

definition groupNotificationsByDate ::
  "(notification \<Rightarrow> date_group) \<Rightarrow> notification list \<Rightarrow> (date_group, notification list) jsmap" where
  "groupNotificationsByDate date_of ns =
     filter (\<lambda>(k, v). v \<noteq> [])
       (foldl (\<lambda>m n. AList.update (date_of n) (js_get_or [] m (date_of n) @ [n]) m)
          (map (\<lambda>k. (k, [])) [Today, Yesterday, This_Week, This_Month, Older]) ns)"

subsection \<open>What the store keeps\<close>

definition unread_in :: "notification list \<Rightarrow> nat" where
  "unread_in ns = length (filter (\<lambda>n. \<not> isNotificationRead n) ns)"

text \<open>
  The badge is a whole number, never below the unread notifications on screen; the list holds at most ten
  notifications with different identifiers.
\<close>

definition store_wf :: "notification_store \<Rightarrow> bool" where
  "store_wf s \<longleftrightarrow>
     (\<exists>k. ns_unreadCount s = Fin (of_nat k) \<and> unread_in (ns_recent s) \<le> k) \<and>
     length (ns_recent s) \<le> 10 \<and> distinct (map nf_id (ns_recent s))"

lemma store_wfI:
  assumes "ns_unreadCount s = Fin (of_nat k)" "unread_in (ns_recent s) \<le> k"
    "length (ns_recent s) \<le> 10" "distinct (map nf_id (ns_recent s))"
  shows "store_wf s"
  using assms unfolding store_wf_def by blast

lemma store_wfE:
  assumes "store_wf s"
  obtains k where "ns_unreadCount s = Fin (of_nat k)" "unread_in (ns_recent s) \<le> k"
    "length (ns_recent s) \<le> 10" "distinct (map nf_id (ns_recent s))"
  using assms unfolding store_wf_def by blast

lemma unread_in_simps [simp]:
  "unread_in [] = 0"
  "unread_in (n # ns) = (if isNotificationRead n then 0 else 1) + unread_in ns"
  by (auto simp: unread_in_def)

lemma unread_in_filter: "unread_in (filter P ns) \<le> unread_in ns"
  by (induction ns) auto

lemma unread_in_take: "unread_in (take k ns) \<le> unread_in ns"
  by (metis append_take_drop_id filter_append le_add1 length_append unread_in_def)

lemma mark_read_read [simp]: "isNotificationRead (mark_read now n)"
  by (simp add: isNotificationRead_def mark_read_def)

lemma mark_read_id [simp]: "nf_id (mark_read now n) = nf_id n"
  by (simp add: mark_read_def)

lemma unread_in_mark_all [simp]: "unread_in (map (mark_read now) ns) = 0"
  by (induction ns) auto

lemma ids_marked: "map nf_id (map (\<lambda>n. if P n then mark_read now n else n) ns) = map nf_id ns"
  by (induction ns) auto

lemma unread_in_absent:
  "\<forall>n \<in> set ns. Some (nf_id n) = nid \<longrightarrow> isNotificationRead n \<Longrightarrow>
   unread_in (map (\<lambda>n. if Some (nf_id n) = nid then mark_read now n else n) ns) = unread_in ns"
  by (induction ns) auto

lemma unread_in_marked:
  assumes "distinct (map nf_id ns)" "n \<in> set ns" "Some (nf_id n) = nid" "\<not> isNotificationRead n"
  shows "unread_in ns = Suc (unread_in (map (\<lambda>n. if Some (nf_id n) = nid then mark_read now n else n) ns))"
  using assms
proof (induction ns)
  case Nil
  then show ?case by simp
next
  case (Cons m ns)
  show ?case
  proof (cases "m = n")
    case True
    have "\<forall>x \<in> set ns. Some (nf_id x) = nid \<longrightarrow> isNotificationRead x"
      using Cons.prems(1,3) True by (metis distinct.simps(2) image_eqI list.map(2) list.set_map option.inject)
    with True Cons.prems show ?thesis by (simp add: unread_in_absent)
  next
    case False
    with Cons.prems have "n \<in> set ns" by simp
    then have "nf_id m \<noteq> nf_id n" using Cons.prems(1) by auto
    then have "Some (nf_id m) \<noteq> nid" using Cons.prems(3) by auto
    with Cons \<open>n \<in> set ns\<close> show ?thesis by auto
  qed
qed

lemma unread_in_removed:
  assumes "distinct (map nf_id ns)" "find (\<lambda>m. nf_id m = nid) ns = Some n" "\<not> isNotificationRead n"
  shows "unread_in ns = Suc (unread_in (filter (\<lambda>m. nf_id m \<noteq> nid) ns))"
  using assms
proof (induction ns)
  case Nil
  then show ?case by simp
next
  case (Cons m ns)
  show ?case
  proof (cases "nf_id m = nid")
    case True
    have "\<forall>x \<in> set ns. nf_id x \<noteq> nid"
      using Cons.prems(1) True by (metis distinct.simps(2) image_eqI list.set_map list.simps(9))
    then have "filter (\<lambda>m. nf_id m \<noteq> nid) ns = ns" by simp
    with True Cons.prems show ?thesis by auto
  next
    case False
    with Cons show ?thesis by auto
  qed
qed

lemma add_keeps: "store_wf s \<Longrightarrow> store_wf (addNotification n s)"
proof (erule store_wfE)
  fix k
  assume k: "ns_unreadCount s = Fin (of_nat k)" "unread_in (ns_recent s) \<le> k"
    and d: "distinct (map nf_id (ns_recent s))"
  let ?rest = "filter (\<lambda>item. nf_id item \<noteq> nf_id n) (ns_recent s)"
  have u: "unread_in (take 10 (n # ?rest)) \<le> (if isNotificationRead n then 0 else 1) + unread_in (ns_recent s)"
    using unread_in_take [of 10 "n # ?rest"] unread_in_filter [of "\<lambda>item. nf_id item \<noteq> nf_id n" "ns_recent s"]
    by (auto split: if_splits)
  have "distinct (map nf_id (n # ?rest))"
    using d by (auto simp: distinct_map_filter)
  then have "distinct (map nf_id (take 10 (n # ?rest)))"
    by (metis distinct_take take_map)
  then show "store_wf (addNotification n s)"
    using k u
    by (intro store_wfI [of _ "(if isNotificationRead n then 0 else 1) + k"])
       (auto simp: addNotification_def Let_def simp del: take_Suc_Cons split: if_splits)
qed

lemma js_max_minus: "js_max (Fin 0) (js_add (Fin (of_nat k)) (Fin (- 1))) = Fin (of_nat (k - 1))"
  by (cases k) auto

lemma markAsRead_keeps: "store_wf s \<Longrightarrow> store_wf (markAsRead now nid s)"
proof (erule store_wfE)
  fix k
  assume k: "ns_unreadCount s = Fin (of_nat k)" "unread_in (ns_recent s) \<le> k"
    and l: "length (ns_recent s) \<le> 10" and d: "distinct (map nf_id (ns_recent s))"
  show "store_wf (markAsRead now nid s)"
  proof (cases "\<exists>n \<in> set (ns_recent s). Some (nf_id n) = nid \<and> \<not> isNotificationRead n")
    case True
    then obtain n where "n \<in> set (ns_recent s)" "Some (nf_id n) = nid" "\<not> isNotificationRead n" by blast
    from unread_in_marked [OF d this, of now] k l d True show ?thesis
      by (intro store_wfI [of _ "k - 1"]) (simp_all add: markAsRead_def js_max_minus ids_marked del: map_map)
  next
    case False
    then have "\<forall>n \<in> set (ns_recent s). Some (nf_id n) = nid \<longrightarrow> isNotificationRead n" by blast
    from unread_in_absent [OF this, of now] k l d False show ?thesis
      by (intro store_wfI [of _ k]) (simp_all add: markAsRead_def ids_marked del: map_map)
  qed
qed

lemma markAllAsRead_keeps: "store_wf s \<Longrightarrow> store_wf (markAllAsRead now s)"
  by (erule store_wfE, rule store_wfI [of _ 0]) (simp_all add: markAllAsRead_def comp_def)

lemma deleteNotification_keeps: "store_wf s \<Longrightarrow> store_wf (deleteNotification nid s)"
proof (erule store_wfE)
  fix k
  assume k: "ns_unreadCount s = Fin (of_nat k)" "unread_in (ns_recent s) \<le> k"
    and l: "length (ns_recent s) \<le> 10" and d: "distinct (map nf_id (ns_recent s))"
  let ?rest = "filter (\<lambda>m. nf_id m \<noteq> nid) (ns_recent s)"
  have rest: "length ?rest \<le> 10" "distinct (map nf_id ?rest)" "unread_in ?rest \<le> k"
    using l d k unread_in_filter [of "\<lambda>m. nf_id m \<noteq> nid" "ns_recent s"]
    by (auto simp: distinct_map_filter intro: le_trans [OF length_filter_le])
  show "store_wf (deleteNotification nid s)"
  proof (cases "find (\<lambda>m. nf_id m = nid) (ns_recent s)")
    case None
    with k rest show ?thesis by (intro store_wfI [of _ k]) (simp_all add: deleteNotification_def)
  next
    case (Some n)
    then show ?thesis
      using k rest unread_in_removed [OF d Some]
      by (intro store_wfI [of _ "if isNotificationRead n then k else k - 1"])
         (auto simp: deleteNotification_def js_max_minus)
  qed
qed

lemma initial_wf: "store_wf initial_notifications"
  by (rule store_wfI [of _ 0]) (simp_all add: initial_notifications_def)

lemma received_id [simp]: "nf_id (received_notification n) = nf_id n"
  by (simp add: received_notification_def)

subsection \<open>Every history of the store\<close>

datatype notification_op =
    Op_add notification
  | Op_increment
  | Op_read string "string option"
  | Op_read_all string
  | Op_delete string
  | Op_status connection_status
  | Op_reconnect_state nat "int option"
  | Op_request_reconnect
  | Op_refresh "js_num option" "notification list option option"

fun apply_op :: "notification_store \<Rightarrow> notification_op \<Rightarrow> notification_store" where
  "apply_op s (Op_add n) = addNotification n s"
| "apply_op s Op_increment = incrementUnreadCount s"
| "apply_op s (Op_read now nid) = markAsRead now nid s"
| "apply_op s (Op_read_all now) = markAllAsRead now s"
| "apply_op s (Op_delete nid) = deleteNotification nid s"
| "apply_op s (Op_status st) = setConnectionStatus st s"
| "apply_op s (Op_reconnect_state k t) = setReconnectState k t s"
| "apply_op s Op_request_reconnect = requestReconnect s"
| "apply_op s (Op_refresh c ns) = refreshFromServer c ns s"

text \<open>The server answers both reads, consistently with each other, or neither.\<close>

fun consistent_op :: "notification_op \<Rightarrow> bool" where
  "consistent_op (Op_refresh None None) = True"
| "consistent_op (Op_refresh (Some (Fin c)) (Some (Some ns))) =
     (of_nat (nat \<lfloor>c\<rfloor>) = c \<and> unread_in (map received_notification ns) \<le> nat \<lfloor>c\<rfloor> \<and> length ns \<le> 10 \<and>
      distinct (map nf_id ns))"
| "consistent_op (Op_refresh _ _) = False"
| "consistent_op _ = True"

lemma refresh_keeps:
  assumes "consistent_op (Op_refresh c ns)" "store_wf s"
  shows "store_wf (refreshFromServer c ns s)"
  using assms
proof (induction "Op_refresh c ns" rule: consistent_op.induct)
  case 1
  then show ?case by (simp add: refreshFromServer_def store_wf_def)
next
  case (2 c ns)
  then show ?case
    by (intro store_wfI [of _ "nat \<lfloor>c\<rfloor>"]) (auto simp: refreshFromServer_def comp_def max_def)
qed auto

lemma connection_ops_keep:
  "store_wf (setConnectionStatus st s) = store_wf s" "store_wf (setReconnectState k t s) = store_wf s"
  "store_wf (requestReconnect s) = store_wf s"
  by (simp_all add: store_wf_def setConnectionStatus_def setReconnectState_def requestReconnect_def)

lemma apply_op_keeps: "consistent_op op \<Longrightarrow> store_wf s \<Longrightarrow> store_wf (apply_op s op)"
proof (cases op)
  case Op_increment
  assume "store_wf s"
  then obtain k where "ns_unreadCount s = Fin (of_nat k)" "unread_in (ns_recent s) \<le> k"
    "length (ns_recent s) \<le> 10" "distinct (map nf_id (ns_recent s))"
    by (rule store_wfE)
  then show ?thesis
    by (intro store_wfI [of _ "k + 1"]) (simp_all add: Op_increment incrementUnreadCount_def)
qed (simp_all add: add_keeps markAsRead_keeps markAllAsRead_keeps deleteNotification_keeps refresh_keeps
  connection_ops_keep)

text \<open>Whatever notifications arrive and are read or deleted, and however often the store is reconciled with a
  consistent server, the list shows at most ten notifications with different identifiers, and the unread badge
  is a whole number that is never below the number of unread notifications on screen.
\<close>

theorem badge_covers_unread:
  assumes "\<forall>op \<in> set ops. consistent_op op"
  shows "store_wf (foldl apply_op initial_notifications ops)"
  by (rule foldl_invariant [where P = store_wf]) (use assms initial_wf apply_op_keeps in auto)

theorem badge_covers_unread_witness:
  "store_wf (foldl apply_op initial_notifications
     [Op_refresh (Some (Fin 2)) (Some (Some [])), Op_increment, Op_read ''2026'' (Some ''a''), Op_read_all ''2026''])"
  by (rule badge_covers_unread) simp

end
