(* ===== verification/RealtimeStore.thy ===== *)
theory RealtimeStore
  imports NotificationStore
begin

section \<open>Realtime topics and the queries that listen to them\<close>

text \<open>
  \<open>stores/realtime-store.ts\<close>, the registry from websocket topics to query keys with the event counters it
  bumps, and \<open>hooks/use-realtime-data.ts\<close>, the hook that registers a query while it is mounted and refetches it,
  debounced, when its event changes. The locale \<open>registry\<close> is the interface between the two.
\<close>

subsection \<open>The store\<close>

text \<open>A payload is what the socket received, or the notification the client normalised from it.\<close>

datatype payload = Raw "json option" | Note notification

record topic_event =
  te_count :: nat
  te_payload :: payload
  te_timestamp :: "string option"

record query_event = topic_event +
  qe_topic :: string

record realtime_store =
  rs_subscriptions :: "(string, string list) jsmap"
  rs_queryEvents :: "(string, query_event) jsmap"
  rs_topicEvents :: "(string, topic_event) jsmap"

definition initial_realtime :: realtime_store where
  "initial_realtime = \<lparr>rs_subscriptions = [], rs_queryEvents = [], rs_topicEvents = []\<rparr>"

definition getKeysForTopic :: "string \<Rightarrow> realtime_store \<Rightarrow> string list" where
  "getKeysForTopic topic s = js_get_or [] (rs_subscriptions s) topic"

definition register :: "string \<Rightarrow> string \<Rightarrow> realtime_store \<Rightarrow> realtime_store" where
  "register topic queryKey s =
     (let existing = js_get_or [] (rs_subscriptions s) topic
      in if queryKey \<in> set existing then s
         else s\<lparr>rs_subscriptions := AList.update topic (existing @ [queryKey]) (rs_subscriptions s)\<rparr>)"

definition unregister :: "string \<Rightarrow> string \<Rightarrow> realtime_store \<Rightarrow> realtime_store" where
  "unregister topic queryKey s =
     (let existing = js_get_or [] (rs_subscriptions s) topic;
          next_keys = filter (\<lambda>key. key \<noteq> queryKey) existing;
          isKeyStillUsed = (\<exists>(t, keys) \<in> set (rs_subscriptions s). t \<noteq> topic \<and> queryKey \<in> set keys);
          nextQueryEvents = (if isKeyStillUsed then rs_queryEvents s else AList.delete queryKey (rs_queryEvents s));
          nextSubs = AList.update topic next_keys (rs_subscriptions s)
      in s\<lparr>rs_subscriptions := (if next_keys = [] then AList.delete topic nextSubs else nextSubs),
           rs_queryEvents := nextQueryEvents\<rparr>)"

definition event_count :: "('k, 'e topic_event_scheme) jsmap \<Rightarrow> 'k \<Rightarrow> nat" where
  "event_count m k = (case map_of m k of None \<Rightarrow> 0 | Some e \<Rightarrow> te_count e)"

definition bump_query ::
  "string \<Rightarrow> payload \<Rightarrow> string option \<Rightarrow> (string, query_event) jsmap \<Rightarrow> string \<Rightarrow> (string, query_event) jsmap" where
  "bump_query topic p timestamp m key =
     AList.update key
       \<lparr>te_count = event_count m key + 1, te_payload = p, te_timestamp = timestamp, qe_topic = topic\<rparr> m"

definition publish :: "string \<Rightarrow> payload \<Rightarrow> string option \<Rightarrow> realtime_store \<Rightarrow> realtime_store" where
  "publish topic p timestamp s =
     (let keys = getKeysForTopic topic s
      in s\<lparr>rs_topicEvents := AList.update topic
             \<lparr>te_count = event_count (rs_topicEvents s) topic + 1, te_payload = p, te_timestamp = timestamp\<rparr>
             (rs_topicEvents s),
           rs_queryEvents := foldl (bump_query topic p timestamp) (rs_queryEvents s) keys\<rparr>)"

subsection \<open>The registry as an interface\<close>

text \<open>What a hook relies on: registering adds one pair, unregistering removes one.\<close>

locale registry =
  fixes reg :: "'t \<Rightarrow> 'k \<Rightarrow> 's \<Rightarrow> 's"
    and unreg :: "'t \<Rightarrow> 'k \<Rightarrow> 's \<Rightarrow> 's"
    and registered :: "'s \<Rightarrow> 't \<Rightarrow> 'k \<Rightarrow> bool"
  assumes registered_reg: "registered (reg t k s) t' k' \<longleftrightarrow> t' = t \<and> k' = k \<or> registered s t' k'"
    and registered_unreg: "registered (unreg t k s) t' k' \<longleftrightarrow> registered s t' k' \<and> \<not> (t' = t \<and> k' = k)"
begin

lemma registered_all:
  "registered (foldl (\<lambda>s t. reg t k s) s ts) t' k' \<longleftrightarrow> t' \<in> set ts \<and> k' = k \<or> registered s t' k'"
  by (induction ts arbitrary: s) (auto simp: registered_reg)

lemma unregistered_all:
  "registered (foldl (\<lambda>s t. unreg t k s) s ts) t' k' \<longleftrightarrow> registered s t' k' \<and> \<not> (t' \<in> set ts \<and> k' = k)"
  by (induction ts arbitrary: s) (auto simp: registered_unreg)

end

definition listens :: "realtime_store \<Rightarrow> string \<Rightarrow> string \<Rightarrow> bool" where
  "listens s topic key \<longleftrightarrow> key \<in> set (getKeysForTopic topic s)"

lemma keys_register:
  "getKeysForTopic t' (register t k s) =
     (if t' = t \<and> k \<notin> set (getKeysForTopic t s) then getKeysForTopic t s @ [k] else getKeysForTopic t' s)"
  by (auto simp: register_def getKeysForTopic_def Let_def js_get_or_def update_conv')

lemma keys_unregister:
  "getKeysForTopic t' (unregister t k s) =
     (if t' = t then filter (\<lambda>key. key \<noteq> k) (getKeysForTopic t s) else getKeysForTopic t' s)"
  by (auto simp: unregister_def getKeysForTopic_def Let_def js_get_or_def update_conv' delete_conv')

interpretation rt: registry register unregister listens
  by unfold_locales (auto simp: listens_def keys_register keys_unregister)

subsection \<open>The hook\<close>

text \<open>A mounted, enabled \<open>useRealtimeData\<close>: its topics and \<open>queryKeyString\<close>.\<close>

record consumer =
  cs_topics :: "string list"
  cs_key :: string

definition mount_effect :: "consumer \<Rightarrow> realtime_store \<Rightarrow> realtime_store" where
  "mount_effect c s = foldl (\<lambda>s t. register t (cs_key c) s) s (cs_topics c)"

definition unmount_effect :: "consumer \<Rightarrow> realtime_store \<Rightarrow> realtime_store" where
  "unmount_effect c s = foldl (\<lambda>s t. unregister t (cs_key c) s) s (cs_topics c)"

definition isNotificationPayload :: "payload \<Rightarrow> bool" where
  "isNotificationPayload p =
     (case p of
        Note n \<Rightarrow> True
      | Raw None \<Rightarrow> False
      | Raw (Some v) \<Rightarrow> list_all (\<lambda>k. json_get v k \<noteq> None) [''id'', ''title'', ''body'', ''category''])"

text \<open>The debounce: the event of the armed timer, the refetches made and the payloads handed to \<open>onNewItem\<close>.\<close>

record hook =
  hk_timer :: "query_event option"
  hk_refetches :: nat
  hk_items :: "payload list"

definition event_effect :: "bool \<Rightarrow> query_event option \<Rightarrow> hook \<Rightarrow> hook" where
  "event_effect enabled queryEvent h =
     (let h1 = h\<lparr>hk_timer := None\<rparr>
      in case queryEvent of None \<Rightarrow> h1 | Some e \<Rightarrow> if \<not> enabled then h1 else h1\<lparr>hk_timer := Some e\<rparr>)"

definition debounce_fires :: "hook \<Rightarrow> hook" where
  "debounce_fires h =
     (case hk_timer h of
        None \<Rightarrow> h
      | Some e \<Rightarrow> h\<lparr>hk_timer := None, hk_refetches := hk_refetches h + 1,
                    hk_items := (if isNotificationPayload (te_payload e) then hk_items h @ [te_payload e] else hk_items h)\<rparr>)"

subsection \<open>Pages of hooks\<close>

record page =
  pg_mounted :: "consumer list"
  pg_store :: realtime_store

inductive page_step :: "page \<Rightarrow> page \<Rightarrow> bool" where
  mount: "cs_key c \<notin> cs_key ` set (pg_mounted p) \<Longrightarrow>
    page_step p \<lparr>pg_mounted = c # pg_mounted p, pg_store = mount_effect c (pg_store p)\<rparr>"
| unmount: "c \<in> set (pg_mounted p) \<Longrightarrow>
    page_step p \<lparr>pg_mounted = remove1 c (pg_mounted p), pg_store = unmount_effect c (pg_store p)\<rparr>"
| message: "page_step p (p\<lparr>pg_store := publish topic pl timestamp (pg_store p)\<rparr>)"

text \<open>Every topic lists the keys of the mounted hooks that asked for it, each once, and only those.\<close>

definition exactly_mounted :: "page \<Rightarrow> bool" where
  "exactly_mounted p \<longleftrightarrow>
     distinct (map cs_key (pg_mounted p)) \<and>
     (\<forall>t k. listens (pg_store p) t k \<longleftrightarrow> (\<exists>c \<in> set (pg_mounted p). t \<in> set (cs_topics c) \<and> cs_key c = k)) \<and>
     (\<forall>t. distinct (getKeysForTopic t (pg_store p)))"

lemma distinct_keys_register:
  "(\<And>t. distinct (getKeysForTopic t s)) \<Longrightarrow> distinct (getKeysForTopic t (register t' k s))"
  by (auto simp: keys_register)

lemma distinct_keys_unregister:
  "(\<And>t. distinct (getKeysForTopic t s)) \<Longrightarrow> distinct (getKeysForTopic t (unregister t' k s))"
  by (auto simp: keys_unregister)

lemma distinct_keys_mount:
  "(\<And>t. distinct (getKeysForTopic t s)) \<Longrightarrow> distinct (getKeysForTopic t (mount_effect c s))"
  unfolding mount_effect_def
  by (rule spec [of _ t], rule foldl_invariant) (auto intro: distinct_keys_register)

lemma distinct_keys_unmount:
  "(\<And>t. distinct (getKeysForTopic t s)) \<Longrightarrow> distinct (getKeysForTopic t (unmount_effect c s))"
  unfolding unmount_effect_def
  by (rule spec [of _ t], rule foldl_invariant) (auto intro: distinct_keys_unregister)

lemma keys_publish [simp]: "getKeysForTopic t (publish topic pl timestamp s) = getKeysForTopic t s"
  by (simp add: publish_def getKeysForTopic_def Let_def)

lemma listens_publish [simp]: "listens (publish topic pl timestamp s) t k = listens s t k"
  by (simp add: listens_def)

lemma exactly_mounted_step:
  assumes "page_step p q" "exactly_mounted p"
  shows "exactly_mounted q"
  using assms
proof (induction rule: page_step.cases)
  case (mount c p)
  then show ?case
    by (auto simp: exactly_mounted_def mount_effect_def [symmetric] distinct_keys_mount
        rt.registered_all [of "cs_key c" _ "cs_topics c", folded mount_effect_def])
next
  case (unmount c p)
  have d: "distinct (map cs_key (pg_mounted p))" "c \<in> set (pg_mounted p)" "distinct (pg_mounted p)"
    using unmount by (auto simp: exactly_mounted_def distinct_map)
  then have other: "c' = c" if "c' \<in> set (pg_mounted p)" "cs_key c' = cs_key c" for c'
    using that by (meson distinct_map inj_onD)
  have keys: "distinct (map cs_key (remove1 c (pg_mounted p)))"
    using d by (auto simp: distinct_map intro: inj_on_subset)
  from unmount d(3) keys show ?case
    unfolding exactly_mounted_def
    by (auto simp: distinct_keys_unmount set_remove1_eq
        rt.unregistered_all [of "cs_key c" _ "cs_topics c", folded unmount_effect_def] dest: other)
next
  case (message p topic pl timestamp)
  then show ?case by (simp add: exactly_mounted_def)
qed

lemma listens_initial [simp]: "\<not> listens initial_realtime t k"
  by (simp add: listens_def getKeysForTopic_def initial_realtime_def js_get_or_def)

lemma exactly_mounted_reachable:
  "page_step\<^sup>*\<^sup>* \<lparr>pg_mounted = [], pg_store = initial_realtime\<rparr> p \<Longrightarrow> exactly_mounted p"
proof (induction rule: rtranclp_induct)
  case base
  then show ?case
    by (simp add: exactly_mounted_def) (simp add: getKeysForTopic_def initial_realtime_def js_get_or_def)
next
  case (step p q)
  then show ?case using exactly_mounted_step by blast
qed

subsection \<open>A message reaches the queries that asked for it\<close>

lemma count_bump:
  "event_count (bump_query topic pl timestamp m key) k = (if k = key then 1 else 0) + event_count m k"
  by (simp add: bump_query_def event_count_def update_conv')

lemma count_bumps:
  "distinct keys \<Longrightarrow>
   event_count (foldl (bump_query topic pl timestamp) m keys) k = (if k \<in> set keys then 1 else 0) + event_count m k"
  by (induction keys arbitrary: m) (auto simp: count_bump)

lemma count_publish:
  "distinct (getKeysForTopic topic s) \<Longrightarrow>
   event_count (rs_queryEvents (publish topic pl timestamp s)) k =
     (if listens s topic k then 1 else 0) + event_count (rs_queryEvents s) k"
  by (simp add: publish_def Let_def count_bumps listens_def)

text \<open>C17. Whatever hooks have mounted and unmounted and whatever messages came in before, as long as no two mounted
  hooks share a query key, publishing a topic raises the event counter of exactly the queries whose hook is
  mounted and asked for that topic, by one.
\<close>

theorem messages_reach_mounted_queries:
  assumes "page_step\<^sup>*\<^sup>* \<lparr>pg_mounted = [], pg_store = initial_realtime\<rparr> p"
  shows "event_count (rs_queryEvents (publish topic pl timestamp (pg_store p))) key =
     event_count (rs_queryEvents (pg_store p)) key +
     (if \<exists>c \<in> set (pg_mounted p). topic \<in> set (cs_topics c) \<and> cs_key c = key then 1 else 0)"
  using exactly_mounted_reachable [OF assms] by (simp add: exactly_mounted_def count_publish)

theorem messages_reach_mounted_queries_witness:
  "event_count (rs_queryEvents (publish ''alert.created'' (Raw None) None
      (mount_effect \<lparr>cs_topics = [''alert.created''], cs_key = ''k''\<rparr> initial_realtime))) ''k'' = 1"
proof -
  let ?c = "\<lparr>cs_topics = [''alert.created''], cs_key = ''k''\<rparr> :: consumer"
  have "page_step \<lparr>pg_mounted = [], pg_store = initial_realtime\<rparr>
      \<lparr>pg_mounted = [?c], pg_store = mount_effect ?c initial_realtime\<rparr>"
    using page_step.mount [of ?c "\<lparr>pg_mounted = [], pg_store = initial_realtime\<rparr>"] by simp
  from messages_reach_mounted_queries [OF r_into_rtranclp [of page_step, OF this], of "''alert.created''" "Raw None" None "''k''"]
  show ?thesis by (simp add: mount_effect_def register_def initial_realtime_def event_count_def js_get_or_def)
qed

text \<open>
  Two hooks of the same query share one registration: when the first of them unmounts, the other one stays
  mounted and no message reaches it any more.
\<close>

lemma shared_key_goes_deaf:
  fixes c :: consumer
  shows "\<not> listens (unmount_effect c (mount_effect c (mount_effect c initial_realtime))) t (cs_key c)"
  unfolding unmount_effect_def mount_effect_def
  by (auto simp: rt.registered_all rt.unregistered_all listens_initial)

text \<open>A burst of events leaves one refetch, and \<open>onNewItem\<close> sees the last payload only.\<close>

lemma burst_refetches_once:
  assumes "evs \<noteq> []"
  shows "hk_refetches (debounce_fires (foldl (\<lambda>h e. event_effect True (Some e) h) h evs)) = hk_refetches h + 1"
    and "hk_items (debounce_fires (foldl (\<lambda>h e. event_effect True (Some e) h) h evs)) =
      (if isNotificationPayload (te_payload (last evs)) then hk_items h @ [te_payload (last evs)] else hk_items h)"
proof -
  have *: "foldl (\<lambda>h e. event_effect True (Some e) h) h evs =
    h\<lparr>hk_timer := (if evs = [] then hk_timer h else Some (last evs))\<rparr>" for h :: hook and evs
    by (induction evs arbitrary: h) (auto simp: event_effect_def)
  show "hk_refetches (debounce_fires (foldl (\<lambda>h e. event_effect True (Some e) h) h evs)) = hk_refetches h + 1"
    and "hk_items (debounce_fires (foldl (\<lambda>h e. event_effect True (Some e) h) h evs)) =
      (if isNotificationPayload (te_payload (last evs)) then hk_items h @ [te_payload (last evs)] else hk_items h)"
    using assms by (simp_all add: * debounce_fires_def)
qed

end
