(* ===== verification/SocketClient.thy ===== *)
theory SocketClient
  imports RealtimeStore
begin

section \<open>The notification socket\<close>

text \<open>
  \<open>hooks/use-websocket.ts\<close>: one mounted instance of the hook with its refs, the sockets it has opened, and the
  two stores it writes. The browser delivers the events of a socket in the order its ready state allows: an
  error is followed by the close event in the same task, and a socket that \<open>close()\<close> was called on gets nothing
  but its close event. The time and the access token are arguments; sockets and timers are numbered as created.
\<close>

subsection \<open>Constants\<close>

definition MAX_RECONNECT_ATTEMPTS :: nat where
  "MAX_RECONNECT_ATTEMPTS = 10"

definition BACKOFF_DELAYS :: "int list" where
  "BACKOFF_DELAYS = [1000, 2000, 4000, 8000, 16000, 30000]"

definition getBackoffDelay :: "nat \<Rightarrow> int" where
  "getBackoffDelay attempt = BACKOFF_DELAYS ! min attempt (length BACKOFF_DELAYS - 1)"

definition TOAST_TYPES :: "string list" where
  "TOAST_TYPES =
     [''alert.created'', ''alert.escalated'', ''task.assigned'', ''task.escalated'', ''workflow.task.created'',
      ''workflow.task.escalated'', ''remediation.approval_required'', ''security.incident'', ''pipeline.failed'']"

subsection \<open>State\<close>

datatype socket_phase = Sock_connecting | Sock_open | Sock_closing | Sock_closed

record client =
  cl_sockets :: "socket_phase list"
  cl_wsRef :: "nat option"
  cl_timers :: "nat list"
  cl_timerRef :: "nat option"
  cl_nextTimer :: nat
  cl_attempt :: nat
  cl_intentional :: bool
  cl_hasConnected :: bool
  cl_mounted :: bool
  cl_backfills :: nat
  cl_toasts :: "notification list"
  cl_store :: notification_store
  cl_realtime :: realtime_store

definition fresh_client :: "notification_store \<Rightarrow> realtime_store \<Rightarrow> client" where
  "fresh_client ns rs =
     \<lparr>cl_sockets = [], cl_wsRef = None, cl_timers = [], cl_timerRef = None, cl_nextTimer = 0, cl_attempt = 0,
      cl_intentional = False, cl_hasConnected = False, cl_mounted = True, cl_backfills = 0, cl_toasts = [],
      cl_store = ns, cl_realtime = rs\<rparr>"

definition set_phase :: "nat \<Rightarrow> socket_phase \<Rightarrow> client \<Rightarrow> client" where
  "set_phase i p c = c\<lparr>cl_sockets := (cl_sockets c)[i := p]\<rparr>"

definition live :: "socket_phase \<Rightarrow> bool" where
  "live p \<longleftrightarrow> p = Sock_connecting \<or> p = Sock_open"

subsection \<open>Connecting and the socket handlers\<close>

definition on_store :: "(notification_store \<Rightarrow> notification_store) \<Rightarrow> client \<Rightarrow> client" where
  "on_store f c = c\<lparr>cl_store := f (cl_store c)\<rparr>"

definition connect :: "string option \<Rightarrow> client \<Rightarrow> client" where
  "connect token c =
     (if token = None \<or> token = Some [] then c
      else (let c1 = on_store (setReconnectState 0 None \<circ> setConnectionStatus Connecting) c
            in c1\<lparr>cl_sockets := cl_sockets c1 @ [Sock_connecting], cl_wsRef := Some (length (cl_sockets c1))\<rparr>))"

definition onopen :: "nat \<Rightarrow> client \<Rightarrow> client" where
  "onopen i c =
     (let c1 = (on_store (setReconnectState 0 None \<circ> setConnectionStatus Connected) (set_phase i Sock_open c))
                 \<lparr>cl_attempt := 0\<rparr>
      in if cl_hasConnected c1 then c1\<lparr>cl_backfills := cl_backfills c1 + 1\<rparr> else c1\<lparr>cl_hasConnected := True\<rparr>)"

definition onclose :: "int \<Rightarrow> nat \<Rightarrow> client \<Rightarrow> client" where
  "onclose now i c =
     (let c1 = (set_phase i Sock_closed c)\<lparr>cl_wsRef := None\<rparr>
      in if cl_intentional c1 then c1
         else if cl_attempt c1 < MAX_RECONNECT_ATTEMPTS
         then (let delay = getBackoffDelay (cl_attempt c1);
                   nextAttempt = cl_attempt c1 + 1
               in (on_store (setReconnectState nextAttempt (Some (now + delay)) \<circ> setConnectionStatus Reconnecting) c1)
                    \<lparr>cl_attempt := nextAttempt, cl_timers := cl_nextTimer c1 # cl_timers c1,
                     cl_timerRef := Some (cl_nextTimer c1), cl_nextTimer := cl_nextTimer c1 + 1\<rparr>)
         else on_store (setReconnectState MAX_RECONNECT_ATTEMPTS None \<circ> setConnectionStatus Failed) c1)"

definition onerror :: "client \<Rightarrow> client" where
  "onerror c = on_store (setConnectionStatus Disconnected) c"

subsection \<open>The effects of the hook\<close>

definition clear_timer :: "client \<Rightarrow> client" where
  "clear_timer c = (case cl_timerRef c of None \<Rightarrow> c | Some t \<Rightarrow> c\<lparr>cl_timers := remove1 t (cl_timers c)\<rparr>)"

text \<open>\<open>ws.close()\<close> on a socket that is not closed yet starts the closing handshake.\<close>

definition close_socket :: "nat \<Rightarrow> client \<Rightarrow> client" where
  "close_socket i c = (if live (cl_sockets c ! i) then set_phase i Sock_closing c else c)"

definition unmount_client :: "client \<Rightarrow> client" where
  "unmount_client c =
     (let c1 = clear_timer (c\<lparr>cl_intentional := True, cl_mounted := False\<rparr>)
      in case cl_wsRef c1 of None \<Rightarrow> c1 | Some i \<Rightarrow> (close_socket i c1)\<lparr>cl_wsRef := None\<rparr>)"

definition reconnect_effect :: "string option \<Rightarrow> client \<Rightarrow> client" where
  "reconnect_effect token c =
     (if ns_reconnectToken (cl_store c) = 0 then c
      else (let c1 = (clear_timer c)\<lparr>cl_timerRef := None\<rparr>;
                c2 = (case cl_wsRef c1 of
                        None \<Rightarrow> c1
                      | Some i \<Rightarrow> (close_socket i (c1\<lparr>cl_intentional := True\<rparr>))\<lparr>cl_wsRef := None\<rparr>)
            in connect token (c2\<lparr>cl_attempt := 0, cl_intentional := False\<rparr>)))"

text \<open>On mount React runs both effects, in the order they are written.\<close>

definition mount_client :: "string option \<Rightarrow> notification_store \<Rightarrow> realtime_store \<Rightarrow> client" where
  "mount_client token ns rs = reconnect_effect token (connect token (fresh_client ns rs))"

definition timer_fires :: "string option \<Rightarrow> nat \<Rightarrow> client \<Rightarrow> client" where
  "timer_fires token t c = connect token (c\<lparr>cl_timers := remove1 t (cl_timers c)\<rparr>)"

text \<open>The \<open>Resume\<close> button of \<open>dashboard-data-status.tsx\<close>, when it is offered, and the effect its press triggers.\<close>

definition canResume :: "client \<Rightarrow> bool" where
  "canResume c \<longleftrightarrow> ns_connectionStatus (cl_store c) = Disconnected \<or> ns_connectionStatus (cl_store c) = Failed"

definition press_resume :: "string option \<Rightarrow> client \<Rightarrow> client" where
  "press_resume token c = reconnect_effect token (on_store requestReconnect c)"

subsection \<open>Messages\<close>

definition json_string :: "json \<Rightarrow> string \<Rightarrow> string option" where
  "json_string v k = (case json_get v k of Some (JStr s) \<Rightarrow> Some s | _ \<Rightarrow> None)"

text \<open>
  The fields of the payload as \<open>Partial<Notification>\<close> declares them; a field of another JSON type than the
  declared one, which the backend does not send, is read as absent.
\<close>

definition normalizeNotification :: "string \<Rightarrow> string \<Rightarrow> json option \<Rightarrow> notification" where
  "normalizeNotification uuid now p =
     (if case p of None \<Rightarrow> True | Some v \<Rightarrow> (case v of JArr _ \<Rightarrow> False | JObj _ \<Rightarrow> False | _ \<Rightarrow> True)
      then \<lparr>nf_id = uuid, nf_type = None, nf_title = ''New notification'', nf_body = [], nf_category = ''system'',
            nf_priority = ''low'', nf_data = None, nf_action_url = None, nf_read = Some False, nf_read_at = None,
            nf_created_at = now\<rparr>
      else (let v = the p;
                or_else = (\<lambda>k d. case json_string v k of None \<Rightarrow> d | Some s \<Rightarrow> s);
                read_at = json_string v ''read_at''
            in \<lparr>nf_id = or_else ''id'' uuid, nf_type = json_string v ''type'',
                nf_title = or_else ''title'' ''New notification'', nf_body = or_else ''body'' [],
                nf_category = or_else ''category'' ''system'', nf_priority = or_else ''priority'' ''low'',
                nf_data = (case json_get v ''data'' of Some JNull \<Rightarrow> None | d \<Rightarrow> d),
                nf_action_url = json_string v ''action_url'',
                nf_read = Some (case json_get v ''read'' of
                    Some (JBool b) \<Rightarrow> b
                  | _ \<Rightarrow> (case read_at of None \<Rightarrow> False | Some t \<Rightarrow> t \<noteq> [])),
                nf_read_at = read_at, nf_created_at = or_else ''created_at'' now\<rparr>))"

definition topic_aliases :: "(string \<times> string list) list" where
  "topic_aliases =
     [(''alert.created'', [''alert.created'']),
      (''alert.escalated'', [''alert.escalated'']),
      (''task.assigned'', [''task.assigned'', ''workflow.task.created'']),
      (''task.completed'', [''task.completed'', ''workflow.task.completed'']),
      (''task.overdue'', [''task.overdue'', ''workflow.task.escalated'']),
      (''task.escalated'', [''task.escalated'', ''workflow.task.escalated'']),
      (''workflow.task.created'', [''workflow.task.created'', ''task.assigned'']),
      (''workflow.task.completed'', [''workflow.task.completed'', ''task.completed'']),
      (''workflow.task.escalated'', [''workflow.task.escalated'', ''task.escalated'', ''task.overdue'']),
      (''pipeline.failed'', [''pipeline.failed'']),
      (''pipeline.completed'', [''pipeline.completed'']),
      (''data_quality.issue_detected'', [''data_quality.issue_detected'']),
      (''remediation.approval_required'', [''remediation.approval_required'']),
      (''security.incident'', [''security.incident'']),
      (''cyber.rule.created'', [''cyber.rule.created'', ''cyber.rule.updated'']),
      (''cyber.rule.updated'', [''cyber.rule.updated'']),
      (''cyber.rule.toggled'', [''cyber.rule.toggled'', ''cyber.rule.updated'']),
      (''cyber.rule.deleted'', [''cyber.rule.deleted'', ''cyber.rule.updated''])]"

definition normalizeTopics :: "string option \<Rightarrow> string list" where
  "normalizeTopics mtype =
     (case mtype of
        None \<Rightarrow> []
      | Some t \<Rightarrow> if t = [] then [] else (case map_of topic_aliases t of Some ts \<Rightarrow> ts | None \<Rightarrow> [t]))"

definition on_realtime :: "(realtime_store \<Rightarrow> realtime_store) \<Rightarrow> client \<Rightarrow> client" where
  "on_realtime f c = c\<lparr>cl_realtime := f (cl_realtime c)\<rparr>"

definition new_notification :: "notification \<Rightarrow> string option \<Rightarrow> client \<Rightarrow> client" where
  "new_notification n timestamp c =
     (let c1 = on_store (addNotification n) c;
          c2 = foldl (\<lambda>c topic. on_realtime (publish topic (Note n) timestamp) c) c1 (normalizeTopics (nf_type n))
      in if (case nf_type n of None \<Rightarrow> False | Some t \<Rightarrow> t \<noteq> [] \<and> t \<in> set TOAST_TYPES)
         then c2\<lparr>cl_toasts := cl_toasts c2 @ [n]\<rparr> else c2)"

text \<open>
  The argument is \<open>JSON.parse(event.data)\<close>, \<open>None\<close> when it throws. A read of a property of \<open>null\<close> or
  \<open>undefined\<close> throws into the empty \<open>catch\<close> and leaves what was done before it.
\<close>

definition absent :: "json option \<Rightarrow> bool" where
  "absent v \<longleftrightarrow> v = None \<or> v = Some JNull"

definition onmessage ::
  "(js_num \<Rightarrow> string) \<Rightarrow> string \<Rightarrow> string \<Rightarrow> json option \<Rightarrow> client \<Rightarrow> client" where
  "onmessage num uuid now parsed c =
     (if absent parsed then c
      else (let m = the parsed;
                mtype = json_get m ''type'';
                data = json_get m ''data'';
                topic = (case mtype of None \<Rightarrow> ''undefined'' | Some v \<Rightarrow> js_String num v);
                timestamp = json_string m ''timestamp'';
                c1 = on_realtime (publish topic (Raw data) timestamp) c
            in if mtype = Some (JStr ''notification.new'')
               then new_notification (normalizeNotification uuid now data) timestamp c1
               else if mtype = Some (JStr ''notification.read'')
               then (if absent data then c1 else on_store (markAsRead now (json_string (the data) ''id'')) c1)
               else if mtype = Some (JStr ''unread.count'')
               then (if absent data then c1
                     else on_store (setUnreadCount
                       (let count = json_get (the data) ''count''
                        in json_Number num (if absent count then Some (JNum (Fin 0)) else count))) c1)
               else c1))"

subsection \<open>The events of a mounted hook\<close>

text \<open>The tokens that \<open>getAccessToken()\<close> may return during the run are the set \<open>T\<close>.\<close>

inductive client_step :: "string option set \<Rightarrow> client \<Rightarrow> client \<Rightarrow> bool" for T where
  opens: "i < length (cl_sockets c) \<Longrightarrow> cl_sockets c ! i = Sock_connecting \<Longrightarrow> client_step T c (onopen i c)"
| message: "i < length (cl_sockets c) \<Longrightarrow> cl_sockets c ! i = Sock_open \<Longrightarrow>
    client_step T c (onmessage num uuid now parsed c)"
| fails: "i < length (cl_sockets c) \<Longrightarrow> cl_sockets c ! i \<noteq> Sock_closed \<Longrightarrow>
    client_step T c (onclose at_ms i (onerror c))"
| closes: "i < length (cl_sockets c) \<Longrightarrow> cl_sockets c ! i \<in> {Sock_open, Sock_closing} \<Longrightarrow>
    client_step T c (onclose at_ms i c)"
| timer: "t \<in> set (cl_timers c) \<Longrightarrow> token \<in> T \<Longrightarrow> client_step T c (timer_fires token t c)"
| resume: "cl_mounted c \<Longrightarrow> canResume c \<Longrightarrow> token \<in> T \<Longrightarrow> client_step T c (press_resume token c)"
| unmount: "cl_mounted c \<Longrightarrow> client_step T c (unmount_client c)"

subsection \<open>One connection at a time\<close>

definition status_of :: "client \<Rightarrow> connection_status" where
  "status_of c = ns_connectionStatus (cl_store c)"

definition steady :: "client \<Rightarrow> bool" where
  "steady c \<longleftrightarrow>
     cl_attempt c \<le> MAX_RECONNECT_ATTEMPTS \<and>
     (if cl_mounted c
      then \<not> cl_intentional c \<and> Sock_closing \<notin> set (cl_sockets c) \<and>
        (case cl_wsRef c of
           Some i \<Rightarrow> i < length (cl_sockets c) \<and> live (cl_sockets c ! i) \<and>
             (\<forall>j < length (cl_sockets c). live (cl_sockets c ! j) \<longrightarrow> j = i) \<and> cl_timers c = [] \<and>
             status_of c \<in> {Connecting, Connected}
         | None \<Rightarrow> (\<forall>p \<in> set (cl_sockets c). \<not> live p) \<and>
             (cl_timers c = [] \<or> (\<exists>t. cl_timers c = [t] \<and> cl_timerRef c = Some t) \<and> status_of c = Reconnecting))
      else cl_intentional c \<and> cl_timers c = [] \<and> cl_wsRef c = None \<and> (\<forall>p \<in> set (cl_sockets c). \<not> live p))"

lemmas client_defs = on_store_def on_realtime_def set_phase_def clear_timer_def close_socket_def connect_def onopen_def
  onclose_def onerror_def setConnectionStatus_def setReconnectState_def status_of_def Let_def

lemma steady_liveI:
  assumes "cl_attempt c \<le> MAX_RECONNECT_ATTEMPTS" "cl_mounted c" "\<not> cl_intentional c"
    "Sock_closing \<notin> set (cl_sockets c)" "cl_wsRef c = Some i" "i < length (cl_sockets c)" "live (cl_sockets c ! i)"
    "\<forall>j < length (cl_sockets c). live (cl_sockets c ! j) \<longrightarrow> j = i" "cl_timers c = []"
    "status_of c \<in> {Connecting, Connected}"
  shows "steady c"
  unfolding steady_def by (simp only: assms(2,5) if_True option.case) (intro conjI assms)

lemma steady_mountedD:
  assumes "steady c" "cl_mounted c" "i < length (cl_sockets c)" "cl_sockets c ! i \<noteq> Sock_closed"
  shows "cl_wsRef c = Some i" "cl_timers c = []" "\<not> cl_intentional c"
    "\<And>j. j < length (cl_sockets c) \<Longrightarrow> live (cl_sockets c ! j) \<Longrightarrow> j = i" "status_of c \<in> {Connecting, Connected}"
proof -
  have "cl_sockets c ! i \<noteq> Sock_closing"
    using assms nth_mem [OF assms(3)] unfolding steady_def by metis
  then have l: "live (cl_sockets c ! i)"
    using assms(4) by (cases "cl_sockets c ! i") (auto simp: live_def)
  then show "cl_wsRef c = Some i"
    using assms(1-3) by (auto simp: steady_def split: option.splits)
  then show "cl_timers c = []" "\<not> cl_intentional c" "status_of c \<in> {Connecting, Connected}"
    "\<And>j. j < length (cl_sockets c) \<Longrightarrow> live (cl_sockets c ! j) \<Longrightarrow> j = i"
    using assms(1,2) by (auto simp: steady_def)
qed

lemma clear_timer_fields:
  "cl_wsRef (clear_timer c) = cl_wsRef c" "cl_mounted (clear_timer c) = cl_mounted c"
  "cl_sockets (clear_timer c) = cl_sockets c" "cl_timers c = [] \<Longrightarrow> cl_timers (clear_timer c) = []"
  by (simp_all add: clear_timer_def split: option.splits)

lemma on_store_fields [simp]:
  "cl_wsRef (on_store f c) = cl_wsRef c" "cl_mounted (on_store f c) = cl_mounted c"
  "cl_sockets (on_store f c) = cl_sockets c" "cl_timers (on_store f c) = cl_timers c"
  by (simp_all add: on_store_def)

lemma steady_canResume:
  assumes "steady c" "cl_mounted c" "canResume c"
  shows "cl_wsRef c = None \<and> cl_timers c = []"
proof (cases "cl_wsRef c")
  case None
  with assms show ?thesis by (auto simp: steady_def canResume_def status_of_def)
next
  case (Some i)
  then have "status_of c \<in> {Connecting, Connected}"
    using assms(1,2) unfolding steady_def by (simp only: if_True option.case)
  with assms(3) show ?thesis by (auto simp: canResume_def status_of_def)
qed

text \<open>Messages leave the connection alone.\<close>

definition same_connection :: "client \<Rightarrow> client \<Rightarrow> bool" where
  "same_connection c d \<longleftrightarrow>
     cl_sockets d = cl_sockets c \<and> cl_wsRef d = cl_wsRef c \<and> cl_timers d = cl_timers c \<and>
     cl_timerRef d = cl_timerRef c \<and> cl_attempt d = cl_attempt c \<and> cl_intentional d = cl_intentional c \<and>
     cl_mounted d = cl_mounted c \<and> status_of d = status_of c \<and>
     ns_reconnectToken (cl_store d) = ns_reconnectToken (cl_store c)"

lemma same_connection_steady: "same_connection c d \<Longrightarrow> steady d = steady c"
  by (cases "cl_wsRef c") (simp_all add: same_connection_def steady_def)

lemma same_connection_trans: "same_connection c d \<Longrightarrow> same_connection d e \<Longrightarrow> same_connection c e"
  by (simp add: same_connection_def)

lemma same_on_realtime: "same_connection c (on_realtime f d) = same_connection c d"
  by (simp add: same_connection_def on_realtime_def status_of_def)

lemma same_on_store:
  assumes "\<And>s. ns_connectionStatus (f s) = ns_connectionStatus s" "\<And>s. ns_reconnectToken (f s) = ns_reconnectToken s"
  shows "same_connection c (on_store f d) = same_connection c d"
  using assms by (simp add: same_connection_def on_store_def status_of_def)

lemma same_new_notification: "same_connection c d \<Longrightarrow> same_connection c (new_notification n timestamp d)"
proof -
  assume d: "same_connection c d"
  have "same_connection c (on_store (addNotification n) d)"
    using d by (subst same_on_store) (auto simp: addNotification_def Let_def)
  then have *: "same_connection c (foldl (\<lambda>c topic. on_realtime (publish topic (Note n) timestamp) c)
      (on_store (addNotification n) d) (normalizeTopics (nf_type n)))"
    by (rule foldl_invariant) (simp add: same_on_realtime)
  have "same_connection c (e\<lparr>cl_toasts := ts\<rparr>) = same_connection c e" for e ts
    by (simp add: same_connection_def status_of_def)
  with * show ?thesis by (auto simp: new_notification_def Let_def)
qed

lemma same_onmessage: "same_connection c (onmessage num uuid now parsed c)"
proof -
  have refl: "same_connection c c" by (simp add: same_connection_def)
  have "same_connection c (on_store (markAsRead now k) d) = same_connection c d"
    "same_connection c (on_store (setUnreadCount v) d) = same_connection c d" for k v d
    by (subst same_on_store; simp add: markAsRead_def setUnreadCount_def)+
  with refl show ?thesis
    by (simp add: onmessage_def Let_def same_on_realtime same_new_notification)
qed

lemma nth_list_update_live:
  assumes "\<And>j. j < length xs \<Longrightarrow> live (xs ! j) \<Longrightarrow> j = i" "\<not> live p"
  shows "\<forall>q \<in> set (xs[i := p]). \<not> live q"
  using assms by (auto simp: in_set_conv_nth nth_list_update split: if_splits) (metis nth_list_update_eq nth_list_update_neq)

lemma steady_connect:
  assumes "cl_attempt c \<le> MAX_RECONNECT_ATTEMPTS" "cl_mounted c" "\<not> cl_intentional c" "cl_wsRef c = None"
    "\<forall>p \<in> set (cl_sockets c). p = Sock_closed" "cl_timers c = []"
  shows "steady (connect token c)"
proof -
  have closed: "\<not> live p" "p \<noteq> Sock_closing" if "p \<in> set (cl_sockets c)" for p
    using that assms(5) by (auto simp: live_def)
  then have old: "\<not> live (cl_sockets c ! j)" if "j < length (cl_sockets c)" for j
    using that by simp
  show ?thesis
  proof (cases "token = None \<or> token = Some []")
    case True
    then show ?thesis using assms(1-4,6) closed by (auto simp: connect_def steady_def)
  next
    case False
    have "live ((cl_sockets c @ [Sock_connecting]) ! j) \<Longrightarrow> j = length (cl_sockets c)"
      if "j < length (cl_sockets c) + 1" for j
      using that old [of j] by (cases "j < length (cl_sockets c)") (auto simp: nth_append)
    moreover have "live Sock_connecting" by (simp add: live_def)
    moreover have "Sock_closing \<notin> set (cl_sockets c)" using closed by blast
    ultimately show ?thesis
      using False assms(1-4,6) unfolding connect_def
      by (intro steady_liveI [of _ "length (cl_sockets c)"])
         (auto simp: on_store_def Let_def status_of_def setConnectionStatus_def setReconnectState_def)
  qed
qed

lemma steady_no_socket:
  assumes "steady c" "cl_mounted c" "cl_wsRef c = None"
  shows "\<forall>p \<in> set (cl_sockets c). p = Sock_closed"
proof
  fix p assume p: "p \<in> set (cl_sockets c)"
  then have "\<not> live p" "p \<noteq> Sock_closing"
    using assms by (auto simp: steady_def)
  then show "p = Sock_closed" by (cases p) (auto simp: live_def)
qed

lemma steady_onclose:
  assumes "steady c" "cl_mounted c" "i < length (cl_sockets c)" "cl_sockets c ! i \<noteq> Sock_closed"
  shows "steady (onclose at_ms i (on_store (setConnectionStatus st) c))" "steady (onclose at_ms i c)"
proof -
  note w = steady_mountedD [OF assms]
  have "\<forall>q \<in> set ((cl_sockets c)[i := Sock_closed]). \<not> live q"
    using nth_list_update_live [of "cl_sockets c" i Sock_closed] w(4) by (simp add: live_def)
  moreover have "Sock_closing \<notin> set ((cl_sockets c)[i := Sock_closed])"
    using assms(1,2) set_update_subset_insert [of "cl_sockets c" i Sock_closed] by (auto simp: steady_def)
  ultimately show "steady (onclose at_ms i (on_store (setConnectionStatus st) c))" "steady (onclose at_ms i c)"
    using assms(1,2) w by (auto simp: steady_def client_defs MAX_RECONNECT_ATTEMPTS_def)
qed

lemma steady_unmounted_close:
  assumes "steady c" "\<not> cl_mounted c"
  shows "steady (onclose at_ms i (on_store (setConnectionStatus st) c))" "steady (onclose at_ms i c)"
proof -
  have "\<forall>q \<in> set ((cl_sockets c)[i := Sock_closed]). \<not> live q"
    using assms set_update_subset_insert [of "cl_sockets c" i Sock_closed] by (auto simp: steady_def live_def)
  then show "steady (onclose at_ms i (on_store (setConnectionStatus st) c))" "steady (onclose at_ms i c)"
    using assms by (auto simp: steady_def client_defs)
qed

lemma steady_open:
  assumes "steady c" "i < length (cl_sockets c)" "cl_sockets c ! i = Sock_connecting"
  shows "steady (onopen i c)"
proof -
  have m: "cl_mounted c"
    using assms nth_mem [OF assms(2)] by (auto simp: steady_def live_def split: if_splits)
  have "cl_sockets c ! i \<noteq> Sock_closed" using assms by simp
  note w = steady_mountedD [OF assms(1) m assms(2) this]
  have "Sock_closing \<notin> set ((cl_sockets c)[i := Sock_open])"
    using assms(1) m set_update_subset_insert [of "cl_sockets c" i Sock_open] by (auto simp: steady_def)
  moreover have "\<forall>j < length (cl_sockets c). live ((cl_sockets c)[i := Sock_open] ! j) \<longrightarrow> j = i"
    using w(4) by (metis nth_list_update_neq)
  moreover have "live Sock_open" by (simp add: live_def)
  ultimately show ?thesis
    using m w(1-3) assms(2) unfolding onopen_def
    by (intro steady_liveI [of _ i])
       (simp_all add: set_phase_def on_store_def Let_def status_of_def setConnectionStatus_def setReconnectState_def
         split: if_splits)
qed

lemma steady_unmount:
  assumes "steady c" "cl_mounted c"
  shows "steady (unmount_client c)"
proof (cases "cl_wsRef c")
  case None
  have "cl_timers (clear_timer (c\<lparr>cl_intentional := True, cl_mounted := False\<rparr>)) = []"
    using assms None by (auto simp: steady_def clear_timer_def split: option.splits)
  then show ?thesis
    using assms None
    by (simp add: unmount_client_def Let_def steady_def) (simp add: clear_timer_def split: option.splits)
next
  case (Some i)
  then have i: "i < length (cl_sockets c)" "live (cl_sockets c ! i)" "cl_timers c = []"
    "\<And>j. j < length (cl_sockets c) \<Longrightarrow> live (cl_sockets c ! j) \<Longrightarrow> j = i"
    using assms by (auto simp: steady_def)
  have clear: "clear_timer (c\<lparr>cl_intentional := True, cl_mounted := False\<rparr>) =
      c\<lparr>cl_intentional := True, cl_mounted := False\<rparr>"
    using i(3) by (simp add: clear_timer_def split: option.splits)
  have "\<forall>q \<in> set ((cl_sockets c)[i := Sock_closing]). \<not> live q"
    by (rule nth_list_update_live) (use i(4) in \<open>auto simp: live_def\<close>)
  then show ?thesis
    using assms(1) Some i(2,3)
    by (simp add: unmount_client_def Let_def clear close_socket_def set_phase_def steady_def)
qed

lemma steady_step:
  assumes "client_step T c d" "steady c"
  shows "steady d"
  using assms
proof (induction rule: client_step.cases)
  case (opens i c)
  then show ?case by (simp add: steady_open)
next
  case (message i c num uuid now parsed)
  then show ?case using same_connection_steady [OF same_onmessage] by blast
next
  case (fails i c at_ms)
  then show ?case
    using steady_onclose(1) steady_unmounted_close(1) unfolding onerror_def by blast
next
  case (closes i c at_ms)
  then show ?case
    using steady_onclose(2) steady_unmounted_close(2) by (cases "cl_mounted c") auto
next
  case (timer t c token)
  then have m: "cl_mounted c" "cl_wsRef c = None" "cl_timers c = [t]"
    by (auto simp: steady_def split: if_splits option.splits)
  have "steady (connect token (c\<lparr>cl_timers := remove1 t (cl_timers c)\<rparr>))"
    by (rule steady_connect; use timer m steady_no_socket [of c] in \<open>simp add: steady_def\<close>)
  with timer show ?case by (simp add: timer_fires_def)
next
  case (resume c token)
  then have w: "cl_wsRef c = None" "cl_timers c = []"
    using steady_canResume by simp_all
  have m: "cl_mounted c" "\<forall>p \<in> set (cl_sockets c). p = Sock_closed"
    using resume w steady_no_socket by auto
  let ?c = "on_store requestReconnect c"
  have "press_resume token c =
      connect token ((clear_timer ?c)\<lparr>cl_timerRef := None, cl_attempt := 0, cl_intentional := False\<rparr>)"
    using w by (simp add: press_resume_def reconnect_effect_def Let_def clear_timer_fields)
      (simp add: on_store_def requestReconnect_def)
  moreover have "steady \<dots>"
    by (rule steady_connect; use m w in \<open>simp add: clear_timer_fields\<close>; simp add: on_store_def)
  ultimately show ?case using resume by simp
next
  case (unmount c)
  then show ?case by (simp add: steady_unmount)
qed

lemma steady_mount: "ns_reconnectToken ns = 0 \<Longrightarrow> steady (mount_client token ns rs)"
proof -
  assume z: "ns_reconnectToken ns = 0"
  then have "mount_client token ns rs = connect token (fresh_client ns rs)"
    by (simp add: mount_client_def reconnect_effect_def connect_def on_store_def Let_def setConnectionStatus_def
        setReconnectState_def fresh_client_def)
  moreover have "steady \<dots>"
    by (rule steady_connect) (simp_all add: fresh_client_def)
  ultimately show ?thesis by simp
qed

lemma steady_reachable:
  "(client_step T)\<^sup>*\<^sup>* (mount_client token ns rs) c \<Longrightarrow> ns_reconnectToken ns = 0 \<Longrightarrow> steady c"
  by (induction rule: rtranclp_induct) (auto intro: steady_mount steady_step)

lemma steady_one_live: "steady c \<Longrightarrow> length (filter live (cl_sockets c)) \<le> 1"
proof -
  assume s: "steady c"
  have "card {j. j < length (cl_sockets c) \<and> live (cl_sockets c ! j)} \<le> 1"
  proof (cases "\<exists>i. cl_mounted c \<and> cl_wsRef c = Some i")
    case True
    then obtain i where "cl_mounted c" "cl_wsRef c = Some i" by blast
    then have "\<forall>j < length (cl_sockets c). live (cl_sockets c ! j) \<longrightarrow> j = i"
      using s unfolding steady_def by (simp only: if_True option.case) blast
    then have "{j. j < length (cl_sockets c) \<and> live (cl_sockets c ! j)} \<subseteq> {i}" by blast
    from card_mono [OF _ this] show ?thesis by simp
  next
    case False
    then have "\<forall>p \<in> set (cl_sockets c). \<not> live p"
      using s by (auto simp: steady_def split: if_splits)
    then have "{j. j < length (cl_sockets c) \<and> live (cl_sockets c ! j)} = {}" by auto
    then show ?thesis by (simp only: card.empty)
  qed
  then show ?thesis by (simp add: length_filter_conv_card)
qed

lemma steady_timers: "steady c \<Longrightarrow> length (cl_timers c) \<le> 1"
  by (cases "cl_wsRef c") (auto simp: steady_def split: if_splits)

lemma steady_unmounted: "steady c \<Longrightarrow> \<not> cl_mounted c \<Longrightarrow> filter live (cl_sockets c) = [] \<and> cl_timers c = []"
  by (simp add: steady_def)

lemma steady_no_timer_while_live:
  assumes "steady c" "filter live (cl_sockets c) \<noteq> []"
  shows "cl_timers c = []"
proof (cases "cl_mounted c")
  case True
  from assms(2) obtain p where p: "p \<in> set (cl_sockets c)" "live p"
    by (auto simp: filter_empty_conv)
  show ?thesis
  proof (cases "cl_wsRef c")
    case None
    with assms(1) True p show ?thesis by (auto simp: steady_def)
  next
    case (Some i)
    with assms(1) True show ?thesis unfolding steady_def by (simp only: if_True option.case)
  qed
next
  case False
  with assms show ?thesis by (simp add: steady_def)
qed

text \<open>C11. A hook that mounts before the \<open>Resume\<close> button was ever pressed keeps at most one socket connecting or open,
  at most one reconnect timer and never both, with at most ten attempts counted, whatever the sockets do and
  whenever \<open>Resume\<close> is pressed while it is offered; once it is unmounted it has neither.
\<close>

theorem one_connection_at_a_time:
  assumes "(client_step T)\<^sup>*\<^sup>* (mount_client token ns rs) c" and "ns_reconnectToken ns = 0"
  shows "length (filter live (cl_sockets c)) + length (cl_timers c) \<le> (if cl_mounted c then 1 else 0) \<and>
    cl_attempt c \<le> MAX_RECONNECT_ATTEMPTS"
proof -
  note s = steady_reachable [OF assms]
  have "length (filter live (cl_sockets c)) + length (cl_timers c) \<le> 1"
    using steady_one_live [OF s] steady_timers [OF s] steady_no_timer_while_live [OF s]
    by (cases "filter live (cl_sockets c) = []") auto
  moreover have "cl_attempt c \<le> MAX_RECONNECT_ATTEMPTS"
    using s by (simp add: steady_def)
  ultimately show ?thesis using steady_unmounted [OF s] by simp
qed

theorem one_connection_at_a_time_witness:
  "cl_attempt (onopen 0 (mount_client (Some ''t'') initial_notifications initial_realtime)) \<le> MAX_RECONNECT_ATTEMPTS"
proof -
  have "client_step {Some ''t''} (mount_client (Some ''t'') initial_notifications initial_realtime)
      (onopen 0 (mount_client (Some ''t'') initial_notifications initial_realtime))"
    by (rule client_step.opens; code_simp)
  from one_connection_at_a_time [OF r_into_rtranclp [of "client_step {Some ''t''}", OF this]]
  show ?thesis by (simp add: initial_notifications_def)
qed

subsection \<open>Offline only when it says so\<close>

definition usable :: "string option \<Rightarrow> bool" where
  "usable token \<longleftrightarrow> token \<noteq> None \<and> token \<noteq> Some []"

definition supervised :: "client \<Rightarrow> bool" where
  "supervised c \<longleftrightarrow> (cl_mounted c \<and> cl_wsRef c = None \<and> cl_timers c = [] \<longrightarrow> status_of c = Failed)"

lemma supervised_connect: "usable token \<Longrightarrow> supervised (connect token c)"
  by (auto simp: supervised_def connect_def usable_def Let_def)

lemma supervised_onclose: "\<not> cl_intentional c \<or> \<not> cl_mounted c \<Longrightarrow> supervised (onclose at_ms i c)"
  by (auto simp: supervised_def client_defs)

lemma supervised_step:
  assumes "client_step T c d" "steady c" "supervised c" "\<And>token. token \<in> T \<Longrightarrow> usable token"
  shows "supervised d"
  using assms(1)
proof cases
  case (opens i)
  have "cl_mounted c"
    using opens(2,3) assms(2) nth_mem [OF opens(2)] by (auto simp: steady_def live_def split: if_splits)
  from steady_mountedD(1) [OF assms(2) this opens(2)] opens show ?thesis
    by (auto simp: supervised_def onopen_def Let_def set_phase_def)
next
  case (message i num uuid now parsed)
  from assms(3) same_onmessage [of c num uuid now parsed] show ?thesis
    by (simp add: message supervised_def same_connection_def)
next
  case (fails i at_ms)
  then show ?thesis
    using assms(2) by (auto simp: onerror_def steady_def on_store_def intro!: supervised_onclose)
next
  case (closes i at_ms)
  then show ?thesis
    using assms(2) by (auto simp: steady_def intro!: supervised_onclose)
next
  case (timer t token)
  then show ?thesis using assms(4) by (simp add: timer_fires_def supervised_connect)
next
  case (resume token)
  then show ?thesis
    using assms(4)
    by (simp add: press_resume_def reconnect_effect_def Let_def supervised_connect on_store_def requestReconnect_def)
next
  case unmount
  then show ?thesis
    by (simp add: supervised_def unmount_client_def Let_def clear_timer_def close_socket_def set_phase_def
        split: option.splits)
qed

lemma supervised_reachable:
  assumes "(client_step T)\<^sup>*\<^sup>* (mount_client token ns rs) c" "ns_reconnectToken ns = 0" "token \<in> T"
    "\<And>token. token \<in> T \<Longrightarrow> usable token"
  shows "supervised c"
  using assms(1)
proof (induction rule: rtranclp_induct)
  case base
  then show ?case
    using assms(2-4) by (auto simp: mount_client_def reconnect_effect_def connect_def on_store_def Let_def
        setConnectionStatus_def setReconnectState_def fresh_client_def supervised_def usable_def)
next
  case (step d e)
  then show ?case using supervised_step steady_reachable [OF step(1) assms(2)] assms(4) by blast
qed



subsection \<open>An outage\<close>

text \<open>
  \<open>n\<close> times the current socket fails and the timer that arms, if any, fires; the delays waited come back too.
\<close>

fun outage :: "string option \<Rightarrow> int \<Rightarrow> nat \<Rightarrow> client \<Rightarrow> client \<times> int list" where
  "outage token now 0 c = (c, [])"
| "outage token now (Suc n) c =
     (let d = onclose now (the (cl_wsRef c)) (onerror c)
      in case cl_timers d of
           [] \<Rightarrow> (d, [])
         | t # _ \<Rightarrow> (let delay = the (ns_nextRetryAt (cl_store d)) - now;
                        (e, delays) = outage token now n (timer_fires token t d)
                    in (e, delay # delays)))"

definition serving :: "nat \<Rightarrow> client \<Rightarrow> bool" where
  "serving k c \<longleftrightarrow> cl_wsRef c \<noteq> None \<and> cl_timers c = [] \<and> \<not> cl_intentional c \<and> cl_attempt c = k"

lemma failed_attempt:
  assumes "serving k c" "k < MAX_RECONNECT_ATTEMPTS"
  shows "cl_timers (onclose now i (onerror c)) = [cl_nextTimer c]"
    "ns_nextRetryAt (cl_store (onclose now i (onerror c))) = Some (now + getBackoffDelay k)"
    "usable token \<Longrightarrow> serving (Suc k) (timer_fires token (cl_nextTimer c) (onclose now i (onerror c)))"
  using assms by (auto simp: serving_def client_defs timer_fires_def usable_def)

lemma last_attempt:
  assumes "serving MAX_RECONNECT_ATTEMPTS c"
  shows "cl_timers (onclose now i (onerror c)) = []" "status_of (onclose now i (onerror c)) = Failed"
  using assms by (simp_all add: serving_def client_defs)

lemma outage_run:
  assumes "serving k c" "usable token" "k + n = Suc MAX_RECONNECT_ATTEMPTS" "k \<le> MAX_RECONNECT_ATTEMPTS"
  shows "status_of (fst (outage token now n c)) = Failed \<and>
    snd (outage token now n c) = map getBackoffDelay [k..<MAX_RECONNECT_ATTEMPTS]"
  using assms
proof (induction n arbitrary: k c)
  case 0
  then show ?case by simp
next
  case (Suc n)
  show ?case
  proof (cases "k = MAX_RECONNECT_ATTEMPTS")
    case True
    with Suc.prems(1) show ?thesis by (simp add: last_attempt)
  next
    case False
    with Suc.prems(4) have k: "k < MAX_RECONNECT_ATTEMPTS" by simp
    note step = failed_attempt [OF Suc.prems(1) k]
    from Suc.IH [OF step(3) [OF Suc.prems(2)]] k Suc.prems(2,3) show ?thesis
      by (simp add: step(1,2) Let_def upt_conv_Cons [OF k] case_prod_unfold)
  qed
qed

lemma backoff_bounds: "1000 \<le> getBackoffDelay n \<and> getBackoffDelay n \<le> 30000"
proof -
  have "getBackoffDelay n \<in> set BACKOFF_DELAYS"
    unfolding getBackoffDelay_def by (rule nth_mem) (simp add: BACKOFF_DELAYS_def)
  then show ?thesis by (auto simp: BACKOFF_DELAYS_def)
qed

lemma outage_schedule:
  "map getBackoffDelay [0..<MAX_RECONNECT_ATTEMPTS] =
   [1000, 2000, 4000, 8000, 16000, 30000, 30000, 30000, 30000, 30000]"
  by code_simp

text \<open>When the connection is lost and stays down while the session lives, the hook retries ten times, after 1, 2, 4,
  8 and 16 seconds and then every 30 seconds, and after the tenth retry failed it gives up with the status
  \<open>failed\<close>, 181 seconds after the loss.
\<close>

theorem outage_gives_up:
  assumes "steady c" "cl_mounted c" "cl_wsRef c \<noteq> None" "cl_attempt c = 0" "usable token"
  shows "ns_connectionStatus (cl_store (fst (outage token now 11 c))) = Failed \<and>
    snd (outage token now 11 c) = [1000, 2000, 4000, 8000, 16000, 30000, 30000, 30000, 30000, 30000]"
proof -
  have "serving 0 c"
    using assms(1-4) by (auto simp: serving_def steady_def)
  from outage_run [OF this assms(5), of 11 now] show ?thesis
    using outage_schedule by (simp add: status_of_def MAX_RECONNECT_ATTEMPTS_def)
qed

theorem outage_gives_up_witness:
  "ns_connectionStatus (cl_store (fst (outage (Some ''t'') 0 11
     (mount_client (Some ''t'') initial_notifications initial_realtime)))) = Failed"
proof -
  have "steady (mount_client (Some ''t'') initial_notifications initial_realtime)"
    by (rule steady_mount) (simp add: initial_notifications_def)
  from outage_gives_up [OF this, of "Some ''t''" 0] show ?thesis
    by (simp add: usable_def mount_client_def reconnect_effect_def connect_def on_store_def Let_def
        setConnectionStatus_def setReconnectState_def fresh_client_def initial_notifications_def)
qed

subsection \<open>Mounting again after a manual reconnect\<close>

text \<open>
  \<open>reconnectToken\<close> stays raised in the store, so every later mount runs both effects: the second one closes the
  socket the first one just opened. The close event of that socket arrives when \<open>intentionalCloseRef\<close> is down
  again, forgets the second socket and arms a timer, which opens a third. Two sockets stay open, each message is
  handled twice, and unmounting closes one of them.
\<close>

definition remounted :: client where
  "remounted = mount_client (Some ''t'') (requestReconnect initial_notifications) initial_realtime"

definition doubled :: client where
  "doubled = onopen 2 (timer_fires (Some ''t'') 0 (onclose 0 0 (onopen 1 remounted)))"

lemma remount_opens_two_sockets:
  "(client_step {Some ''t''})\<^sup>*\<^sup>* remounted doubled" "length (filter live (cl_sockets doubled)) = 2"
  "length (filter live (cl_sockets (unmount_client doubled))) = 1"
proof -
  have "client_step {Some ''t''} remounted (onopen 1 remounted)"
    by (rule client_step.opens; code_simp)
  moreover have "client_step {Some ''t''} (onopen 1 remounted) (onclose 0 0 (onopen 1 remounted))"
    by (rule client_step.closes; code_simp)
  moreover have "client_step {Some ''t''} (onclose 0 0 (onopen 1 remounted))
      (timer_fires (Some ''t'') 0 (onclose 0 0 (onopen 1 remounted)))"
    by (rule client_step.timer; code_simp)
  moreover have "client_step {Some ''t''} (timer_fires (Some ''t'') 0 (onclose 0 0 (onopen 1 remounted))) doubled"
    unfolding doubled_def by (rule client_step.opens; code_simp)
  ultimately show "(client_step {Some ''t''})\<^sup>*\<^sup>* remounted doubled"
    by (meson converse_rtranclp_into_rtranclp r_into_rtranclp)
  show "length (filter live (cl_sockets doubled)) = 2" by code_simp
  show "length (filter live (cl_sockets (unmount_client doubled))) = 1" by code_simp
qed

text \<open>A second delivery of the same unread notification counts twice although it is listed once.\<close>

lemma redelivery_counts_twice:
  assumes "\<not> isNotificationRead n" "ns_unreadCount s = Fin u"
  shows "ns_unreadCount (addNotification n (addNotification n s)) = Fin (u + 2)"
    and "filter (\<lambda>m. nf_id m = nf_id n) (ns_recent (addNotification n (addNotification n s))) = [n]"
proof -
  show "ns_unreadCount (addNotification n (addNotification n s)) = Fin (u + 2)"
    using assms by (simp add: addNotification_def Let_def)
  have "filter (\<lambda>m. nf_id m = nf_id n) (take k (filter (\<lambda>i. nf_id i \<noteq> nf_id n) xs)) = []" for k xs
    by (auto simp: filter_empty_conv dest: in_set_takeD)
  then show "filter (\<lambda>m. nf_id m = nf_id n) (ns_recent (addNotification n (addNotification n s))) = [n]"
    by (simp add: addNotification_def Let_def take_Cons')
qed

end
