(* ===== verification/FormConditions.thy ===== *)
theory FormConditions
  imports JsNumber
begin

section \<open>Conditions of dynamic forms\<close>

text \<open>
  The condition engine of \<open>lib/workflow-utils.ts\<close>: emptiness, truthiness, the comparisons and the thirteen
  operators that decide which fields of a form are visible and required, over \<open>types/forms.ts\<close>. A value is a
  JSON value or undefined (\<open>None\<close>); the form's current values are a \<open>Record\<close>, read by own properties. How a
  number is printed is the argument \<open>num\<close>.
\<close>

subsection \<open>Data\<close>

type_synonym form_value = "json option"
type_synonym form_values = "(string, form_value) jsmap"

datatype condition_operator =
    C_eq | C_neq | C_gt | C_gte | C_lt | C_lte | C_in | C_notIn | C_contains
  | C_truthy | C_falsy | C_isSet | C_isEmpty | C_unknown

record form_condition =
  c_field :: string
  c_operator :: condition_operator
  c_value :: form_value

datatype field_type =
    T_text | T_textarea | T_number | T_boolean | T_date | T_select | T_multiselect | T_combobox | T_daterange
  | T_file | T_email | T_url | T_phone | T_currency | T_radio | T_datetime | T_section

datatype rule_kind =
    R_required | R_min | R_max | R_minLength | R_maxLength | R_pattern | R_email | R_url | R_uuid | R_cron
  | R_enum | R_requiredIf

record form_rule =
  r_kind :: rule_kind
  r_param :: form_value
  r_when :: "form_condition list"

text \<open>The options are given by their values (\<open>normalizeOptions(field.options).map((o) => o.value)\<close>).\<close>

record form_field =
  f_name :: string
  f_type :: field_type
  f_required :: bool
  f_options :: "string list"
  f_validation :: "form_rule list"
  f_visibleWhen :: "form_condition list"
  f_requiredWhen :: "form_condition list"

subsection \<open>Values\<close>

fun isValueEmpty :: "form_value \<Rightarrow> bool" where
  "isValueEmpty None = True"
| "isValueEmpty (Some JNull) = True"
| "isValueEmpty (Some (JStr s)) = (js_trim s = [])"
| "isValueEmpty (Some (JArr vs)) = (vs = [])"
| "isValueEmpty (Some (JObj es)) = (es = [])"
| "isValueEmpty (Some v) = False"

fun truthy :: "form_value \<Rightarrow> bool" where
  "truthy None = False"
| "truthy (Some JNull) = False"
| "truthy (Some (JBool b)) = b"
| "truthy (Some (JStr s)) = (s \<noteq> [])"
| "truthy (Some (JNum n)) = (n \<noteq> Fin 0)"
| "truthy v = (\<not> isValueEmpty v)"

fun toNumber :: "form_value \<Rightarrow> js_num option" where
  "toNumber (Some (JNum n)) = (if n = NaN then None else Some n)"
| "toNumber (Some (JStr s)) = (if js_trim s \<noteq> [] \<and> js_Number s \<noteq> NaN then Some (js_Number s) else None)"
| "toNumber v = None"

fun is_bool :: "form_value \<Rightarrow> bool" where
  "is_bool (Some (JBool b)) = True"
| "is_bool v = False"

fun is_str :: "form_value \<Rightarrow> bool" where
  "is_str (Some (JStr s)) = True"
| "is_str v = False"

definition nullish :: "form_value \<Rightarrow> bool" where
  "nullish v \<longleftrightarrow> v = None \<or> v = Some JNull"

definition compareEqual :: "(js_num \<Rightarrow> string) \<Rightarrow> form_value \<Rightarrow> form_value \<Rightarrow> bool" where
  "compareEqual num a b =
     (if nullish a \<or> nullish b then a = b
      else (case (toNumber a, toNumber b) of
              (Some an, Some bn) \<Rightarrow> an = bn
            | _ \<Rightarrow> if is_bool a \<and> is_bool b then a = b
                   else if is_str a \<and> is_str b then a = b
                   else js_String num (the a) = js_String num (the b)))"

definition strictNumber :: "form_value \<Rightarrow> js_num option" where
  "strictNumber v = (case v of Some (JNum n) \<Rightarrow> if n = NaN then None else Some n | _ \<Rightarrow> None)"

definition compareOrdered :: "form_value \<Rightarrow> form_value \<Rightarrow> condition_operator \<Rightarrow> bool" where
  "compareOrdered a b op =
     (case (strictNumber a, strictNumber b) of
        (Some af, Some bf) \<Rightarrow>
          (case op of
             C_gt \<Rightarrow> js_gt af bf
           | C_gte \<Rightarrow> js_ge af bf
           | C_lt \<Rightarrow> js_lt af bf
           | C_lte \<Rightarrow> js_le af bf
           | _ \<Rightarrow> False)
      | _ \<Rightarrow> False)"

definition toArray :: "form_value \<Rightarrow> form_value list" where
  "toArray v = (case v of Some (JArr vs) \<Rightarrow> map Some vs | _ \<Rightarrow> [v])"

subsection \<open>Conditions\<close>

definition field_value :: "form_values \<Rightarrow> string \<Rightarrow> form_value" where
  "field_value vals field = js_get_or None vals field"

definition evalCondition :: "(js_num \<Rightarrow> string) \<Rightarrow> form_condition \<Rightarrow> form_values \<Rightarrow> bool" where
  "evalCondition num cond vals =
     (let op = c_operator cond;
          fieldValue = field_value vals (c_field cond);
          present = js_has vals (c_field cond)
      in case op of
           C_isSet \<Rightarrow> \<not> isValueEmpty fieldValue
         | C_isEmpty \<Rightarrow> isValueEmpty fieldValue
         | C_truthy \<Rightarrow> truthy fieldValue
         | C_falsy \<Rightarrow> \<not> truthy fieldValue
         | _ \<Rightarrow>
           if \<not> present then False
           else (case op of
                   C_eq \<Rightarrow> compareEqual num fieldValue (c_value cond)
                 | C_neq \<Rightarrow> \<not> compareEqual num fieldValue (c_value cond)
                 | C_in \<Rightarrow> list_ex (\<lambda>item. compareEqual num fieldValue item) (toArray (c_value cond))
                 | C_notIn \<Rightarrow> \<not> list_ex (\<lambda>item. compareEqual num fieldValue item) (toArray (c_value cond))
                 | C_contains \<Rightarrow>
                     (case fieldValue of
                        Some (JArr items) \<Rightarrow> list_ex (\<lambda>item. compareEqual num (Some item) (c_value cond)) items
                      | _ \<Rightarrow> False)
                 | C_unknown \<Rightarrow> False
                 | _ \<Rightarrow> compareOrdered fieldValue (c_value cond) op))"

definition conditionsHold :: "(js_num \<Rightarrow> string) \<Rightarrow> form_condition list \<Rightarrow> form_values \<Rightarrow> bool \<Rightarrow> bool" where
  "conditionsHold num conds vals emptyResult =
     (if conds = [] then emptyResult else list_all (\<lambda>c. evalCondition num c vals) conds)"

definition isFieldVisible :: "(js_num \<Rightarrow> string) \<Rightarrow> form_field \<Rightarrow> form_values \<Rightarrow> bool" where
  "isFieldVisible num field vals = conditionsHold num (f_visibleWhen field) vals True"

definition operator_names :: "(string \<times> condition_operator) list" where
  "operator_names =
     [(''eq'', C_eq), (''neq'', C_neq), (''gt'', C_gt), (''gte'', C_gte), (''lt'', C_lt), (''lte'', C_lte),
      (''in'', C_in), (''notIn'', C_notIn), (''contains'', C_contains), (''truthy'', C_truthy),
      (''falsy'', C_falsy), (''isSet'', C_isSet), (''isEmpty'', C_isEmpty)]"

text \<open>An element of a \<open>requiredIf\<close> parameter that has a field and an operator, read as a condition.\<close>

definition condition_of_json :: "(js_num \<Rightarrow> string) \<Rightarrow> json \<Rightarrow> form_condition option" where
  "condition_of_json num c =
     (case (json_get c ''field'', json_get c ''operator'') of
        (Some f, Some op) \<Rightarrow>
          Some \<lparr>c_field = js_String num f,
                c_operator = (case op of JStr s \<Rightarrow> js_get_or C_unknown operator_names s | _ \<Rightarrow> C_unknown),
                c_value = json_get c ''value''\<rparr>
      | _ \<Rightarrow> None)"

definition ruleParamConditions :: "(js_num \<Rightarrow> string) \<Rightarrow> form_value \<Rightarrow> form_condition list" where
  "ruleParamConditions num param =
     (case param of Some (JArr cs) \<Rightarrow> List.map_filter (condition_of_json num) cs | _ \<Rightarrow> [])"

definition isFieldRequired :: "(js_num \<Rightarrow> string) \<Rightarrow> form_field \<Rightarrow> form_values \<Rightarrow> bool" where
  "isFieldRequired num field vals \<longleftrightarrow>
     f_required field \<or>
     conditionsHold num (f_requiredWhen field) vals False \<or>
     list_ex (\<lambda>rule. r_kind rule = R_requiredIf \<and>
                     conditionsHold num (ruleParamConditions num (r_param rule)) vals False) (f_validation field)"

definition activeRules :: "(js_num \<Rightarrow> string) \<Rightarrow> form_field \<Rightarrow> form_values \<Rightarrow> form_rule list" where
  "activeRules num field vals = filter (\<lambda>r. conditionsHold num (r_when r) vals True) (f_validation field)"

subsection \<open>Equality of values\<close>

text \<open>
  What ECMAScript promises of printing a number: reading the text back gives the number, and the text has more than
  white space. A scalar is a value that is no array or object, with a number that is printed so, if it is one.
\<close>

definition prints_number :: "(js_num \<Rightarrow> string) \<Rightarrow> js_num \<Rightarrow> bool" where
  "prints_number num n \<longleftrightarrow>
     (if n = NaN then num n = ''NaN'' else js_Number (num n) = n \<and> js_trim (num n) \<noteq> [])"

fun scalar :: "(js_num \<Rightarrow> string) \<Rightarrow> form_value \<Rightarrow> bool" where
  "scalar num (Some (JArr vs)) = False"
| "scalar num (Some (JObj es)) = False"
| "scalar num (Some (JNum n)) = prints_number num n"
| "scalar num v = True"

text \<open>The class of a scalar: its number when it has one, else its text.\<close>

datatype scalar_class = Nothing "form_value" | Numeric js_num | Textual string

definition class_of :: "(js_num \<Rightarrow> string) \<Rightarrow> form_value \<Rightarrow> scalar_class" where
  "class_of num v =
     (if nullish v then Nothing v
      else case toNumber v of Some n \<Rightarrow> Numeric n | None \<Rightarrow> Textual (js_String num (the v)))"

lemma toNumber_printed:
  assumes "toNumber a = Some n" "scalar num a" "toNumber b = None" "scalar num b"
    "\<not> nullish b" "js_String num (the a) = js_String num (the b)"
  shows False
proof -
  have b: "(\<exists>s. b = Some (JStr s) \<and> (js_trim s = [] \<or> js_Number s = NaN)) \<or>
      (\<exists>c. b = Some (JBool c)) \<or> b = Some (JNum NaN)"
    using assms(3-5) by (cases b rule: toNumber.cases) (auto simp: nullish_def split: if_splits)
  have no: "js_Number ''true'' = NaN" "js_Number ''false'' = NaN" "js_Number ''NaN'' = NaN"
    by code_simp+
  show ?thesis
  proof (cases a rule: toNumber.cases)
    case (1 m)
    with assms(1) have "m \<noteq> NaN" by (auto split: if_splits)
    then have "js_Number (num m) = m" "js_trim (num m) \<noteq> []"
      using 1 assms(2) by (auto simp: prints_number_def)
    with 1 b assms(4,6) no \<open>m \<noteq> NaN\<close> show ?thesis
      by (auto simp: prints_number_def split: if_splits)
  next
    case (2 s)
    with assms(1) have "js_Number s \<noteq> NaN" "js_trim s \<noteq> []" by (auto split: if_splits)
    with 2 b assms(3,4,6) no show ?thesis
      by (auto simp: prints_number_def split: if_splits)
  qed (use assms(1) in auto)
qed

lemma compareEqual_refl: "compareEqual num a a"
  by (auto simp: compareEqual_def split: option.splits)

lemma compareEqual_sym: "compareEqual num a b = compareEqual num b a"
  by (auto simp: compareEqual_def split: option.splits)

lemma textual_injective:
  assumes "\<not> nullish a" "\<not> nullish b" "is_bool a \<and> is_bool b \<or> is_str a \<and> is_str b"
  shows "a = b \<longleftrightarrow> js_String num (the a) = js_String num (the b)"
  using assms by (cases a rule: is_bool.cases; cases b rule: is_bool.cases) auto

lemma class_eq_iff:
  assumes "scalar num a" "scalar num b"
  shows "compareEqual num a b \<longleftrightarrow> class_of num a = class_of num b"
proof (cases "nullish a \<or> nullish b")
  case True
  then show ?thesis by (auto simp: compareEqual_def class_of_def split: option.splits)
next
  case False
  then have n: "\<not> nullish a" "\<not> nullish b" by auto
  show ?thesis
  proof (cases "toNumber a")
    case a: None
    show ?thesis
    proof (cases "toNumber b")
      case None
      with a n textual_injective [OF n] show ?thesis
        by (auto simp: compareEqual_def class_of_def)
    next
      case (Some y)
      have "js_String num (the a) \<noteq> js_String num (the b)"
        using toNumber_printed [OF Some assms(2) a assms(1) n(1)] by metis
      moreover have "\<not> (is_bool a \<and> is_bool b)" "is_str a \<and> is_str b \<Longrightarrow> a \<noteq> b"
        using a Some by (cases b rule: is_bool.cases; auto)+
      ultimately show ?thesis using a Some n by (auto simp: compareEqual_def class_of_def)
    qed
  next
    case a: (Some x)
    show ?thesis
    proof (cases "toNumber b")
      case None
      have "js_String num (the a) \<noteq> js_String num (the b)"
        using toNumber_printed [OF a assms(1) None assms(2) n(2)] by metis
      moreover have "\<not> (is_bool a \<and> is_bool b)" "is_str a \<and> is_str b \<Longrightarrow> a \<noteq> b"
        using a None by (cases a rule: is_bool.cases; auto)+
      ultimately show ?thesis using a None n by (auto simp: compareEqual_def class_of_def)
    next
      case (Some y)
      with a n show ?thesis by (auto simp: compareEqual_def class_of_def)
    qed
  qed
qed

text \<open>On values that are not arrays or objects the equality of conditions is an equivalence relation: two values are
  equal exactly when they have the same class, which is the number of a number or a numeric text, and else the
  text of the value.\<close>

theorem compareEqual_is_equivalence:
  assumes "scalar num a" "scalar num b" "scalar num c"
  shows "compareEqual num a b = (class_of num a = class_of num b) \<and> compareEqual num a a \<and>
    (compareEqual num a b \<longrightarrow> compareEqual num b a) \<and>
    (compareEqual num a b \<longrightarrow> compareEqual num b c \<longrightarrow> compareEqual num a c)"
  using assms by (auto simp: class_eq_iff)

theorem compareEqual_is_equivalence_witness:
  "compareEqual (\<lambda>n. if n = Fin 1 then ''1'' else ''NaN'') (Some (JNum (Fin 1))) (Some (JStr '' 1.0 ''))"
proof -
  let ?num = "\<lambda>n. if n = Fin 1 then ''1'' else ''NaN''"
  have one: "js_Number ''1'' = Fin 1" "js_trim ''1'' = ''1''" "js_Number ''1.0'' = Fin 1" "js_trim ''1.0'' = ''1.0''"
    "js_Number '' 1.0 '' = Fin 1" "js_trim '' 1.0 '' = ''1.0''"
    by code_simp+
  then have "compareEqual ?num (Some (JNum (Fin 1))) (Some (JStr ''1.0''))"
    "compareEqual ?num (Some (JStr ''1.0'')) (Some (JStr '' 1.0 ''))"
    by (simp_all add: compareEqual_def nullish_def)
  with compareEqual_is_equivalence [of ?num "Some (JNum (Fin 1))" "Some (JStr ''1.0'')" "Some (JStr '' 1.0 '')"] one
  show ?thesis by (simp add: prints_number_def)
qed

text \<open>With arrays it is none: \<open>[1]\<close> equals \<open>1\<close>, which equals \<open>''1.0''\<close>, which \<open>[1]\<close> does not equal.\<close>

lemma array_equality_not_transitive:
  assumes "num (Fin 1) = ''1''"
  shows "compareEqual num (Some (JArr [JNum (Fin 1)])) (Some (JNum (Fin 1)))"
    and "compareEqual num (Some (JNum (Fin 1))) (Some (JStr ''1.0''))"
    and "\<not> compareEqual num (Some (JArr [JNum (Fin 1)])) (Some (JStr ''1.0''))"
proof -
  have "js_Number ''1.0'' = Fin 1" "js_trim ''1.0'' \<noteq> []" by code_simp+
  with assms show "compareEqual num (Some (JArr [JNum (Fin 1)])) (Some (JNum (Fin 1)))"
    "compareEqual num (Some (JNum (Fin 1))) (Some (JStr ''1.0''))"
    "\<not> compareEqual num (Some (JArr [JNum (Fin 1)])) (Some (JStr ''1.0''))"
    by (simp_all add: compareEqual_def nullish_def)
qed

text \<open>Any two objects are equal: both print as \<open>[object Object]\<close>.\<close>

lemma objects_always_equal: "compareEqual num (Some (JObj es)) (Some (JObj fs))"
  by (simp add: compareEqual_def nullish_def)

subsection \<open>Operators\<close>

lemma neq_on_present: "js_has vals (c_field c) \<Longrightarrow> c_operator c = C_neq \<Longrightarrow>
    evalCondition num c vals = (\<not> evalCondition num (c\<lparr>c_operator := C_eq\<rparr>) vals)"
  by (simp add: evalCondition_def)

lemma notIn_on_present: "js_has vals (c_field c) \<Longrightarrow> c_operator c = C_notIn \<Longrightarrow>
    evalCondition num c vals = (\<not> evalCondition num (c\<lparr>c_operator := C_in\<rparr>) vals)"
  by (simp add: evalCondition_def)

lemma absent_field_compares_false:
  "\<not> js_has vals (c_field c) \<Longrightarrow> c_operator c \<notin> {C_isSet, C_isEmpty, C_truthy, C_falsy} \<Longrightarrow>
   \<not> evalCondition num c vals"
  by (cases "c_operator c") (simp_all add: evalCondition_def)

end
