(* ===== verification/FormSchema.thy ===== *)
theory FormSchema
  imports FormConditions
begin

section \<open>Compiling a form to a schema\<close>

text \<open>
  \<open>buildDynamicZodSchema\<close> of \<open>lib/workflow-utils.ts\<close>: the compiler from the fields of a form to a Zod object
  schema. A schema is the term of the builder calls that make it, with the methods a value has at run time: only a
  \<open>z.string()\<close> that was not refined has \<open>min\<close>, \<open>max\<close> and \<open>regex\<close>. What Zod accepts is the argument \<open>parse\<close>
  of the theorems, with the documented meaning of each builder as hypotheses (\<open>zod_laws\<close>). Messages are left out.
\<close>

subsection \<open>Schemas\<close>

datatype zod_check = Check_min js_num | Check_max js_num | Check_regex "string \<Rightarrow> bool"

datatype zod =
    Z_string "zod_check list"
  | Z_number
  | Z_boolean
  | Z_string_array
  | Z_string_pair
  | Z_string_or_record
  | Z_any
  | Z_refine zod "form_value \<Rightarrow> bool"
  | Z_preprocess "form_value \<Rightarrow> form_value" zod
  | Z_optional zod
  | Z_object "(string \<times> zod) list"

text \<open>What the compiler uses of the platform: regular expressions (\<open>None\<close> when the pattern does not compile),
  URL parsing and the printing of numbers.\<close>

record form_env =
  fe_regexp :: "string \<Rightarrow> (string \<Rightarrow> bool) option"
  fe_url :: "string \<Rightarrow> parsed_url option"
  fe_num :: "js_num \<Rightarrow> string"

subsection \<open>Text formats\<close>

text \<open>\<open>EMAIL_RE\<close>: one \<open>@\<close> and no white space, and a dot inside the part after it.\<close>

definition EMAIL_RE :: "string \<Rightarrow> bool" where
  "EMAIL_RE s =
     (case js_split CHR ''@'' s of
        [local, domain] \<Rightarrow>
          local \<noteq> [] \<and> list_all (\<lambda>c. \<not> js_is_space c) (local @ domain) \<and>
          CHR ''.'' \<in> set (butlast (tl domain))
      | _ \<Rightarrow> False)"

definition is_hex :: "char \<Rightarrow> bool" where
  "is_hex c \<longleftrightarrow> digit_value c < 16"

text \<open>\<open>UUID_RE\<close>: groups of 8, 4, 4, 4 and 12 hexadecimal digits.\<close>

definition UUID_RE :: "string \<Rightarrow> bool" where
  "UUID_RE s \<longleftrightarrow>
     map length (js_split CHR ''-'' s) = [8, 4, 4, 4, 12] \<and> list_all (list_all is_hex) (js_split CHR ''-'' s)"

text \<open>The split of a text without white space at its ends at every run of white space.\<close>

fun split_spaces :: "string \<Rightarrow> string list" where
  "split_spaces [] = [[]]"
| "split_spaces (c # s) =
     (if js_is_space c
      then (case split_spaces s of p # ps \<Rightarrow> if p = [] \<and> s \<noteq> [] \<and> js_is_space (hd s) then p # ps else [] # p # ps
            | [] \<Rightarrow> [[]])
      else (case split_spaces s of p # ps \<Rightarrow> (c # p) # ps | [] \<Rightarrow> [[c]]))"

definition cron_field :: "string \<Rightarrow> bool" where
  "cron_field p \<longleftrightarrow> p = ''?'' \<or> p \<noteq> [] \<and> list_all (\<lambda>c. is_digit c \<or> c \<in> set ''*/,-LW#'') p"

definition isValidCron :: "string \<Rightarrow> bool" where
  "isValidCron expr =
     (let trimmed = js_trim expr;
          parts = split_spaces trimmed
      in trimmed \<noteq> [] \<and> (length parts = 5 \<or> length parts = 6) \<and> list_all cron_field parts)"

definition url_accepted :: "form_env \<Rightarrow> string \<Rightarrow> bool" where
  "url_accepted env v = (case fe_url env v of None \<Rightarrow> False | Some u \<Rightarrow> u_protocol u \<noteq> [] \<and> u_host u \<noteq> [])"

subsection \<open>Rules\<close>

text \<open>A test of texts holds vacuously of any other value.\<close>

definition on_text :: "(string \<Rightarrow> bool) \<Rightarrow> form_value \<Rightarrow> bool" where
  "on_text p v = (case v of Some (JStr s) \<Rightarrow> p s | _ \<Rightarrow> True)"

definition on_number :: "(js_num \<Rightarrow> bool) \<Rightarrow> form_value \<Rightarrow> bool" where
  "on_number p v = (case v of Some (JNum n) \<Rightarrow> p n | _ \<Rightarrow> True)"

definition on_array :: "(json list \<Rightarrow> bool) \<Rightarrow> form_value \<Rightarrow> bool" where
  "on_array p v = (case v of Some (JArr vs) \<Rightarrow> p vs | _ \<Rightarrow> True)"

definition length_param :: "form_value \<Rightarrow> js_num" where
  "length_param param = (case toNumber param of None \<Rightarrow> Fin 0 | Some n \<Rightarrow> n)"

definition pattern_param :: "form_value \<Rightarrow> string" where
  "pattern_param param = (case param of Some (JStr s) \<Rightarrow> s | _ \<Rightarrow> [])"

definition js_text :: "form_env \<Rightarrow> form_value \<Rightarrow> string" where
  "js_text env v = (case v of None \<Rightarrow> ''undefined'' | Some w \<Rightarrow> js_String (fe_num env) w)"

definition enum_allowed :: "form_env \<Rightarrow> string list \<Rightarrow> form_value \<Rightarrow> string list" where
  "enum_allowed env optionValues param =
     (case param of
        Some (JArr vs) \<Rightarrow> if vs \<noteq> [] then map (js_String (fe_num env)) vs else optionValues
      | _ \<Rightarrow> optionValues)"

text \<open>
  \<open>None\<close> is the \<open>TypeError\<close> of calling a method the schema does not have. A \<open>regex\<close> call stands inside the
  \<open>try\<close> of its rule: when it throws, as when the pattern does not compile, the rule fails every value.
\<close>

definition applyStringRule :: "form_env \<Rightarrow> string list \<Rightarrow> form_rule \<Rightarrow> zod \<Rightarrow> zod option" where
  "applyStringRule env optionValues rule out =
     (case r_kind rule of
        R_minLength \<Rightarrow>
          (case out of Z_string cs \<Rightarrow> Some (Z_string (cs @ [Check_min (length_param (r_param rule))])) | _ \<Rightarrow> None)
      | R_maxLength \<Rightarrow>
          (case out of Z_string cs \<Rightarrow> Some (Z_string (cs @ [Check_max (length_param (r_param rule))])) | _ \<Rightarrow> None)
      | R_pattern \<Rightarrow>
          (case (fe_regexp env (pattern_param (r_param rule)), out) of
             (Some re, Z_string cs) \<Rightarrow> Some (Z_string (cs @ [Check_regex re]))
           | _ \<Rightarrow> Some (Z_refine out (\<lambda>v. False)))
      | R_email \<Rightarrow> Some (Z_refine out (on_text EMAIL_RE))
      | R_url \<Rightarrow> Some (Z_refine out (on_text (url_accepted env)))
      | R_uuid \<Rightarrow> Some (Z_refine out (on_text UUID_RE))
      | R_cron \<Rightarrow> Some (Z_refine out (on_text isValidCron))
      | R_enum \<Rightarrow>
          (let allowed = enum_allowed env optionValues (r_param rule)
           in Some (Z_refine out (\<lambda>v. allowed = [] \<or> js_text env v \<in> set allowed)))
      | _ \<Rightarrow> Some out)"

fun applyStringRules :: "form_env \<Rightarrow> string list \<Rightarrow> form_rule list \<Rightarrow> zod \<Rightarrow> zod option" where
  "applyStringRules env optionValues [] out = Some out"
| "applyStringRules env optionValues (rule # rules) out =
     (case applyStringRule env optionValues rule out of
        None \<Rightarrow> None
      | Some out' \<Rightarrow> applyStringRules env optionValues rules out')"

definition applyNumberRule :: "form_rule \<Rightarrow> zod \<Rightarrow> zod" where
  "applyNumberRule rule out =
     (case (r_kind rule, toNumber (r_param rule)) of
        (R_min, Some n) \<Rightarrow> Z_refine out (on_number (\<lambda>v. js_ge v n))
      | (R_max, Some n) \<Rightarrow> Z_refine out (on_number (\<lambda>v. js_le v n))
      | _ \<Rightarrow> out)"

definition applyNumberRules :: "zod \<Rightarrow> form_rule list \<Rightarrow> zod" where
  "applyNumberRules schema rules = foldl (\<lambda>out rule. applyNumberRule rule out) schema rules"

definition all_options :: "form_env \<Rightarrow> string list \<Rightarrow> form_value \<Rightarrow> bool" where
  "all_options env optionValues = on_array (list_all (\<lambda>x. js_String (fe_num env) x \<in> set optionValues))"

definition applyArrayRule :: "form_env \<Rightarrow> string list \<Rightarrow> form_rule \<Rightarrow> zod \<Rightarrow> zod" where
  "applyArrayRule env optionValues rule out =
     (case r_kind rule of
        R_minLength \<Rightarrow>
          Z_refine out (on_array (\<lambda>vs. js_ge (Fin (of_nat (length vs))) (length_param (r_param rule))))
      | R_maxLength \<Rightarrow>
          Z_refine out (on_array (\<lambda>vs. js_le (Fin (of_nat (length vs))) (length_param (r_param rule))))
      | R_enum \<Rightarrow> if optionValues \<noteq> [] then Z_refine out (all_options env optionValues) else out
      | _ \<Rightarrow> out)"

definition applyArrayRules :: "form_env \<Rightarrow> string list \<Rightarrow> zod \<Rightarrow> form_rule list \<Rightarrow> zod" where
  "applyArrayRules env optionValues schema rules =
     (let out = foldl (\<lambda>out rule. applyArrayRule env optionValues rule out) schema rules
      in if optionValues \<noteq> [] then Z_refine out (all_options env optionValues) else out)"

subsection \<open>Fields\<close>

definition coerce_number :: "form_value \<Rightarrow> form_value" where
  "coerce_number v =
     (if v = Some (JStr []) \<or> nullish v then None
      else (case v of
              Some (JStr s) \<Rightarrow> let n = js_Number s in if n = NaN then v else Some (JNum n)
            | _ \<Rightarrow> v))"

definition baseSchemaForType :: "field_type \<Rightarrow> zod" where
  "baseSchemaForType t =
     (case t of
        T_number \<Rightarrow> Z_preprocess coerce_number Z_number
      | T_currency \<Rightarrow> Z_preprocess coerce_number Z_number
      | T_boolean \<Rightarrow> Z_boolean
      | T_multiselect \<Rightarrow> Z_string_array
      | T_daterange \<Rightarrow> Z_string_pair
      | T_file \<Rightarrow> Z_string_or_record
      | T_section \<Rightarrow> Z_any
      | _ \<Rightarrow> Z_string [])"

definition empty_to_undefined :: "form_value \<Rightarrow> form_value" where
  "empty_to_undefined v = (if isValueEmpty v then None else v)"

definition nonblank_text :: "form_value \<Rightarrow> bool" where
  "nonblank_text v = (case v of Some (JStr s) \<Rightarrow> js_trim s \<noteq> [] | _ \<Rightarrow> False)"

definition wrapRequiredness :: "zod \<Rightarrow> field_type \<Rightarrow> bool \<Rightarrow> zod" where
  "wrapRequiredness schema t required =
     (if \<not> required
      then (if t = T_multiselect \<or> t = T_daterange then Z_optional schema
            else Z_preprocess empty_to_undefined (Z_optional schema))
      else (case t of
              T_boolean \<Rightarrow> schema
            | T_number \<Rightarrow> schema
            | T_currency \<Rightarrow> schema
            | T_multiselect \<Rightarrow>
                Z_refine schema (\<lambda>v. case v of Some (JArr vs) \<Rightarrow> vs \<noteq> [] | _ \<Rightarrow> False)
            | T_daterange \<Rightarrow> schema
            | T_file \<Rightarrow> Z_refine schema (\<lambda>v. \<not> isValueEmpty v)
            | _ \<Rightarrow> Z_refine schema nonblank_text))"

definition choice_types :: "field_type list" where
  "choice_types = [T_select, T_combobox, T_radio]"

text \<open>The \<open>switch\<close> over the type of a visible field.\<close>

definition typed_schema :: "form_env \<Rightarrow> form_field \<Rightarrow> form_rule list \<Rightarrow> zod option" where
  "typed_schema env field rules =
     (let t = f_type field; opts = f_options field
      in if t = T_number \<or> t = T_currency then Some (applyNumberRules (baseSchemaForType t) rules)
         else if t = T_boolean \<or> t = T_daterange \<or> t = T_file then Some (baseSchemaForType t)
         else if t = T_multiselect then Some (applyArrayRules env opts (baseSchemaForType t) rules)
         else if t \<in> set choice_types
         then (case applyStringRules env opts rules (Z_string []) of
                 None \<Rightarrow> None
               | Some withRules \<Rightarrow>
                   Some (if opts \<noteq> [] then Z_refine withRules (on_text (\<lambda>s. s = [] \<or> s \<in> set opts)) else withRules))
         else applyStringRules env opts rules (Z_string []))"

definition fieldSchema :: "form_env \<Rightarrow> form_values \<Rightarrow> form_field \<Rightarrow> zod option" where
  "fieldSchema env vals field =
     (if \<not> isFieldVisible (fe_num env) field vals then Some (Z_optional Z_any)
      else (case typed_schema env field (activeRules (fe_num env) field vals) of
              None \<Rightarrow> None
            | Some schema \<Rightarrow>
                Some (wrapRequiredness schema (f_type field) (isFieldRequired (fe_num env) field vals))))"

fun buildShape :: "form_env \<Rightarrow> form_values \<Rightarrow> form_field list \<Rightarrow> (string, zod) jsmap \<Rightarrow> (string, zod) jsmap option" where
  "buildShape env vals [] shape = Some shape"
| "buildShape env vals (field # rest) shape =
     (if f_type field = T_section then buildShape env vals rest shape
      else (case fieldSchema env vals field of
              None \<Rightarrow> None
            | Some schema \<Rightarrow> buildShape env vals rest (AList.update (f_name field) schema shape)))"

definition buildDynamicZodSchema :: "form_env \<Rightarrow> form_field list \<Rightarrow> form_values \<Rightarrow> zod option" where
  "buildDynamicZodSchema env fs vals = map_option Z_object (buildShape env vals fs [])"

subsection \<open>What Zod documents\<close>

type_synonym zod_parse = "zod \<Rightarrow> form_value \<Rightarrow> form_value option"

fun check_ok :: "zod_check \<Rightarrow> string \<Rightarrow> bool" where
  "check_ok (Check_min n) s = (\<not> js_lt (Fin (of_nat (length s))) n)"
| "check_ok (Check_max n) s = (\<not> js_gt (Fin (of_nat (length s))) n)"
| "check_ok (Check_regex re) s = re s"

fun all_strings :: "json list \<Rightarrow> bool" where
  "all_strings [] = True"
| "all_strings (v # vs) = ((case v of JStr _ \<Rightarrow> True | _ \<Rightarrow> False) \<and> all_strings vs)"

definition guard_value :: "bool \<Rightarrow> form_value \<Rightarrow> form_value option" where
  "guard_value b v = (if b then Some v else None)"

text \<open>
  Each builder accepts what its documentation says: a refinement accepts what its inner schema accepts and its
  test passes on, a preprocessor feeds its inner schema, \<open>optional\<close> lets undefined through, an object checks
  every key of its shape.
\<close>

definition zod_laws :: "zod_parse \<Rightarrow> bool" where
  "zod_laws parse \<longleftrightarrow>
     (\<forall>cs v. parse (Z_string cs) v =
        guard_value (case v of Some (JStr s) \<Rightarrow> list_all (\<lambda>c. check_ok c s) cs | _ \<Rightarrow> False) v) \<and>
     (\<forall>v. parse Z_number v = guard_value (case v of Some (JNum n) \<Rightarrow> n \<noteq> NaN | _ \<Rightarrow> False) v) \<and>
     (\<forall>v. parse Z_boolean v = guard_value (is_bool v) v) \<and>
     (\<forall>v. parse Z_string_array v = guard_value (case v of Some (JArr vs) \<Rightarrow> all_strings vs | _ \<Rightarrow> False) v) \<and>
     (\<forall>v. parse Z_string_pair v =
        guard_value (case v of Some (JArr vs) \<Rightarrow> length vs = 2 \<and> all_strings vs | _ \<Rightarrow> False) v) \<and>
     (\<forall>v. parse Z_string_or_record v =
        guard_value (case v of Some (JStr s) \<Rightarrow> True | Some (JObj es) \<Rightarrow> True | _ \<Rightarrow> False) v) \<and>
     (\<forall>v. parse Z_any v = Some v) \<and>
     (\<forall>s p v. parse (Z_refine s p) v =
        (case parse s v of None \<Rightarrow> None | Some w \<Rightarrow> if p w then Some w else None)) \<and>
     (\<forall>f s v. parse (Z_preprocess f s) v = parse s (f v)) \<and>
     (\<forall>s v. parse (Z_optional s) v = (if v = None then Some None else parse s v)) \<and>
     (\<forall>shape es. parse (Z_object shape) (Some (JObj es)) \<noteq> None \<longleftrightarrow>
        (\<forall>(k, s) \<in> set shape. parse s (json_get (JObj es) k) \<noteq> None))"

text \<open>One interpreter that has these meanings.\<close>

fun sample_parse :: zod_parse where
  "sample_parse (Z_string cs) v =
     guard_value (case v of Some (JStr s) \<Rightarrow> list_all (\<lambda>c. check_ok c s) cs | _ \<Rightarrow> False) v"
| "sample_parse Z_number v = guard_value (case v of Some (JNum n) \<Rightarrow> n \<noteq> NaN | _ \<Rightarrow> False) v"
| "sample_parse Z_boolean v = guard_value (is_bool v) v"
| "sample_parse Z_string_array v = guard_value (case v of Some (JArr vs) \<Rightarrow> all_strings vs | _ \<Rightarrow> False) v"
| "sample_parse Z_string_pair v =
     guard_value (case v of Some (JArr vs) \<Rightarrow> length vs = 2 \<and> all_strings vs | _ \<Rightarrow> False) v"
| "sample_parse Z_string_or_record v =
     guard_value (case v of Some (JStr s) \<Rightarrow> True | Some (JObj es) \<Rightarrow> True | _ \<Rightarrow> False) v"
| "sample_parse Z_any v = Some v"
| "sample_parse (Z_refine s p) v =
     (case sample_parse s v of None \<Rightarrow> None | Some w \<Rightarrow> if p w then Some w else None)"
| "sample_parse (Z_preprocess f s) v = sample_parse s (f v)"
| "sample_parse (Z_optional s) v = (if v = None then Some None else sample_parse s v)"
| "sample_parse (Z_object shape) v =
     (case v of
        Some (JObj es) \<Rightarrow>
          guard_value (list_all (\<lambda>ks. sample_parse (snd ks) (json_get (JObj es) (fst ks)) \<noteq> None) shape) v
      | _ \<Rightarrow> None)"

lemma sample_parse_laws: "zod_laws sample_parse"
  unfolding zod_laws_def by (auto simp: guard_value_def list_all_iff case_prod_unfold split: option.splits json.splits)

subsection \<open>What a form accepts\<close>

text \<open>
  The order of checks that \<open>ValidateSubmission\<close> of the backend follows and the comments claim for the client: a
  hidden field is not looked at; an empty value is refused exactly when the field is required; any other value
  must have the type of the field and satisfy every active rule.
\<close>

definition text_rule_ok :: "form_env \<Rightarrow> string list \<Rightarrow> form_rule \<Rightarrow> string \<Rightarrow> bool" where
  "text_rule_ok env opts rule s =
     (case r_kind rule of
        R_minLength \<Rightarrow> \<not> js_lt (Fin (of_nat (length s))) (length_param (r_param rule))
      | R_maxLength \<Rightarrow> \<not> js_gt (Fin (of_nat (length s))) (length_param (r_param rule))
      | R_pattern \<Rightarrow> (case fe_regexp env (pattern_param (r_param rule)) of None \<Rightarrow> False | Some re \<Rightarrow> re s)
      | R_email \<Rightarrow> EMAIL_RE s
      | R_url \<Rightarrow> url_accepted env s
      | R_uuid \<Rightarrow> UUID_RE s
      | R_cron \<Rightarrow> isValidCron s
      | R_enum \<Rightarrow> enum_allowed env opts (r_param rule) = [] \<or> s \<in> set (enum_allowed env opts (r_param rule))
      | _ \<Rightarrow> True)"

definition number_rule_ok :: "form_rule \<Rightarrow> js_num \<Rightarrow> bool" where
  "number_rule_ok rule n =
     (case (r_kind rule, toNumber (r_param rule)) of
        (R_min, Some m) \<Rightarrow> js_ge n m
      | (R_max, Some m) \<Rightarrow> js_le n m
      | _ \<Rightarrow> True)"

definition list_rule_ok :: "form_rule \<Rightarrow> json list \<Rightarrow> bool" where
  "list_rule_ok rule vs =
     (case r_kind rule of
        R_minLength \<Rightarrow> js_ge (Fin (of_nat (length vs))) (length_param (r_param rule))
      | R_maxLength \<Rightarrow> js_le (Fin (of_nat (length vs))) (length_param (r_param rule))
      | _ \<Rightarrow> True)"

definition value_ok :: "form_env \<Rightarrow> form_field \<Rightarrow> form_rule list \<Rightarrow> form_value \<Rightarrow> bool" where
  "value_ok env field rules v =
     (let t = f_type field; opts = f_options field
      in if t = T_number \<or> t = T_currency
         then (case coerce_number v of
                 Some (JNum n) \<Rightarrow> n \<noteq> NaN \<and> list_all (\<lambda>r. number_rule_ok r n) rules
               | _ \<Rightarrow> False)
         else if t = T_boolean then is_bool v
         else if t = T_daterange then (case v of Some (JArr vs) \<Rightarrow> length vs = 2 \<and> all_strings vs | _ \<Rightarrow> False)
         else if t = T_file then (case v of Some (JStr s) \<Rightarrow> True | Some (JObj es) \<Rightarrow> True | _ \<Rightarrow> False)
         else if t = T_multiselect
         then (case v of
                 Some (JArr vs) \<Rightarrow>
                   all_strings vs \<and> (opts \<noteq> [] \<longrightarrow> set vs \<subseteq> JStr ` set opts) \<and>
                   list_all (\<lambda>r. list_rule_ok r vs) rules
               | _ \<Rightarrow> False)
         else (case v of
                 Some (JStr s) \<Rightarrow>
                   (t \<in> set choice_types \<and> opts \<noteq> [] \<longrightarrow> s \<in> set opts) \<and>
                   list_all (\<lambda>r. text_rule_ok env opts r s) rules
               | _ \<Rightarrow> False))"

definition field_ok :: "form_env \<Rightarrow> form_values \<Rightarrow> form_field \<Rightarrow> form_value \<Rightarrow> bool" where
  "field_ok env vals field v =
     (if \<not> isFieldVisible (fe_num env) field vals then True
      else if isValueEmpty v then \<not> isFieldRequired (fe_num env) field vals
      else value_ok env field (activeRules (fe_num env) field vals) v)"

text \<open>
  Where the compiler follows that order: on a text field no length or pattern rule stands behind a rule that
  refines; a number that is required is not blank text; a list that is optional is filled or undefined.
\<close>

definition refining :: "form_env \<Rightarrow> form_rule \<Rightarrow> bool" where
  "refining env rule \<longleftrightarrow>
     r_kind rule \<in> {R_email, R_url, R_uuid, R_cron, R_enum} \<or>
     r_kind rule = R_pattern \<and> fe_regexp env (pattern_param (r_param rule)) = None"

definition needs_string :: "form_rule \<Rightarrow> bool" where
  "needs_string rule \<longleftrightarrow> r_kind rule \<in> {R_minLength, R_maxLength, R_pattern}"

fun well_ordered :: "form_env \<Rightarrow> form_rule list \<Rightarrow> bool" where
  "well_ordered env [] = True"
| "well_ordered env (r # rs) = ((refining env r \<longrightarrow> \<not> list_ex needs_string rs) \<and> well_ordered env rs)"

definition text_type :: "field_type \<Rightarrow> bool" where
  "text_type t \<longleftrightarrow> t \<notin> {T_number, T_currency, T_boolean, T_daterange, T_file, T_multiselect, T_section}"

definition regular :: "form_env \<Rightarrow> form_values \<Rightarrow> form_field \<Rightarrow> form_value \<Rightarrow> bool" where
  "regular env vals field v \<longleftrightarrow>
     (let t = f_type field; required = isFieldRequired (fe_num env) field vals
      in (text_type t \<longrightarrow> well_ordered env (activeRules (fe_num env) field vals)) \<and>
         (t \<in> {T_number, T_currency} \<and> required \<longrightarrow> \<not> isValueEmpty v \<or> coerce_number v = None \<or> \<not> is_str v) \<and>
         (t \<in> {T_multiselect, T_daterange} \<and> \<not> required \<longrightarrow> v = None \<or> \<not> isValueEmpty v))"

subsection \<open>The compiler meets the specification\<close>

lemma lawsD:
  assumes "zod_laws parse"
  shows "parse (Z_string cs) v =
      guard_value (case v of Some (JStr s) \<Rightarrow> list_all (\<lambda>c. check_ok c s) cs | _ \<Rightarrow> False) v"
    "parse Z_number v = guard_value (case v of Some (JNum n) \<Rightarrow> n \<noteq> NaN | _ \<Rightarrow> False) v"
    "parse Z_boolean v = guard_value (is_bool v) v"
    "parse Z_string_array v = guard_value (case v of Some (JArr vs) \<Rightarrow> all_strings vs | _ \<Rightarrow> False) v"
    "parse Z_string_pair v =
      guard_value (case v of Some (JArr vs) \<Rightarrow> length vs = 2 \<and> all_strings vs | _ \<Rightarrow> False) v"
    "parse Z_string_or_record v =
      guard_value (case v of Some (JStr s) \<Rightarrow> True | Some (JObj es) \<Rightarrow> True | _ \<Rightarrow> False) v"
    "parse Z_any v = Some v"
    "parse (Z_refine s p) v = (case parse s v of None \<Rightarrow> None | Some w \<Rightarrow> if p w then Some w else None)"
    "parse (Z_preprocess f s) v = parse s (f v)"
    "parse (Z_optional s) v = (if v = None then Some None else parse s v)"
    "parse (Z_object shape) (Some (JObj es)) \<noteq> None \<longleftrightarrow>
        (\<forall>(k, s) \<in> set shape. parse s (json_get (JObj es) k) \<noteq> None)"
  apply (rule assms [unfolded zod_laws_def, THEN conjunct1, rule_format])
  apply (rule assms [unfolded zod_laws_def, THEN conjunct2, THEN conjunct1, rule_format])
  apply (rule assms [unfolded zod_laws_def, THEN conjunct2, THEN conjunct2, THEN conjunct1, rule_format])
  apply (rule assms [unfolded zod_laws_def, THEN conjunct2, THEN conjunct2, THEN conjunct2, THEN conjunct1, rule_format])
  apply (rule assms [unfolded zod_laws_def, THEN conjunct2, THEN conjunct2, THEN conjunct2, THEN conjunct2, THEN conjunct1, rule_format])
  apply (rule assms [unfolded zod_laws_def, THEN conjunct2, THEN conjunct2, THEN conjunct2, THEN conjunct2, THEN conjunct2, THEN conjunct1, rule_format])
  apply (rule assms [unfolded zod_laws_def, THEN conjunct2, THEN conjunct2, THEN conjunct2, THEN conjunct2, THEN conjunct2, THEN conjunct2, THEN conjunct1, rule_format])
  apply (rule assms [unfolded zod_laws_def, THEN conjunct2, THEN conjunct2, THEN conjunct2, THEN conjunct2, THEN conjunct2, THEN conjunct2, THEN conjunct2, THEN conjunct1, rule_format])
  apply (rule assms [unfolded zod_laws_def, THEN conjunct2, THEN conjunct2, THEN conjunct2, THEN conjunct2, THEN conjunct2, THEN conjunct2, THEN conjunct2, THEN conjunct2, THEN conjunct1, rule_format])
  apply (rule assms [unfolded zod_laws_def, THEN conjunct2, THEN conjunct2, THEN conjunct2, THEN conjunct2, THEN conjunct2, THEN conjunct2, THEN conjunct2, THEN conjunct2, THEN conjunct2, THEN conjunct1, rule_format])
  apply (rule assms [unfolded zod_laws_def, THEN conjunct2, THEN conjunct2, THEN conjunct2, THEN conjunct2, THEN conjunct2, THEN conjunct2, THEN conjunct2, THEN conjunct2, THEN conjunct2, THEN conjunct2, rule_format])
  done

lemma guard_value_simps [simp]:
  "guard_value b v = guard_value c v \<longleftrightarrow> b = c" "guard_value b v = None \<longleftrightarrow> \<not> b"
  "guard_value b v = Some w \<longleftrightarrow> b \<and> w = v"
  "(case guard_value b v of None \<Rightarrow> None | Some w \<Rightarrow> if p w then Some w else None) = guard_value (b \<and> p v) v"
  by (auto simp: guard_value_def)

lemma is_strE:
  assumes "is_str v"
  obtains s where "v = Some (JStr s)"
  using assms by (cases v rule: is_str.cases) auto

lemma refining_rule:
  assumes "refining env r"
  shows "\<exists>q. applyStringRule env opts r out = Some (Z_refine out q) \<and>
    (\<forall>v. is_str v \<longrightarrow> q v = on_text (text_rule_ok env opts r) v)"
  using assms
  by (cases "r_kind r")
     (auto simp: applyStringRule_def refining_def Let_def on_text_def text_rule_ok_def js_text_def elim!: is_strE
       split: zod.splits)

text \<open>Every schema but the preprocessors returns the value it was given.\<close>

lemma applyStringRules_parse:
  assumes laws: "zod_laws parse" and "well_ordered env rules"
    and "(\<exists>cs. out = Z_string cs) \<or> \<not> list_ex needs_string rules"
    and "\<And>v. parse out v = guard_value (P v) v" "\<And>v. P v \<Longrightarrow> is_str v"
  shows "\<exists>s. applyStringRules env opts rules out = Some s \<and>
     (\<forall>v. parse s v = guard_value (P v \<and> list_all (\<lambda>r. on_text (text_rule_ok env opts r) v) rules) v)"
  using assms(2-)
proof (induction rules arbitrary: out P)
  case Nil
  then show ?case by simp
next
  case (Cons r rules)
  define Q where "Q v \<longleftrightarrow> P v \<and> on_text (text_rule_ok env opts r) v" for v
  have refine: "parse (Z_refine out p) v = guard_value (Q v) v"
    if "\<And>v. is_str v \<Longrightarrow> p v = on_text (text_rule_ok env opts r) v" for p v
    using that [of v] Cons.prems(4) [of v] by (auto simp: lawsD(8) [OF laws] Cons.prems(3) Q_def)
  have "\<exists>out'. applyStringRule env opts r out = Some out' \<and>
      ((\<exists>cs. out' = Z_string cs) \<or> \<not> list_ex needs_string rules) \<and> (\<forall>v. parse out' v = guard_value (Q v) v)"
  proof (cases "needs_string r \<and> \<not> refining env r")
    case True
    with Cons.prems(2) obtain cs where cs: "out = Z_string cs" by auto
    have P: "P v = (case v of Some (JStr s) \<Rightarrow> list_all (\<lambda>c. check_ok c s) cs | _ \<Rightarrow> False)" for v
      using Cons.prems(3) [of v] lawsD(1) [OF laws, of cs v] by (simp add: cs)
    obtain c where "applyStringRule env opts r out = Some (Z_string (cs @ [c]))"
      "\<And>s. check_ok c s = text_rule_ok env opts r s"
      using True by (cases "r_kind r"; cases "fe_regexp env (pattern_param (r_param r))")
        (auto simp: cs applyStringRule_def needs_string_def refining_def text_rule_ok_def)
    then show ?thesis
      by (auto simp: lawsD(1) [OF laws] Q_def P on_text_def split: option.splits json.splits)
  next
    case False
    show ?thesis
    proof (cases "refining env r")
      case ref: True
      then have "\<not> list_ex needs_string rules" using Cons.prems(1) by simp
      moreover obtain q where "applyStringRule env opts r out = Some (Z_refine out q)"
        "\<And>v. is_str v \<Longrightarrow> q v = on_text (text_rule_ok env opts r) v"
        using refining_rule [OF ref] by blast
      ultimately show ?thesis using refine by auto
    next
      case nref: False
      then have "applyStringRule env opts r out = Some out" "\<And>v. on_text (text_rule_ok env opts r) v"
        using False by (cases "r_kind r"; auto simp: applyStringRule_def needs_string_def refining_def
            text_rule_ok_def on_text_def split: option.splits json.splits)+
      with Cons.prems(2,3) False nref show ?thesis by (auto simp: Q_def)
    qed
  qed
  then obtain out' where out': "applyStringRule env opts r out = Some out'"
    "(\<exists>cs. out' = Z_string cs) \<or> \<not> list_ex needs_string rules" "\<And>v. parse out' v = guard_value (Q v) v" by blast
  have "well_ordered env rules" "\<And>v. Q v \<Longrightarrow> is_str v"
    using Cons.prems by (auto simp: Q_def)
  from Cons.IH [OF this(1) out'(2,3) this(2)] obtain s where
    "applyStringRules env opts rules out' = Some s"
    "\<And>v. parse s v = guard_value (Q v \<and> list_all (\<lambda>r. on_text (text_rule_ok env opts r) v) rules) v" by blast
  then show ?case by (auto simp: out'(1) Q_def conj_assoc)
qed

lemma applyNumberRules_parse:
  assumes laws: "zod_laws parse"
    and "\<And>v. parse out v = (case v' v of Some (JNum n) \<Rightarrow> if P n then Some (v' v) else None | _ \<Rightarrow> None)"
  shows "parse (applyNumberRules out rules) v =
    (case v' v of Some (JNum n) \<Rightarrow> if P n \<and> list_all (\<lambda>r. number_rule_ok r n) rules then Some (v' v) else None | _ \<Rightarrow> None)"
  using assms(2-)
proof (induction rules arbitrary: out P)
  case Nil
  then show ?case by (simp add: applyNumberRules_def split: option.splits json.splits)
next
  case (Cons r rules)
  have "parse (applyNumberRule r out) v =
      (case v' v of Some (JNum n) \<Rightarrow> if P n \<and> number_rule_ok r n then Some (v' v) else None | _ \<Rightarrow> None)" for v
    by (cases "r_kind r"; cases "toNumber (r_param r)")
       (auto simp: applyNumberRule_def number_rule_ok_def lawsD(8) [OF laws] Cons.prems on_number_def
         split: option.splits json.splits)
  from Cons.IH [OF this] show ?case
    by (auto simp: applyNumberRules_def split: option.splits json.splits)
qed

lemma applyArrayRule_parse:
  assumes laws: "zod_laws parse" and "\<And>v. parse out v = guard_value (P v) v"
    and "\<And>v. P v \<Longrightarrow> \<exists>vs. v = Some (JArr vs) \<and> all_strings vs"
  shows "\<exists>c. (\<forall>v. parse (applyArrayRule env opts r out) v = guard_value (P v \<and> c v \<and> on_array (list_rule_ok r) v) v) \<and>
    (\<forall>v. all_options env opts v \<or> opts = [] \<longrightarrow> c v)"
  by (rule exI [of _ "\<lambda>v. r_kind r = R_enum \<and> opts \<noteq> [] \<longrightarrow> all_options env opts v"], cases "r_kind r")
     (auto simp: applyArrayRule_def lawsD(8) [OF laws] assms(2) on_array_def list_rule_ok_def
       split: option.splits json.splits)

lemma all_options_strings:
  "all_strings vs \<Longrightarrow> all_options env opts (Some (JArr vs)) \<longleftrightarrow> set vs \<subseteq> JStr ` set opts"
  by (induction vs) (auto simp: all_options_def on_array_def split: json.splits)

lemma applyArrayRules_parse:
  assumes laws: "zod_laws parse"
  shows "parse (applyArrayRules env opts Z_string_array rules) v =
    guard_value (case v of Some (JArr vs) \<Rightarrow> all_strings vs \<and> (opts \<noteq> [] \<longrightarrow> set vs \<subseteq> JStr ` set opts) \<and>
      list_all (\<lambda>r. list_rule_ok r vs) rules | _ \<Rightarrow> False) v"
proof -
  let ?P = "\<lambda>v. case v of Some (JArr vs) \<Rightarrow> all_strings vs | _ \<Rightarrow> False"
  have "\<exists>c. (\<forall>v. parse (foldl (\<lambda>out rule. applyArrayRule env opts rule out) out rules) v =
        guard_value (P v \<and> c v \<and> on_array (\<lambda>vs. list_all (\<lambda>r. list_rule_ok r vs) rules) v) v) \<and>
      (\<forall>v. all_options env opts v \<or> opts = [] \<longrightarrow> c v)"
    if "\<And>v. parse out v = guard_value (P v) v" "\<And>v. P v \<Longrightarrow> \<exists>vs. v = Some (JArr vs) \<and> all_strings vs" for out P
    using that
  proof (induction rules arbitrary: out P)
    case Nil
    then show ?case by (intro exI [of _ "\<lambda>v. True"]) (auto simp: on_array_def split: option.splits json.splits)
  next
    case (Cons r rules)
    from applyArrayRule_parse [OF laws Cons.prems] obtain c where
      c: "\<And>v. parse (applyArrayRule env opts r out) v = guard_value (P v \<and> c v \<and> on_array (list_rule_ok r) v) v"
      "\<And>v. all_options env opts v \<or> opts = [] \<Longrightarrow> c v" by blast
    from Cons.IH [OF c(1)] Cons.prems(2) obtain d where
      d: "\<And>v. parse (foldl (\<lambda>out rule. applyArrayRule env opts rule out) (applyArrayRule env opts r out) rules) v =
        guard_value ((P v \<and> c v \<and> on_array (list_rule_ok r) v) \<and> d v \<and>
          on_array (\<lambda>vs. list_all (\<lambda>r. list_rule_ok r vs) rules) v) v"
      "\<And>v. all_options env opts v \<or> opts = [] \<Longrightarrow> d v" by blast
    show ?case
      using c(2) d
      by (intro exI [of _ "\<lambda>v. c v \<and> d v"]) (auto simp: on_array_def split: option.splits json.splits)
  qed
  note folded = this
  have "\<exists>vs. w = Some (JArr vs) \<and> all_strings vs" if "?P w" for w
    using that by (auto split: option.splits json.splits)
  from folded [of Z_string_array ?P, OF lawsD(4) [OF laws] this] obtain c where
    c: "\<And>v. parse (foldl (\<lambda>out rule. applyArrayRule env opts rule out) Z_string_array rules) v =
        guard_value (?P v \<and> c v \<and> on_array (\<lambda>vs. list_all (\<lambda>r. list_rule_ok r vs) rules) v) v"
    "\<And>v. all_options env opts v \<or> opts = [] \<Longrightarrow> c v"
    by blast
  show ?thesis
  proof (cases "opts = []")
    case True
    with c(1) [of v] c(2) [of v] show ?thesis
      by (simp add: applyArrayRules_def Let_def on_array_def split: option.splits json.splits)
  next
    case False
    with c(2) [of v] show ?thesis
      by (auto simp: applyArrayRules_def Let_def lawsD(8) [OF laws] c(1) all_options_strings on_array_def
          split: option.splits json.splits)
  qed
qed

definition text_ok :: "form_env \<Rightarrow> form_field \<Rightarrow> form_rule list \<Rightarrow> form_value \<Rightarrow> bool" where
  "text_ok env field rules v =
     (case v of
        Some (JStr s) \<Rightarrow>
          (f_type field \<in> set choice_types \<and> f_options field \<noteq> [] \<longrightarrow> s = [] \<or> s \<in> set (f_options field)) \<and>
          list_all (\<lambda>r. text_rule_ok env (f_options field) r s) rules
      | _ \<Rightarrow> False)"

lemma typed_text_parse:
  assumes laws: "zod_laws parse" and t: "text_type (f_type field)" and "well_ordered env rules"
  shows "\<exists>s. typed_schema env field rules = Some s \<and> (\<forall>v. parse s v = guard_value (text_ok env field rules v) v)"
proof -
  have "parse (Z_string []) v = guard_value (is_str v) v" for v
    by (cases v rule: is_str.cases) (auto simp: lawsD(1) [OF laws])
  from applyStringRules_parse [OF laws assms(3) _ this, of "f_options field"] obtain s where s:
    "applyStringRules env (f_options field) rules (Z_string []) = Some s"
    "\<And>v. parse s v = guard_value (is_str v \<and> list_all (\<lambda>r. on_text (text_rule_ok env (f_options field) r) v) rules) v"
    by blast
  show ?thesis
  proof (cases "f_type field \<in> set choice_types \<and> f_options field \<noteq> []")
    case True
    with t have "typed_schema env field rules =
        Some (Z_refine s (on_text (\<lambda>x. x = [] \<or> x \<in> set (f_options field))))"
      by (auto simp: typed_schema_def text_type_def s(1) Let_def)
    moreover have "parse (Z_refine s (on_text (\<lambda>x. x = [] \<or> x \<in> set (f_options field)))) v =
        guard_value (text_ok env field rules v) v" for v
      using True by (auto simp: lawsD(8) [OF laws] s(2) text_ok_def on_text_def split: option.splits json.splits)
    ultimately show ?thesis by blast
  next
    case False
    with t s(1) have "typed_schema env field rules = Some s"
      by (auto simp: typed_schema_def text_type_def Let_def)
    moreover have "parse s v = guard_value (text_ok env field rules v) v" for v
      using False by (auto simp: s(2) text_ok_def on_text_def split: option.splits json.splits)
    ultimately show ?thesis by blast
  qed
qed

lemma text_ok_value_ok:
  "text_type (f_type field) \<Longrightarrow> \<not> isValueEmpty v \<Longrightarrow> text_ok env field rules v = value_ok env field rules v"
  by (auto simp: text_ok_def value_ok_def Let_def text_type_def js_trim_def split: option.splits json.splits)

lemma text_ok_str: "text_ok env field rules v \<Longrightarrow> is_str v"
  by (auto simp: text_ok_def split: option.splits json.splits)

lemma nonblank_text_iff: "nonblank_text v \<longleftrightarrow> is_str v \<and> \<not> isValueEmpty v"
  by (auto simp: nonblank_text_def split: option.splits json.splits)

lemma number_parse:
  assumes "zod_laws parse"
  shows "parse (applyNumberRules (Z_preprocess coerce_number Z_number) rules) v \<noteq> None \<longleftrightarrow>
    (case coerce_number v of Some (JNum n) \<Rightarrow> n \<noteq> NaN \<and> list_all (\<lambda>r. number_rule_ok r n) rules | _ \<Rightarrow> False)"
proof -
  have "parse (Z_preprocess coerce_number Z_number) v =
      (case coerce_number v of Some (JNum n) \<Rightarrow> if n \<noteq> NaN then Some (coerce_number v) else None | _ \<Rightarrow> None)" for v
    by (auto simp: lawsD(2,9) [OF assms] guard_value_def split: option.splits json.splits)
  from applyNumberRules_parse [OF assms this, of rules v] show ?thesis
    by (auto split: option.splits json.splits)
qed

lemma coerce_empty: "coerce_number None = None"
  by (simp add: coerce_number_def nullish_def)

text \<open>Which test a schema makes of a value that is there, and what it does to an empty one.\<close>

lemma fieldSchema_accepts:
  assumes laws: "zod_laws parse" and sec: "f_type field \<noteq> T_section" and reg: "regular env vals field v"
  shows "\<exists>s. fieldSchema env vals field = Some s \<and> (parse s v \<noteq> None \<longleftrightarrow> field_ok env vals field v)"
proof (cases "isFieldVisible (fe_num env) field vals")
  case False
  then show ?thesis by (simp add: fieldSchema_def field_ok_def lawsD(7,10) [OF laws])
next
  case vis: True
  let ?rules = "activeRules (fe_num env) field vals"
  let ?req = "isFieldRequired (fe_num env) field vals"
  let ?t = "f_type field"
  consider "text_type ?t" | "?t \<in> {T_number, T_currency}" | "?t = T_boolean" | "?t = T_daterange" | "?t = T_file"
    | "?t = T_multiselect"
    using sec by (auto simp: text_type_def)
  then show ?thesis
  proof cases
    case 1
    then have "well_ordered env ?rules" using reg by (simp add: regular_def Let_def)
    from typed_text_parse [OF laws 1 this] obtain s where s: "typed_schema env field ?rules = Some s"
      "\<And>v. parse s v = guard_value (text_ok env field ?rules v) v" by blast
    have t: "?t \<noteq> T_multiselect" "?t \<noteq> T_daterange" "?t \<noteq> T_boolean" "?t \<noteq> T_number" "?t \<noteq> T_currency" "?t \<noteq> T_file"
      using 1 by (auto simp: text_type_def)
    have "fieldSchema env vals field = Some (if ?req then Z_refine s nonblank_text
        else Z_preprocess empty_to_undefined (Z_optional s))"
      using vis t by (cases ?t) (auto simp: fieldSchema_def s(1) wrapRequiredness_def)
    moreover have "parse (Z_refine s nonblank_text) v \<noteq> None \<longleftrightarrow> \<not> isValueEmpty v \<and> value_ok env field ?rules v"
      using text_ok_value_ok [OF 1] by (auto simp: lawsD(8) [OF laws] s(2) nonblank_text_iff dest: text_ok_str)
    moreover have "parse (Z_preprocess empty_to_undefined (Z_optional s)) v \<noteq> None \<longleftrightarrow>
        isValueEmpty v \<or> value_ok env field ?rules v"
      using text_ok_value_ok [OF 1]
      by (cases v) (auto simp: lawsD(9,10) [OF laws] s(2) empty_to_undefined_def)
    ultimately show ?thesis using vis by (simp add: field_ok_def)
  next
    case 2
    then have s: "typed_schema env field ?rules = Some (applyNumberRules (Z_preprocess coerce_number Z_number) ?rules)"
      by (auto simp: typed_schema_def Let_def baseSchemaForType_def)
    have ok: "value_ok env field ?rules v = (case coerce_number v of
        Some (JNum n) \<Rightarrow> n \<noteq> NaN \<and> list_all (\<lambda>r. number_rule_ok r n) ?rules | _ \<Rightarrow> False)" for v
      using 2 by (auto simp: value_ok_def Let_def)
    show ?thesis
    proof (cases ?req)
      case True
      have "isValueEmpty v \<Longrightarrow> \<not> value_ok env field ?rules v"
        using reg 2 True
        by (cases v rule: isValueEmpty.cases)
           (auto simp: regular_def ok coerce_number_def nullish_def Let_def split: if_splits)
      with True vis 2 number_parse [OF laws, of ?rules v] show ?thesis
        by (auto simp: fieldSchema_def s wrapRequiredness_def field_ok_def ok)
    next
      case False
      with vis 2 number_parse [OF laws, of ?rules v] show ?thesis
        by (auto simp: fieldSchema_def s wrapRequiredness_def field_ok_def ok lawsD(9,10) [OF laws] empty_to_undefined_def)
    qed
  next
    case 3
    then show ?thesis
      using vis
      by (cases v rule: is_bool.cases)
         (auto simp: fieldSchema_def typed_schema_def Let_def baseSchemaForType_def wrapRequiredness_def field_ok_def
           value_ok_def lawsD(3,9,10) [OF laws] empty_to_undefined_def)
  next
    case 4
    then show ?thesis
      using vis reg
      by (cases v rule: isValueEmpty.cases)
         (auto simp: fieldSchema_def typed_schema_def Let_def baseSchemaForType_def wrapRequiredness_def field_ok_def
           value_ok_def regular_def lawsD(5,10) [OF laws])
  next
    case 5
    then show ?thesis
      using vis
      by (cases v rule: isValueEmpty.cases)
         (auto simp: fieldSchema_def typed_schema_def Let_def baseSchemaForType_def wrapRequiredness_def field_ok_def
           value_ok_def lawsD(6,8,9,10) [OF laws] empty_to_undefined_def)
  next
    case 6
    have ok: "value_ok env field ?rules w = (case w of
        Some (JArr vs) \<Rightarrow> all_strings vs \<and> (f_options field \<noteq> [] \<longrightarrow> set vs \<subseteq> JStr ` set (f_options field)) \<and>
          list_all (\<lambda>r. list_rule_ok r vs) ?rules | _ \<Rightarrow> False)" for w
      using 6 by (simp add: value_ok_def Let_def)
    from 6 vis reg show ?thesis
      by (cases v rule: isValueEmpty.cases)
         (auto simp: fieldSchema_def typed_schema_def Let_def baseSchemaForType_def wrapRequiredness_def field_ok_def
           ok regular_def applyArrayRules_parse [OF laws] lawsD(8,10) [OF laws])
  qed
qed

lemma buildShape_accepts:
  assumes laws: "zod_laws parse"
    and "distinct (map f_name (filter (\<lambda>f. f_type f \<noteq> T_section) fs))"
    and "fst ` set shape \<inter> f_name ` {f \<in> set fs. f_type f \<noteq> T_section} = {}"
    and "\<And>f. f \<in> set fs \<Longrightarrow> f_type f \<noteq> T_section \<Longrightarrow> regular env vals f (data (f_name f))"
  shows "\<exists>sh. buildShape env vals fs shape = Some sh \<and>
    ((\<forall>(k, s) \<in> set sh. parse s (data k) \<noteq> None) \<longleftrightarrow>
     (\<forall>(k, s) \<in> set shape. parse s (data k) \<noteq> None) \<and>
     (\<forall>f \<in> set fs. f_type f \<noteq> T_section \<longrightarrow> field_ok env vals f (data (f_name f))))"
  using assms(2-)
proof (induction fs arbitrary: shape)
  case Nil
  then show ?case by simp
next
  case (Cons f fs)
  show ?case
  proof (cases "f_type f = T_section")
    case True
    have "fst ` set shape \<inter> f_name ` {f \<in> set fs. f_type f \<noteq> T_section} = {}"
      using Cons.prems(2) by auto
    from Cons.IH [OF _ this] Cons.prems(1,3) True show ?thesis by simp
  next
    case False
    with Cons.prems(3) have "regular env vals f (data (f_name f))" by simp
    from fieldSchema_accepts [OF laws False this] obtain s where
      s: "fieldSchema env vals f = Some s" "parse s (data (f_name f)) \<noteq> None \<longleftrightarrow> field_ok env vals f (data (f_name f))"
      by blast
    have new: "AList.update (f_name f) s shape = shape @ [(f_name f, s)]"
      using Cons.prems(2) False by (intro update_fresh) auto
    have "fst ` set (shape @ [(f_name f, s)]) \<inter> f_name ` {f \<in> set fs. f_type f \<noteq> T_section} = {}"
      using Cons.prems(1,2) False by auto
    moreover have "distinct (map f_name (filter (\<lambda>f. f_type f \<noteq> T_section) fs))"
      using Cons.prems(1) False by simp
    moreover have "regular env vals g (data (f_name g))" if "g \<in> set fs" "f_type g \<noteq> T_section" for g
      using Cons.prems(3) that by simp
    ultimately have "\<exists>sh. buildShape env vals fs (shape @ [(f_name f, s)]) = Some sh \<and>
      ((\<forall>(k, s) \<in> set sh. parse s (data k) \<noteq> None) \<longleftrightarrow>
       (\<forall>(k, s) \<in> set (shape @ [(f_name f, s)]). parse s (data k) \<noteq> None) \<and>
       (\<forall>f \<in> set fs. f_type f \<noteq> T_section \<longrightarrow> field_ok env vals f (data (f_name f))))"
      by (intro Cons.IH)
    then obtain sh where
      "buildShape env vals fs (shape @ [(f_name f, s)]) = Some sh"
      "(\<forall>(k, s) \<in> set sh. parse s (data k) \<noteq> None) \<longleftrightarrow>
       (\<forall>(k, s) \<in> set (shape @ [(f_name f, s)]). parse s (data k) \<noteq> None) \<and>
       (\<forall>f \<in> set fs. f_type f \<noteq> T_section \<longrightarrow> field_ok env vals f (data (f_name f)))"
      by (elim exE conjE)
    with False s new show ?thesis by auto
  qed
qed

text \<open>C21. When the fields have different names and every field is regular for its value, the compiler returns a schema,
  and the schema accepts a submission exactly when every field passes the checks in the order the backend
  makes them: hidden fields are not looked at, an empty value is refused exactly when the field is required, and
  any other value must have the type of its field and satisfy every active rule.\<close>

theorem compiled_form_accepts:
  assumes "zod_laws parse"
    and "distinct (map f_name (filter (\<lambda>f. f_type f \<noteq> T_section) fs))"
    and "\<forall>f \<in> set fs. f_type f \<noteq> T_section \<longrightarrow> regular env vals f (json_get (JObj es) (f_name f))"
  shows "\<exists>schema. buildDynamicZodSchema env fs vals = Some schema \<and>
    (parse schema (Some (JObj es)) \<noteq> None \<longleftrightarrow>
     (\<forall>f \<in> set fs. f_type f \<noteq> T_section \<longrightarrow> field_ok env vals f (json_get (JObj es) (f_name f))))"
proof -
  have "fst ` set [] \<inter> f_name ` {f \<in> set fs. f_type f \<noteq> T_section} = {}" by simp
  from buildShape_accepts [OF assms(1,2) this, of env vals "json_get (JObj es)", OF assms(3) [rule_format]] obtain sh where sh:
    "buildShape env vals fs [] = Some sh"
    "(\<forall>(k, s) \<in> set sh. parse s (json_get (JObj es) k) \<noteq> None) \<longleftrightarrow>
     (\<forall>f \<in> set fs. f_type f \<noteq> T_section \<longrightarrow> field_ok env vals f (json_get (JObj es) (f_name f)))"
    by (simp only: list.set ball_simps simp_thms) blast
  show ?thesis
    unfolding buildDynamicZodSchema_def sh(1)
    using lawsD(11) [OF assms(1), of sh es] sh(2) by (simp only: option.map) blast
qed

theorem compiled_form_accepts_witness:
  "\<exists>schema. buildDynamicZodSchema \<lparr>fe_regexp = (\<lambda>p. None), fe_url = (\<lambda>u. None), fe_num = (\<lambda>n. ''NaN'')\<rparr>
      [\<lparr>f_name = ''a'', f_type = T_text, f_required = True, f_options = [], f_validation = [], f_visibleWhen = [],
        f_requiredWhen = []\<rparr>] [] = Some schema \<and>
    sample_parse schema (Some (JObj [(''a'', JStr ''x'')])) \<noteq> None"
proof -
  let ?env = "\<lparr>fe_regexp = (\<lambda>p. None), fe_url = (\<lambda>u. None), fe_num = (\<lambda>n. ''NaN'')\<rparr> :: form_env"
  let ?f = "\<lparr>f_name = ''a'', f_type = T_text, f_required = True, f_options = [], f_validation = [], f_visibleWhen = [],
        f_requiredWhen = []\<rparr> :: form_field"
  have "js_trim ''x'' \<noteq> []" by code_simp
  then show ?thesis
    using compiled_form_accepts [OF sample_parse_laws, of "[?f]" ?env "[]" "[(''a'', JStr ''x'')]"]
    by (simp add: regular_def activeRules_def text_type_def field_ok_def isFieldVisible_def conditionsHold_def
        json_get_def value_ok_def Let_def choice_types_def)
qed

subsection \<open>Where the order of the rules matters\<close>

definition length_rule :: "form_rule \<Rightarrow> bool" where
  "length_rule rule \<longleftrightarrow> r_kind rule = R_minLength \<or> r_kind rule = R_maxLength"

fun late_length :: "form_env \<Rightarrow> form_rule list \<Rightarrow> bool" where
  "late_length env [] = False"
| "late_length env (r # rs) = (refining env r \<and> list_ex length_rule rs \<or> late_length env rs)"

lemma applyStringRules_refined:
  "applyStringRules env opts rules (Z_refine s p) = None \<longleftrightarrow> list_ex length_rule rules"
proof (induction rules arbitrary: s p)
  case Nil
  then show ?case by simp
next
  case (Cons r rules)
  show ?case
    by (cases "r_kind r"; cases "fe_regexp env (pattern_param (r_param r))")
       (simp_all add: applyStringRule_def length_rule_def Cons.IH Let_def)
qed

text \<open>C22. Compiling the rules of a text field throws exactly when a minimum or maximum length stands behind a rule that
  refines the schema: an email, url, uuid, cron or enum rule, or a pattern that does not compile.\<close>

theorem late_length_rule_throws:
  "applyStringRules env opts rules (Z_string cs) = None \<longleftrightarrow> late_length env rules"
proof (induction rules arbitrary: cs)
  case Nil
  then show ?case by simp
next
  case (Cons r rules)
  have late: "late_length env rules \<Longrightarrow> list_ex length_rule rules"
    by (induction rules) auto
  show ?case
    by (cases "r_kind r"; cases "fe_regexp env (pattern_param (r_param r))")
       (use late in \<open>auto simp: applyStringRule_def refining_def Cons.IH applyStringRules_refined Let_def\<close>)
qed

text \<open>
  A pattern behind such a rule does not throw: the missing method throws inside the \<open>try\<close> of the pattern rule,
  which then refuses every value, whatever the pattern.
\<close>

lemma pattern_behind_email_refuses_all:
  assumes "zod_laws parse" "r_kind r1 = R_email" "r_kind r2 = R_pattern"
  shows "\<exists>s. applyStringRules env opts [r1, r2] (Z_string []) = Some s \<and> (\<forall>v. parse s v = None)"
  using assms(2,3)
  by (auto simp: applyStringRule_def lawsD(8) [OF assms(1)] split: option.splits)

text \<open>White space satisfies a required number field, as zero, although it counts as an empty value.\<close>

lemma blank_required_number_is_zero:
  assumes "zod_laws parse"
  shows "parse (wrapRequiredness (baseSchemaForType T_number) T_number True) (Some (JStr '' '')) = Some (Some (JNum (Fin 0)))"
    and "isValueEmpty (Some (JStr '' ''))"
proof -
  have "js_Number '' '' = Fin 0" "js_trim '' '' = []" by code_simp+
  then show "parse (wrapRequiredness (baseSchemaForType T_number) T_number True) (Some (JStr '' '')) =
      Some (Some (JNum (Fin 0)))" "isValueEmpty (Some (JStr '' ''))"
    by (simp_all add: wrapRequiredness_def baseSchemaForType_def lawsD(2,9) [OF assms] guard_value_def
        coerce_number_def nullish_def)
qed

text \<open>An optional list left empty is still held to its minimum length, and \<open>null\<close> is refused.\<close>

lemma empty_optional_list_refused:
  assumes "zod_laws parse"
  shows "parse (wrapRequiredness (applyArrayRules env [] Z_string_array
        [\<lparr>r_kind = R_minLength, r_param = Some (JNum (Fin 1)), r_when = []\<rparr>]) T_multiselect False) (Some (JArr [])) = None"
    and "parse (wrapRequiredness (applyArrayRules env [] Z_string_array []) T_multiselect False) (Some JNull) = None"
  by (simp_all add: wrapRequiredness_def lawsD(10) [OF assms] applyArrayRules_parse [OF assms] list_rule_ok_def
      length_param_def js_ge_def js_num_eq_def)

end
