(* ===== verification/TaskActions.thy ===== *)
theory TaskActions
  imports Web
begin

section \<open>Human tasks\<close>

text \<open>
  The task predicates at the end of \<open>lib/workflow-utils.ts\<close>: who may claim and delegate a human task, and how its
  deadline is shown. Roles are slug and name; \<open>differenceInHours\<close> of date-fns, truncated whole hours, is given by
  its result.
\<close>

datatype task_status =
  Task_pending | Task_claimed | Task_completed | Task_rejected | Task_escalated | Task_cancelled

record task_role =
  tr_slug :: string
  tr_name :: string

record task_user =
  tu_id :: string
  tu_roles :: "task_role list"

record human_task =
  ht_status :: task_status
  ht_claimed_by :: "string option"
  ht_assignee_id :: "string option"
  ht_assignee_role :: "string option"
  ht_sla_deadline :: "string option"
  ht_sla_breached :: bool

definition given :: "string option \<Rightarrow> bool" where
  "given x \<longleftrightarrow> x \<noteq> None \<and> x \<noteq> Some []"

definition canClaimTask :: "human_task \<Rightarrow> task_user option \<Rightarrow> bool" where
  "canClaimTask task user =
     (case user of
        None \<Rightarrow> False
      | Some u \<Rightarrow>
          if ht_status task \<noteq> Task_pending \<or> ht_claimed_by task \<noteq> None then False
          else if given (ht_assignee_id task) \<and> ht_assignee_id task = Some (tu_id u) then True
          else if \<not> given (ht_assignee_role task) then True
          else list_ex (\<lambda>role. ht_assignee_role task = Some (tr_slug role) \<or> ht_assignee_role task = Some (tr_name role))
                 (tu_roles u))"

definition canDelegateTask :: "human_task \<Rightarrow> task_user option \<Rightarrow> bool" where
  "canDelegateTask task user =
     (case user of
        None \<Rightarrow> False
      | Some u \<Rightarrow>
          if ht_claimed_by task = Some (tu_id u) then True
          else list_ex (\<lambda>role. let normalized = js_toLowerCase (tr_slug role)
                               in js_includes normalized ''admin'' \<or> js_includes normalized ''manager'') (tu_roles u))"

record sla_view =
  sv_text :: string
  sv_urgent :: bool

text \<open>\<open>hours\<close> is \<open>differenceInHours(deadline, now)\<close>, negative after the deadline.\<close>

definition formatSLAStatus :: "int \<Rightarrow> human_task \<Rightarrow> sla_view" where
  "formatSLAStatus hours task =
     (if \<not> given (ht_sla_deadline task) then \<lparr>sv_text = ''No deadline'', sv_urgent = False\<rparr>
      else if ht_sla_breached task
      then (let hoursOverdue = \<bar>- hours\<bar>
            in \<lparr>sv_text = (if hoursOverdue < 1 then ''Overdue by <1h'' else ''Overdue by '' @ int_text hoursOverdue @ ''h''),
                sv_urgent = True\<rparr>)
      else if hours \<le> 4
      then \<lparr>sv_text = (if hours < 1 then ''<1h left'' else int_text hours @ ''h left''), sv_urgent = True\<rparr>
      else (let daysLeft = hours div 24
            in if daysLeft = 0 then \<lparr>sv_text = int_text hours @ ''h left'', sv_urgent = False\<rparr>
               else \<lparr>sv_text = int_text daysLeft @ ''d left'', sv_urgent = False\<rparr>))"

text \<open>Claiming is for a pending, unclaimed task, and for the assignee, the holders of its role, or anyone when it has no role.\<close>

lemma canClaimTask_iff:
  "canClaimTask task (Some u) \<longleftrightarrow>
     ht_status task = Task_pending \<and> ht_claimed_by task = None \<and>
     (given (ht_assignee_id task) \<and> ht_assignee_id task = Some (tu_id u) \<or> \<not> given (ht_assignee_role task) \<or>
      (\<exists>role \<in> set (tu_roles u). ht_assignee_role task \<in> {Some (tr_slug role), Some (tr_name role)}))"
  by (auto simp: canClaimTask_def list_ex_iff)

text \<open>A task assigned to one person, without a role, can be claimed by every other user.\<close>

lemma personal_task_open_to_all:
  "ht_status task = Task_pending \<Longrightarrow> ht_claimed_by task = None \<Longrightarrow> ht_assignee_role task = None \<Longrightarrow>
   ht_assignee_id task = Some owner \<Longrightarrow> canClaimTask task (Some u)"
  by (simp add: canClaimTask_def given_def)

text \<open>A task past its deadline that is not marked as breached yet still shows as having under an hour left.\<close>

lemma overdue_unmarked_shows_time_left:
  "given (ht_sla_deadline task) \<Longrightarrow> \<not> ht_sla_breached task \<Longrightarrow> hours < 0 \<Longrightarrow>
   formatSLAStatus hours task = \<lparr>sv_text = ''<1h left'', sv_urgent = True\<rparr>"
  by (simp add: formatSLAStatus_def)

end
