(* ===== verification/Permissions.thy ===== *)
theory Permissions
  imports Prelude
begin

section \<open>Permission resolution and the Lex permission registry\<close>

text \<open>
  The wildcard resolver \<open>checkPermission\<close> of \<open>frontend/src/stores/auth-store.ts\<close> with its
  three lex tables, the requirement evaluators \<open>canAccess\<close> and \<open>canAccessWith\<close> and the
  route, navigation and role registries of \<open>frontend/src/lib/permissions.ts\<close> and
  \<open>frontend/src/components/lex/access\<close>. The interface \<open>resolver\<close> collects what the gates
  rely on: a decision that is monotone in the held keys and grants exact and super keys.
\<close>

subsection \<open>The resolver\<close>

definition LEX_CONFIG_DOMAINS :: "string list" where
  "LEX_CONFIG_DOMAINS =
     [''sla'', ''escalation'', ''catalog'', ''notification'', ''role'', ''integration'', ''security'']"

definition LEX_OPERATIONAL_VERBS :: "string list" where
  "LEX_OPERATIONAL_VERBS = [''add'', ''edit'', ''approve'', ''close'', ''assign'', ''distribute'']"

definition LEX_DOMAIN_VERBS :: "(string \<times> string list) list" where
  "LEX_DOMAIN_VERBS = [
     (''request'', [''view'', ''add'', ''edit'', ''approve'', ''close'']),
     (''case'', [''view'', ''add'', ''edit'', ''assign'', ''approve'', ''close'']),
     (''investigation'', [''view'', ''add'', ''edit'', ''approve'', ''close'']),
     (''settlement'', [''view'', ''add'', ''edit'', ''approve'', ''close'']),
     (''contract'', [''view'', ''add'', ''edit'', ''distribute'', ''approve'', ''close'']),
     (''consultation'', [''view'', ''add'', ''edit'', ''approve'', ''close'']),
     (''document'', [''view'', ''add'', ''edit'']),
     (''report'', [''read'']),
     (''notification'', [''view'', ''edit'', ''manage'']),
     (''sla'', [''view'', ''manage'']),
     (''escalation'', [''view'', ''manage'']),
     (''catalog'', [''view'', ''manage'']),
     (''role'', [''view'', ''assign'', ''manage'']),
     (''audit'', [''read'']),
     (''integration'', [''read'', ''manage'']),
     (''security'', [''view'', ''manage'']),
     (''reference'', [''view''])]"

text \<open>The verb implication block at the end of \<open>checkPermission\<close>.\<close>

definition lex_implied :: "string list \<Rightarrow> string list \<Rightarrow> bool" where
  "lex_implied userPermissions segments =
     (case segments of
        [suite, domn, verb] \<Rightarrow>
          suite = ''lex'' \<and>
          (case map_of LEX_DOMAIN_VERBS domn of
             None \<Rightarrow> False
           | Some domainVerbs \<Rightarrow>
               verb \<in> set domainVerbs \<and>
               (verb \<noteq> ''manage'' \<and> domn \<in> set LEX_CONFIG_DOMAINS \<and>
                  ''lex:'' @ domn @ '':manage'' \<in> set userPermissions
                \<or> verb = ''view'' \<and>
                  list_ex (\<lambda>op. ''lex:'' @ domn @ '':'' @ op \<in> set userPermissions)
                    LEX_OPERATIONAL_VERBS))
      | _ \<Rightarrow> False)"

definition checkPermission :: "string list \<Rightarrow> string \<Rightarrow> bool" where
  "checkPermission userPermissions required =
     (if userPermissions = [] then False
      else if ''*'' \<in> set userPermissions then True
      else if required \<in> set userPermissions then True
      else
        let segments = js_split CHR '':'' required in
        if list_ex (\<lambda>i. js_join '':'' (take i segments) @ '':*'' \<in> set userPermissions)
             [1..<length segments] then True
        else if 2 \<le> length segments \<and> ''*:'' @ last segments \<in> set userPermissions then True
        else lex_implied userPermissions segments)"

subsection \<open>Requirements\<close>

text \<open>A requirement as a union type; the empty string is falsy, like an absent requirement.\<close>

datatype requirement = Key string | AnyOf "string list" | AllOf "string list"

definition canAccess :: "string list \<Rightarrow> requirement option \<Rightarrow> bool" where
  "canAccess permissions req =
     (case req of
        None \<Rightarrow> True
      | Some (Key k) \<Rightarrow> k = [] \<or> checkPermission permissions k
      | Some (AnyOf ks) \<Rightarrow> list_ex (checkPermission permissions) ks
      | Some (AllOf ks) \<Rightarrow> list_all (checkPermission permissions) ks)"

definition canAccessWith :: "(string \<Rightarrow> bool) \<Rightarrow> requirement option \<Rightarrow> bool" where
  "canAccessWith hasPermission req =
     (case req of
        None \<Rightarrow> True
      | Some (Key k) \<Rightarrow> k = [] \<or> hasPermission k
      | Some (AnyOf ks) \<Rightarrow> list_ex hasPermission ks
      | Some (AllOf ks) \<Rightarrow> list_all hasPermission ks)"

text \<open>\<open>requirementKeys\<close> and \<open>describeRequirement\<close> of the access-denied page.\<close>

definition requirementKeys :: "requirement option \<Rightarrow> string list" where
  "requirementKeys req =
     (case req of
        None \<Rightarrow> []
      | Some (Key k) \<Rightarrow> (if k = [] then [] else [k])
      | Some (AnyOf ks) \<Rightarrow> ks
      | Some (AllOf ks) \<Rightarrow> ks)"

definition describeRequirement :: "requirement option \<Rightarrow> string \<Rightarrow> string \<Rightarrow> string" where
  "describeRequirement req l_and l_or =
     (let keys = requirementKeys req in
      if length keys \<le> 1 then (case keys of [] \<Rightarrow> [] | k # _ \<Rightarrow> k)
      else case req of
        Some (AllOf _) \<Rightarrow> js_join ('' '' @ l_and @ '' '') keys
      | _ \<Rightarrow> js_join ('' '' @ l_or @ '' '') keys)"

subsection \<open>The registries\<close>

definition lex_routes_business :: "(string \<times> requirement) list" where
  "lex_routes_business = [
     (''/lex'', AnyOf [''lex:request:view'', ''lex:case:view'', ''lex:contract:view'',
        ''lex:consultation:view'', ''lex:audit:read'', ''lex:catalog:view'', ''lex:role:view'',
        ''lex:integration:read'', ''lex:read'']),
     (''/lex/service-desk'', Key ''lex:request:view''),
     (''/lex/service-desk/new'', Key ''lex:request:add''),
     (''/lex/service-desk/[id]'', Key ''lex:request:view''),
     (''/lex/approvals/requests'', Key ''lex:request:approve''),
     (''/lex/approvals/requests/[id]'', Key ''lex:request:approve''),
     (''/lex/approvals/escalations'', AnyOf [''lex:request:approve'', ''lex:escalation:view'',
        ''lex:escalation:manage''])]"

definition lex_routes_matters :: "(string \<times> requirement) list" where
  "lex_routes_matters = [
     (''/lex/cases'', Key ''lex:case:view''),
     (''/lex/cases/control'', AllOf [''lex:case:view'', ''lex:investigation:view'']),
     (''/lex/cases/control/overview'', AllOf [''lex:case:view'', ''lex:investigation:view'']),
     (''/lex/cases/control/assignment'', AllOf [''lex:case:view'', ''lex:investigation:view'']),
     (''/lex/cases/control/litigation'', AllOf [''lex:case:view'', ''lex:investigation:view'']),
     (''/lex/cases/new'', Key ''lex:case:add''),
     (''/lex/cases/[id]'', Key ''lex:case:view''),
     (''/lex/case-timeline'', Key ''lex:case:view''),
     (''/lex/investigations'', Key ''lex:investigation:view''),
     (''/lex/investigations/new'', Key ''lex:investigation:add''),
     (''/lex/investigations/[id]'', Key ''lex:investigation:view''),
     (''/lex/investigations/[id]/report'', Key ''lex:investigation:view''),
     (''/lex/settlements'', Key ''lex:settlement:view''),
     (''/lex/settlements/new'', Key ''lex:settlement:add''),
     (''/lex/settlements/[id]'', Key ''lex:settlement:view''),
     (''/lex/contracts'', Key ''lex:contract:view''),
     (''/lex/contracts/new'', Key ''lex:contract:add''),
     (''/lex/contracts/control'', AnyOf [''lex:contract:view'', ''lex:consultation:view'']),
     (''/lex/contracts/control/assignment'', AnyOf [''lex:contract:view'',
        ''lex:consultation:view'']),
     (''/lex/contracts/[id]'', Key ''lex:contract:view''),
     (''/lex/contracts/archived'', Key ''lex:contract:view''),
     (''/lex/consultations'', Key ''lex:consultation:view''),
     (''/lex/consultations/new'', Key ''lex:consultation:add''),
     (''/lex/consultations/[id]'', Key ''lex:consultation:view''),
     (''/lex/consultations/[id]/response'', Key ''lex:consultation:view''),
     (''/lex/consultations/archive'', Key ''lex:consultation:view'')]"

definition lex_routes_knowledge :: "(string \<times> requirement) list" where
  "lex_routes_knowledge = [
     (''/lex/documents'', Key ''lex:document:view''),
     (''/lex/documents/new'', Key ''lex:document:add''),
     (''/lex/library'', AnyOf [''lex:reference:view'', ''lex:read'']),
     (''/lex/knowledge-hub'', AnyOf [''lex:reference:view'', ''lex:read'']),
     (''/lex/learning-centre'', AnyOf [''lex:reference:view'', ''lex:read'']),
     (''/lex/policies'', AnyOf [''lex:catalog:view'', ''lex:reference:view'', ''lex:audit:read'']),
     (''/lex/drafting'', AnyOf [''lex:document:add'', ''lex:document:edit'',
        ''lex:contract:add'', ''lex:contract:edit'', ''lex:consultation:add'',
        ''lex:consultation:edit'']),
     (''/lex/workflow-policies'', AnyOf [''lex:approval:read'', ''lex:read'']),
     (''/lex/playbooks'', AnyOf [''lex:catalog:view'', ''lex:document:view'']),
     (''/lex/clause-library'', AnyOf [''lex:catalog:view'', ''lex:contract:view'']),
     (''/lex/regulations'', AnyOf [''lex:catalog:view'', ''lex:audit:read''])]"

definition lex_routes_insight :: "(string \<times> requirement) list" where
  "lex_routes_insight = [
     (''/lex/reports/analytics'', Key ''lex:report:read''),
     (''/lex/reports/builder'', Key ''lex:report:read''),
     (''/lex/analytics/risk'', AnyOf [''lex:report:read'', ''lex:audit:read'']),
     (''/lex/compliance'', Key ''lex:audit:read''),
     (''/lex/audit'', Key ''lex:audit:read''),
     (''/lex/entities'', AnyOf [''lex:report:read'', ''lex:audit:read'']),
     (''/lex/calendar'', AnyOf [''lex:request:view'', ''lex:case:view'', ''lex:contract:view'',
        ''lex:consultation:view'']),
     (''/lex/inbox'', AnyOf [''lex:support:view'', ''lex:support:create'',
        ''lex:support:respond'', ''lex:request:view'', ''lex:case:view'', ''lex:contract:view'',
        ''lex:consultation:view'']),
     (''/lex/tasks'', AnyOf [''lex:contract:view'', ''lex:consultation:view'', ''lex:read''])]"

definition lex_routes_admin :: "(string \<times> requirement) list" where
  "lex_routes_admin = [
     (''/lex/admin'', AnyOf [''lex:catalog:view'', ''lex:catalog:manage'', ''lex:sla:view'',
        ''lex:sla:manage'', ''lex:escalation:view'', ''lex:escalation:manage'',
        ''lex:notification:view'', ''lex:notification:manage'', ''lex:role:view'',
        ''lex:role:assign'', ''lex:role:manage'', ''lex:integration:read'',
        ''lex:integration:manage'', ''lex:security:view'', ''lex:security:manage'',
        ''lex:approval:read'', ''lex:approval:admin'']),
     (''/lex/admin/working-calendars'', AnyOf [''lex:catalog:view'', ''lex:catalog:manage'']),
     (''/lex/admin/service-catalog'', AnyOf [''lex:catalog:view'', ''lex:catalog:manage'']),
     (''/lex/admin/service-catalog/*'', AnyOf [''lex:catalog:view'', ''lex:catalog:manage'']),
     (''/lex/admin/sla-targets'', AnyOf [''lex:sla:view'', ''lex:sla:manage'']),
     (''/lex/admin/sla-targets/*'', AnyOf [''lex:sla:view'', ''lex:sla:manage'']),
     (''/lex/admin/escalations'', AnyOf [''lex:escalation:view'', ''lex:escalation:manage'']),
     (''/lex/admin/escalations/*'', Key ''lex:escalation:manage''),
     (''/lex/admin/attachment-policies'', AnyOf [''lex:catalog:view'', ''lex:catalog:manage'']),
     (''/lex/admin/attachment-policies/*'', AnyOf [''lex:catalog:view'', ''lex:catalog:manage'']),
     (''/lex/admin/org-entities'', AnyOf [''lex:security:view'', ''lex:security:manage'']),
     (''/lex/admin/org-entities/*'', AnyOf [''lex:security:view'', ''lex:security:manage'']),
     (''/lex/admin/classifications'', AnyOf [''lex:catalog:view'', ''lex:catalog:manage'']),
     (''/lex/admin/classifications/*'', AnyOf [''lex:catalog:view'', ''lex:catalog:manage'']),
     (''/lex/admin/courts'', AnyOf [''lex:catalog:view'', ''lex:catalog:manage'']),
     (''/lex/admin/courts/*'', AnyOf [''lex:catalog:view'', ''lex:catalog:manage'']),
     (''/lex/admin/legal-holds'', AnyOf [''lex:read'', ''lex:write'']),
     (''/lex/admin/request-approval-policies'', AnyOf [''lex:approval:read'',
        ''lex:approval:admin'']),
     (''/lex/admin/request-approval-policies/*'', AnyOf [''lex:approval:read'',
        ''lex:approval:admin'']),
     (''/lex/admin/contract-approval-policies'', AnyOf [''lex:approval:read'',
        ''lex:approval:admin'']),
     (''/lex/admin/contract-approval-policies/*'', AnyOf [''lex:approval:read'',
        ''lex:approval:admin'']),
     (''/lex/admin/integrations'', AnyOf [''lex:integration:read'', ''lex:integration:manage'']),
     (''/lex/admin/integrations/*'', AnyOf [''lex:integration:read'', ''lex:integration:manage'']),
     (''/lex/admin/role-matrix'', AnyOf [''lex:role:view'', ''lex:role:manage'']),
     (''/lex/admin/role-assignments'', Key ''lex:role:assign''),
     (''/lex/admin/roles'', Key ''lex:role:manage''),
     (''/lex/admin/security'', AnyOf [''lex:security:view'', ''lex:security:manage'']),
     (''/lex/admin/security/*'', Key ''lex:security:manage''),
     (''/lex/notifications'', AnyOf [''lex:notification:view'', ''lex:notification:manage'']),
     (''/lex/notifications/*'', Key ''lex:notification:manage'')]"

text \<open>\<open>LEX_ROUTE_PERMISSIONS\<close>, in the order of its sections.\<close>

definition LEX_ROUTE_PERMISSIONS :: "(string \<times> requirement) list" where
  "LEX_ROUTE_PERMISSIONS =
     lex_routes_business @ lex_routes_matters @ lex_routes_knowledge @ lex_routes_insight @
     lex_routes_admin"

definition LEX_ADMIN_NAV_PERMISSIONS :: "(string \<times> requirement) list" where
  "LEX_ADMIN_NAV_PERMISSIONS = [
     (''group'', AnyOf [''lex:catalog:view'', ''lex:catalog:manage'', ''lex:sla:view'',
        ''lex:sla:manage'', ''lex:escalation:view'', ''lex:escalation:manage'',
        ''lex:notification:view'', ''lex:notification:manage'', ''lex:role:view'',
        ''lex:role:assign'', ''lex:role:manage'', ''lex:integration:read'',
        ''lex:integration:manage'', ''lex:security:view'', ''lex:security:manage'',
        ''lex:approval:read'', ''lex:approval:admin'']),
     (''workingCalendars'', AnyOf [''lex:catalog:view'', ''lex:catalog:manage'']),
     (''serviceCatalog'', AnyOf [''lex:catalog:view'', ''lex:catalog:manage'']),
     (''slaTargets'', AnyOf [''lex:sla:view'', ''lex:sla:manage'']),
     (''escalations'', AnyOf [''lex:escalation:view'', ''lex:escalation:manage'']),
     (''attachmentPolicies'', AnyOf [''lex:catalog:view'', ''lex:catalog:manage'']),
     (''orgEntities'', AnyOf [''lex:security:view'', ''lex:security:manage'']),
     (''classifications'', AnyOf [''lex:catalog:view'', ''lex:catalog:manage'']),
     (''legalHolds'', AnyOf [''lex:read'', ''lex:write'']),
     (''approvalPolicies'', AnyOf [''lex:approval:read'', ''lex:approval:admin'']),
     (''contractApprovalPolicies'', AnyOf [''lex:approval:read'', ''lex:approval:admin'']),
     (''integrations'', AnyOf [''lex:integration:read'', ''lex:integration:manage'']),
     (''roleMatrix'', AnyOf [''lex:role:view'', ''lex:role:manage''])]"

definition LEX_ROLE_PERMISSIONS :: "(string \<times> string list) list" where
  "LEX_ROLE_PERMISSIONS = [
     (''legal-requester'', [''lex:support:view'', ''lex:support:create'', ''lex:request:view'',
        ''lex:request:add'', ''lex:request:edit'', ''lex:contract:view'', ''lex:contract:add'',
        ''lex:consultation:view'', ''lex:consultation:add'', ''lex:document:view'',
        ''lex:document:add'', ''lex:report:read'', ''lex:read'']),
     (''legal-dept-manager'', [''lex:request:view'', ''lex:request:add'', ''lex:request:edit'',
        ''lex:request:approve'', ''lex:case:view'', ''lex:case:add'', ''lex:consultation:view'',
        ''lex:consultation:add'', ''lex:contract:view'', ''lex:contract:add'',
        ''lex:contract:edit'', ''lex:document:add'', ''lex:report:read'', ''lex:read'']),
     (''legal-bu-ceo'', [''lex:request:view'', ''lex:request:add'', ''lex:request:edit'',
        ''lex:request:approve'', ''lex:case:view'', ''lex:contract:view'', ''lex:document:view'',
        ''lex:report:read'', ''lex:read'']),
     (''legal-ceo'', [''lex:request:view'', ''lex:request:add'', ''lex:request:edit'',
        ''lex:request:approve'', ''lex:case:view'', ''lex:case:add'', ''lex:contract:view'',
        ''lex:report:read'', ''lex:read'']),
     (''legal-director'', [''lex:support:view'', ''lex:support:create'', ''lex:support:respond'',
        ''lex:support:oversee'', ''lex:request:view'', ''lex:request:add'', ''lex:request:edit'',
        ''lex:request:approve'', ''lex:request:close'', ''lex:case:view'', ''lex:case:add'',
        ''lex:case:edit'', ''lex:case:assign'', ''lex:case:approve'', ''lex:case:close'',
        ''lex:investigation:view'', ''lex:investigation:add'', ''lex:investigation:edit'',
        ''lex:investigation:approve'', ''lex:investigation:close'', ''lex:settlement:view'',
        ''lex:settlement:add'', ''lex:settlement:edit'', ''lex:settlement:approve'',
        ''lex:settlement:close'', ''lex:contract:view'', ''lex:contract:add'',
        ''lex:contract:edit'', ''lex:contract:distribute'', ''lex:contract:approve'',
        ''lex:contract:close'', ''lex:consultation:view'', ''lex:consultation:add'',
        ''lex:consultation:edit'', ''lex:consultation:approve'', ''lex:consultation:close'',
        ''lex:document:view'', ''lex:document:add'', ''lex:document:edit'',
        ''lex:notification:edit'', ''lex:report:read'', ''lex:sla:manage'',
        ''lex:escalation:manage'', ''lex:catalog:manage'', ''lex:role:view'', ''lex:audit:read'',
        ''lex:integration:read'', ''lex:security:view'', ''lex:approval:admin'', ''lex:read'',
        ''lex:write'']),
     (''legal-cases-manager'', [''lex:support:view'', ''lex:support:create'',
        ''lex:support:respond'', ''lex:support:oversee'', ''lex:request:view'',
        ''lex:request:edit'', ''lex:request:approve'', ''lex:case:view'', ''lex:case:add'',
        ''lex:case:edit'', ''lex:case:assign'', ''lex:case:approve'', ''lex:case:close'',
        ''lex:investigation:view'', ''lex:investigation:approve'', ''lex:investigation:close'',
        ''lex:settlement:view'', ''lex:settlement:approve'', ''lex:settlement:close'',
        ''lex:document:view'', ''lex:document:add'', ''lex:document:edit'', ''lex:report:read'',
        ''lex:read'', ''lex:write'']),
     (''legal-contracts-manager'', [''lex:support:view'', ''lex:support:create'',
        ''lex:support:respond'', ''lex:support:oversee'', ''lex:request:view'',
        ''lex:request:approve'', ''lex:contract:view'', ''lex:contract:add'',
        ''lex:contract:edit'', ''lex:contract:distribute'', ''lex:contract:approve'',
        ''lex:contract:close'', ''lex:consultation:view'', ''lex:consultation:add'',
        ''lex:consultation:edit'', ''lex:consultation:approve'', ''lex:consultation:close'',
        ''lex:document:view'', ''lex:document:add'', ''lex:document:edit'', ''lex:report:read'',
        ''lex:read'', ''lex:write'']),
     (''legal-case-supervisor'', [''lex:support:view'', ''lex:support:create'',
        ''lex:support:respond'', ''lex:support:oversee'', ''lex:request:view'',
        ''lex:request:approve'', ''lex:case:view'', ''lex:case:edit'', ''lex:case:approve'',
        ''lex:investigation:view'', ''lex:investigation:edit'', ''lex:settlement:view'',
        ''lex:settlement:edit'', ''lex:document:view'', ''lex:document:add'',
        ''lex:document:edit'', ''lex:read'', ''lex:write'']),
     (''legal-contracts-supervisor'', [''lex:support:view'', ''lex:support:create'',
        ''lex:support:respond'', ''lex:support:oversee'', ''lex:request:view'',
        ''lex:request:approve'', ''lex:contract:view'', ''lex:contract:add'',
        ''lex:contract:edit'', ''lex:contract:distribute'', ''lex:document:view'',
        ''lex:document:add'', ''lex:document:edit'', ''lex:read'', ''lex:write'']),
     (''legal-officer'', [''lex:support:view'', ''lex:support:create'', ''lex:support:respond'',
        ''lex:request:view'', ''lex:request:edit'', ''lex:case:view'', ''lex:case:add'',
        ''lex:case:edit'', ''lex:investigation:view'', ''lex:investigation:add'',
        ''lex:investigation:edit'', ''lex:settlement:view'', ''lex:settlement:add'',
        ''lex:settlement:edit'', ''lex:consultation:view'', ''lex:document:view'',
        ''lex:document:add'', ''lex:document:edit'', ''lex:read'', ''lex:write'']),
     (''legal-advisor'', [''lex:support:view'', ''lex:support:create'', ''lex:support:respond'',
        ''lex:contract:view'', ''lex:contract:add'', ''lex:contract:edit'',
        ''lex:consultation:view'', ''lex:consultation:add'', ''lex:consultation:edit'',
        ''lex:request:view'', ''lex:document:view'', ''lex:document:add'', ''lex:document:edit'',
        ''lex:report:read'', ''lex:read'', ''lex:write'']),
     (''legal-shared-services-manager'', [''lex:request:view'', ''lex:case:view'',
        ''lex:investigation:view'', ''lex:settlement:view'', ''lex:contract:view'',
        ''lex:consultation:view'', ''lex:sla:view'', ''lex:escalation:view'',
        ''lex:report:read'', ''lex:audit:read'', ''lex:read'']),
     (''legal-auditor'', [''lex:request:view'', ''lex:case:view'', ''lex:investigation:view'',
        ''lex:settlement:view'', ''lex:contract:view'', ''lex:consultation:view'',
        ''lex:document:view'', ''lex:report:read'', ''lex:audit:read'', ''lex:catalog:view'',
        ''lex:role:view'', ''lex:integration:read'', ''lex:security:view'', ''lex:read'']),
     (''legal-system-admin'', [''lex:catalog:manage'', ''lex:sla:manage'',
        ''lex:escalation:manage'', ''lex:notification:manage'', ''lex:role:assign'',
        ''lex:role:manage'', ''lex:integration:manage'', ''lex:security:manage'',
        ''lex:audit:read''])]"
subsection \<open>Switchable personas\<close>

text \<open>The fields of \<open>LegalRoleSummary\<close> the access-denied page reads.\<close>

record legal_role =
  slug :: string
  name_en :: string
  name_ar :: string

definition findSwitchableRoles ::
  "requirement option \<Rightarrow> legal_role list \<Rightarrow> string option \<Rightarrow> legal_role list" where
  "findSwitchableRoles req availableRoles activeRoleSlug =
     (if (case req of None \<Rightarrow> True | Some (Key k) \<Rightarrow> k = [] | _ \<Rightarrow> False) then []
      else filter (\<lambda>role.
        if Some (slug role) = activeRoleSlug then False
        else case map_of LEX_ROLE_PERMISSIONS (slug role) of
            None \<Rightarrow> False
          | Some perms \<Rightarrow> canAccess perms req) availableRoles)"

definition roleDisplayName :: "legal_role option \<Rightarrow> string \<Rightarrow> string option" where
  "roleDisplayName role locale =
     (case role of
        None \<Rightarrow> None
      | Some r \<Rightarrow> Some (if js_startsWith locale ''ar''
                         then (if name_ar r = [] then name_en r else name_ar r)
                         else name_en r))"

subsection \<open>What the gates rely on\<close>

text \<open>
  The contract of a permission resolver as the gates use it: it is monotone in the held
  keys, the super key grants everything and a held key grants itself.
\<close>

locale resolver =
  fixes check :: "string list \<Rightarrow> string \<Rightarrow> bool"
  assumes check_mono: "check ps r \<Longrightarrow> set ps \<subseteq> set qs \<Longrightarrow> check qs r"
    and check_super: "''*'' \<in> set ps \<Longrightarrow> check ps r"
    and check_exact: "r \<in> set ps \<Longrightarrow> check ps r"
begin

lemma gate_mono:
  assumes "canAccessWith (check ps) req" and "set ps \<subseteq> set qs"
  shows "canAccessWith (check qs) req"
  using assms check_mono [OF _ assms(2)]
  by (cases req) (auto simp: canAccessWith_def list_ex_iff list_all_iff split: requirement.splits)

lemma gate_super: "''*'' \<in> set ps \<Longrightarrow> req \<noteq> Some (AnyOf []) \<Longrightarrow> canAccessWith (check ps) req"
  by (cases req) (auto simp: canAccessWith_def list_ex_iff list_all_iff check_super neq_Nil_conv
    split: requirement.splits)

lemma gate_set_cong: "set ps = set qs \<Longrightarrow> canAccessWith (check ps) req = canAccessWith (check qs) req"
  using gate_mono [of ps req qs] gate_mono [of qs req ps] by auto

lemma gate_holds_all_keys:
  assumes "set (requirementKeys req) \<subseteq> set ps" and "req \<noteq> Some (AnyOf [])"
  shows "canAccessWith (check ps) req"
  using assms
  by (cases req)
    (auto simp: canAccessWith_def requirementKeys_def list_ex_iff list_all_iff check_exact neq_Nil_conv
      split: requirement.splits if_splits)

end

lemma lex_implied_mono: "lex_implied ps segs \<Longrightarrow> set ps \<subseteq> set qs \<Longrightarrow> lex_implied qs segs"
  by (auto simp: lex_implied_def list_ex_iff split: list.splits option.splits)

lemma checkPermission_subset:
  assumes "checkPermission ps r" and "set ps \<subseteq> set qs"
  shows "checkPermission qs r"
proof -
  from assms have "qs \<noteq> []"
    by (auto simp: checkPermission_def split: if_splits)
  with assms lex_implied_mono [of ps _ qs] show ?thesis
    by (auto simp: checkPermission_def Let_def list_ex_iff split: if_splits)
qed

interpretation perm: resolver checkPermission
proof unfold_locales
  show "\<And>ps r qs. checkPermission ps r \<Longrightarrow> set ps \<subseteq> set qs \<Longrightarrow> checkPermission qs r"
    by (rule checkPermission_subset)
qed (auto simp: checkPermission_def)

lemma canAccess_eq: "canAccess ps req = canAccessWith (checkPermission ps) req"
  by (auto simp: canAccess_def canAccessWith_def split: option.splits requirement.splits)


subsection \<open>Properties of the resolver\<close>

lemma lex_implied_single:
  "lex_implied ps segs \<longleftrightarrow> (\<exists>p \<in> set ps. lex_implied [p] segs)"
  by (auto simp: lex_implied_def list_ex_iff split: list.splits option.splits)

text \<open>The five grounds of a grant, as a flat disjunction.\<close>

lemma checkPermission_iff:
  "checkPermission ps r \<longleftrightarrow>
     ''*'' \<in> set ps \<or> r \<in> set ps \<or>
     (\<exists>i \<in> {1..<length (js_split CHR '':'' r)}.
        js_join '':'' (take i (js_split CHR '':'' r)) @ '':*'' \<in> set ps) \<or>
     2 \<le> length (js_split CHR '':'' r) \<and> ''*:'' @ last (js_split CHR '':'' r) \<in> set ps \<or>
     lex_implied ps (js_split CHR '':'' r)"
proof (cases "ps = []")
  case True
  then show ?thesis by (simp add: checkPermission_def lex_implied_single [of "[]"])
next
  case False
  then show ?thesis by (simp add: checkPermission_def Let_def list_ex_iff) blast
qed

lemma checkPermission_single_iff:
  "checkPermission [p] r \<longleftrightarrow>
     p = ''*'' \<or> p = r \<or>
     (\<exists>i \<in> {1..<length (js_split CHR '':'' r)}.
        js_join '':'' (take i (js_split CHR '':'' r)) @ '':*'' = p) \<or>
     2 \<le> length (js_split CHR '':'' r) \<and> ''*:'' @ last (js_split CHR '':'' r) = p \<or>
     lex_implied [p] (js_split CHR '':'' r)"
  by (subst checkPermission_iff) auto


lemma prefix_segments_startsWith:
  assumes "i \<in> set [1..<length (js_split c r)]"
  shows "js_startsWith r (js_join [c] (take i (js_split c r)) @ [c])"
proof -
  let ?ss = "js_split c r"
  from assms have "take i ?ss \<noteq> []" "drop i ?ss \<noteq> []" by auto
  then have "js_join [c] (take i ?ss @ drop i ?ss) =
      js_join [c] (take i ?ss) @ [c] @ js_join [c] (drop i ?ss)"
    by (rule js_join_append)
  then have "r = (js_join [c] (take i ?ss) @ [c]) @ js_join [c] (drop i ?ss)"
    by (simp add: js_join_split)
  then show ?thesis unfolding js_startsWith_iff by blast
qed

lemma startsWith_prefix_segments:
  assumes "js_startsWith r (p @ [c])"
  shows "\<exists>i \<in> set [1..<length (js_split c r)]. js_join [c] (take i (js_split c r)) = p"
proof -
  from assms obtain q where r: "r = p @ c # q" by (auto simp: js_startsWith_iff)
  let ?i = "length (js_split c p)"
  have "js_split c r = js_split c p @ js_split c q"
    by (simp add: r js_split_append)
  then have "?i \<in> set [1..<length (js_split c r)]" and "take ?i (js_split c r) = js_split c p"
    by (simp_all add: Suc_le_eq)
  then show ?thesis by (metis js_join_split)
qed

lemma lex_implied_needs_lex_key:
  "lex_implied [p] segs \<Longrightarrow> last p \<noteq> CHR ''*''"
  by (auto simp: lex_implied_def list_ex_iff LEX_OPERATIONAL_VERBS_def last_append
    split: list.splits option.splits)

text \<open>A path wildcard grants exactly its subtree: for any path \<open>p\<close> but the bare star,
  the key \<open>p:*\<close> grants precisely the permissions that start with \<open>p:\<close>.\<close>

theorem wildcard_grants_exactly_subtree:
  assumes "p \<noteq> ''*''"
  shows "checkPermission [p @ '':*''] r \<longleftrightarrow> js_startsWith r (p @ '':'')"
proof
  let ?ss = "js_split CHR '':'' r"
  assume h: "checkPermission [p @ '':*''] r"
  consider (exact) "r = p @ '':*''"
    | (prefix) i where "i \<in> {1..<length ?ss}" "js_join '':'' (take i ?ss) @ '':*'' = p @ '':*''"
    | (suffix) "''*:'' @ last ?ss = p @ '':*''"
    | (lex) "lex_implied [p @ '':*''] ?ss"
    using h unfolding checkPermission_single_iff by auto
  then show "js_startsWith r (p @ '':'')"
  proof cases
    case exact
    then show ?thesis by (simp add: js_startsWith_def)
  next
    case prefix
    then show ?thesis using prefix_segments_startsWith [of i "CHR '':''" r] by simp
  next
    case suffix
    have "CHR '':'' \<notin> set (last ?ss)"
      by (rule js_split_segment [of _ _ r]) simp
    with suffix have "p = ''*''"
      by (auto simp: append_eq_append_conv2 append_eq_Cons_conv Cons_eq_append_conv)
    with assms show ?thesis by simp
  next
    case lex
    then show ?thesis by (auto dest: lex_implied_needs_lex_key)
  qed
next
  assume "js_startsWith r (p @ '':'')"
  then obtain i where "i \<in> set [1..<length (js_split CHR '':'' r)]"
    and "js_join '':'' (take i (js_split CHR '':'' r)) = p"
    using startsWith_prefix_segments [of r p "CHR '':''"] by auto
  then show "checkPermission [p @ '':*''] r"
    unfolding checkPermission_single_iff by auto
qed

theorem wildcard_grants_exactly_subtree_witness:
  "checkPermission [''lex:integration'' @ '':*''] ''lex:integration:read'' \<longleftrightarrow>
     js_startsWith ''lex:integration:read'' (''lex:integration'' @ '':'')"
  by (rule wildcard_grants_exactly_subtree) simp


text \<open>Keys that name a single permission: no star at either end.\<close>

definition plain_key :: "string \<Rightarrow> bool" where
  "plain_key k \<longleftrightarrow> k \<noteq> [] \<and> hd k \<noteq> CHR ''*'' \<and> last k \<noteq> CHR ''*''"

text \<open>A verb the domain does not define is never rescued: with plain keys only, a
  \<open>lex:domain:verb\<close> permission outside the verb table is granted only if it is held itself.\<close>

theorem phantom_verb_not_granted:
  assumes plain: "list_all plain_key ps"
    and seg: "CHR '':'' \<notin> set d" "CHR '':'' \<notin> set v"
    and phantom: "\<And>vs. map_of LEX_DOMAIN_VERBS d = Some vs \<Longrightarrow> v \<notin> set vs"
    and notheld: "''lex:'' @ d @ '':'' @ v \<notin> set ps"
  shows "\<not> checkPermission ps (''lex:'' @ d @ '':'' @ v)"
proof -
  let ?r = "''lex:'' @ d @ '':'' @ v"
  have segs: "js_split CHR '':'' ?r = [''lex'', d, v]"
    using js_split_append [of "CHR '':''" d v] seg by (simp add: js_split_no_sep)
  have star: "''*'' \<notin> set ps" and suffix: "\<And>x. ''*:'' @ x \<notin> set ps"
    and prefix: "\<And>x. x @ '':*'' \<notin> set ps"
    using plain by (auto simp: list_all_iff plain_key_def)
  have "\<not> lex_implied ps [''lex'', d, v]"
    using phantom by (auto simp: lex_implied_def split: option.splits)
  with star suffix prefix notheld show ?thesis
    unfolding checkPermission_iff segs by auto
qed

theorem phantom_verb_not_granted_witness:
  "\<not> checkPermission [''lex:integration:manage''] (''lex:'' @ ''integration'' @ '':'' @ ''write'')"
  by (rule phantom_verb_not_granted)
    (auto simp: plain_key_def LEX_DOMAIN_VERBS_def)

subsection \<open>Properties of the gates and registries\<close>

text \<open>Gaining keys never closes a gate: every requirement satisfied by a permission set
  is satisfied by a larger one.\<close>

theorem canAccess_mono:
  assumes "canAccess ps req" and "set ps \<subseteq> set qs"
  shows "canAccess qs req"
  using assms unfolding canAccess_eq by (rule perm.gate_mono)

theorem canAccess_mono_witness:
  "canAccess [''lex:case:view'', ''lex:case:edit''] (Some (AllOf [''lex:case:view'']))"
  by (rule canAccess_mono [of "[''lex:case:view'']"])
    (auto simp: canAccess_def intro: perm.check_exact)

text \<open>The routes of the admin pages that the entries of \<open>LEX_ADMIN_NAV_PERMISSIONS\<close> open.\<close>

definition lex_admin_nav_routes :: "(string \<times> string) list" where
  "lex_admin_nav_routes = [
     (''group'', ''/lex/admin''),
     (''workingCalendars'', ''/lex/admin/working-calendars''),
     (''serviceCatalog'', ''/lex/admin/service-catalog''),
     (''slaTargets'', ''/lex/admin/sla-targets''),
     (''escalations'', ''/lex/admin/escalations''),
     (''attachmentPolicies'', ''/lex/admin/attachment-policies''),
     (''orgEntities'', ''/lex/admin/org-entities''),
     (''classifications'', ''/lex/admin/classifications''),
     (''legalHolds'', ''/lex/admin/legal-holds''),
     (''approvalPolicies'', ''/lex/admin/request-approval-policies''),
     (''contractApprovalPolicies'', ''/lex/admin/contract-approval-policies''),
     (''integrations'', ''/lex/admin/integrations''),
     (''roleMatrix'', ''/lex/admin/role-matrix'')]"

text \<open>Navigation and route guard agree: whoever sees an entry of the admin navigation is
  admitted by the guard of the page it opens, and the other way round.\<close>

theorem admin_nav_matches_route_guard:
  "list_all (\<lambda>(nav, route).
     case map_of LEX_ADMIN_NAV_PERMISSIONS nav of
       None \<Rightarrow> False
     | Some req \<Rightarrow> map_of LEX_ROUTE_PERMISSIONS route = Some req)
   lex_admin_nav_routes"
  by code_simp

text \<open>A config domain's \<open>manage\<close> key by itself grants every verb the domain defines, so the
  config-only System Administrator is not bounced from the read-gated admin pages.\<close>

theorem manage_key_grants_defined_verbs:
  assumes "d \<in> set LEX_CONFIG_DOMAINS"
    and "map_of LEX_DOMAIN_VERBS d = Some vs" and "v \<in> set vs"
  shows "checkPermission [''lex:'' @ d @ '':manage''] (''lex:'' @ d @ '':'' @ v)"
proof (cases "v = ''manage''")
  case True
  then show ?thesis by (intro perm.check_exact) simp
next
  case False
  have "list_all (\<lambda>(d, vs). CHR '':'' \<notin> set d \<and> list_all (\<lambda>v. CHR '':'' \<notin> set v) vs) LEX_DOMAIN_VERBS"
    by (simp add: LEX_DOMAIN_VERBS_def)
  with assms(2,3) have "CHR '':'' \<notin> set d" and "CHR '':'' \<notin> set v"
    by (auto simp: list_all_iff dest!: map_of_SomeD)
  then have segs: "js_split CHR '':'' (''lex:'' @ d @ '':'' @ v) = [''lex'', d, v]"
    using js_split_append [of "CHR '':''" d v] by (simp add: js_split_no_sep)
  have "lex_implied [''lex:'' @ d @ '':manage''] [''lex'', d, v]"
    using assms False by (simp add: lex_implied_def)
  then show ?thesis unfolding checkPermission_iff segs by blast
qed

theorem manage_key_grants_defined_verbs_witness:
  "checkPermission [''lex:'' @ ''security'' @ '':manage''] (''lex:'' @ ''security'' @ '':'' @ ''view'')"
  by (rule manage_key_grants_defined_verbs [where vs = "[''view'', ''manage'']"])
    (simp_all add: LEX_CONFIG_DOMAINS_def LEX_DOMAIN_VERBS_def)

text \<open>A persona is offered for switching exactly when it is another of the user's roles
  with a known permission set that satisfies a requirement of the page.\<close>

theorem findSwitchableRoles_exact:
  assumes "req \<noteq> Key []"
  shows "r \<in> set (findSwitchableRoles (Some req) roles active) \<longleftrightarrow>
     r \<in> set roles \<and> Some (slug r) \<noteq> active \<and>
     (\<exists>ps. map_of LEX_ROLE_PERMISSIONS (slug r) = Some ps \<and> canAccess ps (Some req))"
  using assms by (cases req) (auto simp: findSwitchableRoles_def split: option.splits)

theorem findSwitchableRoles_exact_witness:
  "\<lparr>slug = ''nobody'', name_en = ''N'', name_ar = ''N''\<rparr>
     \<notin> set (findSwitchableRoles (Some (Key ''lex:read''))
          [\<lparr>slug = ''nobody'', name_en = ''N'', name_ar = ''N''\<rparr>] None)"
  by (subst findSwitchableRoles_exact) (simp_all add: LEX_ROLE_PERMISSIONS_def)

end
