(* ===== verification/SafeRedirect.thy ===== *)
theory SafeRedirect
  imports Web
begin

section \<open>Redirect targets\<close>

text \<open>
  The open-redirect guard of \<open>frontend/src/lib/safe-redirect.ts\<close>, with the reading a browser
  gives a redirect target as its specification: a target the guard lets through stays on the
  origin, and a post-login target is not one of the authentication pages.
\<close>

subsection \<open>The guard\<close>

definition DEFAULT_FALLBACK :: string where
  "DEFAULT_FALLBACK = ''/dashboard''"

definition AUTH_REDIRECT_PATHS :: "string list" where
  "AUTH_REDIRECT_PATHS =
     [''/login'', ''/register'', ''/forgot-password'', ''/reset-password'', ''/verify-email'',
      ''/invite'', ''/callback'']"

text \<open>The class \<open>[\x00-\x20\x7f]\<close> and the backslash.\<close>

definition control_or_whitespace :: "char \<Rightarrow> bool" where
  "control_or_whitespace c \<longleftrightarrow> code_unit c \<le> 32 \<or> code_unit c = 127"

definition backslash :: char where
  "backslash = char_of (92 :: nat)"

definition scheme_char :: "char \<Rightarrow> bool" where
  "scheme_char c \<longleftrightarrow> is_alnum c \<or> c \<in> set ''+.-''"

text \<open>The expression \<open>^[a-zA-Z][a-zA-Z0-9+.-]*:\<close>\<close>

definition leading_scheme :: "string \<Rightarrow> bool" where
  "leading_scheme s =
     (case s of
        [] \<Rightarrow> False
      | c # cs \<Rightarrow> is_alpha c \<and>
          (case dropWhile scheme_char cs of [] \<Rightarrow> False | d # _ \<Rightarrow> d = CHR '':''))"

text \<open>\<open>target[i]\<close>, undefined out of range.\<close>

definition char_at :: "string \<Rightarrow> nat \<Rightarrow> char option" where
  "char_at s i = (if i < length s then Some (s ! i) else None)"

definition safeRedirect :: "string option \<Rightarrow> string \<Rightarrow> string" where
  "safeRedirect target fallback =
     (case target of
        None \<Rightarrow> fallback
      | Some t \<Rightarrow>
          if t = [] then fallback
          else if list_ex control_or_whitespace t then fallback
          else if backslash \<in> set t then fallback
          else if char_at t 0 \<noteq> Some (CHR ''/'') \<or> char_at t 1 = Some (CHR ''/'') then fallback
          else if leading_scheme t then fallback
          else t)"

text \<open>\<open>target.split(/[?#]/, 1)[0] || '/'\<close>\<close>

definition getPathname :: "string \<Rightarrow> string" where
  "getPathname target =
     (let p = takeWhile (\<lambda>c. c \<noteq> CHR ''?'' \<and> c \<noteq> CHR ''#'') target in if p = [] then ''/'' else p)"

definition isAuthRedirectTarget :: "string \<Rightarrow> bool" where
  "isAuthRedirectTarget target =
     list_ex (\<lambda>path. getPathname target = path \<or> js_startsWith (getPathname target) (path @ ''/''))
       AUTH_REDIRECT_PATHS"

definition safePostAuthRedirect :: "string option \<Rightarrow> string \<Rightarrow> string" where
  "safePostAuthRedirect target fallback =
     (let safeTarget = safeRedirect target fallback in
      if isAuthRedirectTarget safeTarget then fallback else safeTarget)"

subsection \<open>What a browser does with a target\<close>

text \<open>
  The URL standard's reading of a reference against an \<open>https\<close> base: leading and trailing C0
  controls and spaces are stripped, tabs and line breaks removed everywhere, a backslash is
  a slash, and the reference names a path of the same origin when it starts with one slash.
\<close>

definition url_clean :: "string \<Rightarrow> string" where
  "url_clean s =
     filter (\<lambda>c. code_unit c \<notin> {9, 10, 13})
       (rev (dropWhile (\<lambda>c. code_unit c \<le> 32) (rev (dropWhile (\<lambda>c. code_unit c \<le> 32) s))))"

definition same_origin_path :: "string \<Rightarrow> bool" where
  "same_origin_path s =
     (let u = map (\<lambda>c. if c = backslash then CHR ''/'' else c) (url_clean s)
      in js_startsWith u ''/'' \<and> \<not> js_startsWith u ''//'')"

text \<open>Targets a browser reads literally: nothing is stripped, removed or rewritten.\<close>

definition literal_target :: "string \<Rightarrow> bool" where
  "literal_target s \<longleftrightarrow> list_all (\<lambda>c. \<not> control_or_whitespace c \<and> c \<noteq> backslash) s"

text \<open>The first path segment of a target names an authentication page.\<close>

definition auth_page_segments :: "string list" where
  "auth_page_segments =
     [''login'', ''register'', ''forgot-password'', ''reset-password'', ''verify-email'', ''invite'',
      ''callback'']"

definition names_auth_page :: "string \<Rightarrow> bool" where
  "names_auth_page t =
     (case js_split CHR ''/'' (takeWhile (\<lambda>c. c \<noteq> CHR ''?'' \<and> c \<noteq> CHR ''#'') t) of
        a # b # _ \<Rightarrow> a = [] \<and> b \<in> set auth_page_segments
      | _ \<Rightarrow> False)"

subsection \<open>Lemmas\<close>

lemma url_clean_literal: "literal_target s \<Longrightarrow> url_clean s = s"
proof -
  assume "literal_target s"
  then have h: "\<And>c. c \<in> set s \<Longrightarrow> \<not> code_unit c \<le> 32"
    by (auto simp: literal_target_def list_all_iff control_or_whitespace_def)
  then have a: "dropWhile (\<lambda>c. code_unit c \<le> 32) s = s"
    and b: "dropWhile (\<lambda>c. code_unit c \<le> 32) (rev s) = rev s"
    by (auto intro!: dropWhile_none simp: list_all_iff)
  from h have "filter (\<lambda>c. code_unit c \<notin> {9, 10, 13}) s = s"
    by (intro filter_True) force
  with a b show ?thesis by (simp add: url_clean_def)
qed

lemma same_origin_literal:
  "literal_target s \<Longrightarrow> same_origin_path s \<longleftrightarrow> js_startsWith s ''/'' \<and> \<not> js_startsWith s ''//''"
proof -
  assume l: "literal_target s"
  then have "map (\<lambda>c. if c = backslash then CHR ''/'' else c) s = s"
    by (intro map_idI) (auto simp: literal_target_def list_all_iff)
  with l show ?thesis by (simp add: same_origin_path_def url_clean_literal)
qed

lemma slash_not_scheme: "\<not> leading_scheme (CHR ''/'' # r)"
  by (simp add: leading_scheme_def is_alpha_def is_upper_def is_lower_def)

lemma slash_paths_iff:
  "char_at s 0 = Some (CHR ''/'') \<and> char_at s 1 \<noteq> Some (CHR ''/'') \<longleftrightarrow>
     js_startsWith s ''/'' \<and> \<not> js_startsWith s ''//''"
  by (cases s; cases "tl s") (auto simp: char_at_def js_startsWith_def)

text \<open>C10. The guard is exact: it returns a target precisely when a browser reads the target
  literally and stays on the origin; every other target is replaced by the fallback.\<close>

theorem safeRedirect_exact:
  "safeRedirect target fallback =
     (case target of
        None \<Rightarrow> fallback
      | Some t \<Rightarrow> if literal_target t \<and> same_origin_path t then t else fallback)"
proof (cases target)
  case None
  then show ?thesis by (simp add: safeRedirect_def)
next
  case (Some t)
  have lit: "literal_target t \<longleftrightarrow> \<not> list_ex control_or_whitespace t \<and> backslash \<notin> set t"
    by (auto simp: literal_target_def list_all_iff list_ex_iff)
  show ?thesis
  proof (cases "literal_target t")
    case False
    then show ?thesis using Some lit by (auto simp: safeRedirect_def)
  next
    case True
    have "js_startsWith t ''/'' \<Longrightarrow> \<not> leading_scheme t"
      by (auto simp: js_startsWith_iff slash_not_scheme)
    with True Some lit show ?thesis
      using slash_paths_iff [of t] same_origin_literal [OF True]
      by (auto simp: safeRedirect_def char_at_def js_startsWith_def)
  qed
qed

lemma path_under_iff:
  "CHR ''/'' \<notin> set p \<Longrightarrow>
     (s = CHR ''/'' # p \<or> js_startsWith s (CHR ''/'' # p @ ''/'')) \<longleftrightarrow>
     (\<exists>r. js_split CHR ''/'' s = [] # p # r)"
proof
  assume p: "CHR ''/'' \<notin> set p"
  {
    assume "s = CHR ''/'' # p \<or> js_startsWith s (CHR ''/'' # p @ ''/'')"
    then show "\<exists>r. js_split CHR ''/'' s = [] # p # r"
    proof
      assume "s = CHR ''/'' # p"
      with p show ?thesis by (simp add: js_split_no_sep)
    next
      assume "js_startsWith s (CHR ''/'' # p @ ''/'')"
      then obtain r where "s = CHR ''/'' # p @ CHR ''/'' # r"
        by (auto simp: js_startsWith_iff)
      with p show ?thesis by (simp add: js_split_append js_split_no_sep)
    qed
  }
  {
    assume "\<exists>r. js_split CHR ''/'' s = [] # p # r"
    then obtain r where "js_split CHR ''/'' s = [] # p # r" by blast
    then have "js_join ''/'' ([] # p # r) = s" using js_join_split [of "CHR ''/''" s] by simp
    then show "s = CHR ''/'' # p \<or> js_startsWith s (CHR ''/'' # p @ ''/'')"
      by (cases r) (auto simp: js_startsWith_iff js_join_Cons)
  }
qed

lemma AUTH_REDIRECT_PATHS_segments:
  "AUTH_REDIRECT_PATHS = map (\<lambda>p. CHR ''/'' # p) auth_page_segments"
  by (simp add: AUTH_REDIRECT_PATHS_def auth_page_segments_def)

lemma isAuthRedirectTarget_iff: "isAuthRedirectTarget t \<longleftrightarrow> names_auth_page t"
proof -
  let ?p = "takeWhile (\<lambda>c. c \<noteq> CHR ''?'' \<and> c \<noteq> CHR ''#'') t"
  have noslash: "\<And>x. x \<in> set auth_page_segments \<Longrightarrow> CHR ''/'' \<notin> set x"
    by (auto simp: auth_page_segments_def)
  have ne: "\<And>x. x \<in> set auth_page_segments \<Longrightarrow> x \<noteq> []"
    by (auto simp: auth_page_segments_def)
  have "isAuthRedirectTarget t \<longleftrightarrow>
      (\<exists>x \<in> set auth_page_segments. \<exists>r. js_split CHR ''/'' (getPathname t) = [] # x # r)"
    by (simp add: isAuthRedirectTarget_def AUTH_REDIRECT_PATHS_segments list_ex_iff
        path_under_iff [OF noslash])
  also have "\<dots> \<longleftrightarrow> (\<exists>x \<in> set auth_page_segments. \<exists>r. js_split CHR ''/'' ?p = [] # x # r)"
    using ne by (auto simp: getPathname_def Let_def split: if_splits)
  also have "\<dots> \<longleftrightarrow> names_auth_page t"
    by (auto simp: names_auth_page_def split: list.splits)
  finally show ?thesis .
qed

text \<open>After a login the browser stays on the origin and does not land on an
  authentication page again: anything else is replaced by the fallback.\<close>

theorem safePostAuthRedirect_sound:
  "safePostAuthRedirect target fallback = fallback \<or>
     same_origin_path (safePostAuthRedirect target fallback) \<and>
     \<not> names_auth_page (safePostAuthRedirect target fallback) \<and>
     target = Some (safePostAuthRedirect target fallback)"
  unfolding safePostAuthRedirect_def Let_def isAuthRedirectTarget_iff safeRedirect_exact
  by (auto split: option.splits)

text \<open>Guarding twice is guarding once, so the pages of a login flow may each apply the
  guard to the target they hand on.\<close>

theorem safePostAuthRedirect_idempotent:
  "safePostAuthRedirect (Some (safePostAuthRedirect target fallback)) fallback =
     safePostAuthRedirect target fallback"
  unfolding safePostAuthRedirect_def Let_def safeRedirect_exact
  by (auto split: option.splits)

end
