(* ===== verification/RouteGuard.thy ===== *)
theory RouteGuard
  imports Permissions SafeRedirect
begin

section \<open>The route guard of the Lex pages\<close>

text \<open>
  \<open>LexRouteGuard\<close> of \<open>frontend/src/app/(dashboard)/lex/_guards/lex-route-guard.tsx\<close>: what
  one render shows and where its effect navigates, as a function of the props, the auth
  state and the path.
\<close>

record auth_view =
  av_isHydrated :: bool
  av_isAuthenticated :: bool
  av_has_user :: bool
  av_hasPermission :: "string \<Rightarrow> bool"

datatype guard_render = Skeleton | Nothing_shown | Children

text \<open>The prop \<open>route\<close> is absent or a string; an empty one is falsy but not absent.\<close>

definition resolved_requirement :: "requirement option \<Rightarrow> string option \<Rightarrow> requirement option" where
  "resolved_requirement req route =
     (case route of
        Some r \<Rightarrow> if r \<noteq> [] then map_of LEX_ROUTE_PERMISSIONS r else req
      | None \<Rightarrow> req)"

definition guard_allowed ::
  "requirement option \<Rightarrow> string option \<Rightarrow> (string \<Rightarrow> bool) \<Rightarrow> bool" where
  "guard_allowed req route hasPermission =
     (let resolved = resolved_requirement req route;
          requirementMissing = (route \<noteq> None \<and> resolved = None)
      in \<not> requirementMissing \<and> canAccessWith hasPermission resolved)"

definition auth_resolved :: "auth_view \<Rightarrow> bool" where
  "auth_resolved a \<longleftrightarrow> av_isHydrated a \<and> (\<not> av_isAuthenticated a \<or> av_has_user a)"

text \<open>The navigation of the effect, if any.\<close>

definition guard_effect ::
  "requirement option \<Rightarrow> string option \<Rightarrow> auth_view \<Rightarrow> string option \<Rightarrow> string option" where
  "guard_effect req route a pathname =
     (if \<not> auth_resolved a then None
      else if \<not> av_isAuthenticated a then
        let target = (case pathname of
              Some p \<Rightarrow> if p \<noteq> [] then ''?redirect='' @ js_encodeURIComponent (safeRedirect (Some p) DEFAULT_FALLBACK)
                else []
            | None \<Rightarrow> [])
        in Some (''/login'' @ target)
      else if \<not> guard_allowed req route (av_hasPermission a) then Some ''/dashboard''
      else None)"

definition guard_render_of ::
  "requirement option \<Rightarrow> string option \<Rightarrow> auth_view \<Rightarrow> guard_render" where
  "guard_render_of req route a =
     (if \<not> auth_resolved a then Skeleton
      else if \<not> av_isAuthenticated a \<or> \<not> guard_allowed req route (av_hasPermission a) then Nothing_shown
      else Children)"

text \<open>The guard is consistent and fails closed: the page body is shown exactly to a settled,
  signed-in user with a loaded profile who satisfies the requirement that applies, an unknown
  route admits nobody, and a render that shows nothing is one whose effect navigates away.\<close>

theorem route_guard_decision:
  "(guard_render_of req route a = Children \<longleftrightarrow>
      av_isHydrated a \<and> av_isAuthenticated a \<and> av_has_user a \<and>
      (case route of
         None \<Rightarrow> canAccessWith (av_hasPermission a) req
       | Some r \<Rightarrow> (\<exists>q. (if r = [] then req else map_of LEX_ROUTE_PERMISSIONS r) = Some q \<and>
           canAccessWith (av_hasPermission a) (Some q)))) \<and>
   (guard_render_of req route a = Nothing_shown \<longleftrightarrow> guard_effect req route a pathname \<noteq> None)"
  by (auto simp: guard_render_of_def guard_effect_def auth_resolved_def guard_allowed_def
      resolved_requirement_def Let_def split: option.splits if_splits)

text \<open>The login redirect brings the user back: whatever the path, the value the login page
  reads from the \<open>redirect\<close> parameter is the guarded path, since the written value holds no
  delimiter of a query string and decodes to it.\<close>

theorem login_redirect_roundtrip:
  assumes "auth_resolved a" and "\<not> av_isAuthenticated a" and "p \<noteq> []"
  shows "\<exists>v. guard_effect req route a (Some p) = Some (''/login?redirect='' @ v) \<and>
    set v \<inter> set ''&=?#/ '' = {} \<and>
    url_param_read v = Some (safeRedirect (Some p) DEFAULT_FALLBACK)"
proof -
  let ?v = "js_encodeURIComponent (safeRedirect (Some p) DEFAULT_FALLBACK)"
  have "guard_effect req route a (Some p) = Some (''/login?redirect='' @ ?v)"
    using assms by (simp add: guard_effect_def)
  moreover have "set ?v \<inter> set ''&=?#/ '' = {}"
    using encodeURIComponent_no_delimiter by blast
  ultimately show ?thesis by (auto simp: url_param_read_encode)
qed

theorem login_redirect_roundtrip_witness:
  "\<exists>v. guard_effect None (Some ''/lex/cases'') \<lparr>av_isHydrated = True, av_isAuthenticated = False,
       av_has_user = False, av_hasPermission = (\<lambda>_. False)\<rparr> (Some ''/lex/cases/7'')
     = Some (''/login?redirect='' @ v) \<and> set v \<inter> set ''&=?#/ '' = {} \<and>
     url_param_read v = Some (safeRedirect (Some ''/lex/cases/7'') DEFAULT_FALLBACK)"
  by (rule login_redirect_roundtrip) (simp_all add: auth_resolved_def)

end
