(* ===== verification/Bff.thy ===== *)
theory Bff
  imports Web
begin

section \<open>The session routes of the web server\<close>

text \<open>
  The backend-for-frontend routes that own the authentication cookies:
  \<open>frontend/src/app/api/auth/session/route.ts\<close> and \<open>.../refresh/route.ts\<close>, the origin check
  of \<open>frontend/src/lib/bff-csrf.ts\<close> and the single-flight token exchange of
  \<open>frontend/src/lib/bff-refresh.ts\<close>. What the gateway answers, the hash of a token, the JSON
  decoder and the clock are arguments.
\<close>

subsection \<open>Configuration\<close>

definition COOKIES_ACCESS :: string where "COOKIES_ACCESS = ''clario360_access''"
definition COOKIES_REFRESH :: string where "COOKIES_REFRESH = ''clario360_refresh''"
definition COOKIES_REMEMBER :: string where "COOKIES_REMEMBER = ''clario360_remember''"

record session_config =
  ACCESS_TOKEN_MAX_AGE :: int
  REFRESH_TOKEN_MAX_AGE :: int
  COOKIE_SECURE :: bool
  COOKIE_DOMAIN :: string
  COOKIE_SAMESITE :: string

subsection \<open>The origin check\<close>

text \<open>\<open>allowedOrigins\<close>: the configured origins and the one derived from the host header.\<close>

definition allowedOrigins :: "string \<Rightarrow> request \<Rightarrow> string list" where
  "allowedOrigins explicit rq =
     js_uniq (filter (\<lambda>o'. o' \<noteq> []) (map js_trim (js_split CHR '','' explicit)) @
       (case header_get (rq_headers rq) ''host'' of
          None \<Rightarrow> []
        | Some host \<Rightarrow>
            if host = [] then []
            else
              let proto = (case header_get (rq_headers rq) ''x-forwarded-proto'' of
                    Some p \<Rightarrow> p
                  | None \<Rightarrow> remove1 CHR '':'' (rq_protocol rq))
              in [proto @ ''://'' @ host]))"

definition isBFFOriginAllowed ::
  "(string \<Rightarrow> parsed_url option) \<Rightarrow> string \<Rightarrow> request \<Rightarrow> bool" where
  "isBFFOriginAllowed parse_url explicit rq =
     (let allowed = allowedOrigins explicit rq in
      case header_get (rq_headers rq) ''origin'' of
        Some (c # cs) \<Rightarrow> c # cs \<in> set allowed
      | _ \<Rightarrow>
          (case header_get (rq_headers rq) ''referer'' of
             Some (c # cs) \<Rightarrow>
               (case parse_url (c # cs) of
                  Some u \<Rightarrow> u_protocol u @ ''//'' @ u_host u \<in> set allowed
                | None \<Rightarrow> False)
           | _ \<Rightarrow> False))"

subsection \<open>The exchange of refresh tokens\<close>

datatype upstream = UOk string string | URejected | UUnavailable

text \<open>
  What the call of the gateway comes to: it throws (network, timeout, malformed body) or
  responds with a status and, when read, the two tokens.
\<close>

datatype gateway_outcome =
    GThrew
  | GStatus nat "string option" "string option"

definition DEFINITIVE_REJECTION_STATUSES :: "nat list" where
  "DEFINITIVE_REJECTION_STATUSES = [400, 401, 403]"

definition RECENT_OK_TTL_MS :: int where "RECENT_OK_TTL_MS = 5000"

definition present :: "string option \<Rightarrow> string" where
  "present v = (case v of None \<Rightarrow> [] | Some s \<Rightarrow> s)"

definition classify_outcome :: "gateway_outcome \<Rightarrow> upstream" where
  "classify_outcome g =
     (case g of
        GThrew \<Rightarrow> UUnavailable
      | GStatus status access refresh \<Rightarrow>
          if \<not> (200 \<le> status \<and> status \<le> 299) then
            (if status \<in> set DEFINITIVE_REJECTION_STATUSES then URejected else UUnavailable)
          else if present access = [] \<or> present refresh = [] then UUnavailable
          else UOk (present access) (present refresh))"

text \<open>One exchange in progress: its key, its result once settled, and whether its clean-up
  (\<open>run.finally\<close>) has run. A flight is named by its position.\<close>

record flight =
  fl_key :: string
  fl_result :: "upstream option"
  fl_cleaned :: bool

record exchange_state =
  inflight :: "(string, nat) jsmap"
  recentOk :: "(string, int \<times> upstream) jsmap"
  flights :: "flight list"

definition exchange_init :: exchange_state where
  "exchange_init = \<lparr>inflight = [], recentOk = [], flights = []\<rparr>"

definition pruneRecent :: "int \<Rightarrow> (string, int \<times> upstream) jsmap \<Rightarrow> (string, int \<times> upstream) jsmap" where
  "pruneRecent now r = filter (\<lambda>(k, since, res). \<not> RECENT_OK_TTL_MS < now - since) r"

datatype call_outcome = Cached upstream | Shared nat | Started nat

definition exchangeRefreshToken ::
  "(string \<Rightarrow> string) \<Rightarrow> string \<Rightarrow> int \<Rightarrow> exchange_state \<Rightarrow> exchange_state \<times> call_outcome" where
  "exchangeRefreshToken keyFor token now s =
     (let key = keyFor token;
          s = s\<lparr>recentOk := pruneRecent now (recentOk s)\<rparr>
      in case map_of (recentOk s) key of
           Some (since, res) \<Rightarrow> (s, Cached res)
         | None \<Rightarrow>
             (case map_of (inflight s) key of
                Some existing \<Rightarrow> (s, Shared existing)
              | None \<Rightarrow>
                  (let run = length (flights s) in
                   (s\<lparr>flights := flights s @ [\<lparr>fl_key = key, fl_result = None, fl_cleaned = False\<rparr>],
                      inflight := AList.update key run (inflight s)\<rparr>, Started run))))"

text \<open>The gateway answered flight \<open>i\<close>; a successful pair is remembered.\<close>

definition settle_flight :: "nat \<Rightarrow> gateway_outcome \<Rightarrow> int \<Rightarrow> exchange_state \<Rightarrow> exchange_state" where
  "settle_flight i g now s =
     (let f = flights s ! i; res = classify_outcome g in
      s\<lparr>flights := (flights s)[i := f\<lparr>fl_result := Some res\<rparr>],
        recentOk := (case res of
            UOk _ _ \<Rightarrow> AList.update (fl_key f) (now, res) (recentOk s)
          | _ \<Rightarrow> recentOk s)\<rparr>)"

text \<open>\<open>run.finally(() => inflight.delete(key))\<close>\<close>

definition cleanup_flight :: "nat \<Rightarrow> exchange_state \<Rightarrow> exchange_state" where
  "cleanup_flight i s =
     (let f = flights s ! i in
      s\<lparr>flights := (flights s)[i := f\<lparr>fl_cleaned := True\<rparr>],
        inflight := AList.delete (fl_key f) (inflight s)\<rparr>)"

text \<open>
  Runs of the server process: calls, answers and clean-ups interleave in any order, the
  clock does not go back. The trace, newest first, notes when an exchange of a key started
  and when one succeeded.
\<close>

datatype mark = MStart string nat | MOk string

inductive exchange_run ::
  "(string \<Rightarrow> string) \<Rightarrow> (int \<times> mark) list \<Rightarrow> exchange_state \<Rightarrow> int \<Rightarrow> bool" for keyFor where
  run_init: "exchange_run keyFor [] exchange_init t"
| run_call: "exchange_run keyFor tr s c \<Longrightarrow> c \<le> now \<Longrightarrow>
    exchangeRefreshToken keyFor token now s = (s', out) \<Longrightarrow>
    exchange_run keyFor
      (case out of Started i \<Rightarrow> (now, MStart (keyFor token) i) # tr | _ \<Rightarrow> tr) s' now"
| run_settle: "exchange_run keyFor tr s c \<Longrightarrow> c \<le> now \<Longrightarrow>
    i < length (flights s) \<Longrightarrow> fl_result (flights s ! i) = None \<Longrightarrow>
    exchange_run keyFor
      (case classify_outcome g of UOk _ _ \<Rightarrow> (now, MOk (fl_key (flights s ! i))) # tr | _ \<Rightarrow> tr)
      (settle_flight i g now s) now"
| run_cleanup: "exchange_run keyFor tr s c \<Longrightarrow>
    i < length (flights s) \<Longrightarrow> fl_result (flights s ! i) \<noteq> None \<Longrightarrow> \<not> fl_cleaned (flights s ! i) \<Longrightarrow>
    exchange_run keyFor tr (cleanup_flight i s) c"

subsection \<open>The routes\<close>

datatype bff_body =
    BError string
  | BSuccess
  | BToken string
  | BSession json json string string

record bff_response =
  br_status :: nat
  br_body :: bff_body
  br_cookies :: "set_cookie list"

definition json_response :: "bff_body \<Rightarrow> nat \<Rightarrow> bff_response" where
  "json_response b st = \<lparr>br_status = st, br_body = b, br_cookies = []\<rparr>"

definition bffCSRFRejection :: bff_response where
  "bffCSRFRejection = json_response (BError ''forbidden: cross-origin request blocked'') 403"

text \<open>\<open>response.cookies.set(name, value, cookieOptions(maxAge, path))\<close>\<close>

definition cookieOptions ::
  "session_config \<Rightarrow> string \<Rightarrow> string \<Rightarrow> int option \<Rightarrow> string \<Rightarrow> set_cookie" where
  "cookieOptions cfg name value maxAge path =
     \<lparr>ck_name = name, ck_value = value, ck_path = path, ck_domain = COOKIE_DOMAIN cfg,
      ck_max_age = maxAge, ck_http_only = True, ck_secure = COOKIE_SECURE cfg,
      ck_same_site = Some (COOKIE_SAMESITE cfg)\<rparr>"

definition clear_cookie :: "session_config \<Rightarrow> string \<Rightarrow> string \<Rightarrow> set_cookie" where
  "clear_cookie cfg name path =
     \<lparr>ck_name = name, ck_value = [], ck_path = path, ck_domain = COOKIE_DOMAIN cfg,
      ck_max_age = Some 0, ck_http_only = False, ck_secure = False, ck_same_site = None\<rparr>"

definition clear_all :: "session_config \<Rightarrow> set_cookie list" where
  "clear_all cfg =
     [clear_cookie cfg COOKIES_ACCESS ''/'', clear_cookie cfg COOKIES_REFRESH ''/api/auth'',
      clear_cookie cfg COOKIES_REMEMBER ''/api/auth'']"

text \<open>The body of the login hand-over, as its type declares it; reading it throws on malformed
  JSON or null.\<close>

record session_body =
  sb_access_token :: "string option"
  sb_refresh_token :: "string option"
  sb_remember :: "bool option"

definition session_POST ::
  "session_config \<Rightarrow> bool \<Rightarrow> session_body option \<Rightarrow> bff_response" where
  "session_POST cfg originAllowed body =
     (if \<not> originAllowed then bffCSRFRejection
      else case body of
        None \<Rightarrow> json_response (BError ''Invalid request body'') 400
      | Some b \<Rightarrow>
          if present (sb_access_token b) = [] \<or> present (sb_refresh_token b) = [] then
            json_response (BError ''access_token and refresh_token are required'') 400
          else
            let remember = (sb_remember b = Some True) in
            (json_response BSuccess 200)\<lparr>br_cookies :=
              [cookieOptions cfg COOKIES_ACCESS (present (sb_access_token b))
                 (if remember then Some (ACCESS_TOKEN_MAX_AGE cfg) else None) ''/'',
               cookieOptions cfg COOKIES_REFRESH (present (sb_refresh_token b))
                 (if remember then Some (REFRESH_TOKEN_MAX_AGE cfg) else None) ''/api/auth'',
               (if remember
                then cookieOptions cfg COOKIES_REMEMBER ''1'' (Some (REFRESH_TOKEN_MAX_AGE cfg)) ''/api/auth''
                else clear_cookie cfg COOKIES_REMEMBER ''/api/auth'')]\<rparr>)"

text \<open>\<open>payload['exp']\<close> when it is a number.\<close>

definition json_number :: "json \<Rightarrow> string \<Rightarrow> js_num option" where
  "json_number v k = (case json_get v k of Some (JNum n) \<Rightarrow> Some n | _ \<Rightarrow> None)"

text \<open>The middle part of a token in padded base64, as both decoders build it.\<close>

definition jwt_base64 :: "string \<Rightarrow> string option" where
  "jwt_base64 token =
     (case js_split CHR ''.'' token of
        [_, p, _] \<Rightarrow>
          (let b = map (\<lambda>c. if c = CHR ''-'' then CHR ''+'' else if c = CHR ''_'' then CHR ''/'' else c) p
           in Some (b @ replicate ((4 - length b mod 4) mod 4) CHR ''=''))
      | _ \<Rightarrow> None)"

definition decodeJWTPayload :: "(string \<Rightarrow> json option) \<Rightarrow> string \<Rightarrow> json option" where
  "decodeJWTPayload parse_base64_json token = Option.bind (jwt_base64 token) parse_base64_json"

text \<open>\<open>meData.user ?? meData.data ?? meData\<close> of the answer of \<open>users/me\<close>, null when the call failed.\<close>

definition nullish_or :: "json option \<Rightarrow> json \<Rightarrow> json" where
  "nullish_or v d = (case v of None \<Rightarrow> d | Some JNull \<Rightarrow> d | Some w \<Rightarrow> w)"

definition me_user :: "json option \<Rightarrow> json" where
  "me_user me =
     (case me of
        None \<Rightarrow> JNull
      | Some JNull \<Rightarrow> JNull
      | Some d \<Rightarrow> nullish_or (json_get d ''user'') (nullish_or (json_get d ''data'') d))"

definition fallback_user :: "json \<Rightarrow> json" where
  "fallback_user payload =
     JObj (List.map_filter (\<lambda>(k, v). map_option (Pair k) v)
       [(''id'', json_get payload ''sub''),
        (''email'', json_get payload ''email''),
        (''tenant_id'', json_get payload ''tenant_id''),
        (''first_name'', Some (JStr [])),
        (''last_name'', Some (JStr [])),
        (''full_name'', case json_get payload ''full_name'' of Some (JStr s) \<Rightarrow> Some (JStr s) | _ \<Rightarrow> None),
        (''roles'', Some (nullish_or (json_get payload ''roles'') (JArr []))),
        (''permissions'', Some (nullish_or (json_get payload ''permissions'') (JArr [])))])"

text \<open>
  What the session route needs of its surroundings: the token decoder, the answer of
  \<open>users/me\<close> for a token, the awaited result of the exchange of a refresh token, and
  \<open>new Date(exp * 1000).toISOString()\<close>, which throws out of the range of dates.
\<close>

record session_env =
  se_decode :: "string \<Rightarrow> json option"
  se_me :: "string \<Rightarrow> json option"
  se_exchange :: "string \<Rightarrow> upstream"
  se_iso :: "js_num \<Rightarrow> string option"

definition now_plus :: "int \<Rightarrow> int \<Rightarrow> js_num" where
  "now_plus now_ms buffer = Fin (of_int (now_ms div 1000 + buffer))"

definition renewed_cookies :: "session_config \<Rightarrow> request \<Rightarrow> string \<Rightarrow> string \<Rightarrow> set_cookie list" where
  "renewed_cookies cfg rq access refresh =
     (let remembered = (map_of (rq_cookies rq) COOKIES_REMEMBER = Some ''1'') in
      [cookieOptions cfg COOKIES_ACCESS access
         (if remembered then Some (ACCESS_TOKEN_MAX_AGE cfg) else None) ''/'',
       cookieOptions cfg COOKIES_REFRESH refresh
         (if remembered then Some (REFRESH_TOKEN_MAX_AGE cfg) else None) ''/api/auth''])"

text \<open>\<open>GET /api/auth/session\<close>; None when the handler throws.\<close>

definition session_GET ::
  "session_config \<Rightarrow> session_env \<Rightarrow> int \<Rightarrow> request \<Rightarrow> bff_response option" where
  "session_GET cfg env now_ms rq =
     (case cookie_value rq COOKIES_ACCESS of
        None \<Rightarrow> Some (json_response (BError ''no session'') 401)
      | Some access \<Rightarrow>
     (case decodeJWTPayload (se_decode env) access of
        None \<Rightarrow> Some (json_response (BError ''invalid token'') 401)
      | Some payload \<Rightarrow>
          if \<not> json_truthy payload then Some (json_response (BError ''invalid token'') 401)
          else
            let exp = (case json_number payload ''exp'' of Some n \<Rightarrow> n | None \<Rightarrow> Fin 0) in
            if js_gt exp (now_plus now_ms 30) then
              map_option (\<lambda>stamp.
                json_response (BSession (nullish_or (Some (me_user (se_me env access))) (fallback_user payload))
                  JNull access stamp) 200) (se_iso env exp)
            else
              case cookie_value rq COOKIES_REFRESH of
                None \<Rightarrow> Some (json_response (BError ''session expired'') 401)
              | Some refresh \<Rightarrow>
                  (case se_exchange env refresh of
                     UUnavailable \<Rightarrow> Some (json_response (BError ''session refresh unavailable'') 503)
                   | URejected \<Rightarrow> Some ((json_response (BError ''session expired'') 401)\<lparr>br_cookies := clear_all cfg\<rparr>)
                   | UOk a r \<Rightarrow>
                       let newExp = (case decodeJWTPayload (se_decode env) a of
                             Some p \<Rightarrow> (case json_number p ''exp'' of Some n \<Rightarrow> n | None \<Rightarrow> Fin 0)
                           | None \<Rightarrow> Fin 0)
                       in case se_iso env newExp of
                            None \<Rightarrow> Some (json_response (BError ''session refresh unavailable'') 503)
                          | Some stamp \<Rightarrow>
                              Some ((json_response (BSession (me_user (se_me env a)) JNull a stamp) 200)
                                \<lparr>br_cookies := renewed_cookies cfg rq a r\<rparr>))))"

definition session_DELETE :: "session_config \<Rightarrow> bool \<Rightarrow> bff_response" where
  "session_DELETE cfg originAllowed =
     (if \<not> originAllowed then bffCSRFRejection
      else (json_response BSuccess 200)\<lparr>br_cookies := clear_all cfg\<rparr>)"

text \<open>\<open>POST /api/auth/refresh\<close>\<close>

definition refresh_POST ::
  "session_config \<Rightarrow> bool \<Rightarrow> (string \<Rightarrow> upstream) \<Rightarrow> request \<Rightarrow> bff_response" where
  "refresh_POST cfg originAllowed exchange rq =
     (if \<not> originAllowed then bffCSRFRejection
      else case cookie_value rq COOKIES_REFRESH of
        None \<Rightarrow> json_response (BError ''no refresh token'') 401
      | Some refresh \<Rightarrow>
          (case exchange refresh of
             UUnavailable \<Rightarrow> json_response (BError ''refresh unavailable'') 503
           | URejected \<Rightarrow> (json_response (BError ''refresh failed'') 401)\<lparr>br_cookies := clear_all cfg\<rparr>
           | UOk a r \<Rightarrow> (json_response (BToken a) 200)\<lparr>br_cookies := renewed_cookies cfg rq a r\<rparr>))"

subsection \<open>Single flight\<close>

inductive_cases exchange_runE: "exchange_run keyFor tr s c"

text \<open>Every flight that is not cleaned up is the registered one of its key; a cleaned flight has
  a result.\<close>

definition registered :: "flight list \<Rightarrow> (string, nat) jsmap \<Rightarrow> bool" where
  "registered fs m \<longleftrightarrow>
     (\<forall>i < length fs. if fl_cleaned (fs ! i) then fl_result (fs ! i) \<noteq> None
        else map_of m (fl_key (fs ! i)) = Some i) \<and>
     (\<forall>k i. map_of m k = Some i \<longrightarrow> i < length fs \<and> fl_key (fs ! i) = k)"

text \<open>A success that is not remembered any more lies further back than the time to live.\<close>

definition oks_remembered :: "(int \<times> mark) list \<Rightarrow> exchange_state \<Rightarrow> int \<Rightarrow> bool" where
  "oks_remembered tr s c \<longleftrightarrow>
     (\<forall>t k. (t, MOk k) \<in> set tr \<longrightarrow>
        (\<exists>since res. map_of (recentOk s) k = Some (since, res) \<and> t \<le> since) \<or> RECENT_OK_TTL_MS < c - t) \<and>
     (\<forall>t m. (t, m) \<in> set tr \<longrightarrow> t \<le> c)"

lemma map_of_filter_values:
  "distinct (map fst r) \<Longrightarrow> map_of (filter (\<lambda>(k, v). P v) r) k =
     (case map_of r k of Some v \<Rightarrow> if P v then Some v else None | None \<Rightarrow> None)"
  by (induction r) (auto split: option.splits simp: map_of_eq_None_iff)

lemma pruneRecent_eq:
  "pruneRecent now r = filter (\<lambda>(k, v). \<not> RECENT_OK_TTL_MS < now - fst v) r"
  unfolding pruneRecent_def by (rule filter_cong) auto

lemma pruneRecent_get:
  "distinct (map fst r) \<Longrightarrow> map_of (pruneRecent now r) k =
     (case map_of r k of Some v \<Rightarrow> if RECENT_OK_TTL_MS < now - fst v then None else Some v | None \<Rightarrow> None)"
  unfolding pruneRecent_eq by (subst map_of_filter_values) (auto split: option.splits)

lemma pruneRecent_distinct: "distinct (map fst r) \<Longrightarrow> distinct (map fst (pruneRecent now r))"
  unfolding pruneRecent_eq by (rule distinct_map_filter)

lemma registeredD:
  "registered fs m \<Longrightarrow> i < length fs \<Longrightarrow> \<not> fl_cleaned (fs ! i) \<Longrightarrow> map_of m (fl_key (fs ! i)) = Some i"
  "registered fs m \<Longrightarrow> i < length fs \<Longrightarrow> fl_cleaned (fs ! i) \<Longrightarrow> fl_result (fs ! i) \<noteq> None"
  "registered fs m \<Longrightarrow> map_of m k = Some i \<Longrightarrow> i < length fs \<and> fl_key (fs ! i) = k"
  unfolding registered_def by presburger+

lemma registeredI:
  assumes "\<And>i. i < length fs \<Longrightarrow> \<not> fl_cleaned (fs ! i) \<Longrightarrow> map_of m (fl_key (fs ! i)) = Some i"
    and "\<And>i. i < length fs \<Longrightarrow> fl_cleaned (fs ! i) \<Longrightarrow> fl_result (fs ! i) \<noteq> None"
    and "\<And>k i. map_of m k = Some i \<Longrightarrow> i < length fs \<and> fl_key (fs ! i) = k"
  shows "registered fs m"
  using assms unfolding registered_def by presburger

lemma registered_start:
  assumes r: "registered fs m" and k: "map_of m k = None"
  shows "registered (fs @ [\<lparr>fl_key = k, fl_result = None, fl_cleaned = False\<rparr>])
    (AList.update k (length fs) m)"
proof (rule registeredI, goal_cases)
  case (1 i)
  then show ?case
    using registeredD(1) [OF r, of i] k by (cases "i = length fs") (auto simp: js.get_put nth_append)
next
  case (2 i)
  then show ?case using registeredD(2) [OF r, of i] by (cases "i = length fs") (auto simp: nth_append)
next
  case (3 j i)
  then show ?case
    using registeredD(3) [OF r, of j i] by (auto simp: js.get_put nth_append split: if_splits)
qed

lemma registered_settle:
  assumes r: "registered fs m" and i: "i < length fs"
  shows "registered (fs[i := (fs ! i)\<lparr>fl_result := Some x\<rparr>]) m"
proof (rule registeredI, goal_cases)
  case (1 j)
  then show ?case using registeredD(1) [OF r, of j] by (cases "i = j") auto
next
  case (2 j)
  then show ?case using registeredD(2) [OF r, of j] by (cases "i = j") auto
next
  case (3 k j)
  then show ?case using registeredD(3) [OF r, of k j] by (cases "i = j") auto
qed

lemma registered_cleanup:
  assumes r: "registered fs m" and i: "i < length fs" "fl_result (fs ! i) \<noteq> None"
    and nc: "\<not> fl_cleaned (fs ! i)"
  shows "registered (fs[i := (fs ! i)\<lparr>fl_cleaned := True\<rparr>]) (AList.delete (fl_key (fs ! i)) m)"
proof (rule registeredI, goal_cases)
  case (1 j)
  then have "i \<noteq> j" by auto
  with 1 show ?case
    using registeredD(1) [OF r, of j] registeredD(1) [OF r i(1) nc] by (auto simp: js.get_remove)
next
  case (2 j)
  then show ?case using registeredD(2) [OF r, of j] i by (cases "i = j") auto
next
  case (3 k j)
  then show ?case
    using registeredD(3) [OF r, of k j] by (cases "i = j") (auto simp: js.get_remove split: if_splits)
qed

lemma run_registered: "exchange_run keyFor tr s c \<Longrightarrow> registered (flights s) (inflight s)"
proof (induction rule: exchange_run.induct)
  case (run_init t)
  then show ?case by (simp add: registered_def exchange_init_def)
next
  case (run_call tr s c now token s' out)
  then show ?case
    by (auto simp: exchangeRefreshToken_def Let_def intro: registered_start split: option.splits)
next
  case (run_settle tr s c now i g)
  then show ?case by (simp add: settle_flight_def Let_def registered_settle)
next
  case (run_cleanup tr s c i)
  then show ?case by (simp add: cleanup_flight_def Let_def registered_cleanup)
qed

lemma run_recent_distinct: "exchange_run keyFor tr s c \<Longrightarrow> distinct (map fst (recentOk s))"
proof (induction rule: exchange_run.induct)
  case (run_init t)
  then show ?case by (simp add: exchange_init_def)
next
  case (run_call tr s c now token s' out)
  then show ?case
    by (auto simp: exchangeRefreshToken_def Let_def pruneRecent_distinct split: option.splits)
next
  case (run_settle tr s c now i g)
  then show ?case
    by (auto simp: settle_flight_def Let_def distinct_update split: upstream.splits)
next
  case (run_cleanup tr s c i)
  then show ?case by (simp add: cleanup_flight_def Let_def)
qed

text \<open>One exchange per token at a time: whatever the interleaving of calls, answers and
  clean-ups, two exchanges of the same token are never both waiting for the gateway.\<close>

theorem one_exchange_in_flight:
  assumes "exchange_run keyFor tr s c"
    and "i < length (flights s)" "j < length (flights s)"
    and "fl_result (flights s ! i) = None" "fl_result (flights s ! j) = None"
    and "fl_key (flights s ! i) = fl_key (flights s ! j)"
  shows "i = j"
proof -
  note r = run_registered [OF assms(1)]
  have i: "\<not> fl_cleaned (flights s ! i)"
    using registeredD(2) [OF r assms(2)] assms(4) by auto
  have j: "\<not> fl_cleaned (flights s ! j)"
    using registeredD(2) [OF r assms(3)] assms(5) by auto
  have "Some i = map_of (inflight s) (fl_key (flights s ! i))"
    by (rule registeredD(1) [OF r assms(2) i, symmetric])
  also have "\<dots> = map_of (inflight s) (fl_key (flights s ! j))"
    by (rule arg_cong [OF assms(6)])
  also have "\<dots> = Some j"
    by (rule registeredD(1) [OF r assms(3) j])
  finally show ?thesis by (rule option.inject [THEN iffD1])
qed

lemma oks_mono:
  assumes "oks_remembered tr s c" and "c \<le> now"
  shows "oks_remembered tr s now"
proof -
  have "RECENT_OK_TTL_MS < c - t \<Longrightarrow> RECENT_OK_TTL_MS < now - t" for t
    using assms(2) by linarith
  moreover have "t \<le> c \<Longrightarrow> t \<le> now" for t using assms(2) by linarith
  ultimately show ?thesis using assms(1) unfolding oks_remembered_def by blast
qed

lemma oks_prune:
  assumes oks: "oks_remembered tr s now" and dist: "distinct (map fst (recentOk s))"
    and r: "recentOk s' = pruneRecent now (recentOk s)"
  shows "oks_remembered tr s' now"
  unfolding oks_remembered_def
proof (intro conjI allI impI)
  fix t k
  assume "(t, MOk k) \<in> set tr"
  with oks consider since res where "map_of (recentOk s) k = Some (since, res)" "t \<le> since"
    | "RECENT_OK_TTL_MS < now - t"
    unfolding oks_remembered_def by blast
  then show "(\<exists>since res. map_of (recentOk s') k = Some (since, res) \<and> t \<le> since) \<or> RECENT_OK_TTL_MS < now - t"
    by cases (auto simp: r pruneRecent_get [OF dist])
next
  fix t m
  assume "(t, m) \<in> set tr"
  with oks show "t \<le> now" unfolding oks_remembered_def by blast
qed

lemma call_recentOk:
  "exchangeRefreshToken keyFor token now s = (s', out) \<Longrightarrow> recentOk s' = pruneRecent now (recentOk s)"
  by (auto simp: exchangeRefreshToken_def Let_def split: option.splits)

lemma call_started:
  "exchangeRefreshToken keyFor token now s = (s', Started i) \<Longrightarrow>
     map_of (recentOk s') (keyFor token) = None"
  by (auto simp: exchangeRefreshToken_def Let_def split: option.splits)

lemma oks_start:
  "oks_remembered tr s c \<Longrightarrow> oks_remembered ((c, MStart k i) # tr) s c"
  by (auto simp: oks_remembered_def)

lemma oks_settle:
  assumes oks: "oks_remembered tr s now"
  shows "oks_remembered
     (case classify_outcome g of UOk _ _ \<Rightarrow> (now, MOk (fl_key (flights s ! i))) # tr | _ \<Rightarrow> tr)
     (settle_flight i g now s) now"
proof (cases "classify_outcome g")
  case (UOk a r)
  have le: "(t, m) \<in> set tr \<Longrightarrow> t \<le> now" for t m
    using oks unfolding oks_remembered_def by blast
  show ?thesis
    using oks le UOk by (auto simp: oks_remembered_def settle_flight_def Let_def js.get_put)
qed (use oks in \<open>simp_all add: oks_remembered_def settle_flight_def Let_def\<close>)

lemma run_call_oks:
  assumes "exchange_run keyFor tr s c" "oks_remembered tr s c" "c \<le> now"
    and "exchangeRefreshToken keyFor token now s = (s', out)"
  shows "oks_remembered tr s' now"
  by (rule oks_prune [OF oks_mono [OF assms(2,3)] run_recent_distinct [OF assms(1)]
        call_recentOk [OF assms(4)]])

lemma run_oks: "exchange_run keyFor tr s c \<Longrightarrow> oks_remembered tr s c"
proof (induction rule: exchange_run.induct)
  case (run_init t)
  then show ?case by (simp add: oks_remembered_def)
next
  case (run_call tr s c now token s' out)
  from run_call_oks [OF run_call.hyps(1) run_call.IH run_call.hyps(2,3)]
  have "oks_remembered tr s' now" .
  then show ?case by (auto split: call_outcome.splits intro: oks_start)
next
  case (run_settle tr s c now i g)
  show ?case by (rule oks_settle [OF oks_mono [OF run_settle.IH run_settle.hyps(2)]])
next
  case (run_cleanup tr s c i)
  then show ?case by (simp add: oks_remembered_def cleanup_flight_def Let_def)
qed

text \<open>No exchange of a key starts within the time to live after one succeeded.\<close>

fun no_replay :: "(int \<times> mark) list \<Rightarrow> bool" where
  "no_replay [] \<longleftrightarrow> True"
| "no_replay ((t, MStart k i) # tr) \<longleftrightarrow>
     list_all (\<lambda>(t1, m). m = MOk k \<longrightarrow> RECENT_OK_TTL_MS < t - t1) tr \<and> no_replay tr"
| "no_replay ((t, MOk k) # tr) \<longleftrightarrow> no_replay tr"

lemma no_replay_append: "no_replay (xs @ ys) \<Longrightarrow> no_replay ys"
  by (induction xs rule: no_replay.induct) auto

lemma oks_forgotten:
  "oks_remembered tr s c \<Longrightarrow> map_of (recentOk s) k = None \<Longrightarrow>
     list_all (\<lambda>(t1, m). m = MOk k \<longrightarrow> RECENT_OK_TTL_MS < c - t1) tr"
  unfolding oks_remembered_def list_all_iff by fastforce

lemma run_no_replay: "exchange_run keyFor tr s c \<Longrightarrow> no_replay tr"
proof (induction rule: exchange_run.induct)
  case (run_call tr s c now token s' out)
  from run_call_oks [OF run_call.hyps(1) run_oks [OF run_call.hyps(1)] run_call.hyps(2,3)]
  have "out = Started i \<Longrightarrow>
      list_all (\<lambda>(t1, m). m = MOk (keyFor token) \<longrightarrow> RECENT_OK_TTL_MS < now - t1) tr" for i
    using run_call.hyps(3) call_started by (metis oks_forgotten)
  with run_call.IH show ?case by (auto split: call_outcome.splits)
qed (auto split: upstream.splits)

text \<open>C1. No replay of a consumed token: once an exchange of a token has succeeded, no exchange of
  the same token starts within the next five seconds, so a straggler gets the remembered pair
  instead of tripping the reuse detection of the gateway.\<close>

theorem no_replay_within_ttl:
  assumes "exchange_run keyFor (newer @ (t2, MStart k i) # older) s c"
    and "(t1, MOk k) \<in> set older"
  shows "5000 < t2 - t1"
  using no_replay_append [OF run_no_replay [OF assms(1)]] assms(2)
  by (auto simp: list_all_iff RECENT_OK_TTL_MS_def)

text \<open>A hash that keeps tokens apart, and a server that exchanges the token \<open>r1\<close> twice.\<close>

lemma demo_run_start:
  "exchange_run id [(0, MStart ''r1'' 0)] (fst (exchangeRefreshToken id ''r1'' 0 exchange_init)) 0"
  using run_call [OF run_init [of id 0], of 0 "''r1''"]
  by (simp add: exchangeRefreshToken_def exchange_init_def pruneRecent_def Let_def)

lemma demo_run_ok:
  "exchange_run id [(10, MOk ''r1''), (0, MStart ''r1'' 0)]
     \<lparr>inflight = [], recentOk = [(''r1'', 10, UOk ''a'' ''r2'')],
      flights = [\<lparr>fl_key = ''r1'', fl_result = Some (UOk ''a'' ''r2''), fl_cleaned = True\<rparr>]\<rparr> 10"
  using run_cleanup [OF run_settle [OF demo_run_start, of 10 0 "GStatus 200 (Some ''a'') (Some ''r2'')"], of 0]
  by (simp add: exchangeRefreshToken_def exchange_init_def pruneRecent_def settle_flight_def
      cleanup_flight_def classify_outcome_def present_def Let_def)

lemma demo_run_again:
  "exchange_run id [(5011, MStart ''r1'' 1), (10, MOk ''r1''), (0, MStart ''r1'' 0)]
     \<lparr>inflight = [(''r1'', 1)], recentOk = [],
      flights = [\<lparr>fl_key = ''r1'', fl_result = Some (UOk ''a'' ''r2''), fl_cleaned = True\<rparr>,
        \<lparr>fl_key = ''r1'', fl_result = None, fl_cleaned = False\<rparr>]\<rparr> 5011"
  using run_call [OF demo_run_ok, of 5011 "''r1''"]
  by (simp add: exchangeRefreshToken_def pruneRecent_def RECENT_OK_TTL_MS_def Let_def)

theorem one_exchange_in_flight_witness:
  "(\<exists>s. exchange_run id [(5011, MStart ''r1'' 1), (10, MOk ''r1''), (0, MStart ''r1'' 0)] s 5011 \<and>
     length (flights s) = 2) \<and> (1::nat) = 1"
proof
  show "(1::nat) = 1" by (rule one_exchange_in_flight [OF demo_run_again]) simp_all
qed (rule exI, rule conjI, rule demo_run_again, simp)

theorem no_replay_within_ttl_witness: "(5000::int) < 5011 - 10"
  by (rule no_replay_within_ttl [of id "[]" 5011 "''r1''" 1 "[(10, MOk ''r1''), (0, MStart ''r1'' 0)]"])
    (use demo_run_again in simp_all)

subsection \<open>Cookies across the routes\<close>

text \<open>
  The browser's side: a jar keyed by name and path, which a \<open>Max-Age\<close> of zero or less deletes
  from, and the cookies it sends to a path.
\<close>

type_synonym jar = "((string \<times> string) \<times> (string \<times> int option)) list"

definition browser_store :: "jar \<Rightarrow> set_cookie \<Rightarrow> jar" where
  "browser_store j c =
     (case ck_max_age c of
        Some m \<Rightarrow> if m \<le> 0 then AList.delete (ck_name c, ck_path c) j
                  else AList.update (ck_name c, ck_path c) (ck_value c, Some m) j
      | None \<Rightarrow> AList.update (ck_name c, ck_path c) (ck_value c, None) j)"

definition browser_receive :: "jar \<Rightarrow> bff_response \<Rightarrow> jar" where
  "browser_receive j r = foldl browser_store j (br_cookies r)"

definition browser_cookies :: "jar \<Rightarrow> string \<Rightarrow> (string, string) jsmap" where
  "browser_cookies j path =
     map (\<lambda>((n, p), (v, _)). (n, v)) (filter (\<lambda>((n, p), _). cookie_path_match p path) j)"

text \<open>The jar holds the session cookies at the paths the routes give them and nowhere else.\<close>

definition cookie_home :: "(string \<times> string) list" where
  "cookie_home = [(COOKIES_ACCESS, ''/''), (COOKIES_REFRESH, ''/api/auth''), (COOKIES_REMEMBER, ''/api/auth'')]"

definition session_jar :: "jar \<Rightarrow> bool" where
  "session_jar j \<longleftrightarrow> list_all (\<lambda>((n, p), _). case map_of cookie_home n of Some q \<Rightarrow> p = q | None \<Rightarrow> True) j"

lemma browser_cookies_get:
  assumes "session_jar j" and "map_of cookie_home n = Some q" and "cookie_path_match q path"
  shows "map_of (browser_cookies j path) n = map_option fst (map_of j (n, q))"
  using assms(1)
proof (induction j)
  case Nil
  then show ?case by (simp add: browser_cookies_def)
next
  case (Cons e j)
  obtain m p v a where e: "e = ((m, p), (v, a))" by (metis surj_pair)
  from Cons have IH: "map_of (browser_cookies j path) n = map_option fst (map_of j (n, q))"
    and home: "m = n \<Longrightarrow> p = q"
    using assms(2) by (auto simp: session_jar_def e)
  have step: "browser_cookies (((m, p), (v, a)) # j) path =
      (if cookie_path_match p path then [(m, v)] else []) @ browser_cookies j path"
    by (simp add: browser_cookies_def)
  show ?case
    using IH home assms(3) unfolding e step by (cases "m = n") auto
qed

lemma browser_cookies_hidden:
  assumes "session_jar j" and "map_of cookie_home n = Some q" and "\<not> cookie_path_match q path"
  shows "map_of (browser_cookies j path) n = None"
  using assms by (induction j) (auto simp: session_jar_def browser_cookies_def split: option.splits)

lemma session_jar_keys:
  "session_jar j \<longleftrightarrow>
     (\<forall>k \<in> fst ` set j. case map_of cookie_home (fst k) of Some q \<Rightarrow> snd k = q | None \<Rightarrow> True)"
  by (auto simp: session_jar_def list_all_iff split: option.splits)

lemma session_jar_store:
  assumes "session_jar j" and "map_of cookie_home (ck_name c) = Some (ck_path c)"
  shows "session_jar (browser_store j c)"
proof -
  let ?k = "(ck_name c, ck_path c)"
  have "fst ` set (AList.delete ?k j) \<subseteq> insert ?k (fst ` set j)"
    using dom_delete_subset by (rule subset_trans) (rule subset_insertI)
  moreover have "fst ` set (AList.update ?k v j) \<subseteq> insert ?k (fst ` set j)" for v
    by (simp add: dom_update)
  ultimately have sub: "fst ` set (browser_store j c) \<subseteq> insert ?k (fst ` set j)"
    by (simp add: browser_store_def split: option.split)
  show ?thesis unfolding session_jar_keys
  proof
    fix k
    assume "k \<in> fst ` set (browser_store j c)"
    with sub consider "k = ?k" | "k \<in> fst ` set j" by auto
    then show "case map_of cookie_home (fst k) of Some q \<Rightarrow> snd k = q | None \<Rightarrow> True"
      using assms by cases (auto simp: session_jar_keys)
  qed
qed

lemma browser_store_get:
  "map_of (browser_store j c) k =
     (if k = (ck_name c, ck_path c)
      then (case ck_max_age c of
          Some m \<Rightarrow> if m \<le> 0 then None else Some (ck_value c, Some m)
        | None \<Rightarrow> Some (ck_value c, None))
      else map_of j k)"
  by (auto simp: browser_store_def js.get_put js.get_remove split: option.splits)

lemma cookie_names_distinct [simp]:
  "COOKIES_ACCESS \<noteq> COOKIES_REFRESH" "COOKIES_REFRESH \<noteq> COOKIES_ACCESS"
  "COOKIES_ACCESS \<noteq> COOKIES_REMEMBER" "COOKIES_REMEMBER \<noteq> COOKIES_ACCESS"
  "COOKIES_REFRESH \<noteq> COOKIES_REMEMBER" "COOKIES_REMEMBER \<noteq> COOKIES_REFRESH"
  by (simp_all add: COOKIES_ACCESS_def COOKIES_REFRESH_def COOKIES_REMEMBER_def)

lemma cookie_home_get [simp]:
  "map_of cookie_home COOKIES_ACCESS = Some ''/''"
  "map_of cookie_home COOKIES_REFRESH = Some ''/api/auth''"
  "map_of cookie_home COOKIES_REMEMBER = Some ''/api/auth''"
  by (simp_all add: cookie_home_def)

lemma auth_path_match: "cookie_path_match ''/api/auth'' (''/api/auth/'' @ p)"
  by (simp add: cookie_path_match_def js_startsWith_def)

lemmas cookie_fields = cookieOptions_def clear_cookie_def

lemma session_POST_jar:
  assumes "session_jar j" and "0 < ACCESS_TOKEN_MAX_AGE cfg" "0 < REFRESH_TOKEN_MAX_AGE cfg"
    and "present (sb_access_token b) \<noteq> []" "present (sb_refresh_token b) \<noteq> []"
    and "j1 = browser_receive j (session_POST cfg True (Some b))"
    and "remember = (sb_remember b = Some True)"
  shows "session_jar j1"
    and "map_of j1 (COOKIES_REFRESH, ''/api/auth'') = Some (present (sb_refresh_token b),
           if remember then Some (REFRESH_TOKEN_MAX_AGE cfg) else None)"
    and "map_of j1 (COOKIES_REMEMBER, ''/api/auth'') =
           (if remember then Some (''1'', Some (REFRESH_TOKEN_MAX_AGE cfg)) else None)"
  using assms
  by (auto simp: browser_receive_def session_POST_def Let_def json_response_def cookie_fields
      browser_store_get intro!: session_jar_store)

text \<open>The choice made at the login survives a rotation: after a login with or without
  \<open>remember\<close> and a refresh from the browser, both cookies hold the rotated tokens, with a
  lifetime exactly when the user asked to stay signed in.\<close>

theorem remember_choice_survives_refresh:
  assumes "session_jar j" and "0 < ACCESS_TOKEN_MAX_AGE cfg" "0 < REFRESH_TOKEN_MAX_AGE cfg"
    and "present (sb_access_token b) \<noteq> []" "present (sb_refresh_token b) \<noteq> []"
    and "j1 = browser_receive j (session_POST cfg True (Some b))"
    and "rq_cookies rq = browser_cookies j1 ''/api/auth/refresh''"
    and "exchange (present (sb_refresh_token b)) = UOk a r"
    and "j2 = browser_receive j1 (refresh_POST cfg True exchange rq)"
  shows "map_of j2 (COOKIES_ACCESS, ''/'') =
      Some (a, if sb_remember b = Some True then Some (ACCESS_TOKEN_MAX_AGE cfg) else None) \<and>
    map_of j2 (COOKIES_REFRESH, ''/api/auth'') =
      Some (r, if sb_remember b = Some True then Some (REFRESH_TOKEN_MAX_AGE cfg) else None)"
proof -
  note jar = session_POST_jar [OF assms(1-6) refl]
  have path: "cookie_path_match ''/api/auth'' ''/api/auth/refresh''"
    using auth_path_match [of "''refresh''"] by simp
  have sent: "map_of (rq_cookies rq) n = map_option fst (map_of j1 (n, ''/api/auth''))"
    if "map_of cookie_home n = Some ''/api/auth''" for n
    unfolding assms(7) by (rule browser_cookies_get [OF jar(1) that path])
  have refresh: "cookie_value rq COOKIES_REFRESH = Some (present (sb_refresh_token b))"
    using jar(2) assms(5) sent [of COOKIES_REFRESH] by (simp add: cookie_value_def)
  have marker: "map_of (rq_cookies rq) COOKIES_REMEMBER = Some ''1'' \<longleftrightarrow> sb_remember b = Some True"
    using jar(3) sent [of COOKIES_REMEMBER] by simp
  show ?thesis
    using assms(2,3) refresh marker
    by (simp add: assms(8,9) refresh_POST_def browser_receive_def renewed_cookies_def Let_def
        cookie_fields browser_store_get)
qed

definition demo_config :: session_config where
  "demo_config = \<lparr>ACCESS_TOKEN_MAX_AGE = 900, REFRESH_TOKEN_MAX_AGE = 604800, COOKIE_SECURE = True,
     COOKIE_DOMAIN = ''localhost'', COOKIE_SAMESITE = ''strict''\<rparr>"

definition demo_login :: session_body where
  "demo_login = \<lparr>sb_access_token = Some ''a0'', sb_refresh_token = Some ''r0'', sb_remember = Some True\<rparr>"

theorem remember_choice_survives_refresh_witness:
  "map_of (browser_receive (browser_receive [] (session_POST demo_config True (Some demo_login)))
     (refresh_POST demo_config True (\<lambda>_. UOk ''a1'' ''r1'')
       \<lparr>rq_pathname = ''/api/auth/refresh'',
        rq_cookies = browser_cookies (browser_receive [] (session_POST demo_config True (Some demo_login)))
          ''/api/auth/refresh'',
        rq_headers = [], rq_protocol = ''https:'', rq_origin = ''https://h''\<rparr>))
     (COOKIES_REFRESH, ''/api/auth'') = Some (''r1'', Some 604800)"
proof -
  let ?j1 = "browser_receive [] (session_POST demo_config True (Some demo_login))"
  let ?rq = "\<lparr>rq_pathname = ''/api/auth/refresh'', rq_cookies = browser_cookies ?j1 ''/api/auth/refresh'',
        rq_headers = [], rq_protocol = ''https:'', rq_origin = ''https://h''\<rparr>"
  have "sb_remember demo_login = Some True" "REFRESH_TOKEN_MAX_AGE demo_config = 604800"
    by (simp_all add: demo_login_def demo_config_def)
  with remember_choice_survives_refresh [of "[]" demo_config demo_login ?j1 ?rq "\<lambda>_. UOk ''a1'' ''r1''" "''a1''" "''r1''"]
  show ?thesis
    by (simp add: session_jar_def demo_config_def demo_login_def present_def)
qed

text \<open>A response deletes a cookie.\<close>

definition deletes_cookie :: "bff_response \<Rightarrow> bool" where
  "deletes_cookie r \<longleftrightarrow> list_ex (\<lambda>c. ck_value c = []) (br_cookies r)"

text \<open>The gateway definitively refused a token.\<close>

definition refused :: "gateway_outcome \<Rightarrow> bool" where
  "refused g = (case g of GThrew \<Rightarrow> False | GStatus st _ _ \<Rightarrow> st = 400 \<or> st = 401 \<or> st = 403)"

lemma classify_rejected: "classify_outcome g = URejected \<longleftrightarrow> refused g"
  by (cases g) (auto simp: classify_outcome_def refused_def DEFINITIVE_REJECTION_STATUSES_def)

lemma classify_ok_nonempty: "classify_outcome g = UOk a r \<Longrightarrow> a \<noteq> [] \<and> r \<noteq> []"
  by (cases g) (auto simp: classify_outcome_def split: if_splits)

lemma clear_all_deletes: "list_ex (\<lambda>c. ck_value c = []) (clear_all cfg)"
  by (simp add: clear_all_def clear_cookie_def)

lemma renewed_keeps:
  "a \<noteq> [] \<Longrightarrow> r \<noteq> [] \<Longrightarrow> \<not> list_ex (\<lambda>c. ck_value c = []) (renewed_cookies cfg rq a r)"
  by (simp add: renewed_cookies_def cookieOptions_def Let_def)


text \<open>The session route treats the cookies alike: it deletes them only when the token it had to
  rotate, because the access token is about to expire, was refused by the gateway.\<close>

theorem session_GET_deletes_only_on_refusal:
  assumes "se_exchange env = (\<lambda>t. classify_outcome (gateway t))"
    and "session_GET cfg env now_ms rq = Some resp" and "deletes_cookie resp"
  shows "\<exists>t. cookie_value rq COOKIES_REFRESH = Some t \<and> refused (gateway t) \<and> br_status resp = 401"
  using assms(2,3) unfolding session_GET_def Let_def assms(1)
  by (auto simp: deletes_cookie_def json_response_def classify_rejected renewed_keeps
      dest: classify_ok_nonempty split: option.splits if_splits upstream.splits)

text \<open>An access token without an expiry, whose refresh token the gateway refuses.\<close>

definition demo_refused_env :: session_env where
  "demo_refused_env =
     \<lparr>se_decode = (\<lambda>_. Some (JObj [])), se_me = (\<lambda>_. None),
      se_exchange = (\<lambda>t. classify_outcome (GStatus 401 None None)), se_iso = (\<lambda>_. None)\<rparr>"

definition demo_stale_request :: request where
  "demo_stale_request =
     \<lparr>rq_pathname = ''/api/auth/session'',
      rq_cookies = [(COOKIES_ACCESS, ''h.p.s''), (COOKIES_REFRESH, ''r'')],
      rq_headers = [], rq_protocol = ''https:'', rq_origin = ''https://h''\<rparr>"

theorem session_GET_deletes_only_on_refusal_witness:
  "\<exists>resp t. session_GET demo_config demo_refused_env 1000 demo_stale_request = Some resp \<and>
     cookie_value demo_stale_request COOKIES_REFRESH = Some t \<and>
     refused (GStatus 401 None None) \<and> br_status resp = 401"
proof -
  let ?resp = "(json_response (BError ''session expired'') 401)\<lparr>br_cookies := clear_all demo_config\<rparr>"
  have "session_GET demo_config demo_refused_env 1000 demo_stale_request = Some ?resp"
    by (simp add: session_GET_def demo_refused_env_def demo_stale_request_def cookie_value_def
        decodeJWTPayload_def jwt_base64_def json_number_def json_get_def now_plus_def
        classify_outcome_def DEFINITIVE_REJECTION_STATUSES_def)
  moreover have "deletes_cookie ?resp" by (simp add: deletes_cookie_def clear_all_deletes)
  ultimately show ?thesis
    using session_GET_deletes_only_on_refusal [of demo_refused_env "\<lambda>_. GStatus 401 None None"]
    by (fastforce simp: demo_refused_env_def)
qed

text \<open>No cross-site page changes the session: a mutating route sets or deletes cookies only for a
  request whose origin, or, without an origin header, whose referer's origin, is one of the
  configured origins or the host the request came to.\<close>

theorem mutation_needs_allowed_origin:
  assumes "resp \<in> {session_POST cfg (isBFFOriginAllowed parse_url explicit rq) body,
      session_DELETE cfg (isBFFOriginAllowed parse_url explicit rq),
      refresh_POST cfg (isBFFOriginAllowed parse_url explicit rq) exchange rq}"
    and "br_cookies resp \<noteq> []"
  shows "\<exists>o' \<in> set (allowedOrigins explicit rq).
    header_get (rq_headers rq) ''origin'' = Some o' \<or>
    present (header_get (rq_headers rq) ''origin'') = [] \<and>
      (\<exists>ref u. header_get (rq_headers rq) ''referer'' = Some ref \<and> parse_url ref = Some u \<and>
        o' = u_protocol u @ ''//'' @ u_host u)"
proof -
  have "isBFFOriginAllowed parse_url explicit rq"
    using assms by (auto simp: session_POST_def session_DELETE_def refresh_POST_def
        bffCSRFRejection_def json_response_def split: if_splits)
  then show ?thesis
    by (auto simp: isBFFOriginAllowed_def Let_def present_def split: option.splits list.splits)
qed

definition demo_own_request :: request where
  "demo_own_request = demo_stale_request\<lparr>rq_headers := [(''host'', ''h''), (''origin'', ''https://h'')]\<rparr>"

theorem mutation_needs_allowed_origin_witness:
  "\<exists>o' \<in> set (allowedOrigins [] demo_own_request).
    header_get (rq_headers demo_own_request) ''origin'' = Some o' \<or>
    present (header_get (rq_headers demo_own_request) ''origin'') = [] \<and>
      (\<exists>ref (u :: parsed_url). header_get (rq_headers demo_own_request) ''referer'' = Some ref \<and> None = Some u \<and>
        o' = u_protocol u @ ''//'' @ u_host u)"
proof (rule mutation_needs_allowed_origin [where parse_url = "\<lambda>_. None"])
  show "session_DELETE demo_config (isBFFOriginAllowed (\<lambda>_. None) [] demo_own_request)
      \<in> {session_POST demo_config (isBFFOriginAllowed (\<lambda>_. None) [] demo_own_request) None,
          session_DELETE demo_config (isBFFOriginAllowed (\<lambda>_. None) [] demo_own_request),
          refresh_POST demo_config (isBFFOriginAllowed (\<lambda>_. None) [] demo_own_request) (\<lambda>_. URejected) demo_own_request}"
    by simp
  have "isBFFOriginAllowed (\<lambda>_. None) [] demo_own_request" by code_simp
  then show "br_cookies (session_DELETE demo_config (isBFFOriginAllowed (\<lambda>_. None) [] demo_own_request)) \<noteq> []"
    by (simp add: session_DELETE_def json_response_def clear_all_def)
qed

end
