(* ===== verification/Middleware.thy ===== *)
theory Middleware
  imports Bff SafeRedirect
begin

section \<open>The request middleware\<close>

text \<open>
  \<open>frontend/src/middleware.ts\<close> with the security headers of \<open>middleware/security.ts\<close> and
  \<open>lib/security-headers.ts\<close> and the origin derivation of \<open>lib/middleware-utils.ts\<close>: one
  definition per function, from the request to the response. URL parsing, \<open>JSON.parse\<close>, the
  nonce, the clock, the build environment and the answer of the refresh route are arguments.
\<close>

subsection \<open>Security headers\<close>

record build_env =
  be_production :: bool
  be_api_url :: string
  be_app_url :: string
  be_tile_sources :: string
  be_tile_template :: string
  be_parse_url :: "string \<Rightarrow> parsed_url option"

definition SERVE_HTTPS :: "build_env \<Rightarrow> bool" where
  "SERVE_HTTPS e = js_startsWith (be_api_url e) ''https://''"

definition getWebSocketSource :: "build_env \<Rightarrow> string \<Rightarrow> string option" where
  "getWebSocketSource e apiUrl =
     (case be_parse_url e apiUrl of
        None \<Rightarrow> None
      | Some u \<Rightarrow>
          if u_protocol u = ''http:'' then Some (''ws://'' @ u_host u)
          else if u_protocol u = ''https:'' then Some (''wss://'' @ u_host u)
          else if u_protocol u \<noteq> ''ws:'' \<and> u_protocol u \<noteq> ''wss:'' then None
          else Some (u_origin u))"

definition getOrigin :: "build_env \<Rightarrow> string \<Rightarrow> string option" where
  "getOrigin e v = (if v = [] then None else map_option u_origin (be_parse_url e v))"

text \<open>\<open>s.split(/[\s,]+/).map(trim).filter(Boolean)\<close>\<close>

definition source_list :: "string \<Rightarrow> string list" where
  "source_list s =
     filter (\<lambda>w. w \<noteq> []) (map js_trim
       (js_split CHR '','' (map (\<lambda>c. if js_is_space c then CHR '','' else c) s)))"

definition getMapTileConnectSources :: "build_env \<Rightarrow> string list" where
  "getMapTileConnectSources e =
     filter (\<lambda>s. s \<noteq> [])
       (''https://tile.openstreetmap.org'' # present (getOrigin e (be_tile_template e)) #
        source_list (be_tile_sources e))"

definition quoted :: "string \<Rightarrow> string" where
  "quoted s = char_of (39 :: nat) # s @ [char_of (39 :: nat)]"

definition buildConnectSrc :: "build_env \<Rightarrow> string \<Rightarrow> string" where
  "buildConnectSrc e apiUrl =
     (let sources = filter (\<lambda>s. s \<noteq> [])
            ([quoted ''self'', ''blob:'', apiUrl, present (getWebSocketSource e apiUrl), ''wss:''] @
             getMapTileConnectSources e)
      in ''connect-src '' @ js_join '' '' (js_uniq sources))"

definition csp_directives :: "build_env \<Rightarrow> string list" where
  "csp_directives e =
     [''default-src '' @ quoted ''self'',
      (if be_production e
       then ''script-src '' @ quoted ''self'' @ '' '' @ quoted ''unsafe-inline''
       else ''script-src '' @ quoted ''self'' @ '' '' @ quoted ''unsafe-eval'' @ '' '' @ quoted ''unsafe-inline''),
      ''style-src '' @ quoted ''self'' @ '' '' @ quoted ''unsafe-inline'',
      ''img-src '' @ quoted ''self'' @ '' data: https:'',
      ''font-src '' @ quoted ''self'' @ '' data:'',
      buildConnectSrc e (be_api_url e),
      ''worker-src '' @ quoted ''self'' @ '' blob:'',
      ''frame-src '' @ quoted ''self'' @ '' blob:'',
      ''frame-ancestors '' @ quoted ''none'',
      ''base-uri '' @ quoted ''self'',
      ''form-action '' @ quoted ''self'',
      ''object-src '' @ quoted ''none''] @
     (if be_production e \<and> SERVE_HTTPS e then [''upgrade-insecure-requests''] else [])"

text \<open>The nonce is accepted and not used.\<close>

definition buildCSP :: "build_env \<Rightarrow> string option \<Rightarrow> string" where
  "buildCSP e nonce = js_join ''; '' (csp_directives e)"

definition buildCSPHeader :: "build_env \<Rightarrow> string option \<Rightarrow> string" where
  "buildCSPHeader e nonce = buildCSP e nonce"

definition addSecurityHeaders :: "build_env \<Rightarrow> string option \<Rightarrow> headers \<Rightarrow> headers" where
  "addSecurityHeaders e nonce h =
     (let h = header_set ''X-Content-Type-Options'' ''nosniff'' h;
          h = header_set ''X-Frame-Options'' ''DENY'' h;
          h = header_set ''X-XSS-Protection'' ''0'' h;
          h = header_set ''Referrer-Policy'' ''strict-origin-when-cross-origin'' h;
          h = header_set ''Permissions-Policy''
            ''camera=(), microphone=(), geolocation=(), payment=(), usb=(), interest-cohort=()'' h;
          h = header_set ''Content-Security-Policy'' (buildCSP e nonce) h;
          h = (if be_production e then
                 let h = (if SERVE_HTTPS e
                       then header_set ''Strict-Transport-Security'' ''max-age=31536000; includeSubDomains; preload'' h
                       else h);
                     h = header_set ''Cross-Origin-Opener-Policy'' ''same-origin'' h
                 in header_set ''Cross-Origin-Resource-Policy'' ''same-origin'' h
               else h)
      in header_delete ''X-Powered-By'' (header_delete ''Server'' h))"

subsection \<open>Responses and redirects\<close>

datatype mw_action = Next headers | RedirectTo string | RewriteTo string

record mw_response =
  mr_action :: mw_action
  mr_headers :: headers

definition withSecurityHeaders :: "build_env \<Rightarrow> string \<Rightarrow> mw_response \<Rightarrow> mw_response" where
  "withSecurityHeaders e nonce r = r\<lparr>mr_headers := addSecurityHeaders e (Some nonce) (mr_headers r)\<rparr>"

definition nextWithNonce :: "build_env \<Rightarrow> request \<Rightarrow> string \<Rightarrow> mw_response" where
  "nextWithNonce e rq nonce =
     \<lparr>mr_action = Next (header_set ''Content-Security-Policy'' (buildCSPHeader e (Some nonce))
        (header_set ''x-nonce'' nonce (rq_headers rq))), mr_headers = []\<rparr>"

definition firstForwardedValue :: "string option \<Rightarrow> string option" where
  "firstForwardedValue v =
     (case v of
        None \<Rightarrow> None
      | Some s \<Rightarrow>
          if s = [] then None
          else let first = js_trim (hd (js_split CHR '','' s)) in if first = [] then None else Some first)"

definition normalizeProto :: "string option \<Rightarrow> string option" where
  "normalizeProto proto =
     (case proto of
        None \<Rightarrow> None
      | Some p \<Rightarrow>
          let value = js_toLowerCase (js_trim p) in
          if p \<noteq> [] \<and> (value = ''http'' \<or> value = ''https'') then Some value else None)"

text \<open>\<open>protocol.replace(/:$/, '')\<close>\<close>

definition strip_colon :: "string \<Rightarrow> string" where
  "strip_colon p = (if p \<noteq> [] \<and> last p = CHR '':'' then butlast p else p)"

definition getPublicOrigin :: "build_env \<Rightarrow> request \<Rightarrow> string" where
  "getPublicOrigin e rq =
     (let forwardedHost = firstForwardedValue (header_get (rq_headers rq) ''x-forwarded-host'');
          forwardedProto = normalizeProto (firstForwardedValue (header_get (rq_headers rq) ''x-forwarded-proto''));
          proto = (case forwardedProto of Some p \<Rightarrow> p | None \<Rightarrow> strip_colon (rq_protocol rq))
      in case forwardedHost of
           Some h \<Rightarrow> proto @ ''://'' @ h
         | None \<Rightarrow>
             let host = present (header_get (rq_headers rq) ''host'') in
             if host \<noteq> [] then proto @ ''://'' @ host
             else case getOrigin e (be_app_url e) of
               Some o' \<Rightarrow> o'
             | None \<Rightarrow> rq_origin rq)"

text \<open>
  \<open>new URL(target, origin)\<close> for a target that is an absolute path in URL characters: the path on
  the origin of the base; it throws, here None, when the base is not a URL.
\<close>

definition publicRedirect :: "build_env \<Rightarrow> request \<Rightarrow> string \<Rightarrow> mw_response option" where
  "publicRedirect e rq target =
     map_option (\<lambda>u. \<lparr>mr_action = RedirectTo (u_origin u @ target), mr_headers = []\<rparr>)
       (be_parse_url e (getPublicOrigin e rq))"

subsection \<open>Paths\<close>

definition PUBLIC_PATH_PREFIXES :: "string list" where
  "PUBLIC_PATH_PREFIXES =
     [''/login'', ''/register'', ''/verify'', ''/verify-email'', ''/invite'', ''/forgot-password'',
      ''/reset-password'', ''/api/'', ''/monaco/'', ''/_next/'', ''/favicon.ico'', ''/design-system'',
      ''/ui-gallery'', ''/trust'', ''/datastream'', ''/business-plus'', ''/clariosec'',
      ''/clarioinsight'', ''/solutions'', ''/sovereignty'', ''/resources'', ''/docs'', ''/compare'',
      ''/pricing'', ''/about'', ''/contact'', ''/respond/stakeholder'']"

definition PROTECTED_PATH_PREFIXES :: "string list" where
  "PROTECTED_PATH_PREFIXES =
     [''/acta'', ''/admin'', ''/console'', ''/cyber'', ''/dashboard'', ''/data'', ''/dr'', ''/files'',
      ''/lex'', ''/migrate'', ''/notebooks'', ''/notifications'', ''/respond'', ''/settings'',
      ''/setup'', ''/visus'', ''/workflows'']"

definition isPublicPath :: "string \<Rightarrow> bool" where
  "isPublicPath pathname = list_ex (js_startsWith pathname) PUBLIC_PATH_PREFIXES"

definition isProtectedPath :: "string \<Rightarrow> bool" where
  "isProtectedPath pathname = list_ex (js_startsWith pathname) PROTECTED_PATH_PREFIXES"

definition buildLoginPath :: "string \<Rightarrow> string" where
  "buildLoginPath pathname =
     ''/login?'' @ url_params [(''redirect'', safeRedirect (Some pathname) DEFAULT_FALLBACK)]"

subsection \<open>Sessions\<close>

text \<open>The answer of the refresh route: the call threw, or a status and the set-cookie header.\<close>

datatype refresh_answer = RThrew | RStatus bool "string option"

record mw_env =
  me_build :: build_env
  me_nonce :: string
  me_now_ms :: int
  me_parse_json :: "string \<Rightarrow> json option"
  me_refresh :: "headers \<Rightarrow> refresh_answer"

definition decodeJWTExpiry :: "(string \<Rightarrow> json option) \<Rightarrow> string \<Rightarrow> js_num option" where
  "decodeJWTExpiry parse_json token =
     (case jwt_base64 token of
        None \<Rightarrow> None
      | Some padded \<Rightarrow>
          (case js_atob padded of
             None \<Rightarrow> None
           | Some decoded \<Rightarrow>
               (case parse_json decoded of
                  None \<Rightarrow> None
                | Some payload \<Rightarrow> json_number payload ''exp'')))"

definition isAccessCookieValid :: "mw_env \<Rightarrow> request \<Rightarrow> int \<Rightarrow> bool" where
  "isAccessCookieValid env rq bufferSeconds =
     (case cookie_value rq COOKIES_ACCESS of
        None \<Rightarrow> False
      | Some access \<Rightarrow>
          (case decodeJWTExpiry (me_parse_json env) access of
             None \<Rightarrow> False
           | Some expiry \<Rightarrow> js_num_truthy expiry \<and> js_gt expiry (now_plus (me_now_ms env) bufferSeconds)))"

text \<open>The headers the middleware gives its call of the refresh route: only the refresh cookie.\<close>

definition refresh_call_headers :: "request \<Rightarrow> string \<Rightarrow> headers" where
  "refresh_call_headers rq refresh =
     [(''cookie'', COOKIES_REFRESH @ ''='' @ refresh), (''origin'', rq_origin rq)]"

definition refreshSessionForRequest :: "mw_env \<Rightarrow> request \<Rightarrow> mw_response option" where
  "refreshSessionForRequest env rq =
     (case cookie_value rq COOKIES_REFRESH of
        None \<Rightarrow> None
      | Some refresh \<Rightarrow>
          (case me_refresh env (refresh_call_headers rq refresh) of
             RThrew \<Rightarrow> None
           | RStatus ok set_cookie \<Rightarrow>
               if \<not> ok then None
               else
                 let nextResp = nextWithNonce (me_build env) rq (me_nonce env) in
                 Some (if present set_cookie \<noteq> []
                       then nextResp\<lparr>mr_headers := header_set ''set-cookie'' (present set_cookie) (mr_headers nextResp)\<rparr>
                       else nextResp)))"

definition copySetCookie :: "mw_response \<Rightarrow> mw_response \<Rightarrow> mw_response" where
  "copySetCookie source target =
     (let h = present (header_get (mr_headers source) ''set-cookie'') in
      if h \<noteq> [] then target\<lparr>mr_headers := header_set ''set-cookie'' h (mr_headers target)\<rparr> else target)"

subsection \<open>The handler\<close>

definition is_platform_path :: "string \<Rightarrow> bool" where
  "is_platform_path pathname \<longleftrightarrow> pathname = ''/platform'' \<or> js_startsWith pathname ''/platform/''"

text \<open>\<open>middleware(req)\<close>; None when a redirect base is malformed and the handler throws. The rewrite
  target is the request URL with the path under \<open>/console\<close> and the scheme pinned to \<open>http\<close>; it is
  named by its path.\<close>

definition middleware :: "mw_env \<Rightarrow> request \<Rightarrow> mw_response option" where
  "middleware env rq =
     (let pathname = rq_pathname rq;
          nonce = me_nonce env;
          secured = withSecurityHeaders (me_build env) nonce;
          proceed = Some (secured (nextWithNonce (me_build env) rq nonce));
          redirect = (\<lambda>target. map_option secured (publicRedirect (me_build env) rq target));
          isMarketingHome = (pathname = ''/'');
          isSessionSplitPlatform = is_platform_path pathname
      in
      if isMarketingHome \<or> isSessionSplitPlatform then
        let valid = isAccessCookieValid env rq 0;
            refreshedResponse = (if valid then None else refreshSessionForRequest env rq);
            hasValidSession = (valid \<or> refreshedResponse \<noteq> None);
            with_cookies = (\<lambda>r. case refreshedResponse of Some s \<Rightarrow> copySetCookie s r | None \<Rightarrow> r)
        in
        if isMarketingHome then
          (if hasValidSession then
             map_option (\<lambda>r. secured (with_cookies r)) (publicRedirect (me_build env) rq ''/dashboard'')
           else proceed)
        else if hasValidSession then
          Some (secured (with_cookies \<lparr>mr_action = RewriteTo (''/console'' @ pathname), mr_headers = []\<rparr>))
        else proceed
      else if isPublicPath pathname then
        (if pathname = ''/login'' \<and>
            (case cookie_value rq COOKIES_ACCESS of
               None \<Rightarrow> False
             | Some access \<Rightarrow>
                 (case decodeJWTExpiry (me_parse_json env) access of
                    None \<Rightarrow> False
                  | Some expiry \<Rightarrow> js_num_truthy expiry \<and> js_gt expiry (now_plus (me_now_ms env) 0)))
         then redirect ''/dashboard''
         else proceed)
      else if \<not> isProtectedPath pathname then proceed
      else if cookie_value rq COOKIES_ACCESS = None then redirect (buildLoginPath pathname)
      else if isAccessCookieValid env rq 30 then proceed
      else case refreshSessionForRequest env rq of
             Some refreshedResponse \<Rightarrow> Some (secured refreshedResponse)
           | None \<Rightarrow> redirect (buildLoginPath pathname))"

subsection \<open>Every response is secured\<close>

lemmas header_simps = header_get_set header_get_delete js_toLowerCase_def js_lower_char_def is_upper_def

lemma addSecurityHeaders_get:
  "header_get (addSecurityHeaders e nonce h) ''X-Content-Type-Options'' = Some ''nosniff''"
  "header_get (addSecurityHeaders e nonce h) ''X-Frame-Options'' = Some ''DENY''"
  "header_get (addSecurityHeaders e nonce h) ''Referrer-Policy'' = Some ''strict-origin-when-cross-origin''"
  "header_get (addSecurityHeaders e nonce h) ''Content-Security-Policy'' = Some (buildCSP e nonce)"
  "header_get (addSecurityHeaders e nonce h) ''Server'' = None"
  "header_get (addSecurityHeaders e nonce h) ''X-Powered-By'' = None"
  "be_production e \<Longrightarrow> SERVE_HTTPS e \<Longrightarrow>
     header_get (addSecurityHeaders e nonce h) ''Strict-Transport-Security'' =
       Some ''max-age=31536000; includeSubDomains; preload''"
  by (simp_all add: addSecurityHeaders_def Let_def header_simps)

definition secured :: "build_env \<Rightarrow> headers \<Rightarrow> bool" where
  "secured e h \<longleftrightarrow>
     header_get h ''X-Content-Type-Options'' = Some ''nosniff'' \<and>
     header_get h ''X-Frame-Options'' = Some ''DENY'' \<and>
     header_get h ''Referrer-Policy'' = Some ''strict-origin-when-cross-origin'' \<and>
     header_get h ''Content-Security-Policy'' = Some (js_join ''; '' (csp_directives e)) \<and>
     header_get h ''Server'' = None \<and> header_get h ''X-Powered-By'' = None \<and>
     (be_production e \<and> SERVE_HTTPS e \<longrightarrow>
        header_get h ''Strict-Transport-Security'' = Some ''max-age=31536000; includeSubDomains; preload'')"

lemma middleware_secures:
  "middleware env rq = Some r \<Longrightarrow> \<exists>r0. r = withSecurityHeaders (me_build env) (me_nonce env) r0"
  unfolding middleware_def Let_def by (auto split: if_splits option.splits)


subsection \<open>Who gets in\<close>

text \<open>The request has a live session: a fresh access token, or a refresh cookie the refresh route
  accepts.\<close>

definition has_session :: "mw_env \<Rightarrow> request \<Rightarrow> bool" where
  "has_session env rq \<longleftrightarrow>
     isAccessCookieValid env rq 0 \<or>
     (\<exists>t c. cookie_value rq COOKIES_REFRESH = Some t \<and>
        me_refresh env (refresh_call_headers rq t) = RStatus True c)"

lemma refresh_session: "refreshSessionForRequest env rq = Some r \<Longrightarrow> has_session env rq"
  by (auto simp: refreshSessionForRequest_def has_session_def Let_def
      split: option.splits refresh_answer.splits if_splits)

lemma valid_30_valid: "isAccessCookieValid env rq 30 \<Longrightarrow> isAccessCookieValid env rq 0"
proof -
  have "js_gt n (Fin (of_int (t + 30))) \<Longrightarrow> js_gt n (Fin (of_int t))" for n t
    by (cases n) auto
  then show "isAccessCookieValid env rq 30 \<Longrightarrow> isAccessCookieValid env rq 0"
    by (auto simp: isAccessCookieValid_def now_plus_def split: option.splits)
qed

definition reaches_app :: "request \<Rightarrow> mw_response \<Rightarrow> bool" where
  "reaches_app rq r \<longleftrightarrow>
     (case mr_action r of
        Next _ \<Rightarrow> isProtectedPath (rq_pathname rq) \<and> \<not> isPublicPath (rq_pathname rq)
      | RewriteTo _ \<Rightarrow> True
      | RedirectTo _ \<Rightarrow> False)"

lemma platform_path_form: "is_platform_path p \<Longrightarrow> \<exists>q. p = ''/platform'' @ q"
  by (auto simp: is_platform_path_def js_startsWith_iff)

lemma public_not_protected:
  "\<not> isProtectedPath ''/''" "is_platform_path p \<Longrightarrow> \<not> isProtectedPath p"
  by (auto simp: isProtectedPath_def PROTECTED_PATH_PREFIXES_def js_startsWith_def dest!: platform_path_form)

lemma console_path:
  "\<not> isPublicPath (''/console'' @ q)" "isProtectedPath (''/console'' @ q)"
  "\<not> is_platform_path (''/console'' @ q)"
  by (simp_all add: isPublicPath_def PUBLIC_PATH_PREFIXES_def isProtectedPath_def PROTECTED_PATH_PREFIXES_def
      is_platform_path_def js_startsWith_def)

text \<open>C3. A protected page and the platform console are served only to a live session: if the
  request is let through to a protected path, or rewritten, its access token is fresh or its
  refresh cookie was accepted.\<close>

theorem app_needs_session:
  assumes "middleware env rq = Some r" and "reaches_app rq r"
  shows "has_session env rq"
  using assms refresh_session [of env rq] valid_30_valid [of env rq] public_not_protected
  unfolding middleware_def Let_def
  by (auto simp: reaches_app_def withSecurityHeaders_def nextWithNonce_def publicRedirect_def has_session_def
      split: if_splits option.splits)

lemma refresh_none: "\<not> has_session env rq \<Longrightarrow> refreshSessionForRequest env rq = None"
  using refresh_session by (cases "refreshSessionForRequest env rq") auto

lemma protected_middleware:
  assumes "isProtectedPath (rq_pathname rq)" and "\<not> isPublicPath (rq_pathname rq)"
    and "\<not> has_session env rq"
  shows "middleware env rq =
    map_option (withSecurityHeaders (me_build env) (me_nonce env))
      (publicRedirect (me_build env) rq (buildLoginPath (rq_pathname rq)))"
proof -
  have "rq_pathname rq \<noteq> ''/''" "\<not> is_platform_path (rq_pathname rq)"
    using assms(1) public_not_protected by auto
  moreover have "\<not> isAccessCookieValid env rq 30"
    using assms(3) valid_30_valid by (auto simp: has_session_def)
  ultimately show ?thesis
    using assms by (simp add: middleware_def Let_def refresh_none)
qed

text \<open>Whoever has no session is sent to the login page of the public origin, and the login page
  reads the requested path back from the redirect parameter.\<close>

theorem anonymous_redirected_to_login:
  assumes "isProtectedPath (rq_pathname rq)" and "\<not> isPublicPath (rq_pathname rq)"
    and "\<not> has_session env rq"
    and "be_parse_url (me_build env) (getPublicOrigin (me_build env) rq) = Some u"
  shows "\<exists>r v. middleware env rq = Some r \<and>
    mr_action r = RedirectTo (u_origin u @ ''/login?redirect='' @ v) \<and>
    set v \<inter> set ''&=?#/ '' = {} \<and>
    url_param_read v = Some (safeRedirect (Some (rq_pathname rq)) DEFAULT_FALLBACK)"
proof -
  let ?v = "url_param_value (safeRedirect (Some (rq_pathname rq)) DEFAULT_FALLBACK)"
  have "url_param_value ''redirect'' = ''redirect''"
    by (simp add: url_param_value_def is_alnum_cases)
  then have "buildLoginPath (rq_pathname rq) = ''/login?redirect='' @ ?v"
    by (simp add: buildLoginPath_def url_params_def)
  moreover have "set ?v \<inter> set ''&=?#/ '' = {}"
    using url_param_value_no_delimiter by blast
  ultimately show ?thesis
    unfolding protected_middleware [OF assms(1-3)] publicRedirect_def assms(4)
    by (auto simp: withSecurityHeaders_def url_param_read_value)
qed

definition demo_url :: parsed_url where
  "demo_url = \<lparr>u_protocol = ''https:'', u_host = ''app'', u_origin = ''https://app''\<rparr>"

definition demo_build :: build_env where
  "demo_build = \<lparr>be_production = True, be_api_url = ''https://app'', be_app_url = [],
     be_tile_sources = [], be_tile_template = [], be_parse_url = (\<lambda>_. Some demo_url)\<rparr>"

definition demo_mw :: mw_env where
  "demo_mw = \<lparr>me_build = demo_build, me_nonce = ''n'', me_now_ms = 0, me_parse_json = (\<lambda>_. None),
     me_refresh = (\<lambda>_. RStatus True None)\<rparr>"

definition demo_console :: request where
  "demo_console = \<lparr>rq_pathname = ''/console/platform'', rq_cookies = [], rq_headers = [],
     rq_protocol = ''http:'', rq_origin = ''http://127.0.0.1:3010''\<rparr>"

theorem anonymous_redirected_to_login_witness:
  "\<exists>r v. middleware demo_mw demo_console = Some r \<and>
    mr_action r = RedirectTo (u_origin demo_url @ ''/login?redirect='' @ v) \<and>
    set v \<inter> set ''&=?#/ '' = {} \<and>
    url_param_read v = Some (safeRedirect (Some (rq_pathname demo_console)) DEFAULT_FALLBACK)"
  by (rule anonymous_redirected_to_login)
    (use console_path [of "''/platform''"] in \<open>simp_all add: demo_console_def demo_mw_def demo_build_def
      has_session_def isAccessCookieValid_def cookie_value_def\<close>)

lemma demo_redirect: "\<exists>r. middleware demo_mw demo_console = Some r"
  using protected_middleware [of demo_console demo_mw] console_path [of "''/platform''"]
  by (simp add: demo_console_def demo_mw_def demo_build_def has_session_def isAccessCookieValid_def
      cookie_value_def publicRedirect_def)


text \<open>A request to the platform with a refresh cookie the refresh route accepts.\<close>

definition demo_platform :: request where
  "demo_platform = demo_console\<lparr>rq_pathname := ''/platform'', rq_cookies := [(COOKIES_REFRESH, ''r'')]\<rparr>"

theorem app_needs_session_witness: "has_session demo_mw demo_platform"
proof (rule app_needs_session)
  let ?r = "withSecurityHeaders demo_build ''n'' \<lparr>mr_action = RewriteTo ''/console/platform'', mr_headers = []\<rparr>"
  show "middleware demo_mw demo_platform = Some ?r"
    by (simp add: middleware_def demo_mw_def demo_platform_def demo_console_def is_platform_path_def
        isAccessCookieValid_def cookie_value_def refreshSessionForRequest_def present_def
        copySetCookie_def header_get_def nextWithNonce_def Let_def)
  show "reaches_app demo_platform ?r" by (simp add: reaches_app_def withSecurityHeaders_def)
qed

text \<open>The middleware's silent refresh has nothing to present: the routes scope the refresh cookie
  to \<open>/api/auth\<close>, so on every path outside it a browser's request to a protected page gets in with a
  fresh access token or not at all, whatever the refresh route would have answered.\<close>

theorem silent_refresh_never_fires:
  assumes "session_jar j" and "rq_cookies rq = browser_cookies j (rq_pathname rq)"
    and "\<not> cookie_path_match ''/api/auth'' (rq_pathname rq)"
  shows "refreshSessionForRequest env rq = None \<and>
    (has_session env rq \<longleftrightarrow> isAccessCookieValid env rq 0)"
proof -
  have "map_of (rq_cookies rq) COOKIES_REFRESH = None"
    unfolding assms(2) by (rule browser_cookies_hidden [OF assms(1) cookie_home_get(2) assms(3)])
  then show ?thesis
    by (simp add: refreshSessionForRequest_def has_session_def cookie_value_def)
qed

theorem silent_refresh_never_fires_witness:
  "refreshSessionForRequest demo_mw (demo_console\<lparr>rq_cookies :=
      browser_cookies [((COOKIES_REFRESH, ''/api/auth''), (''r'', None))] ''/console/platform''\<rparr>) = None \<and>
    (has_session demo_mw (demo_console\<lparr>rq_cookies :=
      browser_cookies [((COOKIES_REFRESH, ''/api/auth''), (''r'', None))] ''/console/platform''\<rparr>) \<longleftrightarrow>
     isAccessCookieValid demo_mw (demo_console\<lparr>rq_cookies :=
      browser_cookies [((COOKIES_REFRESH, ''/api/auth''), (''r'', None))] ''/console/platform''\<rparr>) 0)"
  by (rule silent_refresh_never_fires [of "[((COOKIES_REFRESH, ''/api/auth''), (''r'', None))]"])
    (simp_all add: session_jar_def demo_console_def cookie_path_match_def js_startsWith_def)

end
