(* ===== verification/Kahn.thy ===== *)
theory Kahn
  imports Prelude "HOL-Library.Multiset"
begin

section \<open>Kahn's topological order and longest chains\<close>

text \<open>
  The loop that \<open>topoOrder\<close> of \<open>components/product/runbook/runbook-graph.ts\<close> and
  \<open>topoOrderNodes\<close> of \<open>components/product/nodemap/node-map-graph.ts\<close> share, and the interface
  \<open>topo_source\<close> through which both use it: a source of graphs gives the nodes, the adjacency,
  the in-degree counters and the first ready nodes, and promises that the counters count the
  edges. From these laws the locale proves that the loop returns every node exactly when the
  graph is acyclic, each after all its predecessors. The second half states longest chains
  independently of the algorithms that compute them.
\<close>

subsection \<open>The loop\<close>

text \<open>One step of the body: the counters of the successors go down, and who reaches zero is ready.\<close>

fun release :: "'a list \<Rightarrow> ('a, int) jsmap \<Rightarrow> 'a list \<Rightarrow> ('a, int) jsmap \<times> 'a list" where
  "release [] indeg ready = (indeg, ready)"
| "release (s # ss) indeg ready =
     (let indeg' = AList.update s (js_get_or 0 indeg s - 1) indeg
      in release ss indeg' (if js_get_or 0 indeg' s = 0 then ready @ [s] else ready))"

definition positives :: "('a, int) jsmap \<Rightarrow> nat" where
  "positives m = length (filter (\<lambda>e. 0 < snd e) m)"

lemma positives_update:
  "positives (AList.update k v m) + (if 0 < js_get_or 0 m k then 1 else 0) =
     positives m + (if 0 < v then 1 else 0)"
  by (induction m) (auto simp: positives_def js_get_or_def)

lemma release_measure:
  "release ss indeg ready = (indeg', ready') \<Longrightarrow>
     length ready' + positives indeg' \<le> length ready + positives indeg"
proof (induction ss indeg ready rule: release.induct)
  case (1 indeg ready)
  then show ?case by simp
next
  case (2 s ss indeg ready)
  let ?m = "AList.update s (js_get_or 0 indeg s - 1) indeg"
  have "length ready' + positives indeg' \<le>
      length (if js_get_or 0 ?m s = 0 then ready @ [s] else ready) + positives ?m"
    using 2 by (simp add: Let_def)
  moreover have "positives ?m + (if 0 < js_get_or 0 indeg s then 1 else 0) =
      positives indeg + (if 0 < js_get_or 0 indeg s - 1 then 1 else 0)"
    by (rule positives_update)
  ultimately show ?case by (auto simp: js_get_or_update split: if_splits)
qed

function kahn_loop ::
  "('a::linorder, 'a list) jsmap \<Rightarrow> ('a, int) jsmap \<Rightarrow> 'a list \<Rightarrow> 'a list \<Rightarrow> 'a list" where
  "kahn_loop adj indeg ready order =
     (if ready = [] then order
      else
        let queue = sort ready;
            cur = hd queue;
            (indeg', ready') = release (js_get_or [] adj cur) indeg (tl queue)
        in kahn_loop adj indeg' ready' (order @ [cur]))"
  by pat_completeness auto

text \<open>Each round takes a node out of the queue, and a node enters it only when its counter
  leaves the positive numbers.\<close>

termination kahn_loop
proof (relation "measure (\<lambda>(adj, indeg, ready, order). length ready + positives indeg)", goal_cases)
  case 1
  then show ?case by simp
next
  case (2 adj indeg ready order queue cur r indeg' ready')
  then have "length ready' + positives indeg' \<le> length (tl (sort ready)) + positives indeg"
    using release_measure [of "js_get_or [] adj cur" indeg "tl (sort ready)"] by simp
  moreover have "length (tl (sort ready)) < length ready"
    using 2(1) by simp
  ultimately show ?case by simp
qed

declare kahn_loop.simps [simp del]

text \<open>The closed form of a round's release.\<close>

lemma release_counts:
  "release ss indeg ready = (indeg', ready') \<Longrightarrow>
     js_get_or 0 indeg' v = js_get_or 0 indeg v - int (count_list ss v)"
  by (induction ss indeg ready rule: release.induct) (auto simp: Let_def js_get_or_update)

lemma release_ready:
  "release ss indeg ready = (indeg', ready') \<Longrightarrow>
     \<exists>new. ready' = ready @ new \<and> distinct new \<and>
       set new = {v. 0 < js_get_or 0 indeg v \<and> js_get_or 0 indeg v \<le> int (count_list ss v)}"
proof (induction ss indeg ready rule: release.induct)
  case (1 indeg ready)
  then show ?case by auto
next
  case (2 s ss indeg ready)
  let ?d = "js_get_or 0 indeg"
  let ?m = "AList.update s (?d s - 1) indeg"
  let ?r = "if js_get_or 0 ?m s = 0 then ready @ [s] else ready"
  have "release ss ?m ?r = (indeg', ready')" using "2.prems" by (simp add: Let_def)
  from "2.IH" [OF refl this] obtain new where new: "ready' = ?r @ new" "distinct new"
    "set new = {v. 0 < js_get_or 0 ?m v \<and> js_get_or 0 ?m v \<le> int (count_list ss v)}"
    by blast
  show ?case
  proof (cases "?d s = 1")
    case True
    then have "ready' = ready @ (s # new)" "s \<notin> set new"
      using new by (simp_all add: js_get_or_update)
    moreover have "set (s # new) = {v. 0 < ?d v \<and> ?d v \<le> int (count_list (s # ss) v)}"
      using new(3) True by (auto simp: js_get_or_update)
    ultimately show ?thesis using new(2) by (intro exI [of _ "s # new"]) simp
  next
    case False
    then have "ready' = ready @ new" using new by (simp add: js_get_or_update)
    moreover have "set new = {v. 0 < ?d v \<and> ?d v \<le> int (count_list (s # ss) v)}"
      using new(3) False by (auto simp: js_get_or_update)
    ultimately show ?thesis using new(2) by blast
  qed
qed

subsection \<open>What the loop returns\<close>

definition graph_edges :: "'a set \<Rightarrow> ('a \<Rightarrow> 'a list) \<Rightarrow> ('a \<times> 'a) set" where
  "graph_edges V A = {(u, v). u \<in> V \<and> v \<in> V \<and> v \<in> set (A u)}"

text \<open>Every node comes after its predecessors.\<close>

definition topo_sorted :: "('a \<times> 'a) set \<Rightarrow> 'a list \<Rightarrow> bool" where
  "topo_sorted E xs \<longleftrightarrow> (\<forall>ys v zs u. xs = ys @ v # zs \<longrightarrow> (u, v) \<in> E \<longrightarrow> u \<in> set ys)"

lemma topo_sorted_Nil [simp]: "topo_sorted E []"
  by (simp add: topo_sorted_def)

lemma topo_sorted_snoc:
  assumes "topo_sorted E xs" and "\<And>u. (u, v) \<in> E \<Longrightarrow> u \<in> set xs"
  shows "topo_sorted E (xs @ [v])"
  unfolding topo_sorted_def
proof (intro allI impI)
  fix ys w zs u
  assume eq: "xs @ [v] = ys @ w # zs" and e: "(u, w) \<in> E"
  show "u \<in> set ys"
  proof (cases zs rule: rev_cases)
    case Nil
    with eq e assms(2) show ?thesis by simp
  next
    case (snoc zs' z)
    with eq have "xs = ys @ w # zs'" by simp
    with e assms(1) show ?thesis unfolding topo_sorted_def by blast
  qed
qed

lemma topo_sorted_prefix: "topo_sorted E (xs @ ys) \<Longrightarrow> topo_sorted E xs"
  unfolding topo_sorted_def by fastforce

text \<open>The place of an element in a list without repetitions.\<close>

definition place :: "'a list \<Rightarrow> 'a \<Rightarrow> nat" where
  "place xs v = length (takeWhile (\<lambda>x. x \<noteq> v) xs)"

lemma place_split: "v \<notin> set ys \<Longrightarrow> place (ys @ v # zs) v = length ys"
  by (simp add: place_def takeWhile_append)

lemma place_less: "v \<in> set xs \<Longrightarrow> place xs v < length xs"
  by (auto dest!: split_list_first simp: place_split)

lemma topo_sorted_place:
  assumes "topo_sorted E xs" and "distinct xs" and "(u, v) \<in> E" and "v \<in> set xs"
  shows "u \<in> set xs \<and> place xs u < place xs v"
proof -
  obtain ys zs where xs: "xs = ys @ v # zs" using split_list [OF assms(4)] by blast
  with assms(1,3) have "u \<in> set ys" unfolding topo_sorted_def by blast
  then obtain as bs where ys: "ys = as @ u # bs" by (meson split_list)
  have "place xs v = length ys"
    using assms(2) unfolding xs by (intro place_split) simp
  moreover have "place (as @ u # (bs @ v # zs)) u = length as"
    using assms(2) unfolding xs ys by (intro place_split) simp
  ultimately show ?thesis by (simp add: xs ys)
qed

lemma topo_sorted_acyclic:
  assumes "topo_sorted E xs" and "distinct xs" and "E \<subseteq> set xs \<times> set xs"
  shows "acyclic E"
proof -
  have "E \<subseteq> measure (place xs)"
    using topo_sorted_place [OF assms(1,2)] assms(3) by auto
  then show ?thesis by (rule wf_acyclic [OF wf_subset [OF wf_measure]])
qed

text \<open>A finite graph in which every node of a set has a predecessor in the set has a cycle.\<close>

lemma backward_closed_cycle:
  assumes "finite U" and "U \<noteq> {}" and "\<And>v. v \<in> U \<Longrightarrow> \<exists>u \<in> U. (u, v) \<in> E"
  shows "\<not> acyclic E"
proof
  assume "acyclic E"
  then have "acyclic (E \<inter> U \<times> U)" by (rule acyclic_subset) simp
  then have "wf (E \<inter> U \<times> U)"
    using assms(1) by (intro finite_acyclic_wf) simp_all
  then obtain m where "m \<in> U" "\<And>u. (u, m) \<in> E \<inter> U \<times> U \<Longrightarrow> u \<notin> U"
    using assms(2) by (metis ex_in_conv wf_eq_minimal)
  with assms(3) show False by blast
qed

subsection \<open>The interface of the sources\<close>

text \<open>The state of the loop: the counters count the edges from nodes not yet put out.\<close>

definition kahn_inv ::
  "'a set \<Rightarrow> ('a \<Rightarrow> 'a list) \<Rightarrow> ('a, int) jsmap \<Rightarrow> 'a list \<Rightarrow> 'a list \<Rightarrow> bool" where
  "kahn_inv V A indeg ready order \<longleftrightarrow>
     distinct (order @ ready) \<and> set (order @ ready) \<subseteq> V \<and>
     (\<forall>v. js_get_or 0 indeg v \<le> 0 \<longleftrightarrow> v \<notin> V - set (order @ ready)) \<and>
     (\<forall>v \<in> V. js_get_or 0 indeg v = (\<Sum>u \<in> V - set order. int (count_list (A u) v))) \<and>
     topo_sorted (graph_edges V A) order"

lemma kahn_inv_no_preds:
  assumes "kahn_inv V A indeg ready order" and "finite V" and "v \<in> set ready" and "u \<in> V - set order"
  shows "v \<notin> set (A u)"
proof -
  have v: "v \<in> V" and le: "js_get_or 0 indeg v \<le> 0"
    using assms(1,3) unfolding kahn_inv_def by auto
  have "(\<Sum>u \<in> V - set order. int (count_list (A u) v)) \<le> 0"
    using assms(1) v le unfolding kahn_inv_def by simp
  then have "(\<Sum>u \<in> V - set order. int (count_list (A u) v)) = 0"
    by (intro antisym sum_nonneg) simp_all
  then have "int (count_list (A u) v) = 0"
    using assms(2,4) by (subst (asm) sum_nonneg_eq_0_iff) auto
  then show ?thesis by (simp add: count_list_0_iff)
qed

lemma kahn_inv_step:
  assumes inv: "kahn_inv V A indeg ready order" and fin: "finite V" and ne: "ready \<noteq> []"
    and cur: "cur = hd (sort ready)"
    and rel: "release (A cur) indeg (tl (sort ready)) = (indeg', ready')"
  shows "kahn_inv V A indeg' ready' (order @ [cur])"
proof -
  let ?q = "tl (sort ready)"
  have "sort ready \<noteq> []" using ne by (metis set_sort set_empty)
  then have q: "sort ready = cur # ?q" using cur by simp
  have set_q: "set ready = insert cur (set ?q)"
    by (metis q list.simps(15) set_sort)
  have "distinct (sort ready)" using inv unfolding kahn_inv_def by simp
  then have dist_q: "distinct ?q" "cur \<notin> set ?q" using q by (metis distinct.simps(2))+
  obtain new where new: "ready' = ?q @ new" "distinct new"
    "set new = {v. 0 < js_get_or 0 indeg v \<and> js_get_or 0 indeg v \<le> int (count_list (A cur) v)}"
    using release_ready [OF rel] by blast
  have counts: "js_get_or 0 indeg' v = js_get_or 0 indeg v - int (count_list (A cur) v)" for v
    by (rule release_counts [OF rel])
  have dist: "distinct (order @ ready)" and sub: "set (order @ ready) \<subseteq> V"
    and pos: "\<And>v. js_get_or 0 indeg v \<le> 0 \<longleftrightarrow> v \<notin> V - set (order @ ready)"
    and sums: "\<And>v. v \<in> V \<Longrightarrow> js_get_or 0 indeg v = (\<Sum>u \<in> V - set order. int (count_list (A u) v))"
    and topo: "topo_sorted (graph_edges V A) order"
    using inv unfolding kahn_inv_def by blast+
  have cur_in: "cur \<in> V - set order" using dist sub set_q by auto
  have new_fresh: "set new \<inter> set (order @ ready) = {}" "set new \<subseteq> V"
    using pos by (fastforce simp: new(3) not_le [symmetric])+
  show ?thesis unfolding kahn_inv_def
  proof (intro conjI allI ballI)
    show "distinct ((order @ [cur]) @ ready')"
      using dist dist_q new(1,2) new_fresh(1) set_q by auto
    show "set ((order @ [cur]) @ ready') \<subseteq> V"
      using sub new(1) new_fresh(2) set_q by auto
  next
    fix v
    show "js_get_or 0 indeg' v \<le> 0 \<longleftrightarrow> v \<notin> V - set ((order @ [cur]) @ ready')"
    proof (cases "js_get_or 0 indeg v \<le> 0")
      case True
      then have "v \<notin> V - set (order @ ready)" using pos by blast
      with True show ?thesis using set_q new(1) by (auto simp: counts)
    next
      case False
      then have "v \<in> V - set (order @ ready)" using pos by blast
      moreover have "v \<in> set new \<longleftrightarrow> js_get_or 0 indeg' v \<le> 0"
        using False by (auto simp: new(3) counts)
      ultimately show ?thesis using set_q new(1) by auto
    qed
  next
    fix v
    assume v: "v \<in> V"
    have "V - set (order @ [cur]) = (V - set order) - {cur}" by auto
    then have "(\<Sum>u \<in> V - set (order @ [cur]). int (count_list (A u) v)) =
        (\<Sum>u \<in> V - set order. int (count_list (A u) v)) - int (count_list (A cur) v)"
      using fin cur_in by (simp add: sum_diff1)
    then show "js_get_or 0 indeg' v = (\<Sum>u \<in> V - set (order @ [cur]). int (count_list (A u) v))"
      using sums [OF v] by (simp add: counts)
  next
    show "topo_sorted (graph_edges V A) (order @ [cur])"
    proof (rule topo_sorted_snoc [OF topo])
      fix u
      assume "(u, cur) \<in> graph_edges V A"
      then show "u \<in> set order"
        using kahn_inv_no_preds [OF inv fin, of cur u] set_q by (auto simp: graph_edges_def)
    qed
  qed
qed

lemma kahn_inv_loop:
  assumes "\<And>u. A u = js_get_or [] adj u" and "finite V"
  shows "kahn_inv V A indeg ready order \<Longrightarrow>
    \<exists>indeg'. kahn_inv V A indeg' [] (kahn_loop adj indeg ready order)"
  using assms
proof (induction adj indeg ready order rule: kahn_loop.induct)
  case (1 adj indeg ready order)
  show ?case
  proof (cases "ready = []")
    case True
    with 1 show ?thesis by (auto simp: kahn_loop.simps [of adj indeg "[]" order])
  next
    case False
    let ?cur = "hd (sort ready)"
    obtain indeg' ready' where rel: "release (js_get_or [] adj ?cur) indeg (tl (sort ready)) = (indeg', ready')"
      by fastforce
    have "release (A ?cur) indeg (tl (sort ready)) = (indeg', ready')"
      using rel "1.prems"(2) by simp
    from kahn_inv_step [OF "1.prems"(1,3) False refl this]
    have "kahn_inv V A indeg' ready' (order @ [?cur])" .
    from "1.IH" [OF False refl refl rel [symmetric] refl this "1.prems"(2,3)]
    show ?thesis
      using False rel by (simp add: kahn_loop.simps [of adj indeg ready order] Let_def)
  qed
qed

text \<open>The loop ends with the whole node set exactly on an acyclic graph.\<close>

lemma kahn_inv_end:
  assumes inv: "kahn_inv V A indeg [] order" and fin: "finite V"
  shows "distinct order" "set order \<subseteq> V" "topo_sorted (graph_edges V A) order"
    "set order = V \<longleftrightarrow> acyclic (graph_edges V A)"
proof -
  show "distinct order" "set order \<subseteq> V" and topo: "topo_sorted (graph_edges V A) order"
    using inv unfolding kahn_inv_def by auto
  show "set order = V \<longleftrightarrow> acyclic (graph_edges V A)"
  proof
    assume "set order = V"
    then show "acyclic (graph_edges V A)"
      using topo inv by (intro topo_sorted_acyclic [of _ order]) (auto simp: kahn_inv_def graph_edges_def)
  next
    assume acyc: "acyclic (graph_edges V A)"
    have pred: "\<exists>u \<in> V - set order. (u, v) \<in> graph_edges V A" if v: "v \<in> V - set order" for v
    proof (rule ccontr)
      assume none: "\<not> (\<exists>u \<in> V - set order. (u, v) \<in> graph_edges V A)"
      have "int (count_list (A u) v) = 0" if "u \<in> V - set order" for u
        using none that v by (auto simp: graph_edges_def count_list_0_iff)
      then have "(\<Sum>u \<in> V - set order. int (count_list (A u) v)) = 0" by (intro sum.neutral ballI)
      then have "js_get_or 0 indeg v = 0" using inv v by (simp add: kahn_inv_def)
      then have "v \<notin> V - set (order @ [])" using inv unfolding kahn_inv_def by (metis order_refl)
      with v show False by simp
    qed
    have "V - set order = {}"
    proof (rule ccontr)
      assume "V - set order \<noteq> {}"
      from backward_closed_cycle [OF finite_Diff [OF fin] this pred] acyc show False by simp
    qed
    then show "set order = V" using inv by (auto simp: kahn_inv_def)
  qed
qed

text \<open>
  A source of graphs, as \<open>topoOrder\<close> and \<open>topoOrderNodes\<close> are: the nodes, the adjacency, the
  in-degree counters and the first ready nodes of a graph. Its law is that, on the graphs it
  accepts, the counters count the listed edges and the ready nodes are those without any.
\<close>

locale topo_source =
  fixes nodes :: "'g \<Rightarrow> 'a::linorder list"
    and adj :: "'g \<Rightarrow> ('a, 'a list) jsmap"
    and indeg :: "'g \<Rightarrow> ('a, int) jsmap"
    and ready :: "'g \<Rightarrow> 'a list"
    and accepts :: "'g \<Rightarrow> bool"
  assumes nodes_distinct: "accepts g \<Longrightarrow> distinct (nodes g)"
    and indeg_counts: "accepts g \<Longrightarrow> v \<in> set (nodes g) \<Longrightarrow>
      js_get_or 0 (indeg g) v = (\<Sum>u \<in> set (nodes g). int (count_list (js_get_or [] (adj g) u) v))"
    and indeg_outside: "accepts g \<Longrightarrow> v \<notin> set (nodes g) \<Longrightarrow> js_get_or 0 (indeg g) v = 0"
    and ready_nodes: "accepts g \<Longrightarrow>
      distinct (ready g) \<and> set (ready g) = {v \<in> set (nodes g). js_get_or 0 (indeg g) v = 0}"
begin

lemma start_inv:
  assumes "accepts g"
  shows "kahn_inv (set (nodes g)) (js_get_or [] (adj g)) (indeg g) (ready g) []"
proof -
  have nonneg: "0 \<le> js_get_or 0 (indeg g) v" if "v \<in> set (nodes g)" for v
    unfolding indeg_counts [OF assms that] by (rule sum_nonneg) simp
  have "js_get_or 0 (indeg g) v \<le> 0 \<longleftrightarrow> v \<notin> set (nodes g) - set (ready g)" for v
  proof (cases "v \<in> set (nodes g)")
    case True
    then show ?thesis using nonneg [OF True] ready_nodes [OF assms] by auto
  qed (simp add: indeg_outside [OF assms])
  then show ?thesis
    using ready_nodes [OF assms] by (auto simp: kahn_inv_def indeg_counts [OF assms])
qed

lemma order_sound:
  assumes "accepts g" and "order = kahn_loop (adj g) (indeg g) (ready g) []"
  shows "distinct order" "set order \<subseteq> set (nodes g)"
    "topo_sorted (graph_edges (set (nodes g)) (js_get_or [] (adj g))) order"
    "length order = length (nodes g) \<longleftrightarrow> acyclic (graph_edges (set (nodes g)) (js_get_or [] (adj g)))"
proof -
  obtain m where m: "kahn_inv (set (nodes g)) (js_get_or [] (adj g)) m [] order"
    using kahn_inv_loop [OF _ _ start_inv [OF assms(1)]] assms(2) by blast
  note e = kahn_inv_end [OF m]
  show d: "distinct order" and s: "set order \<subseteq> set (nodes g)"
    and "topo_sorted (graph_edges (set (nodes g)) (js_get_or [] (adj g))) order"
    using e by simp_all
  have "length order = length (nodes g) \<longleftrightarrow> set order = set (nodes g)"
    using d s nodes_distinct [OF assms(1)]
    by (metis card_subset_eq distinct_card List.finite_set)
  with e(4) show "length order = length (nodes g) \<longleftrightarrow>
      acyclic (graph_edges (set (nodes g)) (js_get_or [] (adj g)))"
    by simp
qed

end

subsection \<open>Edge lists\<close>

text \<open>The two loops over an edge list: \<open>adj.get(a) ?? []\<close> grows by \<open>b\<close>, the counter of \<open>b\<close> by one.\<close>

definition push_edge :: "('a, 'b list) jsmap \<Rightarrow> 'a \<times> 'b \<Rightarrow> ('a, 'b list) jsmap" where
  "push_edge adj e = AList.update (fst e) (js_get_or [] adj (fst e) @ [snd e]) adj"

definition count_edge :: "('b, int) jsmap \<Rightarrow> 'a \<times> 'b \<Rightarrow> ('b, int) jsmap" where
  "count_edge m e = AList.update (snd e) (js_get_or 0 m (snd e) + 1) m"

lemma push_edges_get:
  "js_get_or [] (foldl push_edge adj es) u = js_get_or [] adj u @ map snd (filter (\<lambda>e. fst e = u) es)"
  by (induction es arbitrary: adj) (auto simp: push_edge_def js_get_or_update)

lemma count_edges_get:
  "js_get_or 0 (foldl count_edge m es) v = js_get_or 0 m v + int (count_list (map snd es) v)"
  by (induction es arbitrary: m) (auto simp: count_edge_def js_get_or_update)

lemma foldl_nested: "foldl (\<lambda>a x. foldl f a (g x)) a xs = foldl f a (concat (map g xs))"
  by (induction xs arbitrary: a) simp_all

lemma count_successors: "count_list (map snd (filter (\<lambda>e. fst e = u) es)) v = count_list es (u, v)"
  by (induction es) auto

lemma sum_count_edges:
  "finite P \<Longrightarrow> (\<Sum>u \<in> P. int (count_list es (u, v))) = int (count_list (map snd (filter (\<lambda>e. fst e \<in> P) es)) v)"
proof (induction es)
  case Nil
  then show ?case by simp
next
  case (Cons e es)
  have "(\<Sum>u \<in> P. int (count_list (e # es) (u, v))) =
      (\<Sum>u \<in> P. int (count_list es (u, v))) + (\<Sum>u \<in> P. if e = (u, v) then 1 else 0)"
    by (simp add: sum.distrib [symmetric]) (rule sum.cong, auto)
  also have "(\<Sum>u \<in> P. if e = (u, v) then 1 else 0 :: int) = (if fst e \<in> P \<and> snd e = v then 1 else 0)"
    using Cons.prems by (cases e) (auto simp: sum.delta' if_distrib cong: if_cong intro!: sum.neutral)
  finally show ?case using Cons by auto
qed

lemma zero_counters: "js_get_or 0 (foldl (\<lambda>m k. AList.update k 0 m) [] ks) v = (0 :: int)"
proof -
  have "js_get_or 0 (foldl (\<lambda>m k. AList.update k 0 m) m ks) v = (if v \<in> set ks then 0 else js_get_or 0 m v)"
    for m :: "('a, int) jsmap"
    by (induction ks arbitrary: m) (auto simp: js_get_or_update)
  then show ?thesis by (simp add: js_get_or_def)
qed

end
