(* ===== verification/Chains.thy ===== *)
theory Chains
  imports Kahn
begin

section \<open>Longest chains\<close>

text \<open>
  What a critical path is, independently of how it is computed: the heaviest chain of a weighted
  acyclic graph. The scan for the latest finish and the walk back along the chosen predecessors
  are the loops that \<open>computeCriticalPath\<close> and \<open>computeNodeCriticalPath\<close> share; the interface
  \<open>chain_source\<close> says what a computation of finish times promises, and its lemmas that the walk
  then ends and returns a heaviest chain.
\<close>

fun chain :: "('a \<times> 'a) set \<Rightarrow> 'a list \<Rightarrow> bool" where
  "chain E [] \<longleftrightarrow> True"
| "chain E [v] \<longleftrightarrow> True"
| "chain E (u # v # xs) \<longleftrightarrow> (u, v) \<in> E \<and> chain E (v # xs)"

definition chain_weight :: "('a \<Rightarrow> int) \<Rightarrow> 'a list \<Rightarrow> int" where
  "chain_weight w xs = sum_list (map w xs)"

lemma chain_snoc: "chain E (xs @ [u, v]) \<longleftrightarrow> chain E (xs @ [u]) \<and> (u, v) \<in> E"
  by (induction E xs rule: chain.induct) auto

lemma chain_butlast: "chain E (xs @ [v]) \<Longrightarrow> chain E xs"
  by (cases xs rule: rev_cases) (auto simp: chain_snoc)

lemma chain_weight_simps [simp]:
  "chain_weight w [] = 0"
  "chain_weight w (v # xs) = w v + chain_weight w xs"
  "chain_weight w (xs @ ys) = chain_weight w xs + chain_weight w ys"
  by (simp_all add: chain_weight_def)

text \<open>\<open>for (const id of ids) if (ef(id) > total) { total = ef(id); finish = id; }\<close>\<close>

fun latest :: "(string \<Rightarrow> int) \<Rightarrow> string list \<Rightarrow> int \<Rightarrow> string \<Rightarrow> int \<times> string" where
  "latest ef [] best_so_far finish = (best_so_far, finish)"
| "latest ef (id' # ids) best_so_far finish =
     (if best_so_far < ef id' then latest ef ids (ef id') id' else latest ef ids best_so_far finish)"

text \<open>\<open>for (cur = finish; cur; cur = best.get(cur) ?? '') { rev.push(cur); if (!best.has(cur)) break; }\<close>\<close>

partial_function (option) walk_back :: "(string, string) jsmap \<Rightarrow> string \<Rightarrow> string list option" where
  "walk_back best cur =
     (if cur = [] then Some []
      else case map_of best cur of
        None \<Rightarrow> Some [cur]
      | Some pre \<Rightarrow> Option.bind (walk_back best pre) (\<lambda>r. Some (cur # r)))"

declare walk_back.simps [code]

lemma latest_cong:
  "(\<And>p. p \<in> set ps \<Longrightarrow> f p = g p) \<Longrightarrow> latest f ps m c = latest g ps m c"
  by (induction g ps m c rule: latest.induct) auto

lemma latest_spec:
  "latest ef ids best_so_far finish = (t, f) \<Longrightarrow>
     best_so_far \<le> t \<and> (\<forall>id' \<in> set ids. ef id' \<le> t) \<and>
     (t = best_so_far \<and> f = finish \<or> f \<in> set ids \<and> ef f = t \<and> best_so_far < t)"
proof (induction ef ids best_so_far finish rule: latest.induct)
  case (2 ef id' ids best_so_far finish)
  then show ?case by (cases "best_so_far < ef id'") (simp, force)+
qed simp

text \<open>
  The scan both computations make over the order: the finish time of a node is its weight plus the
  start its binding predecessor allows, and the predecessor is noted when there is one.
\<close>

definition relax_step ::
  "((string \<Rightarrow> int) \<Rightarrow> string \<Rightarrow> int \<times> string) \<Rightarrow> (string \<Rightarrow> int) \<Rightarrow>
     (string, int) jsmap \<times> (string, string) jsmap \<Rightarrow> string \<Rightarrow> (string, int) jsmap \<times> (string, string) jsmap" where
  "relax_step bind w st v =
     (let (ef, best) = st; (start, chosen) = bind (js_get_or 0 ef) v
      in (AList.update v (start + w v) ef, if chosen = [] then best else AList.update v chosen best))"

definition noted :: "string \<Rightarrow> string option" where
  "noted c = (if c = [] then None else Some c)"

text \<open>After the scan the equations hold with the final times, since no predecessor changes later.\<close>

lemma relax_scan:
  assumes local: "\<And>f g v. (\<And>p. p \<in> P v \<Longrightarrow> f p = g p) \<Longrightarrow> bind f v = bind g v"
    and edges: "\<And>p v. p \<in> P v \<Longrightarrow> p \<in> V \<Longrightarrow> v \<in> V \<Longrightarrow> (p, v) \<in> E"
  shows "distinct xs \<Longrightarrow> set xs \<subseteq> V \<Longrightarrow> topo_sorted E xs \<Longrightarrow>
    foldl (relax_step bind w) ([], []) xs = (ef, best) \<Longrightarrow>
    (\<forall>v. v \<notin> set xs \<longrightarrow> js_get_or 0 ef v = 0 \<and> map_of best v = None) \<and>
    (\<forall>v \<in> set xs. js_get_or 0 ef v = fst (bind (js_get_or 0 ef) v) + w v \<and>
       map_of best v = noted (snd (bind (js_get_or 0 ef) v)))"
proof (induction xs arbitrary: ef best rule: rev_induct)
  case Nil
  then show ?case by (simp add: js_get_or_def)
next
  case (snoc v xs)
  obtain ef0 best0 where s0: "foldl (relax_step bind w) ([], []) xs = (ef0, best0)" by fastforce
  have IH: "\<And>u. u \<notin> set xs \<Longrightarrow> js_get_or 0 ef0 u = 0 \<and> map_of best0 u = None"
    "\<And>u. u \<in> set xs \<Longrightarrow> js_get_or 0 ef0 u = fst (bind (js_get_or 0 ef0) u) + w u \<and>
       map_of best0 u = noted (snd (bind (js_get_or 0 ef0) u))"
    using snoc.IH [OF _ _ _ s0] snoc.prems(1-3) topo_sorted_prefix by auto
  have v: "v \<notin> set xs" using snoc.prems(1) by simp
  let ?b = "bind (js_get_or 0 ef0) v"
  have "relax_step bind w (ef0, best0) v = (ef, best)" using snoc.prems(4) by (simp add: s0)
  then have ef: "ef = AList.update v (fst ?b + w v) ef0"
    and best: "best = (if snd ?b = [] then best0 else AList.update v (snd ?b) best0)"
    by (auto simp: relax_step_def split_beta)
  have unchanged: "bind (js_get_or 0 ef) u = bind (js_get_or 0 ef0) u" if u: "u \<in> set (xs @ [v])" for u
  proof (rule local)
    fix p
    assume p: "p \<in> P u"
    have "p \<noteq> v"
    proof
      assume "p = v"
      then have e: "(v, u) \<in> E" using edges [of v u] p u snoc.prems(2) by auto
      from topo_sorted_place [OF snoc.prems(3,1) e u]
      have "place (xs @ [v]) v < place (xs @ [v]) u" by simp
      moreover have "place (xs @ [v]) v = length xs" using v by (simp add: place_split [of v xs "[]"])
      moreover have "place (xs @ [v]) u \<le> length xs" using place_less [OF u] by simp
      ultimately show False by simp
    qed
    then show "js_get_or 0 ef p = js_get_or 0 ef0 p" by (simp add: ef js_get_or_update)
  qed
  show ?case
  proof (intro conjI allI impI ballI)
    fix u
    assume "u \<notin> set (xs @ [v])"
    then show "js_get_or 0 ef u = 0" and "map_of best u = None"
      using IH(1) by (auto simp: ef best js_get_or_update js.get_put)
  next
    fix u
    assume u: "u \<in> set (xs @ [v])"
    note same = unchanged [OF u]
    show "js_get_or 0 ef u = fst (bind (js_get_or 0 ef) u) + w u"
      using u IH(2) same by (auto simp: ef js_get_or_update)
    show "map_of best u = noted (snd (bind (js_get_or 0 ef) u))"
      using u IH same v by (auto simp: best js.get_put noted_def)
  qed
qed

locale chain_source =
  fixes edges :: "'g \<Rightarrow> (string \<times> string) set"
    and weight :: "'g \<Rightarrow> string \<Rightarrow> int"
    and order :: "'g \<Rightarrow> string list"
    and finish :: "'g \<Rightarrow> string \<Rightarrow> int"
    and best :: "'g \<Rightarrow> (string, string) jsmap"
    and accepts :: "'g \<Rightarrow> bool"
  assumes order_distinct: "accepts g \<Longrightarrow> distinct (order g)"
    and order_sorted: "accepts g \<Longrightarrow> topo_sorted (edges g) (order g)"
    and edges_in: "accepts g \<Longrightarrow> (u, v) \<in> edges g \<Longrightarrow> v \<in> set (order g)"
    and names: "accepts g \<Longrightarrow> [] \<notin> set (order g)"
    and weight_nonneg: "accepts g \<Longrightarrow> v \<in> set (order g) \<Longrightarrow> 0 \<le> weight g v"
    and finish_ge: "accepts g \<Longrightarrow> (u, v) \<in> edges g \<Longrightarrow> finish g u + weight g v \<le> finish g v"
    and best_none: "accepts g \<Longrightarrow> v \<in> set (order g) \<Longrightarrow> map_of (best g) v = None \<Longrightarrow>
      finish g v = weight g v"
    and best_some: "accepts g \<Longrightarrow> v \<in> set (order g) \<Longrightarrow> map_of (best g) v = Some u \<Longrightarrow>
      (u, v) \<in> edges g \<and> finish g v = finish g u + weight g v"
begin

lemma edge_place:
  "accepts g \<Longrightarrow> (u, v) \<in> edges g \<Longrightarrow> u \<in> set (order g) \<and> place (order g) u < place (order g) v"
  using topo_sorted_place [OF order_sorted order_distinct] edges_in by blast

text \<open>Walking back from a node ends and collects a chain as heavy as its finish time.\<close>

lemma walk_back_chain:
  assumes "accepts g"
  shows "v \<in> set (order g) \<Longrightarrow>
    \<exists>p. walk_back (best g) v = Some (v # p) \<and> chain (edges g) (rev (v # p)) \<and>
      chain_weight (weight g) (rev (v # p)) = finish g v \<and> set (v # p) \<subseteq> set (order g)"
proof (induction "place (order g) v" arbitrary: v rule: less_induct)
  case less
  have ne: "v \<noteq> []" using names [OF assms] less.prems by auto
  show ?case
  proof (cases "map_of (best g) v")
    case None
    then show ?thesis
      using ne less.prems best_none [OF assms less.prems None]
      by (simp add: walk_back.simps [of "best g" v])
  next
    case (Some u)
    with best_some [OF assms less.prems] have uv: "(u, v) \<in> edges g" "finish g v = finish g u + weight g v"
      by simp_all
    with edge_place [OF assms] less.hyps [of u] obtain p where
      "walk_back (best g) u = Some (u # p)" "chain (edges g) (rev (u # p))"
      "chain_weight (weight g) (rev (u # p)) = finish g u" "set (u # p) \<subseteq> set (order g)"
      by blast
    then show ?thesis
      using ne Some uv less.prems
      by (simp add: walk_back.simps [of "best g" v] chain_snoc)
  qed
qed

lemma finish_ge_weight:
  assumes "accepts g" and "v \<in> set (order g)"
  shows "weight g v \<le> finish g v"
proof -
  obtain p where p: "chain_weight (weight g) (rev (v # p)) = finish g v" "set p \<subseteq> set (order g)"
    using walk_back_chain [OF assms] by fastforce
  have "0 \<le> chain_weight (weight g) (rev p)"
    unfolding chain_weight_def
    by (rule sum_list_nonneg) (use p(2) weight_nonneg [OF assms(1)] in auto)
  with p(1) show ?thesis by simp
qed

lemma chain_le_finish:
  assumes "accepts g"
  shows "chain (edges g) (xs @ [v]) \<Longrightarrow> v \<in> set (order g) \<Longrightarrow>
    chain_weight (weight g) (xs @ [v]) \<le> finish g v"
proof (induction xs arbitrary: v rule: rev_induct)
  case Nil
  then show ?case using finish_ge_weight [OF assms] by simp
next
  case (snoc u xs)
  then have c: "chain (edges g) (xs @ [u])" and e: "(u, v) \<in> edges g"
    by (auto simp: chain_snoc)
  have "chain_weight (weight g) (xs @ [u]) \<le> finish g u"
    by (rule snoc.IH [OF c]) (use edge_place [OF assms e] in simp)
  with finish_ge [OF assms e] show ?case by simp
qed

text \<open>The latest finish over all nodes is the weight of a heaviest chain, the one walked back.\<close>

lemma latest_walk:
  assumes acc: "accepts g" and l: "latest (finish g) ids 0 [] = (t, f)"
    and ids: "set ids = set (order g)"
  shows "\<exists>p. walk_back (best g) f = Some p \<and> chain (edges g) (rev p) \<and> set p \<subseteq> set (order g) \<and>
      chain_weight (weight g) (rev p) = t \<and>
      (\<forall>xs. chain (edges g) xs \<and> set xs \<subseteq> set (order g) \<longrightarrow> chain_weight (weight g) xs \<le> t)"
proof -
  note spec = latest_spec [OF l]
  have bound: "chain_weight (weight g) xs \<le> t" if "chain (edges g) xs" "set xs \<subseteq> set (order g)" for xs
  proof (cases xs rule: rev_cases)
    case Nil
    then show ?thesis using spec by simp
  next
    case (snoc ys v)
    with that have "chain_weight (weight g) xs \<le> finish g v"
      using chain_le_finish [OF acc, of ys v] by simp
    also have "\<dots> \<le> t" using spec snoc that(2) ids by auto
    finally show ?thesis .
  qed
  show ?thesis
  proof (cases "f = []")
    case True
    then have "t = 0" using spec names [OF acc] ids by auto
    with True bound show ?thesis by (auto simp: walk_back.simps [of "best g" "[]"])
  next
    case False
    with spec ids have "f \<in> set (order g)" "finish g f = t" by auto
    with walk_back_chain [OF acc] bound show ?thesis by blast
  qed
qed

end

end
