(* ===== verification/Runbook.thy ===== *)
theory Runbook
  imports Chains Web
begin

section \<open>The runbook orchestration math\<close>

text \<open>
  \<open>frontend/src/components/product/runbook/runbook-graph.ts\<close>: normalisation of types and
  statuses, topological order, critical path, runnable frontier, derived statuses, the assembled
  flow and the synthesis of tasks from a boot plan. Durations are whole seconds. The tie-break
  comparison \<open>localeCompare\<close> of the cyclic fallback is an argument.
\<close>

subsection \<open>Data\<close>

datatype runbook_task_type = Manual | Automated | Approval_gate | Comms | Milestone

datatype run_status = Pending | Runnable | Running | Complete | Skipped | Failed | Blocked

record dr_task =
  dt_id :: string
  dt_tenant_id :: string
  dt_runbook_id :: string
  dt_task_key :: string
  dt_name :: string
  dt_task_type :: string
  dt_required :: bool
  dt_owner :: string
  dt_team :: string
  dt_instructions :: string
  dt_planned :: "int option"
  dt_automation_action :: string
  dt_predecessors :: "string list option"
  dt_params :: "(string \<times> json) list"
  dt_created_at :: string
  dt_updated_at :: string

record dr_task_run =
  tr_id :: string
  tr_tenant_id :: string
  tr_run_id :: string
  tr_task_id :: string
  tr_status :: string
  tr_acted_by :: "string option"
  tr_started_at :: "string option"
  tr_finished_at :: "string option"
  tr_actual_duration_seconds :: "int option"
  tr_detail :: "(string \<times> json) list"
  tr_created_at :: string
  tr_updated_at :: string

record dr_boot_service =
  bs_id :: string
  bs_tenant_id :: string
  bs_name :: string
  bs_kind :: string
  bs_boot_action :: string
  bs_probe_kind :: string
  bs_probe_target :: string
  bs_probe_expect_status :: int
  bs_boot_timeout_seconds :: "int option"
  bs_health_retries :: int
  bs_created_at :: string
  bs_updated_at :: string

subsection \<open>Normalisation\<close>

definition RUNBOOK_TASK_TYPES :: "(string \<times> runbook_task_type) list" where
  "RUNBOOK_TASK_TYPES =
     [(''manual'', Manual), (''automated'', Automated), (''approval_gate'', Approval_gate),
      (''comms'', Comms), (''milestone'', Milestone)]"

definition RUNBOOK_TASK_RUN_STATUSES :: "(string \<times> run_status) list" where
  "RUNBOOK_TASK_RUN_STATUSES =
     [(''pending'', Pending), (''runnable'', Runnable), (''running'', Running),
      (''complete'', Complete), (''skipped'', Skipped), (''failed'', Failed), (''blocked'', Blocked)]"

definition or_empty :: "string option \<Rightarrow> string" where
  "or_empty v = (case v of None \<Rightarrow> [] | Some s \<Rightarrow> s)"

definition normalizeTaskType :: "string option \<Rightarrow> runbook_task_type" where
  "normalizeTaskType value =
     (case map_of RUNBOOK_TASK_TYPES (js_toLowerCase (js_trim (or_empty value))) of
        Some t \<Rightarrow> t | None \<Rightarrow> Manual)"

definition normalizeTaskRunStatus :: "string option \<Rightarrow> run_status" where
  "normalizeTaskRunStatus value =
     (case map_of RUNBOOK_TASK_RUN_STATUSES (js_toLowerCase (js_trim (or_empty value))) of
        Some t \<Rightarrow> t | None \<Rightarrow> Pending)"

definition isTaskRunDone :: "run_status \<Rightarrow> bool" where
  "isTaskRunDone s \<longleftrightarrow> s = Complete \<or> s = Skipped"

definition isTaskRunTerminal :: "run_status \<Rightarrow> bool" where
  "isTaskRunTerminal s \<longleftrightarrow> s = Complete \<or> s = Skipped \<or> s = Failed"

subsection \<open>Topological order\<close>

text \<open>\<open>t.predecessors ?? []\<close>\<close>

definition preds :: "dr_task \<Rightarrow> string list" where
  "preds t = (case dt_predecessors t of None \<Rightarrow> [] | Some ps \<Rightarrow> ps)"

definition taskById :: "dr_task list \<Rightarrow> (string, dr_task) jsmap" where
  "taskById tasks = js_map_of_entries (map (\<lambda>t. (dt_id t, t)) tasks)"

definition successors :: "dr_task list \<Rightarrow> (string, string list) jsmap" where
  "successors tasks =
     (let adj = foldl (\<lambda>adj t. foldl (\<lambda>adj pre. push_edge adj (pre, dt_id t)) adj (preds t)) [] tasks
      in map (\<lambda>(k, v). (k, sort v)) adj)"

definition sortedTaskIds :: "dr_task list \<Rightarrow> string list" where
  "sortedTaskIds tasks = sort (map dt_id tasks)"

definition task_indegrees :: "dr_task list \<Rightarrow> (string, int) jsmap" where
  "task_indegrees tasks =
     (let present = map dt_id tasks;
          indeg = foldl (\<lambda>m t. if js_has m (dt_id t) then m else AList.update (dt_id t) 0 m) [] tasks
      in foldl (\<lambda>m t. foldl (\<lambda>m pre. if pre \<in> set present then count_edge m (pre, dt_id t) else m) m (preds t))
           indeg tasks)"

definition initially_ready :: "dr_task list \<Rightarrow> string list" where
  "initially_ready tasks = filter (\<lambda>id'. js_get_or 0 (task_indegrees tasks) id' = 0) (sortedTaskIds tasks)"

definition topoOrder :: "dr_task list \<Rightarrow> string list option" where
  "topoOrder tasks =
     (let order = kahn_loop (successors tasks) (task_indegrees tasks) (initially_ready tasks) []
      in if length order = length tasks then Some order else None)"

subsection \<open>Critical path\<close>

record critical_path =
  cp_totalSeconds :: int
  cp_path :: "string list"
  cp_pathSet :: "string list"
  cp_earliestFinish :: "(string, int) jsmap"

text \<open>The scan of the sorted predecessors: the first one with the latest positive finish.\<close>

definition binding_pred :: "(string, int) jsmap \<Rightarrow> string list \<Rightarrow> int \<times> string" where
  "binding_pred ef ps = latest (js_get_or 0 ef) ps 0 []"

definition planned :: "dr_task \<Rightarrow> int" where
  "planned t = max 0 (case dt_planned t of None \<Rightarrow> 0 | Some d \<Rightarrow> d)"

definition critical_step ::
  "(string, dr_task) jsmap \<Rightarrow> (string, int) jsmap \<times> (string, string) jsmap \<Rightarrow> string \<Rightarrow>
     (string, int) jsmap \<times> (string, string) jsmap" where
  "critical_step tasksByID st id' =
     (case map_of tasksByID id' of
        None \<Rightarrow> st
      | Some t \<Rightarrow>
          let (ef, best) = st;
              (start, chosen) = binding_pred ef (sort (preds t))
          in (AList.update id' (start + planned t) ef,
              if chosen = [] then best else AList.update id' chosen best))"

definition critical_scan :: "dr_task list \<Rightarrow> string list \<Rightarrow> (string, int) jsmap \<times> (string, string) jsmap" where
  "critical_scan tasks order = foldl (critical_step (taskById tasks)) ([], []) order"

text \<open>\<open>computeCriticalPath\<close>; None if the walk back did not end.\<close>

definition computeCriticalPath :: "dr_task list \<Rightarrow> critical_path option" where
  "computeCriticalPath tasks =
     (case topoOrder tasks of
        None \<Rightarrow> Some \<lparr>cp_totalSeconds = 0, cp_path = [], cp_pathSet = [], cp_earliestFinish = []\<rparr>
      | Some order \<Rightarrow>
          let (earliestFinish, best) = critical_scan tasks order;
              (total, finish) = latest (js_get_or 0 earliestFinish) (sortedTaskIds tasks) 0 []
          in map_option (\<lambda>r.
               \<lparr>cp_totalSeconds = total, cp_path = rev r, cp_pathSet = js_uniq (rev r),
                cp_earliestFinish = earliestFinish\<rparr>) (walk_back best finish))"

subsection \<open>Frontier and statuses\<close>

definition status_of :: "(string, run_status) jsmap \<Rightarrow> string \<Rightarrow> run_status" where
  "status_of m id' = (case map_of m id' of None \<Rightarrow> Pending | Some s \<Rightarrow> s)"

definition predecessors_complete :: "(string, run_status) jsmap \<Rightarrow> dr_task \<Rightarrow> bool" where
  "predecessors_complete m t = list_all (\<lambda>pre. isTaskRunDone (status_of m pre)) (preds t)"

definition predecessor_failed :: "(string, run_status) jsmap \<Rightarrow> dr_task \<Rightarrow> bool" where
  "predecessor_failed m t =
     list_ex (\<lambda>pre. status_of m pre = Failed \<or> status_of m pre = Blocked) (preds t)"

definition computeFrontier :: "dr_task list \<Rightarrow> (string, run_status) jsmap \<Rightarrow> string list" where
  "computeFrontier tasks m =
     sort (map dt_id (filter (\<lambda>t.
       let s = status_of m (dt_id t) in
       if isTaskRunTerminal s \<or> s = Running then False
       else if predecessor_failed m t then False
       else predecessors_complete m t) tasks))"

definition deriveTaskStatuses :: "dr_task list \<Rightarrow> dr_task_run list \<Rightarrow> (string, run_status) jsmap" where
  "deriveTaskStatuses tasks taskRuns =
     (let explicit = foldl (\<lambda>m tr. AList.update (tr_task_id tr) (normalizeTaskRunStatus (Some (tr_status tr))) m)
            [] taskRuns;
          frontier = computeFrontier tasks explicit
      in foldl (\<lambda>result t.
           case map_of explicit (dt_id t) of
             Some s \<Rightarrow> AList.update (dt_id t) s result
           | None \<Rightarrow>
               if dt_id t \<in> set frontier then AList.update (dt_id t) Runnable result
               else if predecessor_failed explicit t then AList.update (dt_id t) Blocked result
               else AList.update (dt_id t) Pending result) [] tasks)"

subsection \<open>The flow\<close>

text \<open>\<open>xs.sort(cmp)\<close> with a numeric comparison key or a comparison is a stable insertion sort.\<close>

fun insert_by :: "('a \<Rightarrow> 'a \<Rightarrow> bool) \<Rightarrow> 'a \<Rightarrow> 'a list \<Rightarrow> 'a list" where
  "insert_by le x [] = [x]"
| "insert_by le x (y # ys) = (if le x y then x # y # ys else y # insert_by le x ys)"

definition sort_by :: "('a \<Rightarrow> 'a \<Rightarrow> bool) \<Rightarrow> 'a list \<Rightarrow> 'a list" where
  "sort_by le xs = foldr (insert_by le) xs []"

definition flow_label :: "dr_task \<Rightarrow> string" where
  "flow_label t = (if dt_task_key t = [] then dt_name t else dt_task_key t)"

definition orderTasksForFlow :: "(string \<Rightarrow> string \<Rightarrow> bool) \<Rightarrow> dr_task list \<Rightarrow> dr_task list" where
  "orderTasksForFlow locale_le tasks =
     (case topoOrder tasks of
        Some order \<Rightarrow>
          let rank = js_map_of_entries (zip order [0..<length order])
          in sort_by (\<lambda>a b. js_get_or 0 rank (dt_id a) \<le> js_get_or 0 rank (dt_id b)) tasks
      | None \<Rightarrow> sort_by (\<lambda>a b. locale_le (flow_label a) (flow_label b)) tasks)"

record flow_row =
  fr_task :: dr_task
  fr_taskType :: runbook_task_type
  fr_status :: run_status
  fr_taskRun :: "dr_task_run option"
  fr_onCriticalPath :: bool
  fr_sequence :: nat
  fr_earliestFinishSeconds :: int
  fr_predecessorKeys :: "string list"

definition flow_row_of ::
  "dr_task list \<Rightarrow> dr_task_run list \<Rightarrow> critical_path \<Rightarrow> nat \<Rightarrow> dr_task \<Rightarrow> flow_row" where
  "flow_row_of tasks taskRuns criticalPath index task =
     (let statuses = deriveTaskStatuses tasks taskRuns;
          runByTask = foldl (\<lambda>m tr. AList.update (tr_task_id tr) tr m) [] taskRuns;
          keyById = js_map_of_entries (map (\<lambda>t. (dt_id t, dt_task_key t)) tasks)
      in \<lparr>fr_task = task,
          fr_taskType = normalizeTaskType (Some (dt_task_type task)),
          fr_status = status_of statuses (dt_id task),
          fr_taskRun = map_of runByTask (dt_id task),
          fr_onCriticalPath = dt_id task \<in> set (cp_pathSet criticalPath),
          fr_sequence = index + 1,
          fr_earliestFinishSeconds = js_get_or 0 (cp_earliestFinish criticalPath) (dt_id task),
          fr_predecessorKeys = map (\<lambda>pre. js_get_or pre keyById pre) (preds task)\<rparr>)"

definition buildRunbookFlow ::
  "(string \<Rightarrow> string \<Rightarrow> bool) \<Rightarrow> dr_task list \<Rightarrow> dr_task_run list \<Rightarrow> (flow_row list \<times> critical_path) option" where
  "buildRunbookFlow locale_le tasks taskRuns =
     (let ordered = orderTasksForFlow locale_le tasks in
      case computeCriticalPath tasks of
        None \<Rightarrow> None
      | Some criticalPath \<Rightarrow>
          Some (map (\<lambda>(index, task). flow_row_of tasks taskRuns criticalPath index task)
            (zip [0..<length ordered] ordered), criticalPath))"

subsection \<open>Boot plans\<close>

definition boot_task :: "string \<Rightarrow> nat \<Rightarrow> string list \<Rightarrow> dr_boot_service \<Rightarrow> dr_task" where
  "boot_task groupId tierIndex prevTierIds svc =
     \<lparr>dt_id = bs_id svc, dt_tenant_id = bs_tenant_id svc,
      dt_runbook_id = ''bootplan:'' @ groupId,
      dt_task_key = ''tier'' @ nat_text (tierIndex + 1) @ ''.'' @ bs_name svc,
      dt_name = bs_name svc, dt_task_type = ''automated'', dt_required = True,
      dt_owner = ''recovery-orchestrator'', dt_team = ''platform'',
      dt_instructions = ''Boot service \"'' @ bs_name svc @ ''\" ('' @ bs_kind svc @ '') via '' @
        bs_boot_action svc @ '', then verify '' @ bs_probe_kind svc @ '' probe '' @ bs_probe_target svc @
        '' returns '' @ int_text (bs_probe_expect_status svc) @ ''.'',
      dt_planned = Some (max 1 (case bs_boot_timeout_seconds svc of None \<Rightarrow> 0 | Some n \<Rightarrow> n)),
      dt_automation_action = bs_boot_action svc,
      dt_predecessors = Some prevTierIds,
      dt_params = [(''tier'', JNum (Fin (of_nat (tierIndex + 1)))), (''probe_kind'', JStr (bs_probe_kind svc)),
        (''probe_target'', JStr (bs_probe_target svc)),
        (''probe_expect_status'', JNum (Fin (of_int (bs_probe_expect_status svc)))),
        (''health_retries'', JNum (Fin (of_int (bs_health_retries svc))))],
      dt_created_at = bs_created_at svc, dt_updated_at = bs_updated_at svc\<rparr>"

fun boot_tiers_from :: "string \<Rightarrow> nat \<Rightarrow> string list \<Rightarrow> dr_boot_service list list \<Rightarrow> dr_task list" where
  "boot_tiers_from groupId tierIndex prevTierIds [] = []"
| "boot_tiers_from groupId tierIndex prevTierIds (tier # tiers) =
     map (boot_task groupId tierIndex prevTierIds) tier @
     boot_tiers_from groupId (tierIndex + 1) (map bs_id tier) tiers"

definition bootTiersToRunbookTasks :: "string \<Rightarrow> dr_boot_service list list \<Rightarrow> dr_task list" where
  "bootTiersToRunbookTasks groupId tiers = boot_tiers_from groupId 0 [] tiers"

definition formatDurationSeconds :: "js_num option \<Rightarrow> string" where
  "formatDurationSeconds seconds =
     (case seconds of
        Some (Fin x) \<Rightarrow>
          if x \<le> 0 then ''0s''
          else
            let t = \<lfloor>x + 1 / 2\<rfloor>;
                h = t div 3600;
                m = t mod 3600 div 60;
                s = t mod 60;
                parts = (if h \<noteq> 0 then [int_text h @ ''h''] else []) @
                  (if m \<noteq> 0 then [int_text m @ ''m''] else []);
                parts = parts @ (if s \<noteq> 0 \<or> parts = [] then [int_text s @ ''s''] else [])
            in js_join '' '' parts
      | _ \<Rightarrow> ''0s'')"

subsection \<open>The dependency graph of a runbook\<close>

definition dep_list :: "dr_task list \<Rightarrow> (string \<times> string) list" where
  "dep_list tasks = concat (map (\<lambda>t. map (\<lambda>p. (p, dt_id t)) (preds t)) tasks)"

text \<open>The edges between tasks of the runbook; a predecessor that is no task is ignored.\<close>

definition deps :: "dr_task list \<Rightarrow> (string \<times> string) set" where
  "deps tasks = {(p, i). p \<in> dt_id ` set tasks \<and> (\<exists>t \<in> set tasks. dt_id t = i \<and> p \<in> set (preds t))}"

lemma foldl_deps:
  "foldl (\<lambda>m t. foldl (\<lambda>m p. h m (p, dt_id t)) m (preds t)) m tasks = foldl h m (dep_list tasks)"
  by (induction tasks arbitrary: m) (simp_all add: dep_list_def foldl_map)

lemma foldl_present_preds:
  "foldl (\<lambda>m p. if p \<in> P then h m (p, i) else m) m ps =
     foldl h m (filter (\<lambda>e. fst e \<in> P) (map (\<lambda>p. (p, i)) ps))"
  by (induction ps arbitrary: m) simp_all

lemma foldl_present_deps:
  "foldl (\<lambda>m t. foldl (\<lambda>m p. if p \<in> P then h m (p, dt_id t) else m) m (preds t)) m tasks =
     foldl h m (filter (\<lambda>e. fst e \<in> P) (dep_list tasks))"
  by (induction tasks arbitrary: m) (simp_all add: dep_list_def foldl_present_preds)

lemma successors_get:
  "js_get_or [] (successors tasks) u = sort (map snd (filter (\<lambda>e. fst e = u) (dep_list tasks)))"
proof -
  let ?adj = "foldl (\<lambda>adj t. foldl (\<lambda>adj pre. push_edge adj (pre, dt_id t)) adj (preds t)) [] tasks"
  have adj: "?adj = foldl push_edge [] (dep_list tasks)"
    by (rule foldl_deps)
  have "js_get_or [] (map (\<lambda>(k, v). (k, sort v)) m) u = sort (js_get_or [] m u)"
    for m :: "(string, string list) jsmap"
    by (simp add: js_get_or_def map_of_map split: option.split)
  then show ?thesis
    unfolding successors_def Let_def adj by (simp add: push_edges_get js_get_or_def [of _ "[]"])
qed

lemma indegrees_zero:
  "js_get_or 0 (foldl (\<lambda>m t. if js_has m (dt_id t) then m else AList.update (dt_id t) (0::int) m) [] tasks) v = 0"
proof -
  have "js_get_or 0 m v = 0 \<Longrightarrow>
      js_get_or 0 (foldl (\<lambda>m t. if js_has m (dt_id t) then m else AList.update (dt_id t) (0::int) m) m tasks) v = 0"
    for m :: "(string, int) jsmap"
    by (induction tasks arbitrary: m) (simp_all add: js_get_or_update)
  then show ?thesis by (simp add: js_get_or_def)
qed

lemma task_indegrees_get:
  "js_get_or 0 (task_indegrees tasks) v =
     int (count_list (map snd (filter (\<lambda>e. fst e \<in> dt_id ` set tasks) (dep_list tasks))) v)"
proof -
  let ?m = "foldl (\<lambda>m t. if js_has m (dt_id t) then m else AList.update (dt_id t) (0::int) m) [] tasks"
  have "task_indegrees tasks = foldl count_edge ?m (filter (\<lambda>e. fst e \<in> dt_id ` set tasks) (dep_list tasks))"
    by (simp add: task_indegrees_def Let_def foldl_present_deps)
  then show ?thesis by (simp only: count_edges_get indegrees_zero add_0)
qed

lemma count_list_sort [simp]: "count_list (sort xs) x = count_list xs x"
  by (metis count_mset mset_sort)

lemma indegrees_count:
  "js_get_or 0 (task_indegrees tasks) v =
     (\<Sum>u \<in> set (map dt_id tasks). int (count_list (js_get_or [] (successors tasks) u) v))"
  by (simp add: task_indegrees_get successors_get count_successors sum_count_edges)

lemma dep_list_target: "e \<in> set (dep_list tasks) \<Longrightarrow> snd e \<in> dt_id ` set tasks"
  by (auto simp: dep_list_def)

interpretation rb: topo_source "map dt_id" successors task_indegrees initially_ready
  "\<lambda>tasks. distinct (map dt_id tasks)"
proof
  fix tasks :: "dr_task list" and v
  show "js_get_or 0 (task_indegrees tasks) v =
      (\<Sum>u \<in> set (map dt_id tasks). int (count_list (js_get_or [] (successors tasks) u) v))"
    by (rule indegrees_count)
  show "v \<notin> set (map dt_id tasks) \<Longrightarrow> js_get_or 0 (task_indegrees tasks) v = 0"
    unfolding task_indegrees_get by (auto simp: count_list_0_iff dest: dep_list_target)
  show "distinct (map dt_id tasks) \<Longrightarrow> distinct (initially_ready tasks) \<and>
      set (initially_ready tasks) = {v \<in> set (map dt_id tasks). js_get_or 0 (task_indegrees tasks) v = 0}"
    by (auto simp: initially_ready_def sortedTaskIds_def)
qed

lemma deps_edges: "graph_edges (set (map dt_id tasks)) (js_get_or [] (successors tasks)) = deps tasks"
proof -
  have "v \<in> set (js_get_or [] (successors tasks) u) \<longleftrightarrow> (u, v) \<in> set (dep_list tasks)" for u v
    by (force simp: successors_get)
  then show ?thesis by (auto simp: graph_edges_def deps_def dep_list_def)
qed

lemma topoOrder_spec:
  assumes "distinct (map dt_id tasks)"
  shows "case topoOrder tasks of
      Some order \<Rightarrow> mset order = mset (map dt_id tasks) \<and> topo_sorted (deps tasks) order \<and> acyclic (deps tasks)
    | None \<Rightarrow> \<not> acyclic (deps tasks)"
proof -
  let ?order = "kahn_loop (successors tasks) (task_indegrees tasks) (initially_ready tasks) []"
  note o = rb.order_sound [OF assms refl, unfolded deps_edges]
  have "mset ?order = mset (map dt_id tasks)" if "length ?order = length tasks"
    using o(1,2) assms that
    by (metis card_subset_eq distinct_card length_map List.finite_set set_eq_iff_mset_eq_distinct)
  with o show ?thesis by (simp add: topoOrder_def Let_def)
qed

text \<open>The order of a runbook is exact: tasks with distinct ids are ordered if and only if their
  dependencies are acyclic, and then the order holds every task once, after its predecessors.\<close>

theorem topoOrder_correct:
  assumes "distinct (map dt_id tasks)"
  shows "case topoOrder tasks of
      Some order \<Rightarrow> mset order = mset (map dt_id tasks) \<and> topo_sorted (deps tasks) order \<and> acyclic (deps tasks)
    | None \<Rightarrow> \<not> acyclic (deps tasks)"
  using assms by (rule topoOrder_spec)

subsection \<open>The critical path\<close>

lemma taskById_get:
  assumes "distinct (map dt_id tasks)"
  shows "t \<in> set tasks \<Longrightarrow> map_of (taskById tasks) (dt_id t) = Some t"
    and "map_of (taskById tasks) i = Some t \<Longrightarrow> t \<in> set tasks \<and> dt_id t = i"
proof -
  have d: "distinct (map fst (rev (map (\<lambda>t. (dt_id t, t)) tasks)))"
    using assms by (simp add: rev_map [symmetric] o_def)
  have get: "map_of (taskById tasks) = map_of (rev (map (\<lambda>t. (dt_id t, t)) tasks))"
    by (simp add: taskById_def map_of_js_entries)
  show "t \<in> set tasks \<Longrightarrow> map_of (taskById tasks) (dt_id t) = Some t"
    unfolding get by (rule map_of_is_SomeI [OF d]) simp
  show "map_of (taskById tasks) i = Some t \<Longrightarrow> t \<in> set tasks \<and> dt_id t = i"
    unfolding get by (auto dest: map_of_SomeD)
qed

definition task_weight :: "dr_task list \<Rightarrow> string \<Rightarrow> int" where
  "task_weight tasks v = (case map_of (taskById tasks) v of None \<Rightarrow> 0 | Some t \<Rightarrow> planned t)"

definition topo_list :: "dr_task list \<Rightarrow> string list" where
  "topo_list tasks = (case topoOrder tasks of None \<Rightarrow> [] | Some order \<Rightarrow> order)"

text \<open>The scan of the tasks is the generic one: the binding predecessor of a task is the latest of its
  sorted predecessors.\<close>

definition task_bind :: "dr_task list \<Rightarrow> (string \<Rightarrow> int) \<Rightarrow> string \<Rightarrow> int \<times> string" where
  "task_bind tasks f v =
     (case map_of (taskById tasks) v of None \<Rightarrow> (0, []) | Some t \<Rightarrow> latest f (sort (preds t)) 0 [])"

lemma critical_step_relax:
  "map_of (taskById tasks) v \<noteq> None \<Longrightarrow>
     critical_step (taskById tasks) st v = relax_step (task_bind tasks) (task_weight tasks) st v"
  by (auto simp: critical_step_def relax_step_def task_bind_def task_weight_def binding_pred_def split: prod.split)

lemma critical_scan_relax:
  assumes "distinct (map dt_id tasks)" and "set xs \<subseteq> dt_id ` set tasks"
  shows "critical_scan tasks xs = foldl (relax_step (task_bind tasks) (task_weight tasks)) ([], []) xs"
  unfolding critical_scan_def
proof (rule foldl_cong [OF refl refl])
  fix st v
  assume "v \<in> set xs"
  then obtain t where "t \<in> set tasks" "dt_id t = v" using assms(2) by auto
  then have "map_of (taskById tasks) v \<noteq> None" using taskById_get(1) [OF assms(1)] by auto
  then show "critical_step (taskById tasks) st v = relax_step (task_bind tasks) (task_weight tasks) st v"
    by (rule critical_step_relax)
qed

text \<open>The runbooks with a critical path: ids are distinct and not empty, dependencies acyclic.\<close>

definition runbook_ok :: "dr_task list \<Rightarrow> bool" where
  "runbook_ok tasks \<longleftrightarrow> distinct (map dt_id tasks) \<and> [] \<notin> dt_id ` set tasks \<and> topoOrder tasks \<noteq> None"

lemma runbook_order:
  assumes "runbook_ok tasks"
  shows "topoOrder tasks = Some (topo_list tasks)" "distinct (topo_list tasks)"
    "set (topo_list tasks) = dt_id ` set tasks" "topo_sorted (deps tasks) (topo_list tasks)"
proof -
  from assms obtain order where o: "topoOrder tasks = Some order" by (auto simp: runbook_ok_def)
  then have l: "topo_list tasks = order" by (simp add: topo_list_def)
  have c: "mset order = mset (map dt_id tasks)" "topo_sorted (deps tasks) order"
    using topoOrder_spec [of tasks] assms o by (auto simp: runbook_ok_def)
  show "topoOrder tasks = Some (topo_list tasks)" "topo_sorted (deps tasks) (topo_list tasks)"
    using o l c by simp_all
  show "distinct (topo_list tasks)" "set (topo_list tasks) = dt_id ` set tasks"
    using c(1) assms unfolding l runbook_ok_def
    by (metis mset_eq_imp_distinct_iff, metis set_map set_mset_mset)
qed

definition task_finish :: "dr_task list \<Rightarrow> string \<Rightarrow> int" where
  "task_finish tasks = js_get_or 0 (fst (critical_scan tasks (topo_list tasks)))"

definition task_best :: "dr_task list \<Rightarrow> (string, string) jsmap" where
  "task_best tasks = snd (critical_scan tasks (topo_list tasks))"

lemma task_bind_task: "runbook_ok tasks \<Longrightarrow> t \<in> set tasks \<Longrightarrow> task_bind tasks f (dt_id t) = latest f (sort (preds t)) 0 []"
  by (simp add: task_bind_def taskById_get(1) runbook_ok_def)

lemma task_times:
  assumes ok: "runbook_ok tasks"
  shows "v \<notin> dt_id ` set tasks \<Longrightarrow> task_finish tasks v = 0"
    and "t \<in> set tasks \<Longrightarrow> latest (task_finish tasks) (sort (preds t)) 0 [] = (s, c) \<Longrightarrow>
      task_finish tasks (dt_id t) = s + task_weight tasks (dt_id t) \<and>
      map_of (task_best tasks) (dt_id t) = noted c"
proof -
  note order = runbook_order [OF ok]
  have d: "distinct (map dt_id tasks)" using ok by (simp add: runbook_ok_def)
  let ?P = "\<lambda>v. {p. \<exists>t \<in> set tasks. dt_id t = v \<and> p \<in> set (preds t)}"
  have local: "task_bind tasks f v = task_bind tasks g v" if "\<And>p. p \<in> ?P v \<Longrightarrow> f p = g p" for f g v
  proof (cases "map_of (taskById tasks) v")
    case (Some t)
    then have "p \<in> ?P v" if "p \<in> set (preds t)" for p
      using taskById_get(2) [OF d Some] that by blast
    with that Some show ?thesis by (auto simp: task_bind_def intro!: latest_cong)
  qed (simp add: task_bind_def)
  have "foldl (relax_step (task_bind tasks) (task_weight tasks)) ([], []) (topo_list tasks) =
      (fst (critical_scan tasks (topo_list tasks)), task_best tasks)"
    using critical_scan_relax [OF d, of "topo_list tasks"] order(3) by (simp add: task_best_def)
  note scan = relax_scan [where P = ?P and V = "dt_id ` set tasks" and E = "deps tasks", OF local _ order(2) _ order(4) this,
      folded task_finish_def, unfolded order(3)]
  have scan': "(\<forall>v. v \<notin> dt_id ` set tasks \<longrightarrow> task_finish tasks v = 0 \<and> map_of (task_best tasks) v = None) \<and>
    (\<forall>v \<in> dt_id ` set tasks. task_finish tasks v = fst (task_bind tasks (task_finish tasks) v) + task_weight tasks v \<and>
       map_of (task_best tasks) v = noted (snd (task_bind tasks (task_finish tasks) v)))"
    by (rule scan) (auto simp: deps_def)
  then show "v \<notin> dt_id ` set tasks \<Longrightarrow> task_finish tasks v = 0" by blast
  show "t \<in> set tasks \<Longrightarrow> latest (task_finish tasks) (sort (preds t)) 0 [] = (s, c) \<Longrightarrow>
      task_finish tasks (dt_id t) = s + task_weight tasks (dt_id t) \<and>
      map_of (task_best tasks) (dt_id t) = noted c"
    using scan' task_bind_task [OF ok] by auto
qed

lemma binding_task:
  assumes "runbook_ok tasks" and "t \<in> set tasks"
    and "latest (task_finish tasks) (sort (preds t)) 0 [] = (s, c)"
  shows "\<And>p. p \<in> set (preds t) \<Longrightarrow> task_finish tasks p \<le> s"
    "c = [] \<and> s = 0 \<or> (c, dt_id t) \<in> deps tasks \<and> task_finish tasks c = s"
proof -
  note l = latest_spec [OF assms(3)]
  show "\<And>p. p \<in> set (preds t) \<Longrightarrow> task_finish tasks p \<le> s" using l by simp
  have "c \<in> dt_id ` set tasks" if "0 < task_finish tasks c"
    using task_times(1) [OF assms(1)] that by force
  then show "c = [] \<and> s = 0 \<or> (c, dt_id t) \<in> deps tasks \<and> task_finish tasks c = s"
    using l assms(2) by (auto simp: deps_def)
qed

interpretation rc: chain_source deps task_weight topo_list task_finish task_best runbook_ok
proof
  fix tasks :: "dr_task list" and u v
  assume ok: "runbook_ok tasks"
  show "distinct (topo_list tasks)" "topo_sorted (deps tasks) (topo_list tasks)"
    using runbook_order [OF ok] by simp_all
  show "[] \<notin> set (topo_list tasks)" using runbook_order(3) [OF ok] ok by (auto simp: runbook_ok_def)
  show "v \<in> set (topo_list tasks)" if "(u, v) \<in> deps tasks"
    using that runbook_order(3) [OF ok] by (auto simp: deps_def)
  show "0 \<le> task_weight tasks v" by (simp add: task_weight_def planned_def split: option.split)
  show "task_finish tasks u + task_weight tasks v \<le> task_finish tasks v" if "(u, v) \<in> deps tasks"
  proof -
    from that obtain t where t: "t \<in> set tasks" "dt_id t = v" "u \<in> set (preds t)" by (auto simp: deps_def)
    obtain s c where l: "latest (task_finish tasks) (sort (preds t)) 0 [] = (s, c)" by fastforce
    show ?thesis
      using binding_task(1) [OF ok t(1) l t(3)] task_times(2) [OF ok t(1) l] t(2) by simp
  qed
  {
    assume "v \<in> set (topo_list tasks)"
    then obtain t where t: "t \<in> set tasks" "dt_id t = v" using runbook_order(3) [OF ok] by auto
    obtain s c where l: "latest (task_finish tasks) (sort (preds t)) 0 [] = (s, c)" by fastforce
    note facts = binding_task(2) [OF ok t(1) l] task_times(2) [OF ok t(1) l]
    show "map_of (task_best tasks) v = None \<Longrightarrow> task_finish tasks v = task_weight tasks v"
      using facts t(2) ok by (auto simp: noted_def deps_def runbook_ok_def split: if_splits)
    show "map_of (task_best tasks) v = Some u \<Longrightarrow>
        (u, v) \<in> deps tasks \<and> task_finish tasks v = task_finish tasks u + task_weight tasks v"
      using facts t(2) by (auto simp: noted_def split: if_splits)
  }
qed

lemma critical_path_spec:
  assumes "distinct (map dt_id tasks)" and "[] \<notin> dt_id ` set tasks" and "acyclic (deps tasks)"
  shows "\<exists>cp. computeCriticalPath tasks = Some cp \<and>
    chain (deps tasks) (cp_path cp) \<and> set (cp_path cp) \<subseteq> dt_id ` set tasks \<and>
    chain_weight (task_weight tasks) (cp_path cp) = cp_totalSeconds cp \<and>
    (\<forall>xs. chain (deps tasks) xs \<and> set xs \<subseteq> dt_id ` set tasks \<longrightarrow>
       chain_weight (task_weight tasks) xs \<le> cp_totalSeconds cp)"
proof -
  have ok: "runbook_ok tasks"
    using topoOrder_spec [OF assms(1)] assms by (auto simp: runbook_ok_def split: option.splits)
  note order = runbook_order [OF ok]
  obtain t f where l: "latest (task_finish tasks) (sortedTaskIds tasks) 0 [] = (t, f)" by fastforce
  have "set (sortedTaskIds tasks) = set (topo_list tasks)" by (simp add: sortedTaskIds_def order(3))
  from rc.latest_walk [OF ok l this] obtain p where p: "walk_back (task_best tasks) f = Some p"
    "chain (deps tasks) (rev p)" "set p \<subseteq> set (topo_list tasks)"
    "chain_weight (task_weight tasks) (rev p) = t"
    "\<forall>xs. chain (deps tasks) xs \<and> set xs \<subseteq> set (topo_list tasks) \<longrightarrow> chain_weight (task_weight tasks) xs \<le> t"
    by blast
  then show ?thesis
    using l order by (auto simp: computeCriticalPath_def task_finish_def task_best_def split: prod.splits)
qed

text \<open>C19. The critical path is the heaviest dependency chain: on every runbook with distinct,
  non-empty ids and acyclic dependencies the computation ends, the reported path is a chain of
  dependent tasks whose planned durations add up to the reported total, and no chain is longer.\<close>

theorem critical_path_is_longest_chain:
  assumes "distinct (map dt_id tasks)" and "[] \<notin> dt_id ` set tasks" and "acyclic (deps tasks)"
  shows "\<exists>cp. computeCriticalPath tasks = Some cp \<and>
    chain (deps tasks) (cp_path cp) \<and> set (cp_path cp) \<subseteq> dt_id ` set tasks \<and>
    chain_weight (task_weight tasks) (cp_path cp) = cp_totalSeconds cp \<and>
    (\<forall>xs. chain (deps tasks) xs \<and> set xs \<subseteq> dt_id ` set tasks \<longrightarrow>
       chain_weight (task_weight tasks) xs \<le> cp_totalSeconds cp)"
  using assms by (rule critical_path_spec)

subsection \<open>Frontier and statuses\<close>

text \<open>C20. A run never gets stuck: while some task is not done, none is running and none failed or is
  blocked, a runbook with distinct ids, known predecessors and acyclic dependencies has a runnable
  task, and each runnable task has all its predecessors done.\<close>

theorem frontier_progress:
  assumes "distinct (map dt_id tasks)" and "acyclic (deps tasks)"
    and known: "\<And>t p. t \<in> set tasks \<Longrightarrow> p \<in> set (preds t) \<Longrightarrow> p \<in> dt_id ` set tasks"
    and quiet: "\<And>t. t \<in> set tasks \<Longrightarrow> status_of m (dt_id t) \<notin> {Running, Failed, Blocked}"
    and open_task: "\<exists>t \<in> set tasks. \<not> isTaskRunDone (status_of m (dt_id t))"
  shows "computeFrontier tasks m \<noteq> [] \<and>
    set (computeFrontier tasks m) = dt_id ` {t \<in> set tasks. \<not> isTaskRunDone (status_of m (dt_id t)) \<and>
      (\<forall>p \<in> set (preds t). isTaskRunDone (status_of m p))}"
proof -
  let ?U = "{i \<in> dt_id ` set tasks. \<not> isTaskRunDone (status_of m i)}"
  have fr: "set (computeFrontier tasks m) = dt_id ` {t \<in> set tasks. \<not> isTaskRunDone (status_of m (dt_id t)) \<and>
      (\<forall>p \<in> set (preds t). isTaskRunDone (status_of m p))}"
  proof -
    have calm: "status_of m p \<noteq> Failed \<and> status_of m p \<noteq> Blocked" if "t \<in> set tasks" "p \<in> set (preds t)" for t p
      using known [OF that] quiet by auto
    show ?thesis
      using quiet calm
      by (auto simp: computeFrontier_def Let_def isTaskRunTerminal_def isTaskRunDone_def
          predecessor_failed_def predecessors_complete_def list_all_iff list_ex_iff)
  qed
  have "\<exists>v \<in> ?U. \<forall>u \<in> ?U. (u, v) \<notin> deps tasks"
  proof (rule ccontr)
    assume "\<not> (\<exists>v \<in> ?U. \<forall>u \<in> ?U. (u, v) \<notin> deps tasks)"
    then have "\<And>v. v \<in> ?U \<Longrightarrow> \<exists>u \<in> ?U. (u, v) \<in> deps tasks" by blast
    moreover have "finite ?U" "?U \<noteq> {}" using open_task by auto
    ultimately show False using backward_closed_cycle assms(2) by blast
  qed
  then obtain v where v: "v \<in> ?U" "\<And>u. u \<in> ?U \<Longrightarrow> (u, v) \<notin> deps tasks" by blast
  then obtain t where t: "t \<in> set tasks" "dt_id t = v" by auto
  have "isTaskRunDone (status_of m p)" if p: "p \<in> set (preds t)" for p
  proof (rule ccontr)
    assume "\<not> isTaskRunDone (status_of m p)"
    then have "p \<in> ?U" using known [OF t(1) p] by simp
    with v(2) show False using t p by (auto simp: deps_def)
  qed
  with t v(1) have "v \<in> set (computeFrontier tasks m)" unfolding fr by auto
  with fr show ?thesis by auto
qed

lemma computeFrontier_iff:
  "i \<in> set (computeFrontier tasks m) \<longleftrightarrow>
     (\<exists>r \<in> set tasks. dt_id r = i \<and> \<not> isTaskRunTerminal (status_of m i) \<and>
        status_of m i \<noteq> Running \<and> \<not> predecessor_failed m r \<and> predecessors_complete m r)"
proof -
  have "set (computeFrontier tasks m) = dt_id ` {r \<in> set tasks. \<not> isTaskRunTerminal (status_of m (dt_id r)) \<and>
      status_of m (dt_id r) \<noteq> Running \<and> \<not> predecessor_failed m r \<and> predecessors_complete m r}"
    unfolding computeFrontier_def Let_def set_sort set_map set_filter
    by (rule arg_cong [where f = "image dt_id"], rule Collect_cong) simp
  then show ?thesis by auto
qed

text \<open>The status the run rows report for a task: that of its last row.\<close>

definition reported :: "dr_task_run list \<Rightarrow> string \<Rightarrow> run_status option" where
  "reported taskRuns i =
     map_of (rev (map (\<lambda>tr. (tr_task_id tr, normalizeTaskRunStatus (Some (tr_status tr)))) taskRuns)) i"

definition explicit_statuses :: "dr_task_run list \<Rightarrow> (string, run_status) jsmap" where
  "explicit_statuses taskRuns =
     foldl (\<lambda>m tr. AList.update (tr_task_id tr) (normalizeTaskRunStatus (Some (tr_status tr))) m) [] taskRuns"

lemma explicit_get: "map_of (explicit_statuses taskRuns) = reported taskRuns"
proof
  fix i
  have "foldl (\<lambda>m tr. AList.update (tr_task_id tr) (normalizeTaskRunStatus (Some (tr_status tr))) m) m taskRuns =
      foldl (\<lambda>m (k, v). AList.update k v m) m
        (map (\<lambda>tr. (tr_task_id tr, normalizeTaskRunStatus (Some (tr_status tr)))) taskRuns)" for m
    by (induction taskRuns arbitrary: m) simp_all
  then show "map_of (explicit_statuses taskRuns) i = reported taskRuns i"
    by (simp add: explicit_statuses_def reported_def js.get_put_entries split: option.split)
qed

lemma foldl_update_by:
  assumes "distinct (map f xs)" and "x \<in> set xs"
  shows "map_of (foldl (\<lambda>m x. AList.update (f x) (g x) m) m xs) (f x) = Some (g x)"
  using assms
proof (induction xs arbitrary: m)
  case Nil
  then show ?case by simp
next
  case (Cons y ys)
  have other: "f x \<notin> f ` set ys \<Longrightarrow>
      map_of (foldl (\<lambda>m x. AList.update (f x) (g x) m) m' ys) (f x) = map_of m' (f x)" for m'
    by (induction ys arbitrary: m') (auto simp: js.get_put)
  show ?case
  proof (cases "x = y")
    case True
    with Cons.prems other show ?thesis by (simp add: js.get_put)
  next
    case False
    with Cons show ?thesis by simp
  qed
qed

definition derived_status :: "(string, run_status) jsmap \<Rightarrow> string list \<Rightarrow> dr_task \<Rightarrow> run_status" where
  "derived_status explicit frontier t =
     (case map_of explicit (dt_id t) of
        Some s \<Rightarrow> s
      | None \<Rightarrow>
          if dt_id t \<in> set frontier then Runnable
          else if predecessor_failed explicit t then Blocked else Pending)"

lemma deriveTaskStatuses_fold:
  "deriveTaskStatuses tasks taskRuns =
     foldl (\<lambda>m t. AList.update (dt_id t)
       (derived_status (explicit_statuses taskRuns) (computeFrontier tasks (explicit_statuses taskRuns)) t) m)
       [] tasks"
proof -
  have "(\<lambda>result t.
      case map_of e (dt_id t) of
        Some s \<Rightarrow> AList.update (dt_id t) s result
      | None \<Rightarrow>
          if dt_id t \<in> set f then AList.update (dt_id t) Runnable result
          else if predecessor_failed e t then AList.update (dt_id t) Blocked result
          else AList.update (dt_id t) Pending result) =
      (\<lambda>m t. AList.update (dt_id t) (derived_status e f t) m)" for e f
    by (intro ext) (auto simp: derived_status_def split: option.split)
  then show ?thesis
    by (simp add: deriveTaskStatuses_def explicit_statuses_def Let_def)
qed

text \<open>Every task gets a status: the one its last run row reports, and without a row it is runnable
  exactly when all its predecessors are done, blocked when one of them failed or is blocked, and
  pending otherwise.\<close>

theorem derived_statuses_complete:
  assumes "distinct (map dt_id tasks)" and "t \<in> set tasks"
    and "is_done = (\<lambda>p. reported taskRuns p \<in> {Some Complete, Some Skipped})"
  shows "map_of (deriveTaskStatuses tasks taskRuns) (dt_id t) =
    Some (case reported taskRuns (dt_id t) of
        Some s \<Rightarrow> s
      | None \<Rightarrow>
          if \<forall>p \<in> set (preds t). is_done p then Runnable
          else if \<exists>p \<in> set (preds t). reported taskRuns p \<in> {Some Failed, Some Blocked} then Blocked
          else Pending)"
proof -
  let ?e = "explicit_statuses taskRuns"
  have st: "status_of ?e p = (case reported taskRuns p of None \<Rightarrow> Pending | Some s \<Rightarrow> s)" for p
    by (simp add: status_of_def explicit_get)
  have failed: "predecessor_failed ?e t \<longleftrightarrow>
      (\<exists>p \<in> set (preds t). reported taskRuns p \<in> {Some Failed, Some Blocked})"
    by (auto simp: predecessor_failed_def list_ex_iff st split: option.splits)
  have complete: "predecessors_complete ?e t \<longleftrightarrow> (\<forall>p \<in> set (preds t). is_done p)"
    by (auto simp: predecessors_complete_def list_all_iff st isTaskRunDone_def assms(3) split: option.splits)
  have same: "r = t" if "r \<in> set tasks" "dt_id r = dt_id t" for r
    using assms(1,2) that by (metis distinct_map inj_onD)
  show ?thesis
  proof (cases "reported taskRuns (dt_id t)")
    case (Some s)
    then show ?thesis
      unfolding deriveTaskStatuses_fold foldl_update_by [OF assms(1,2)]
      by (simp add: derived_status_def explicit_get)
  next
    case None
    have "status_of ?e (dt_id t) = Pending" by (simp add: st None)
    moreover have "predecessors_complete ?e t \<Longrightarrow> \<not> predecessor_failed ?e t"
      unfolding complete failed assms(3) by force
    ultimately have "dt_id t \<in> set (computeFrontier tasks ?e) \<longleftrightarrow> predecessors_complete ?e t"
      unfolding computeFrontier_iff
      using assms(2) same by (metis isTaskRunTerminal_def run_status.distinct)
    then show ?thesis
      unfolding deriveTaskStatuses_fold foldl_update_by [OF assms(1,2)]
      by (simp add: derived_status_def explicit_get complete failed None)
  qed
qed

subsection \<open>The flow\<close>

lemma sort_by_key: "sort_by (\<lambda>a b. f a \<le> f b) xs = sort_key f xs"
proof -
  have "insert_by (\<lambda>a b. f a \<le> f b) = insort_key f"
  proof (intro ext)
    fix x ys
    show "insert_by (\<lambda>a b. f a \<le> f b) x ys = insort_key f x ys"
      by (induction ys) simp_all
  qed
  then show ?thesis by (simp add: sort_by_def sort_key_def)
qed

lemma rank_get:
  assumes "distinct xs" and "i < length xs"
  shows "js_get_or 0 (js_map_of_entries (zip xs [0..<length xs])) (xs ! i) = i"
proof -
  have "distinct (map fst (rev (zip xs [0..<length xs])))" using assms(1) by (simp add: rev_map [symmetric])
  moreover have "(xs ! i, i) \<in> set (rev (zip xs [0..<length xs]))"
    using assms(2) by (auto simp: set_zip)
  ultimately have "map_of (rev (zip xs [0..<length xs])) (xs ! i) = Some i"
    by (rule map_of_is_SomeI)
  then show ?thesis by (simp add: js_get_or_def map_of_js_entries)
qed

lemma sort_key_rank:
  assumes "distinct xs" and "mset (map f ys) = mset xs"
  shows "map f (sort_key (\<lambda>y. js_get_or 0 (js_map_of_entries (zip xs [0..<length xs])) (f y)) ys) = xs"
    (is "map f (sort_key (\<lambda>y. ?rank (f y)) ys) = xs")
proof -
  let ?zs = "map f (sort_key (\<lambda>y. ?rank (f y)) ys)"
  have m: "mset ?zs = mset xs" using assms(2) by simp
  have ranks: "map ?rank xs = [0..<length xs]"
    by (rule nth_equalityI) (simp_all add: rank_get [OF assms(1)])
  have "sorted (map ?rank ?zs)"
    using sorted_sort_key [of "\<lambda>y. ?rank (f y)" ys] by (simp add: o_def)
  then have "map ?rank ?zs = sort (map ?rank ?zs)" by (simp add: sorted_sort_id)
  also have "\<dots> = sort (map ?rank xs)"
  proof (rule properties_for_sort)
    show "mset (sort (map ?rank xs)) = mset (map ?rank ?zs)"
      by (simp only: mset_sort mset_map [of ?rank ?zs] mset_map [of ?rank xs] m)
  qed simp
  also have "\<dots> = map ?rank xs" by (simp add: ranks)
  finally have eq: "map ?rank ?zs = map ?rank xs" .
  have "inj_on ?rank (set xs)"
    using ranks by (metis distinct_map distinct_upt)
  moreover have "set ?zs = set xs" using m by (metis set_mset_mset)
  ultimately show ?thesis using eq by (metis map_inj_on Un_absorb)
qed

text \<open>The flow presents every task once, numbered from one, each after the tasks it depends on:
  on distinct, non-empty ids and acyclic dependencies the rows are in topological order.\<close>

theorem flow_rows_topological:
  assumes "distinct (map dt_id tasks)" and "[] \<notin> dt_id ` set tasks" and "acyclic (deps tasks)"
  shows "\<exists>rows cp. buildRunbookFlow locale_le tasks taskRuns = Some (rows, cp) \<and>
    mset (map fr_task rows) = mset tasks \<and>
    topo_sorted (deps tasks) (map (\<lambda>r. dt_id (fr_task r)) rows) \<and>
    map fr_sequence rows = [1..<length tasks + 1] \<and>
    (\<forall>r \<in> set rows. fr_onCriticalPath r \<longleftrightarrow> dt_id (fr_task r) \<in> set (cp_path cp))"
proof -
  obtain cp where cp: "computeCriticalPath tasks = Some cp"
    using critical_path_spec [OF assms] by blast
  have sub: "set (cp_pathSet cp) = set (cp_path cp)"
    using cp by (auto simp: computeCriticalPath_def split: option.splits prod.splits)
  obtain order where o: "topoOrder tasks = Some order" "mset order = mset (map dt_id tasks)"
    "topo_sorted (deps tasks) order"
    using topoOrder_spec [OF assms(1)] assms(3) by (auto split: option.splits)
  have d: "distinct order" using o(2) assms(1) by (metis mset_eq_imp_distinct_iff)
  let ?ordered = "orderTasksForFlow locale_le tasks"
  have ordered: "?ordered = sort_key (\<lambda>t. js_get_or 0 (js_map_of_entries (zip order [0..<length order])) (dt_id t)) tasks"
    by (simp add: orderTasksForFlow_def o(1) sort_by_key Let_def)
  have ids: "map dt_id ?ordered = order"
    unfolding ordered by (rule sort_key_rank [OF d o(2) [symmetric]])
  have len: "length ?ordered = length tasks" by (simp add: ordered)
  let ?rows = "map (\<lambda>(index, task). flow_row_of tasks taskRuns cp index task) (zip [0..<length ?ordered] ?ordered)"
  have fields: "fr_task (flow_row_of tasks taskRuns cp i t) = t" "fr_sequence (flow_row_of tasks taskRuns cp i t) = i + 1"
    "fr_onCriticalPath (flow_row_of tasks taskRuns cp i t) \<longleftrightarrow> dt_id t \<in> set (cp_path cp)" for i t
    using sub by (simp_all add: flow_row_of_def Let_def)
  have tasks: "map fr_task ?rows = ?ordered"
    by (simp add: o_def split_beta fields)
  have "map fr_sequence ?rows = map (\<lambda>i. i + 1) [0..<length ?ordered]"
    by (simp add: o_def split_beta fields flip: map_map [of Suc fst, unfolded o_def])
  then have seqs: "map fr_sequence ?rows = [1..<length tasks + 1]" by (simp add: len map_Suc_upt)
  have ids_rows: "map (\<lambda>r. dt_id (fr_task r)) ?rows = order"
    using arg_cong [OF tasks, of "map dt_id"] ids by (simp add: o_def)
  have mset_rows: "mset (map fr_task ?rows) = mset tasks"
    unfolding tasks by (simp add: ordered)
  have "buildRunbookFlow locale_le tasks taskRuns = Some (?rows, cp)"
    by (simp add: buildRunbookFlow_def cp Let_def)
  then show ?thesis
    using mset_rows seqs ids_rows o(3) fields(3)
    by (intro exI [of _ ?rows] exI [of _ cp]) (auto simp: fields)
qed

subsection \<open>Boot plans as runbooks\<close>

text \<open>The edges of a layered graph: everything in a layer depends on the whole layer before.\<close>

fun layer_edges :: "'a list list \<Rightarrow> ('a \<times> 'a) set" where
  "layer_edges [] = {}"
| "layer_edges [a] = {}"
| "layer_edges (a # b # ls) = set a \<times> set b \<union> layer_edges (b # ls)"

fun layer_of :: "'a list list \<Rightarrow> 'a \<Rightarrow> nat" where
  "layer_of [] v = 0"
| "layer_of (a # ls) v = (if v \<in> set a then 0 else Suc (layer_of ls v))"

lemma layer_edges_Cons: "layer_edges (a # ls) \<subseteq> set a \<times> set (concat ls) \<union> layer_edges ls"
  by (cases ls) auto

lemma layer_edges_in: "(u, v) \<in> layer_edges ls \<Longrightarrow> u \<in> set (concat ls) \<and> v \<in> set (concat ls)"
  by (induction ls rule: layer_edges.induct) auto

lemma layer_edges_rank:
  "distinct (concat ls) \<Longrightarrow> (u, v) \<in> layer_edges ls \<Longrightarrow> layer_of ls u < layer_of ls v"
proof (induction ls rule: layer_edges.induct)
  case (3 a b ls)
  show ?case
  proof (cases "(u, v) \<in> layer_edges (b # ls)")
    case True
    with 3 have "layer_of (b # ls) u < layer_of (b # ls) v" by simp
    moreover have "u \<notin> set a" "v \<notin> set a"
      using layer_edges_in [OF True] "3.prems"(1) by auto
    ultimately show ?thesis by simp
  next
    case False
    with "3.prems" show ?thesis by auto
  qed
qed simp_all

lemma layer_edges_acyclic: "distinct (concat ls) \<Longrightarrow> acyclic (layer_edges ls)"
  by (rule wf_acyclic [OF wf_subset [OF wf_measure [of "layer_of ls"]]]) (auto dest: layer_edges_rank)

lemma chain_into_rest:
  "chain (layer_edges (a # ls)) xs \<Longrightarrow> set xs \<inter> set a = {} \<Longrightarrow> chain (layer_edges ls) xs"
proof (induction "layer_edges (a # ls)" xs rule: chain.induct)
  case (3 u v xs)
  then have "(u, v) \<in> layer_edges ls" using layer_edges_Cons [of a ls] by auto
  with 3 show ?case by simp
qed simp_all

lemma chain_tail_in_rest:
  "chain (layer_edges (a # ls)) (x # xs) \<Longrightarrow> set xs \<subseteq> set (concat ls)"
proof (induction xs arbitrary: x)
  case (Cons v xs)
  have "(x, v) \<in> layer_edges (a # ls)" using Cons.prems by simp
  then have "v \<in> set (concat ls)" using layer_edges_Cons [of a ls] layer_edges_in [of x v ls] by auto
  moreover have "set xs \<subseteq> set (concat ls)" using Cons.IH [of v] Cons.prems by simp
  ultimately show ?case by simp
qed simp

definition layer_max :: "('a \<Rightarrow> int) \<Rightarrow> 'a list \<Rightarrow> int" where
  "layer_max w a = Max (w ` set a)"

lemma layer_max_ge: "x \<in> set a \<Longrightarrow> w x \<le> layer_max w a"
  by (simp add: layer_max_def)

lemma layer_max_nonneg: "a \<noteq> [] \<Longrightarrow> (\<And>v. 0 \<le> w v) \<Longrightarrow> 0 \<le> layer_max w a"
  using layer_max_ge [of "hd a" a w] by (meson hd_in_set order_trans)

lemma layered_chain_bound:
  assumes w: "\<And>v. 0 \<le> w v"
  shows "distinct (concat ls) \<Longrightarrow> [] \<notin> set ls \<Longrightarrow> chain (layer_edges ls) xs \<Longrightarrow>
    set xs \<subseteq> set (concat ls) \<Longrightarrow> chain_weight w xs \<le> sum_list (map (layer_max w) ls)"
proof (induction ls arbitrary: xs)
  case Nil
  then show ?case by simp
next
  case (Cons a ls)
  have max0: "0 \<le> layer_max w a" using layer_max_nonneg [of a w] w Cons.prems(2) by auto
  have rest: "chain_weight w ys \<le> sum_list (map (layer_max w) ls)"
    if "chain (layer_edges (a # ls)) ys" "set ys \<subseteq> set (concat ls)" for ys
  proof -
    have "set ys \<inter> set a = {}" using that(2) Cons.prems(1) by auto
    from Cons.IH [OF _ _ chain_into_rest [OF that(1) this] that(2)] Cons.prems show ?thesis by simp
  qed
  show ?case
  proof (cases "xs \<noteq> [] \<and> hd xs \<in> set a")
    case True
    then obtain x ys where xs: "xs = x # ys" "x \<in> set a" by (cases xs) auto
    have "chain (layer_edges (a # ls)) ys" using Cons.prems(3) xs by (cases ys) auto
    from rest [OF this chain_tail_in_rest [of a ls x ys]] Cons.prems(3) xs layer_max_ge [OF xs(2), of w]
    show ?thesis by simp
  next
    case False
    then have "set xs \<subseteq> set (concat ls)"
      using chain_tail_in_rest [of a ls "hd xs" "tl xs"] Cons.prems(3,4) by (cases xs) auto
    from rest [OF Cons.prems(3) this] max0 show ?thesis by simp
  qed
qed

lemma layered_chain_exists:
  "[] \<notin> set ls \<Longrightarrow> \<exists>xs. chain (layer_edges ls) xs \<and> set xs \<subseteq> set (concat ls) \<and>
     chain_weight w xs = sum_list (map (layer_max w) ls) \<and> (ls \<noteq> [] \<longrightarrow> xs \<noteq> [] \<and> hd xs \<in> set (hd ls))"
proof (induction ls)
  case Nil
  then show ?case by (intro exI [of _ "[]"]) simp
next
  case (Cons a ls)
  then obtain xs where xs: "chain (layer_edges ls) xs" "set xs \<subseteq> set (concat ls)"
    "chain_weight w xs = sum_list (map (layer_max w) ls)" "ls \<noteq> [] \<Longrightarrow> xs \<noteq> [] \<and> hd xs \<in> set (hd ls)"
    by auto
  have "layer_max w a \<in> w ` set a"
    unfolding layer_max_def using Cons.prems by (intro Max_in) auto
  then obtain m where m: "m \<in> set a" "w m = layer_max w a" by auto
  have "chain (layer_edges (a # ls)) (m # xs)"
  proof (cases ls)
    case Nil
    with xs(2) show ?thesis by simp
  next
    case (Cons b ls')
    have mono: "chain (layer_edges (b # ls')) ys \<Longrightarrow> chain (layer_edges (a # b # ls')) ys" for ys
      by (induction "layer_edges (b # ls')" ys rule: chain.induct) auto
    obtain x ys where "xs = x # ys" "x \<in> set b" using xs(4) Cons by (cases xs) auto
    with xs(1) mono m Cons show ?thesis by auto
  qed
  with xs m show ?case by (intro exI [of _ "m # xs"]) auto
qed

definition tier_ids :: "dr_boot_service list list \<Rightarrow> string list list" where
  "tier_ids tiers = map (map bs_id) tiers"

lemma boot_task_fields [simp]:
  "dt_id (boot_task groupId k prev svc) = bs_id svc"
  "preds (boot_task groupId k prev svc) = prev"
  by (simp_all add: boot_task_def preds_def)

lemma boot_ids: "map dt_id (boot_tiers_from groupId k prev tiers) = concat (tier_ids tiers)"
  by (induction groupId k prev tiers rule: boot_tiers_from.induct) (simp_all add: tier_ids_def)

lemma boot_preds:
  "(\<exists>t \<in> set (boot_tiers_from groupId k prev tiers). dt_id t = i \<and> p \<in> set (preds t)) \<longleftrightarrow>
     (p, i) \<in> layer_edges (prev # tier_ids tiers)"
proof (induction groupId k prev tiers rule: boot_tiers_from.induct)
  case (2 groupId k prev tier tiers)
  have "(\<exists>t \<in> set (boot_tiers_from groupId k prev (tier # tiers)). dt_id t = i \<and> p \<in> set (preds t)) \<longleftrightarrow>
      (\<exists>svc \<in> set tier. bs_id svc = i \<and> p \<in> set prev) \<or>
      (\<exists>t \<in> set (boot_tiers_from groupId (k + 1) (map bs_id tier) tiers). dt_id t = i \<and> p \<in> set (preds t))"
    by (simp add: bex_Un)
  also have "\<dots> \<longleftrightarrow> (\<exists>svc \<in> set tier. bs_id svc = i \<and> p \<in> set prev) \<or>
      (p, i) \<in> layer_edges (map bs_id tier # tier_ids tiers)"
    using 2 by simp
  also have "\<dots> \<longleftrightarrow> (p, i) \<in> layer_edges (prev # tier_ids (tier # tiers))"
    by (auto simp: tier_ids_def)
  finally show ?case .
qed (simp add: tier_ids_def)

lemma boot_deps: "deps (bootTiersToRunbookTasks groupId tiers) = layer_edges (tier_ids tiers)"
proof -
  have ids: "dt_id ` set (boot_tiers_from groupId 0 [] tiers) = set (concat (tier_ids tiers))"
    by (metis boot_ids set_map)
  have "layer_edges ([] # tier_ids tiers) = layer_edges (tier_ids tiers)"
    by (cases "tier_ids tiers") auto
  then show ?thesis
    unfolding deps_def bootTiersToRunbookTasks_def ids boot_preds
    using layer_edges_in [of _ _ "tier_ids tiers"] by auto
qed

definition boot_seconds :: "dr_boot_service \<Rightarrow> int" where
  "boot_seconds svc = max 1 (case bs_boot_timeout_seconds svc of None \<Rightarrow> 0 | Some n \<Rightarrow> n)"

lemma boot_planned:
  "t \<in> set (boot_tiers_from groupId k prev tiers) \<Longrightarrow>
     \<exists>svc \<in> set (concat tiers). dt_id t = bs_id svc \<and> planned t = boot_seconds svc"
proof (induction groupId k prev tiers rule: boot_tiers_from.induct)
  case (2 groupId k prev tier tiers)
  have "planned (boot_task groupId k prev svc) = boot_seconds svc" for svc
    by (simp add: planned_def boot_task_def boot_seconds_def)
  with 2 show ?case by auto
qed simp

lemma boot_weight:
  assumes "distinct (concat (tier_ids tiers))" and "svc \<in> set (concat tiers)"
  shows "task_weight (bootTiersToRunbookTasks groupId tiers) (bs_id svc) = boot_seconds svc"
proof -
  let ?T = "bootTiersToRunbookTasks groupId tiers"
  have d: "distinct (map dt_id ?T)" using assms(1) by (simp add: bootTiersToRunbookTasks_def boot_ids)
  have "bs_id svc \<in> set (concat (tier_ids tiers))" using assms(2) by (auto simp: tier_ids_def)
  then obtain t where t: "t \<in> set ?T" "dt_id t = bs_id svc"
    by (metis boot_ids bootTiersToRunbookTasks_def in_set_conv_nth length_map nth_map)
  from boot_planned t(1) obtain s where s: "s \<in> set (concat tiers)" "dt_id t = bs_id s" "planned t = boot_seconds s"
    unfolding bootTiersToRunbookTasks_def by blast
  have "distinct (map bs_id (concat tiers))" using assms(1) by (simp add: tier_ids_def map_concat)
  then have "s = svc" using s t(2) assms(2) by (metis distinct_map inj_onD)
  with s t show ?thesis by (simp add: task_weight_def taskById_get(1) [OF d, of t, unfolded t(2)])
qed

text \<open>A boot plan visualised as a runbook takes the sum over its tiers of the slowest service: for
  distinct, non-empty ids and non-empty tiers the synthesised tasks are acyclic and the reported
  critical path has exactly that length.\<close>

theorem boot_plan_critical_path:
  assumes "distinct (concat (tier_ids tiers))" and "[] \<notin> set (concat (tier_ids tiers))"
    and "[] \<notin> set tiers"
  shows "\<exists>cp. computeCriticalPath (bootTiersToRunbookTasks groupId tiers) = Some cp \<and>
    acyclic (deps (bootTiersToRunbookTasks groupId tiers)) \<and>
    cp_totalSeconds cp = (\<Sum>tier \<leftarrow> tiers. Max (boot_seconds ` set tier))"
proof -
  let ?T = "bootTiersToRunbookTasks groupId tiers" and ?w = "task_weight (bootTiersToRunbookTasks groupId tiers)"
  have ids: "map dt_id ?T = concat (tier_ids tiers)" by (simp add: bootTiersToRunbookTasks_def boot_ids)
  have nodes: "dt_id ` set ?T = set (concat (tier_ids tiers))" by (metis ids set_map)
  have acyc: "acyclic (deps ?T)" unfolding boot_deps by (rule layer_edges_acyclic [OF assms(1)])
  have ne: "[] \<notin> set (tier_ids tiers)" using assms(3) by (auto simp: tier_ids_def)
  have w0: "0 \<le> ?w v" for v by (simp add: task_weight_def planned_def split: option.split)
  have sums: "sum_list (map (layer_max ?w) (tier_ids tiers)) = (\<Sum>tier \<leftarrow> tiers. Max (boot_seconds ` set tier))"
  proof -
    have "layer_max ?w (map bs_id tier) = Max (boot_seconds ` set tier)" if "tier \<in> set tiers" for tier
    proof -
      have "(\<lambda>svc. ?w (bs_id svc)) ` set tier = boot_seconds ` set tier"
        by (rule image_cong [OF refl], rule boot_weight [OF assms(1)]) (use that in auto)
      then show ?thesis by (simp add: layer_max_def image_image)
    qed
    then show ?thesis by (simp add: tier_ids_def o_def cong: map_cong)
  qed
  have "distinct (map dt_id ?T)" "[] \<notin> dt_id ` set ?T" using assms(1,2) by (simp_all only: ids nodes not_False_eq_True)
  from critical_path_spec [OF this acyc] obtain cp where cp: "computeCriticalPath ?T = Some cp"
    "chain (deps ?T) (cp_path cp)" "set (cp_path cp) \<subseteq> dt_id ` set ?T"
    "chain_weight ?w (cp_path cp) = cp_totalSeconds cp"
    "\<And>xs. chain (deps ?T) xs \<and> set xs \<subseteq> dt_id ` set ?T \<Longrightarrow> chain_weight ?w xs \<le> cp_totalSeconds cp"
    by blast
  have "chain_weight ?w (cp_path cp) \<le> sum_list (map (layer_max ?w) (tier_ids tiers))"
    by (rule layered_chain_bound [OF w0 assms(1) ne])
      (use cp(2,3) in \<open>simp_all only: boot_deps nodes\<close>)
  moreover obtain xs where xs: "chain (layer_edges (tier_ids tiers)) xs" "set xs \<subseteq> set (concat (tier_ids tiers))"
    "chain_weight ?w xs = sum_list (map (layer_max ?w) (tier_ids tiers))"
    using layered_chain_exists [OF ne, of ?w] by blast
  have "chain_weight ?w xs \<le> cp_totalSeconds cp"
    by (rule cp(5)) (use xs in \<open>simp only: boot_deps nodes\<close>)
  ultimately show ?thesis using cp(1,4) acyc sums xs(3) by auto
qed

subsection \<open>A small runbook\<close>

definition demo_task :: "string \<Rightarrow> string list \<Rightarrow> int \<Rightarrow> dr_task" where
  "demo_task i ps d =
     \<lparr>dt_id = i, dt_tenant_id = [], dt_runbook_id = [], dt_task_key = i, dt_name = i,
      dt_task_type = ''manual'', dt_required = True, dt_owner = [], dt_team = [], dt_instructions = [],
      dt_planned = Some d, dt_automation_action = [], dt_predecessors = Some ps, dt_params = [],
      dt_created_at = [], dt_updated_at = []\<rparr>"

definition demo_runbook :: "dr_task list" where
  "demo_runbook = [demo_task ''b'' [''a''] 20, demo_task ''a'' [] 10]"

lemma demo_fields [simp]:
  "dt_id (demo_task i ps d) = i" "preds (demo_task i ps d) = ps"
  by (simp_all add: demo_task_def preds_def)

lemma demo_deps: "deps demo_runbook = {(''a'', ''b'')}"
  by (auto simp: deps_def demo_runbook_def)

lemma demo_ok: "distinct (map dt_id demo_runbook)" "[] \<notin> dt_id ` set demo_runbook" "acyclic (deps demo_runbook)"
  by (simp_all add: demo_deps acyclic_insert wf_acyclic) (simp_all add: demo_runbook_def)

theorem topoOrder_correct_witness:
  "case topoOrder demo_runbook of
      Some order \<Rightarrow> mset order = mset (map dt_id demo_runbook) \<and> topo_sorted (deps demo_runbook) order \<and>
        acyclic (deps demo_runbook)
    | None \<Rightarrow> \<not> acyclic (deps demo_runbook)"
  by (rule topoOrder_correct [OF demo_ok(1)])

theorem critical_path_is_longest_chain_witness:
  "\<exists>cp. computeCriticalPath demo_runbook = Some cp \<and> 30 \<le> cp_totalSeconds cp"
proof -
  obtain cp where cp: "computeCriticalPath demo_runbook = Some cp"
    "\<forall>xs. chain (deps demo_runbook) xs \<and> set xs \<subseteq> dt_id ` set demo_runbook \<longrightarrow>
       chain_weight (task_weight demo_runbook) xs \<le> cp_totalSeconds cp"
    using critical_path_is_longest_chain [OF demo_ok] by blast
  have "chain (deps demo_runbook) [''a'', ''b''] \<and> set [''a'', ''b''] \<subseteq> dt_id ` set demo_runbook"
    by (simp add: demo_deps) (simp add: demo_runbook_def)
  moreover have "chain_weight (task_weight demo_runbook) [''a'', ''b''] = 30"
    by (simp add: task_weight_def demo_runbook_def taskById_def js_map_of_entries_def demo_task_def planned_def)
  ultimately show ?thesis using cp by (intro exI [of _ cp]) fastforce
qed

theorem frontier_progress_witness:
  "computeFrontier demo_runbook [(''a'', Complete)] \<noteq> [] \<and>
    set (computeFrontier demo_runbook [(''a'', Complete)]) =
      dt_id ` {t \<in> set demo_runbook. \<not> isTaskRunDone (status_of [(''a'', Complete)] (dt_id t)) \<and>
        (\<forall>p \<in> set (preds t). isTaskRunDone (status_of [(''a'', Complete)] p))}"
  by (rule frontier_progress [OF demo_ok(1,3)])
    (auto simp: demo_runbook_def status_of_def isTaskRunDone_def)

theorem derived_statuses_complete_witness:
  "map_of (deriveTaskStatuses demo_runbook []) ''a'' = Some Runnable"
  using derived_statuses_complete [OF demo_ok(1), of "demo_task ''a'' [] 10" _ "[]", OF _ refl]
  by (simp add: demo_runbook_def reported_def)

theorem flow_rows_topological_witness:
  "\<exists>rows cp. buildRunbookFlow (\<le>) demo_runbook [] = Some (rows, cp) \<and>
    mset (map fr_task rows) = mset demo_runbook \<and>
    topo_sorted (deps demo_runbook) (map (\<lambda>r. dt_id (fr_task r)) rows) \<and>
    map fr_sequence rows = [1..<length demo_runbook + 1] \<and>
    (\<forall>r \<in> set rows. fr_onCriticalPath r \<longleftrightarrow> dt_id (fr_task r) \<in> set (cp_path cp))"
  by (rule flow_rows_topological [OF demo_ok])

definition demo_service :: "string \<Rightarrow> int \<Rightarrow> dr_boot_service" where
  "demo_service i d =
     \<lparr>bs_id = i, bs_tenant_id = [], bs_name = i, bs_kind = [], bs_boot_action = [], bs_probe_kind = [],
      bs_probe_target = [], bs_probe_expect_status = 200, bs_boot_timeout_seconds = Some d,
      bs_health_retries = 3, bs_created_at = [], bs_updated_at = []\<rparr>"

theorem boot_plan_critical_path_witness:
  "\<exists>cp. computeCriticalPath (bootTiersToRunbookTasks ''g''
      [[demo_service ''db'' 30, demo_service ''mq'' 40], [demo_service ''app'' 5]]) = Some cp \<and>
    cp_totalSeconds cp = 45"
  using boot_plan_critical_path [of "[[demo_service ''db'' 30, demo_service ''mq'' 40], [demo_service ''app'' 5]]" "''g''"]
  by (auto simp: tier_ids_def demo_service_def boot_seconds_def)

end
