(* ===== verification/NodeMap.thy ===== *)
theory NodeMap
  imports Chains Web Runbook
begin

section \<open>The node map\<close>

text \<open>
  \<open>frontend/src/components/product/nodemap/node-map-graph.ts\<close>: topological order, heaviest
  dependency chain, ranks and layout of a replication topology or boot plan. The layout engine
  dagre is an argument; weights (lags, boot timeouts) are whole seconds.
\<close>

subsection \<open>Data\<close>

datatype node_kind = Site | Service | Task

record nm_node =
  nn_id :: string
  nn_label :: string
  nn_sublabel :: "string option"
  nn_kind :: node_kind
  nn_status :: string
  nn_weight :: int

record nm_edge =
  ne_id :: string
  ne_from :: string
  ne_to :: string
  ne_label :: "string option"
  ne_status :: "string option"

datatype rankdir = LR | TB

record layout_options =
  lo_rankdir :: rankdir
  lo_nodeWidth :: int
  lo_nodeHeight :: int
  lo_nodesep :: int
  lo_ranksep :: int

definition LAYOUT_DEFAULTS :: layout_options where
  "LAYOUT_DEFAULTS = \<lparr>lo_rankdir = LR, lo_nodeWidth = 200, lo_nodeHeight = 76, lo_nodesep = 28, lo_ranksep = 96\<rparr>"

type_synonym point = "rat \<times> rat"

record laid_node = nm_node +
  ln_x :: rat
  ln_y :: rat
  ln_width :: int
  ln_height :: int
  ln_rank :: nat
  ln_onCriticalPath :: bool

record laid_edge = nm_edge +
  le_points :: "point list"
  le_onCriticalPath :: bool

record node_map_layout =
  nl_nodes :: "laid_node list"
  nl_edges :: "laid_edge list"
  nl_width :: int
  nl_height :: int
  nl_criticalPath :: "string list"
  nl_criticalPathWeight :: int

subsection \<open>Topological order\<close>

text \<open>\<open>adj.set(e.from, [...new Set(list)].sort())\<close>: parallel edges collapse to one successor.\<close>

definition adjacency_step :: "(string, string list) jsmap \<Rightarrow> nm_edge \<Rightarrow> (string, string list) jsmap" where
  "adjacency_step adj e =
     AList.update (ne_from e) (sort (js_uniq (js_get_or [] adj (ne_from e) @ [ne_to e]))) adj"

definition adjacency :: "nm_edge list \<Rightarrow> (string, string list) jsmap" where
  "adjacency edges = foldl adjacency_step [] edges"

definition node_indegrees :: "nm_node list \<times> nm_edge list \<Rightarrow> (string, int) jsmap" where
  "node_indegrees g =
     (let (nodes, edges) = g;
          present = map nn_id nodes;
          indeg = foldl (\<lambda>m n. AList.update (nn_id n) 0 m) [] nodes
      in foldl (\<lambda>m e. if ne_from e \<in> set present \<and> ne_to e \<in> set present
                      then count_edge m (ne_from e, ne_to e) else m) indeg edges)"

definition ready_nodes :: "nm_node list \<times> nm_edge list \<Rightarrow> string list" where
  "ready_nodes g = sort (filter (\<lambda>id'. js_get_or 0 (node_indegrees g) id' = 0) (map nn_id (fst g)))"

definition topoOrderNodes :: "nm_node list \<Rightarrow> nm_edge list \<Rightarrow> string list option" where
  "topoOrderNodes nodes edges =
     (let order = kahn_loop (adjacency edges) (node_indegrees (nodes, edges)) (ready_nodes (nodes, edges)) []
      in if length order = length nodes then Some order else None)"

subsection \<open>The heaviest chain\<close>

definition node_preds :: "nm_edge list \<Rightarrow> (string, string list) jsmap" where
  "node_preds edges = foldl (\<lambda>m e. push_edge m (ne_to e, ne_from e)) [] edges"

text \<open>The binding predecessor: the first one, then each one with a later finish.\<close>

fun binding_node :: "(string \<Rightarrow> int) \<Rightarrow> string list \<Rightarrow> int \<Rightarrow> string \<Rightarrow> int \<times> string" where
  "binding_node ef [] start chosen = (start, chosen)"
| "binding_node ef (pre # ps) start chosen =
     (if chosen = [] \<or> start < ef pre then binding_node ef ps (ef pre) pre
      else binding_node ef ps start chosen)"

definition node_weights :: "nm_node list \<Rightarrow> (string, int) jsmap" where
  "node_weights nodes = js_map_of_entries (map (\<lambda>n. (nn_id n, max 0 (nn_weight n))) nodes)"

definition node_step ::
  "nm_node list \<Rightarrow> nm_edge list \<Rightarrow> (string, int) jsmap \<times> (string, string) jsmap \<Rightarrow> string \<Rightarrow>
     (string, int) jsmap \<times> (string, string) jsmap" where
  "node_step nodes edges st id' =
     (let (ef, best) = st;
          p = sort (js_get_or [] (node_preds edges) id');
          (start, chosen) = binding_node (js_get_or 0 ef) p 0 []
      in (AList.update id' (start + js_get_or 0 (node_weights nodes) id') ef,
          if chosen = [] then best else AList.update id' chosen best))"

definition node_scan ::
  "nm_node list \<Rightarrow> nm_edge list \<Rightarrow> string list \<Rightarrow> (string, int) jsmap \<times> (string, string) jsmap" where
  "node_scan nodes edges order = foldl (node_step nodes edges) ([], []) order"

text \<open>\<open>computeNodeCriticalPath\<close>: path, weight and member set; None if the walk back did not end.\<close>

definition computeNodeCriticalPath ::
  "nm_node list \<Rightarrow> nm_edge list \<Rightarrow> (string list \<times> int \<times> string list) option" where
  "computeNodeCriticalPath nodes edges =
     (case topoOrderNodes nodes edges of
        None \<Rightarrow> Some ([], 0, [])
      | Some order \<Rightarrow>
          let (ef, best) = node_scan nodes edges order;
              (weight, finish) = latest (js_get_or 0 ef) (sort order) 0 []
          in map_option (\<lambda>r. (rev r, weight, js_uniq (rev r))) (walk_back best finish))"

subsection \<open>Layout\<close>

text \<open>\<open>p.length === 0 ? 0 : Math.max(...p.map((x) => (rankOf.get(x) ?? 0) + 1))\<close>\<close>

definition rank_step :: "nm_edge list \<Rightarrow> (string, nat) jsmap \<Rightarrow> string \<Rightarrow> (string, nat) jsmap" where
  "rank_step edges rankOf id' =
     AList.update id'
       (foldr max (map (\<lambda>x. js_get_or 0 rankOf x + 1) (js_get_or [] (node_preds edges) id')) 0) rankOf"

definition node_ranks :: "nm_node list \<Rightarrow> nm_edge list \<Rightarrow> (string, nat) jsmap" where
  "node_ranks nodes edges =
     (case topoOrderNodes nodes edges of
        Some order \<Rightarrow> foldl (rank_step edges) [] order
      | None \<Rightarrow> foldl (\<lambda>m (i, n). AList.update (nn_id n) i m) [] (zip [0..<length nodes] nodes))"

text \<open>What dagre is given (the graph settings, node sizes, multigraph edges) and what it returns.\<close>

record dagre_input =
  dg_options :: layout_options
  dg_nodes :: "(string \<times> int \<times> int) list"
  dg_edges :: "(string \<times> string \<times> string) list"

record dagre_result =
  dr_node :: "string \<Rightarrow> point option"
  dr_edge :: "string \<Rightarrow> string \<Rightarrow> string \<Rightarrow> point list option"
  dr_width :: "rat option"
  dr_height :: "rat option"

definition ceil_or_zero :: "rat option \<Rightarrow> int" where
  "ceil_or_zero v = (case v of None \<Rightarrow> 0 | Some x \<Rightarrow> \<lceil>x\<rceil>)"

definition lay_node ::
  "layout_options \<Rightarrow> dagre_result \<Rightarrow> (string, nat) jsmap \<Rightarrow> string list \<Rightarrow> nm_node \<Rightarrow> laid_node" where
  "lay_node opts g rankOf pathSet n =
     nm_node.extend n
       \<lparr>ln_x = (case dr_node g (nn_id n) of None \<Rightarrow> 0 | Some p \<Rightarrow> fst p),
        ln_y = (case dr_node g (nn_id n) of None \<Rightarrow> 0 | Some p \<Rightarrow> snd p),
        ln_width = lo_nodeWidth opts, ln_height = lo_nodeHeight opts,
        ln_rank = js_get_or 0 rankOf (nn_id n),
        ln_onCriticalPath = nn_id n \<in> set pathSet\<rparr>"

definition lay_edge :: "dagre_result \<Rightarrow> string list \<Rightarrow> string list \<Rightarrow> nm_edge \<Rightarrow> laid_edge" where
  "lay_edge g present pathSet e =
     (let points = (if ne_from e \<in> set present \<and> ne_to e \<in> set present
            then (case dr_edge g (ne_from e) (ne_to e) (ne_id e) of None \<Rightarrow> [] | Some ps \<Rightarrow> ps) else []);
          points = (if points = [] then
              (case (dr_node g (ne_from e), dr_node g (ne_to e)) of
                 (Some a, Some b) \<Rightarrow> [a, b] | _ \<Rightarrow> points)
            else points)
      in nm_edge.extend e
           \<lparr>le_points = points, le_onCriticalPath = ne_from e \<in> set pathSet \<and> ne_to e \<in> set pathSet\<rparr>)"

definition layoutGraph ::
  "(dagre_input \<Rightarrow> dagre_result) \<Rightarrow> nm_node list option \<Rightarrow> nm_edge list option \<Rightarrow> layout_options \<Rightarrow>
     node_map_layout option" where
  "layoutGraph dagre nodesInput edgesInput opts =
     (let nodes = (case nodesInput of None \<Rightarrow> [] | Some ns \<Rightarrow> ns);
          edges = (case edgesInput of None \<Rightarrow> [] | Some es \<Rightarrow> es)
      in case computeNodeCriticalPath nodes edges of
        None \<Rightarrow> None
      | Some (path, weight, pathSet) \<Rightarrow>
          let rankOf = node_ranks nodes edges;
              present = map nn_id nodes;
              g = dagre \<lparr>dg_options = opts,
                dg_nodes = map (\<lambda>n. (nn_id n, lo_nodeWidth opts, lo_nodeHeight opts)) nodes,
                dg_edges = map (\<lambda>e. (ne_from e, ne_to e, ne_id e))
                  (filter (\<lambda>e. ne_from e \<in> set present \<and> ne_to e \<in> set present) edges)\<rparr>
          in Some \<lparr>nl_nodes = map (lay_node opts g rankOf pathSet) nodes,
                   nl_edges = map (lay_edge g present pathSet) edges,
                   nl_width = max (lo_nodeWidth opts) (ceil_or_zero (dr_width g)),
                   nl_height = max (lo_nodeHeight opts) (ceil_or_zero (dr_height g)),
                   nl_criticalPath = path, nl_criticalPathWeight = weight\<rparr>)"

subsection \<open>Topologies and boot plans as graphs\<close>

record dr_topology_node =
  tn_id :: string
  tn_site_name :: string
  tn_role :: string

record dr_topology_edge =
  te_id :: string
  te_from_node_id :: string
  te_to_node_id :: string
  te_mode :: string
  te_health :: string
  te_lag_seconds :: "int option"

definition roleToStatus :: "string \<Rightarrow> string" where
  "roleToStatus role =
     (let r = js_toLowerCase (js_trim role) in
      if r = ''primary'' \<or> r = ''source'' then ''primary''
      else if r = ''recovery'' \<or> r = ''target'' \<or> r = ''failover'' then ''recovery''
      else if r = ''standby'' \<or> r = ''replica'' then ''standby''
      else if r = [] then ''unknown'' else r)"

definition inbound_lag :: "dr_topology_edge list \<Rightarrow> (string, int) jsmap" where
  "inbound_lag es =
     foldl (\<lambda>m e. AList.update (te_to_node_id e)
       (max (js_get_or 0 m (te_to_node_id e)) (case te_lag_seconds e of None \<Rightarrow> 0 | Some l \<Rightarrow> l)) m) [] es"

definition topologyToGraph ::
  "(dr_topology_node list option \<times> dr_topology_edge list option) option \<Rightarrow> nm_node list \<times> nm_edge list" where
  "topologyToGraph topology =
     (let topoNodes = (case topology of Some (Some ns, _) \<Rightarrow> ns | _ \<Rightarrow> []);
          topoEdges = (case topology of Some (_, Some es) \<Rightarrow> es | _ \<Rightarrow> []);
          inboundLag = inbound_lag topoEdges
      in (map (\<lambda>n. \<lparr>nn_id = tn_id n, nn_label = tn_site_name n, nn_sublabel = Some (tn_role n),
                 nn_kind = Site, nn_status = roleToStatus (tn_role n),
                 nn_weight = js_get_or 0 inboundLag (tn_id n)\<rparr>) topoNodes,
          map (\<lambda>e. \<lparr>ne_id = te_id e, ne_from = te_from_node_id e, ne_to = te_to_node_id e,
                 ne_label = Some (te_mode e), ne_status = Some (te_health e)\<rparr>) topoEdges))"

definition boot_node :: "nat \<Rightarrow> dr_boot_service \<Rightarrow> nm_node" where
  "boot_node tierIndex svc =
     \<lparr>nn_id = bs_id svc, nn_label = bs_name svc,
      nn_sublabel = Some (bs_kind svc @ [CHR '' '', char_of (183 :: nat), CHR '' ''] @ ''tier '' @ nat_text (tierIndex + 1)),
      nn_kind = Service, nn_status = ''pending'',
      nn_weight = max 0 (case bs_boot_timeout_seconds svc of None \<Rightarrow> 0 | Some n \<Rightarrow> n)\<rparr>"

definition boot_edge :: "string \<Rightarrow> string \<Rightarrow> nm_edge" where
  "boot_edge p i = \<lparr>ne_id = p @ ''->'' @ i, ne_from = p, ne_to = i, ne_label = Some ''boot order'', ne_status = None\<rparr>"

fun boot_graph_from ::
  "nat \<Rightarrow> string list \<Rightarrow> dr_boot_service list option list \<Rightarrow> nm_node list \<times> nm_edge list" where
  "boot_graph_from tierIndex prev [] = ([], [])"
| "boot_graph_from tierIndex prev (tier # tiers) =
     (let svcs = (case tier of None \<Rightarrow> [] | Some ss \<Rightarrow> ss);
          (nodes, edges) = boot_graph_from (tierIndex + 1) (map bs_id svcs) tiers
      in (map (boot_node tierIndex) svcs @ nodes,
          concat (map (\<lambda>svc. map (\<lambda>p. boot_edge p (bs_id svc)) prev) svcs) @ edges))"

definition bootPlanToGraph :: "dr_boot_service list option list option \<Rightarrow> nm_node list \<times> nm_edge list" where
  "bootPlanToGraph tiers = boot_graph_from 0 [] (case tiers of None \<Rightarrow> [] | Some ts \<Rightarrow> ts)"

text \<open>The poly-line of an edge, with the text of a coordinate as an argument.\<close>

definition edgePointsToPolyline :: "(rat \<Rightarrow> string) \<Rightarrow> point list \<Rightarrow> string" where
  "edgePointsToPolyline num_text points =
     js_join '' '' (map (\<lambda>p. num_text (fst p) @ '','' @ num_text (snd p)) points)"

datatype status_tone = Neutral | Primary | Success | Warning | Danger | Info

definition statusToTone :: "string \<Rightarrow> status_tone" where
  "statusToTone status =
     (let s = js_toLowerCase (js_trim status) in
      if s \<in> {''primary'', ''source'', ''healthy'', ''streaming'', ''complete'', ''completed''} then Success
      else if s \<in> {''recovery'', ''target'', ''failover''} then Info
      else if s \<in> {''standby'', ''replica'', ''pending'', ''paused''} then Neutral
      else if s \<in> {''warning'', ''watch'', ''degraded'', ''seeding''} then Warning
      else if s \<in> {''critical'', ''error'', ''failed''} then Danger
      else Neutral)"

subsection \<open>The graph of a node map\<close>

definition pairs :: "nm_edge list \<Rightarrow> (string \<times> string) list" where
  "pairs edges = map (\<lambda>e. (ne_from e, ne_to e)) edges"

definition known_pairs :: "nm_node list \<times> nm_edge list \<Rightarrow> (string \<times> string) list" where
  "known_pairs g = filter (\<lambda>p. fst p \<in> nn_id ` set (fst g) \<and> snd p \<in> nn_id ` set (fst g)) (pairs (snd g))"

definition links :: "nm_node list \<times> nm_edge list \<Rightarrow> (string \<times> string) set" where
  "links g = set (known_pairs g)"

text \<open>The graphs whose order is exact: distinct ids, and no two edges between the same nodes.\<close>

definition simple_graph :: "nm_node list \<times> nm_edge list \<Rightarrow> bool" where
  "simple_graph g \<longleftrightarrow> distinct (map nn_id (fst g)) \<and> distinct (known_pairs g)"

lemma adjacency_set:
  "set (js_get_or [] (foldl adjacency_step adj es) u) =
     set (js_get_or [] adj u) \<union> {v. (u, v) \<in> set (pairs es)}"
  by (induction es arbitrary: adj) (auto simp: adjacency_step_def js_get_or_update pairs_def)

lemma adjacency_distinct:
  "distinct (js_get_or [] adj u) \<Longrightarrow> distinct (js_get_or [] (foldl adjacency_step adj es) u)"
  by (induction es arbitrary: adj) (auto simp: adjacency_step_def js_get_or_update)

lemma count_list_distinct: "distinct xs \<Longrightarrow> count_list xs v = (if v \<in> set xs then 1 else 0)"
  by (induction xs) auto

lemma adjacency_count:
  "count_list (js_get_or [] (adjacency edges) u) v = (if (u, v) \<in> set (pairs edges) then 1 else 0)"
proof -
  have "distinct (js_get_or [] (adjacency edges) u)"
    unfolding adjacency_def by (rule adjacency_distinct) (simp add: js_get_or_def)
  moreover have "set (js_get_or [] (adjacency edges) u) = {v. (u, v) \<in> set (pairs edges)}"
    unfolding adjacency_def adjacency_set by (simp add: js_get_or_def)
  ultimately show ?thesis by (simp add: count_list_distinct)
qed

lemma node_indegrees_get:
  "js_get_or 0 (node_indegrees g) v = int (count_list (map snd (known_pairs g)) v)"
proof -
  obtain nodes edges where g: "g = (nodes, edges)" by fastforce
  let ?z = "foldl (\<lambda>m n. AList.update (nn_id n) (0::int) m) [] nodes"
  have "foldl (\<lambda>m e. if ne_from e \<in> set (map nn_id nodes) \<and> ne_to e \<in> set (map nn_id nodes)
      then count_edge m (ne_from e, ne_to e) else m) m edges =
    foldl count_edge m (known_pairs (nodes, edges))" for m
    by (induction edges arbitrary: m) (simp_all add: known_pairs_def pairs_def)
  moreover have "js_get_or 0 ?z v = 0"
    using zero_counters [of "map nn_id nodes" v] by (simp add: foldl_map)
  ultimately show ?thesis
    by (simp add: g node_indegrees_def Let_def count_edges_get)
qed

lemma known_pairs_count:
  assumes "simple_graph g" and "u \<in> nn_id ` set (fst g)" and "v \<in> nn_id ` set (fst g)"
  shows "count_list (js_get_or [] (adjacency (snd g)) u) v = count_list (known_pairs g) (u, v)"
  using assms by (simp add: adjacency_count count_list_distinct simple_graph_def) (simp add: known_pairs_def)

interpretation nm: topo_source "\<lambda>g. map nn_id (fst g)" "\<lambda>g. adjacency (snd g)" node_indegrees ready_nodes
  simple_graph
proof
  fix g :: "nm_node list \<times> nm_edge list" and v
  assume g: "simple_graph g"
  show "distinct (map nn_id (fst g))" using g by (simp add: simple_graph_def)
  have all_known: "filter (\<lambda>e. fst e \<in> nn_id ` set (fst g)) (known_pairs g) = known_pairs g"
    by (rule filter_True) (simp add: known_pairs_def)
  show "js_get_or 0 (node_indegrees g) v =
      (\<Sum>u \<in> set (map nn_id (fst g)). int (count_list (js_get_or [] (adjacency (snd g)) u) v))"
    if "v \<in> set (map nn_id (fst g))"
  proof -
    have "(\<Sum>u \<in> set (map nn_id (fst g)). int (count_list (js_get_or [] (adjacency (snd g)) u) v)) =
        (\<Sum>u \<in> nn_id ` set (fst g). int (count_list (known_pairs g) (u, v)))"
      by (rule sum.cong) (use known_pairs_count [OF g] that in auto)
    then show ?thesis by (simp add: node_indegrees_get sum_count_edges all_known)
  qed
  show "v \<notin> set (map nn_id (fst g)) \<Longrightarrow> js_get_or 0 (node_indegrees g) v = 0"
    unfolding node_indegrees_get by (auto simp: count_list_0_iff known_pairs_def)
  show "distinct (ready_nodes g) \<and>
      set (ready_nodes g) = {v \<in> set (map nn_id (fst g)). js_get_or 0 (node_indegrees g) v = 0}"
    using g by (auto simp: ready_nodes_def simple_graph_def)
qed

lemma nm_links: "graph_edges (set (map nn_id (fst g))) (js_get_or [] (adjacency (snd g))) = links g"
proof -
  have "v \<in> set (js_get_or [] (adjacency (snd g)) u) \<longleftrightarrow> (u, v) \<in> set (pairs (snd g))" for u v
    unfolding adjacency_def adjacency_set by (simp add: js_get_or_def)
  then show ?thesis by (auto simp: graph_edges_def links_def known_pairs_def)
qed

lemma topoOrderNodes_spec:
  assumes "simple_graph (nodes, edges)"
  shows "case topoOrderNodes nodes edges of
      Some order \<Rightarrow> mset order = mset (map nn_id nodes) \<and> topo_sorted (links (nodes, edges)) order \<and>
        acyclic (links (nodes, edges))
    | None \<Rightarrow> \<not> acyclic (links (nodes, edges))"
proof -
  let ?order = "kahn_loop (adjacency edges) (node_indegrees (nodes, edges)) (ready_nodes (nodes, edges)) []"
  have "?order = kahn_loop (adjacency (snd (nodes, edges))) (node_indegrees (nodes, edges)) (ready_nodes (nodes, edges)) []"
    by simp
  note o = nm.order_sound [OF assms this, unfolded nm_links, simplified]
  have d: "distinct (map nn_id nodes)" using assms by (simp add: simple_graph_def)
  have "mset ?order = mset (map nn_id nodes)" if "length ?order = length nodes"
    using o(1,2) d that
    by (metis card_subset_eq distinct_card length_map List.finite_set set_eq_iff_mset_eq_distinct set_map)
  with o show ?thesis by (simp add: topoOrderNodes_def Let_def)
qed

text \<open>The order of a node map is exact on simple graphs: with distinct ids and no parallel edges the
  nodes are ordered if and only if the links are acyclic, each after its predecessors.\<close>

theorem topoOrderNodes_correct:
  assumes "simple_graph (nodes, edges)"
  shows "case topoOrderNodes nodes edges of
      Some order \<Rightarrow> mset order = mset (map nn_id nodes) \<and> topo_sorted (links (nodes, edges)) order \<and>
        acyclic (links (nodes, edges))
    | None \<Rightarrow> \<not> acyclic (links (nodes, edges))"
  using assms by (rule topoOrderNodes_spec)

subsection \<open>The heaviest chain of a node map\<close>

lemma node_preds_set: "set (js_get_or [] (node_preds edges) v) = {u. (u, v) \<in> set (pairs edges)}"
proof -
  have "node_preds edges = foldl push_edge [] (map (\<lambda>e. (ne_to e, ne_from e)) edges)"
    by (simp add: node_preds_def foldl_map)
  then have "js_get_or [] (node_preds edges) v =
      map snd (filter (\<lambda>e. fst e = v) (map (\<lambda>e. (ne_to e, ne_from e)) edges))"
    by (simp add: push_edges_get js_get_or_def [of _ "[]"])
  then show ?thesis by (force simp: pairs_def)
qed

definition node_order :: "nm_node list \<times> nm_edge list \<Rightarrow> string list" where
  "node_order g = (case topoOrderNodes (fst g) (snd g) of None \<Rightarrow> [] | Some order \<Rightarrow> order)"

definition node_finish :: "nm_node list \<times> nm_edge list \<Rightarrow> string \<Rightarrow> int" where
  "node_finish g = js_get_or 0 (fst (node_scan (fst g) (snd g) (node_order g)))"

definition node_best :: "nm_node list \<times> nm_edge list \<Rightarrow> (string, string) jsmap" where
  "node_best g = snd (node_scan (fst g) (snd g) (node_order g))"

definition node_weight :: "nm_node list \<times> nm_edge list \<Rightarrow> string \<Rightarrow> int" where
  "node_weight g = js_get_or 0 (node_weights (fst g))"

text \<open>The graphs with a chain: simple, named, ordered, and every link into a node comes from one.\<close>

definition node_map_ok :: "nm_node list \<times> nm_edge list \<Rightarrow> bool" where
  "node_map_ok g \<longleftrightarrow>
     simple_graph g \<and> [] \<notin> nn_id ` set (fst g) \<and>
     list_all (\<lambda>e. ne_to e \<in> nn_id ` set (fst g) \<longrightarrow> ne_from e \<in> nn_id ` set (fst g)) (snd g) \<and>
     topoOrderNodes (fst g) (snd g) \<noteq> None"

definition node_bind :: "nm_edge list \<Rightarrow> (string \<Rightarrow> int) \<Rightarrow> string \<Rightarrow> int \<times> string" where
  "node_bind edges f v = binding_node f (sort (js_get_or [] (node_preds edges) v)) 0 []"

lemma node_step_relax: "node_step nodes edges = relax_step (node_bind edges) (node_weight (nodes, edges))"
  by (intro ext) (simp add: node_step_def relax_step_def node_bind_def node_weight_def)

lemma binding_node_cong:
  "(\<And>p. p \<in> set ps \<Longrightarrow> f p = g p) \<Longrightarrow> binding_node f ps s c = binding_node g ps s c"
  by (induction g ps s c rule: binding_node.induct) auto

lemma binding_node_chosen:
  "binding_node ef ps start chosen = (s, c) \<Longrightarrow> chosen \<noteq> [] \<Longrightarrow> [] \<notin> set ps \<Longrightarrow>
     start \<le> s \<and> (\<forall>p \<in> set ps. ef p \<le> s) \<and>
     (s = start \<and> c = chosen \<or> c \<in> set ps \<and> ef c = s)"
proof (induction ef ps start chosen rule: binding_node.induct)
  case (2 ef pre ps start chosen)
  then show ?case by (cases "start < ef pre") (simp, force)+
qed simp

lemma binding_node_spec:
  assumes "binding_node ef ps 0 [] = (s, c)" and "[] \<notin> set ps"
  shows "ps = [] \<and> s = 0 \<and> c = [] \<or> c \<in> set ps \<and> ef c = s \<and> (\<forall>p \<in> set ps. ef p \<le> s)"
proof (cases ps)
  case Nil
  with assms show ?thesis by simp
next
  case (Cons p ps')
  with assms have "binding_node ef ps' (ef p) p = (s, c)" "p \<noteq> []" "[] \<notin> set ps'" by auto
  from binding_node_chosen [OF this] Cons show ?thesis by auto
qed

lemma node_map_order:
  assumes "node_map_ok g"
  shows "topoOrderNodes (fst g) (snd g) = Some (node_order g)" "distinct (node_order g)"
    "set (node_order g) = nn_id ` set (fst g)" "topo_sorted (links g) (node_order g)"
proof -
  from assms obtain order where o: "topoOrderNodes (fst g) (snd g) = Some order" by (auto simp: node_map_ok_def)
  then have l: "node_order g = order" by (simp add: node_order_def)
  have c: "mset order = mset (map nn_id (fst g))" "topo_sorted (links g) order"
    using topoOrderNodes_spec [of "fst g" "snd g"] assms o by (auto simp: node_map_ok_def)
  have d: "distinct (map nn_id (fst g))" using assms by (simp add: node_map_ok_def simple_graph_def)
  show "topoOrderNodes (fst g) (snd g) = Some (node_order g)" "topo_sorted (links g) (node_order g)"
    using o l c by simp_all
  show "distinct (node_order g)" "set (node_order g) = nn_id ` set (fst g)"
    using c(1) d unfolding l by (metis mset_eq_imp_distinct_iff, metis set_map set_mset_mset)
qed

lemma node_map_known:
  assumes "node_map_ok g" and "(u, v) \<in> set (pairs (snd g))" and "v \<in> nn_id ` set (fst g)"
  shows "u \<in> nn_id ` set (fst g)"
proof -
  from assms(2) obtain e where e: "e \<in> set (snd g)" "ne_from e = u" "ne_to e = v" by (auto simp: pairs_def)
  have "ne_to e \<in> nn_id ` set (fst g) \<longrightarrow> ne_from e \<in> nn_id ` set (fst g)"
    using assms(1) e(1) by (simp add: node_map_ok_def list_all_iff)
  with e assms(3) show ?thesis by simp
qed

lemma node_preds_links:
  assumes "node_map_ok g" and "v \<in> nn_id ` set (fst g)"
  shows "u \<in> set (js_get_or [] (node_preds (snd g)) v) \<longleftrightarrow> (u, v) \<in> links g"
  using node_map_known [OF assms(1) _ assms(2), of u] assms(2)
  by (auto simp: node_preds_set links_def known_pairs_def)

lemma links_in: "(u, v) \<in> links g \<Longrightarrow> u \<in> nn_id ` set (fst g) \<and> v \<in> nn_id ` set (fst g)"
  by (auto simp: links_def known_pairs_def)

lemma node_times:
  assumes ok: "node_map_ok g" and v: "v \<in> nn_id ` set (fst g)"
    and b: "node_bind (snd g) (node_finish g) v = (s, c)"
  shows "node_finish g v = s + node_weight g v" "map_of (node_best g) v = noted c"
    "c = [] \<and> s = 0 \<and> (\<forall>u. (u, v) \<notin> links g) \<or>
     c \<noteq> [] \<and> (c, v) \<in> links g \<and> node_finish g c = s \<and> (\<forall>u. (u, v) \<in> links g \<longrightarrow> node_finish g u \<le> s)"
proof -
  note order = node_map_order [OF ok]
  let ?P = "\<lambda>v. set (js_get_or [] (node_preds (snd g)) v)"
  have local: "node_bind (snd g) f v = node_bind (snd g) h v" if "\<And>p. p \<in> ?P v \<Longrightarrow> f p = h p" for f h v
    unfolding node_bind_def by (rule binding_node_cong) (use that in simp)
  have "foldl (relax_step (node_bind (snd g)) (node_weight g)) ([], []) (node_order g) =
      (fst (node_scan (fst g) (snd g) (node_order g)), node_best g)"
    by (simp add: node_best_def node_scan_def node_step_relax)
  note scan = relax_scan [where P = ?P and V = "nn_id ` set (fst g)" and E = "links g",
      OF local _ order(2) _ order(4) this, folded node_finish_def, unfolded order(3)]
  have "(\<forall>v. v \<notin> nn_id ` set (fst g) \<longrightarrow> node_finish g v = 0 \<and> map_of (node_best g) v = None) \<and>
    (\<forall>v \<in> nn_id ` set (fst g). node_finish g v = fst (node_bind (snd g) (node_finish g) v) + node_weight g v \<and>
       map_of (node_best g) v = noted (snd (node_bind (snd g) (node_finish g) v)))"
    by (rule scan) (use node_preds_links [OF ok] in auto)
  with v b show "node_finish g v = s + node_weight g v" "map_of (node_best g) v = noted c" by auto
  let ?ps = "sort (js_get_or [] (node_preds (snd g)) v)"
  have preds: "set ?ps = {u. (u, v) \<in> links g}"
    using node_preds_links [OF ok v] by (simp add: set_eq_iff)
  have unnamed: "[] \<notin> set ?ps"
    unfolding preds using links_in [of "[]" v g] ok by (auto simp: node_map_ok_def)
  from binding_node_spec [OF b [unfolded node_bind_def] unnamed]
  consider "?ps = []" "s = 0" "c = []"
    | "c \<in> set ?ps" "node_finish g c = s" "\<forall>p \<in> set ?ps. node_finish g p \<le> s"
    by blast
  then show "c = [] \<and> s = 0 \<and> (\<forall>u. (u, v) \<notin> links g) \<or>
     c \<noteq> [] \<and> (c, v) \<in> links g \<and> node_finish g c = s \<and> (\<forall>u. (u, v) \<in> links g \<longrightarrow> node_finish g u \<le> s)"
  proof cases
    case 1
    have "{u. (u, v) \<in> links g} = {}" using preds 1(1) by simp
    with 1 show ?thesis by blast
  next
    case 2
    have "c \<noteq> []" using 2(1) unnamed by metis
    with 2 show ?thesis unfolding preds by blast
  qed
qed

interpretation nc: chain_source links node_weight node_order node_finish node_best node_map_ok
proof
  fix g :: "nm_node list \<times> nm_edge list" and u v
  assume ok: "node_map_ok g"
  note order = node_map_order [OF ok]
  show "distinct (node_order g)" "topo_sorted (links g) (node_order g)" using order by simp_all
  show "[] \<notin> set (node_order g)" using order(3) ok by (auto simp: node_map_ok_def)
  show "v \<in> set (node_order g)" if "(u, v) \<in> links g" using links_in [OF that] order(3) by simp
  show "0 \<le> node_weight g v"
  proof -
    have "0 \<le> (case map_of (rev (map (\<lambda>n. (nn_id n, max 0 (nn_weight n))) (fst g))) v of None \<Rightarrow> 0 | Some w \<Rightarrow> w)"
      by (auto split: option.split dest!: map_of_SomeD)
    then show ?thesis by (simp add: node_weight_def node_weights_def js_get_or_def map_of_js_entries)
  qed
  obtain s c where b: "node_bind (snd g) (node_finish g) v = (s, c)" by fastforce
  show "node_finish g u + node_weight g v \<le> node_finish g v" if e: "(u, v) \<in> links g"
    using node_times [OF ok _ b] links_in [OF e] e by auto
  {
    assume "v \<in> set (node_order g)"
    then have "v \<in> nn_id ` set (fst g)" using order(3) by simp
    note t = node_times [OF ok this b]
    show "map_of (node_best g) v = None \<Longrightarrow> node_finish g v = node_weight g v"
      using t by (auto simp: noted_def split: if_splits)
    show "map_of (node_best g) v = Some u \<Longrightarrow>
        (u, v) \<in> links g \<and> node_finish g v = node_finish g u + node_weight g v"
      using t by (auto simp: noted_def split: if_splits)
  }
qed

text \<open>The emphasised chain is a heaviest one: on a simple, named, acyclic graph whose links come from
  known nodes, the computation ends with a chain of linked nodes of the reported weight, and no
  chain weighs more.\<close>

theorem node_critical_path_heaviest:
  assumes "simple_graph (nodes, edges)" and "[] \<notin> nn_id ` set nodes"
    and "list_all (\<lambda>e. ne_to e \<in> nn_id ` set nodes \<longrightarrow> ne_from e \<in> nn_id ` set nodes) edges"
    and "acyclic (links (nodes, edges))"
  shows "\<exists>path weight pathSet. computeNodeCriticalPath nodes edges = Some (path, weight, pathSet) \<and>
    chain (links (nodes, edges)) path \<and> set path \<subseteq> nn_id ` set nodes \<and> set pathSet = set path \<and>
    chain_weight (node_weight (nodes, edges)) path = weight \<and>
    (\<forall>xs. chain (links (nodes, edges)) xs \<and> set xs \<subseteq> nn_id ` set nodes \<longrightarrow>
       chain_weight (node_weight (nodes, edges)) xs \<le> weight)"
proof -
  let ?g = "(nodes, edges)"
  have ok: "node_map_ok ?g"
    using topoOrderNodes_spec [OF assms(1)] assms by (auto simp: node_map_ok_def split: option.splits)
  note order = node_map_order [OF ok, simplified]
  obtain t f where l: "latest (node_finish ?g) (sort (node_order ?g)) 0 [] = (t, f)" by fastforce
  have "set (sort (node_order ?g)) = set (node_order ?g)" by simp
  from nc.latest_walk [OF ok l this] obtain p where p: "walk_back (node_best ?g) f = Some p"
    "chain (links ?g) (rev p)" "set p \<subseteq> set (node_order ?g)"
    "chain_weight (node_weight ?g) (rev p) = t"
    "\<forall>xs. chain (links ?g) xs \<and> set xs \<subseteq> set (node_order ?g) \<longrightarrow> chain_weight (node_weight ?g) xs \<le> t"
    by blast
  have "computeNodeCriticalPath nodes edges = Some (rev p, t, js_uniq (rev p))"
    using l p(1) by (simp add: computeNodeCriticalPath_def order(1) node_finish_def node_best_def split_beta)
  with p order(3) show ?thesis by auto
qed

text \<open>Parallel links lose the graph: two replication edges between the same two sites are one
  successor but two in-degrees, so an acyclic topology is reported as cyclic, without a chain.\<close>

theorem parallel_links_lose_the_chain:
  assumes "p \<noteq> [] \<and> q \<noteq> [] \<and> p \<noteq> q" and "nn_id a = p" "nn_id b = q"
    and "ne_from e = p" "ne_to e = q" "ne_from e' = p" "ne_to e' = q"
  shows "acyclic (links ([a, b], [e, e'])) \<and> topoOrderNodes [a, b] [e, e'] = None \<and>
    computeNodeCriticalPath [a, b] [e, e'] = Some ([], 0, [])"
proof -
  have ne: "q \<noteq> p" using assms(1) by blast
  have indeg: "node_indegrees ([a, b], [e, e']) = [(p, 0), (q, 2)]"
    using assms by (auto simp: node_indegrees_def count_edge_def js_get_or_def)
  have adj: "adjacency [e, e'] = [(p, [q])]"
    using assms by (auto simp: adjacency_def adjacency_step_def js_get_or_def js_uniq_def)
  have ready: "ready_nodes ([a, b], [e, e']) = [p]"
    using assms by (auto simp: ready_nodes_def indeg js_get_or_def)
  have "kahn_loop [(p, [q])] [(p, 0), (q, 2)] [p] [] = [p]"
    using assms ne by (simp add: kahn_loop.simps js_get_or_def)
  then have none: "topoOrderNodes [a, b] [e, e'] = None"
    by (simp add: topoOrderNodes_def adj indeg ready)
  have "links ([a, b], [e, e']) = {(p, q)}"
    using assms by (auto simp: links_def known_pairs_def pairs_def)
  with none assms(1) show ?thesis
    by (auto simp: computeNodeCriticalPath_def acyclic_insert wf_acyclic)
qed

subsection \<open>Ranks\<close>

lemma foldr_max_ge: "x \<in> set xs \<Longrightarrow> x \<le> foldr max xs (0 :: nat)"
  by (induction xs) auto

lemma rank_scan:
  "distinct xs \<Longrightarrow> topo_sorted (links g) xs \<Longrightarrow> v \<in> set xs \<Longrightarrow> (u, v) \<in> links g \<Longrightarrow>
     js_get_or 0 (foldl (rank_step (snd g)) [] xs) u < js_get_or 0 (foldl (rank_step (snd g)) [] xs) v"
proof (induction xs arbitrary: v rule: rev_induct)
  case Nil
  then show ?case by simp
next
  case (snoc w xs)
  let ?r = "foldl (rank_step (snd g)) [] xs"
  have w: "w \<notin> set xs" using snoc.prems(1) by simp
  have u: "u \<in> set xs"
  proof -
    obtain ys zs where split: "xs @ [w] = ys @ v # zs" using split_list [OF snoc.prems(3)] by blast
    then have "u \<in> set ys" using snoc.prems(2,4) unfolding topo_sorted_def by blast
    moreover have "set ys \<subseteq> set xs" using split by (cases zs rule: rev_cases) auto
    ultimately show ?thesis by blast
  qed
  show ?case
  proof (cases "v = w")
    case True
    have "u \<in> set (js_get_or [] (node_preds (snd g)) w)"
      using snoc.prems(4) True by (auto simp: node_preds_set links_def known_pairs_def)
    then have "js_get_or 0 ?r u + 1 \<le> foldr max (map (\<lambda>x. js_get_or 0 ?r x + 1) (js_get_or [] (node_preds (snd g)) w)) 0"
      by (intro foldr_max_ge) simp
    with True u w show ?thesis by (auto simp: rank_step_def [of "snd g" ?r w] js_get_or_update)
  next
    case False
    with snoc.prems(3) have "v \<in> set xs" by simp
    from snoc.IH [OF _ topo_sorted_prefix [OF snoc.prems(2)] this snoc.prems(4)] snoc.prems(1)
    show ?thesis using False u w by (auto simp: rank_step_def [of "snd g" ?r w] js_get_or_update)
  qed
qed

text \<open>Layers follow the dependencies: in the layout of a simple acyclic graph every predecessor has a
  lower rank.\<close>

theorem ranks_follow_links:
  assumes "simple_graph (nodes, edges)" and "acyclic (links (nodes, edges))"
    and "(u, v) \<in> links (nodes, edges)"
  shows "js_get_or 0 (node_ranks nodes edges) u < js_get_or 0 (node_ranks nodes edges) v"
proof -
  obtain order where o: "topoOrderNodes nodes edges = Some order"
    "mset order = mset (map nn_id nodes)" "topo_sorted (links (nodes, edges)) order"
    using topoOrderNodes_spec [OF assms(1)] assms(2) by (auto split: option.splits)
  have "distinct order" using assms(1) o(2) by (metis mset_eq_imp_distinct_iff simple_graph_def fst_conv)
  moreover have "v \<in> set order"
    using links_in [OF assms(3)] o(2) by (metis fst_conv set_map set_mset_mset)
  ultimately show ?thesis
    using rank_scan [of order "(nodes, edges)" v u] o assms(3) by (simp add: node_ranks_def)
qed

subsection \<open>A small topology\<close>

definition demo_node :: "string \<Rightarrow> int \<Rightarrow> nm_node" where
  "demo_node i w = \<lparr>nn_id = i, nn_label = i, nn_sublabel = None, nn_kind = Site, nn_status = [], nn_weight = w\<rparr>"

definition demo_link :: "string \<Rightarrow> string \<Rightarrow> string \<Rightarrow> nm_edge" where
  "demo_link i p q = \<lparr>ne_id = i, ne_from = p, ne_to = q, ne_label = None, ne_status = None\<rparr>"

definition demo_nodes :: "nm_node list" where
  "demo_nodes = [demo_node ''s'' 7, demo_node ''p'' 0]"

definition demo_links :: "nm_edge list" where
  "demo_links = [demo_link ''e'' ''p'' ''s'']"

lemma demo_known: "known_pairs (demo_nodes, demo_links) = [(''p'', ''s'')]"
  by (simp add: known_pairs_def pairs_def demo_nodes_def demo_links_def demo_node_def demo_link_def)

lemma demo_simple: "simple_graph (demo_nodes, demo_links)" "acyclic (links (demo_nodes, demo_links))"
  by (simp add: simple_graph_def demo_known, simp add: demo_nodes_def demo_node_def)
    (auto simp: links_def demo_known acyclic_insert wf_acyclic)

theorem topoOrderNodes_correct_witness:
  "case topoOrderNodes demo_nodes demo_links of
      Some order \<Rightarrow> mset order = mset (map nn_id demo_nodes) \<and> topo_sorted (links (demo_nodes, demo_links)) order \<and>
        acyclic (links (demo_nodes, demo_links))
    | None \<Rightarrow> \<not> acyclic (links (demo_nodes, demo_links))"
  by (rule topoOrderNodes_correct [OF demo_simple(1)])

theorem node_critical_path_heaviest_witness:
  "\<exists>path weight pathSet. computeNodeCriticalPath demo_nodes demo_links = Some (path, weight, pathSet) \<and>
    set pathSet = set path \<and> chain_weight (node_weight (demo_nodes, demo_links)) path = weight"
  using node_critical_path_heaviest [OF demo_simple(1) _ _ demo_simple(2)]
  by (fastforce simp: demo_nodes_def demo_links_def demo_node_def demo_link_def)

theorem parallel_links_lose_the_chain_witness:
  "acyclic (links ([demo_node ''p'' 0, demo_node ''s'' 7], [demo_link ''e'' ''p'' ''s'', demo_link ''f'' ''p'' ''s''])) \<and>
    topoOrderNodes [demo_node ''p'' 0, demo_node ''s'' 7] [demo_link ''e'' ''p'' ''s'', demo_link ''f'' ''p'' ''s''] = None \<and>
    computeNodeCriticalPath [demo_node ''p'' 0, demo_node ''s'' 7]
      [demo_link ''e'' ''p'' ''s'', demo_link ''f'' ''p'' ''s''] = Some ([], 0, [])"
  by (rule parallel_links_lose_the_chain [of "''p''" "''s''"]) (simp_all add: demo_node_def demo_link_def)

theorem ranks_follow_links_witness:
  "js_get_or 0 (node_ranks demo_nodes demo_links) ''p'' < js_get_or 0 (node_ranks demo_nodes demo_links) ''s''"
  by (rule ranks_follow_links [OF demo_simple]) (simp add: links_def demo_known)

end
