(* ===== verification/Workflow.thy ===== *)
theory Workflow
  imports Kahn Web
begin

section \<open>Workflow definitions and their validation\<close>

text \<open>
  The workflow step types of \<open>frontend/src/types/models.ts\<close> and the static analysis
  \<open>validateWorkflow\<close> of \<open>frontend/src/lib/workflow-validation.ts\<close>: dangling transitions, entry
  points, cycle detection by a coloured depth-first search, islands, terminal steps and missing
  assignees. A message is a constructor with the names it quotes. The recursive search carries
  fuel, one more than the number of steps, which the lemmas show to be enough.
\<close>

subsection \<open>Data\<close>

datatype wf_step_type =
    Approval | Approval_chain | Review | Human_task | Notification | Condition | Parallel_gateway
  | Join_gateway | Delay | Webhook | Script | Sub_workflow | End_step

datatype approver_kind = User_approver | Role_approver

record approver =
  ap_kind :: approver_kind
  ap_ref :: string

datatype quorum = Q_all | Q_any | Q_n_of_m

datatype wf_operator = Eq | Neq | Gt | Gte | Lt | Lte | In | Not_in | Contains | Matches

datatype wf_logic = And_cond | Or_cond

record wf_condition =
  wc_field :: string
  wc_operator :: wf_operator
  wc_value :: json
  wc_logic :: "wf_logic option"

record wf_config =
  cf_form_schema :: "json list option"
  cf_approval_type :: "string option"
  cf_min_approvers :: "int option"
  cf_notification_template :: "string option"
  cf_notification_channels :: "string list option"
  cf_conditions :: "wf_condition list option"
  cf_delay_minutes :: "int option"
  cf_delay_until :: "string option"
  cf_webhook_url :: "string option"
  cf_webhook_method :: "string option"
  cf_webhook_headers :: "(string \<times> string) list option"
  cf_webhook_body_template :: "string option"
  cf_sub_workflow_id :: "string option"
  cf_script_id :: "string option"
  cf_approvers :: "approver list option"
  cf_mode :: "string option"
  cf_quorum :: "quorum option"
  cf_quorum_n :: "int option"
  cf_sla_hours :: "int option"

text \<open>The empty configuration object.\<close>

definition empty_config :: wf_config where
  "empty_config = \<lparr>cf_form_schema = None, cf_approval_type = None, cf_min_approvers = None,
     cf_notification_template = None, cf_notification_channels = None, cf_conditions = None,
     cf_delay_minutes = None, cf_delay_until = None, cf_webhook_url = None, cf_webhook_method = None,
     cf_webhook_headers = None, cf_webhook_body_template = None, cf_sub_workflow_id = None,
     cf_script_id = None, cf_approvers = None, cf_mode = None, cf_quorum = None, cf_quorum_n = None,
     cf_sla_hours = None\<rparr>"

datatype assignee_strategy =
    Specific_user string
  | Role string
  | Manager_of string
  | Round_robin "string list"
  | Least_loaded string

record wf_transition =
  wt_id :: string
  wt_target :: string
  wt_label :: string
  wt_condition :: "(wf_condition + string) option"

record wf_step =
  ws_id :: string
  ws_name :: string
  ws_type :: wf_step_type
  ws_config :: wf_config
  ws_position :: "rat \<times> rat"
  ws_transitions :: "wf_transition list option"
  ws_timeout_minutes :: "int option"
  ws_on_timeout :: string
  ws_assignee :: "assignee_strategy option"

text \<open>\<open>Array.isArray(step.transitions) ? step.transitions : []\<close>, and the ids they lead to.\<close>

definition transitionsFor :: "wf_step \<Rightarrow> wf_transition list" where
  "transitionsFor step = (case ws_transitions step of None \<Rightarrow> [] | Some ts \<Rightarrow> ts)"

definition targets :: "wf_step \<Rightarrow> string list" where
  "targets step = map wt_target (transitionsFor step)"

definition steps_by_id :: "wf_step list \<Rightarrow> (string, wf_step) jsmap" where
  "steps_by_id steps = js_map_of_entries (map (\<lambda>s. (ws_id s, s)) steps)"

text \<open>The incoming-edge counters, over transitions to existing steps.\<close>

definition incoming_counts :: "wf_step list \<Rightarrow> (string, int) jsmap" where
  "incoming_counts steps =
     (let byId = steps_by_id steps;
          incoming = foldl (\<lambda>m s. AList.update (ws_id s) 0 m) [] steps
      in foldl (\<lambda>m s. foldl (\<lambda>m t. if js_has byId t then count_edge m (ws_id s, t) else m) m (targets s))
           incoming steps)"

definition entry_steps :: "wf_step list \<Rightarrow> wf_step list" where
  "entry_steps steps = filter (\<lambda>s. js_get_or 0 (incoming_counts steps) (ws_id s) = 0) steps"

subsection \<open>Cycle detection\<close>

datatype colour = WHITE | GRAY | BLACK

record dfs =
  color :: "(string, colour) jsmap"
  cycleFound :: bool

fun visit :: "nat \<Rightarrow> (string, wf_step) jsmap \<Rightarrow> string \<Rightarrow> dfs \<Rightarrow> dfs option"
  and visit_each :: "nat \<Rightarrow> (string, wf_step) jsmap \<Rightarrow> string list \<Rightarrow> dfs \<Rightarrow> dfs option" where
  "visit 0 byId id' st = None"
| "visit (Suc n) byId id' st =
     (let st = st\<lparr>color := AList.update id' GRAY (color st)\<rparr>;
          r = (case map_of byId id' of
                 None \<Rightarrow> Some st
               | Some step \<Rightarrow> visit_each n byId (targets step) st)
      in map_option (\<lambda>st. st\<lparr>color := AList.update id' BLACK (color st)\<rparr>) r)"
| "visit_each n byId [] st = Some st"
| "visit_each n byId (t # ts) st =
     (if \<not> js_has byId t then visit_each n byId ts st
      else case map_of (color st) t of
        Some GRAY \<Rightarrow> visit_each n byId ts (st\<lparr>cycleFound := True\<rparr>)
      | Some WHITE \<Rightarrow>
          (case visit n byId t st of
             None \<Rightarrow> None
           | Some st \<Rightarrow> visit_each n byId ts st)
      | _ \<Rightarrow> visit_each n byId ts st)"

text \<open>\<open>for (const s of steps) if (color.get(s.id) === WHITE) visit(s.id);\<close>\<close>

fun visit_roots :: "nat \<Rightarrow> (string, wf_step) jsmap \<Rightarrow> string list \<Rightarrow> dfs \<Rightarrow> dfs option" where
  "visit_roots n byId [] st = Some st"
| "visit_roots n byId (i # is) st =
     (if map_of (color st) i = Some WHITE then
        (case visit n byId i st of None \<Rightarrow> None | Some st \<Rightarrow> visit_roots n byId is st)
      else visit_roots n byId is st)"

definition find_cycle :: "wf_step list \<Rightarrow> dfs option" where
  "find_cycle steps =
     visit_roots (Suc (length steps)) (steps_by_id steps) (map ws_id steps)
       \<lparr>color = js_map_of_entries (map (\<lambda>s. (ws_id s, WHITE)) steps), cycleFound = False\<rparr>"

subsection \<open>Validation\<close>

datatype wf_error =
    No_steps
  | Dangling_transition string
  | No_start_step
  | Contains_cycle

datatype wf_warning =
    Multiple_start_steps "string list"
  | Disconnected_steps "string list"
  | No_end_step
  | Leaf_not_end string
  | No_assignee_role string

record validation_result =
  vr_valid :: bool
  vr_errors :: "wf_error list"
  vr_warnings :: "wf_warning list"

definition dangling_errors :: "wf_step list \<Rightarrow> wf_error list" where
  "dangling_errors steps =
     concat (map (\<lambda>s. map (\<lambda>t. Dangling_transition (ws_name s))
       (filter (\<lambda>t. \<not> js_has (steps_by_id steps) t) (targets s))) steps)"

definition is_human :: "wf_step \<Rightarrow> bool" where
  "is_human s \<longleftrightarrow> ws_type s = Approval \<or> ws_type s = Review \<or> ws_type s = Human_task"

definition lacks_role :: "wf_step \<Rightarrow> bool" where
  "lacks_role s \<longleftrightarrow> (case ws_assignee s of Some (Role r) \<Rightarrow> r = [] | _ \<Rightarrow> False)"

definition name_for :: "(string, wf_step) jsmap \<Rightarrow> string \<Rightarrow> string" where
  "name_for byId i = (case map_of byId i of Some s \<Rightarrow> ws_name s | None \<Rightarrow> i)"

text \<open>\<open>validateWorkflow\<close>; None only if the search ran out of fuel.\<close>

definition validateWorkflow :: "wf_step list \<Rightarrow> validation_result option" where
  "validateWorkflow steps =
     (if steps = [] then Some \<lparr>vr_valid = False, vr_errors = [No_steps], vr_warnings = []\<rparr>
      else
        let byId = steps_by_id steps;
            incoming = incoming_counts steps;
            roots = entry_steps steps;
            leaves = filter (\<lambda>s. transitionsFor s = []) steps;
            islands = filter (\<lambda>s. js_get_or 0 incoming (ws_id s) = 0 \<and> transitionsFor s = []) steps
        in case find_cycle steps of
          None \<Rightarrow> None
        | Some st \<Rightarrow>
            let errors = dangling_errors steps @
                  (if roots = [] then [No_start_step] else []) @
                  (if cycleFound st then [Contains_cycle] else []);
                warnings = (if 1 < length roots then [Multiple_start_steps (map ws_name roots)] else []) @
                  (if 1 < length steps \<and> islands \<noteq> [] then [Disconnected_steps (map ws_name islands)] else []) @
                  (if \<not> list_ex (\<lambda>s. ws_type s = End_step) steps \<and> leaves = [] then [No_end_step] else []) @
                  map (\<lambda>s. Leaf_not_end (ws_name s)) (filter (\<lambda>s. ws_type s \<noteq> End_step) leaves) @
                  map (\<lambda>s. No_assignee_role (name_for byId (ws_id s))) (filter (\<lambda>s. is_human s \<and> lacks_role s) steps)
            in Some \<lparr>vr_valid = (errors = []), vr_errors = errors, vr_warnings = warnings\<rparr>)"

subsection \<open>The graph of a definition\<close>

definition flow :: "(string, wf_step) jsmap \<Rightarrow> (string \<times> string) set" where
  "flow byId = {(u, v). \<exists>s. map_of byId u = Some s \<and> v \<in> set (targets s) \<and> js_has byId v}"

definition coloured :: "colour \<Rightarrow> dfs \<Rightarrow> string set" where
  "coloured c st = {v. map_of (color st) v = Some c}"

lemma coloured_update [simp]:
  "coloured c (st\<lparr>color := AList.update i d (color st)\<rparr>) =
     (if c = d then insert i (coloured c st) else coloured c st - {i})"
  by (auto simp: coloured_def js.get_put)

lemma coloured_flag [simp]: "coloured c (st\<lparr>cycleFound := b\<rparr>) = coloured c st"
  by (simp add: coloured_def)

text \<open>The finished part of the graph: as long as no cycle was found, the black steps are closed under
  transitions and free of cycles.\<close>

definition explored :: "(string, wf_step) jsmap \<Rightarrow> dfs \<Rightarrow> bool" where
  "explored byId st \<longleftrightarrow>
     cycleFound st \<or>
     flow byId `` coloured BLACK st \<subseteq> coloured BLACK st \<and>
     acyclic {(u, v) \<in> flow byId. u \<in> coloured BLACK st}"

text \<open>The state every call leaves alone: the colours cover the steps, whites are finitely many.\<close>

definition dfs_ok :: "(string, wf_step) jsmap \<Rightarrow> dfs \<Rightarrow> bool" where
  "dfs_ok byId st \<longleftrightarrow>
     (\<forall>v. js_has byId v \<longleftrightarrow> map_of (color st) v \<noteq> None) \<and> explored byId st"

text \<open>What a part of the search does: gray steps stay gray, white ones turn black, and a cycle is
  reported only if there is one.\<close>

definition searched :: "(string, wf_step) jsmap \<Rightarrow> dfs \<Rightarrow> dfs \<Rightarrow> bool" where
  "searched byId st st' \<longleftrightarrow>
     dfs_ok byId st' \<and> coloured GRAY st' = coloured GRAY st \<and>
     coloured WHITE st' \<subseteq> coloured WHITE st \<and> coloured BLACK st \<subseteq> coloured BLACK st' \<and>
     (cycleFound st \<longrightarrow> cycleFound st') \<and> (cycleFound st' \<longrightarrow> cycleFound st \<or> \<not> acyclic (flow byId))"

lemma searched_refl: "dfs_ok byId st \<Longrightarrow> searched byId st st"
  by (simp add: searched_def)

lemma searched_trans: "searched byId st st' \<Longrightarrow> searched byId st' st'' \<Longrightarrow> searched byId st st''"
  unfolding searched_def by blast

lemma finite_white: "finite (coloured WHITE st)"
proof -
  have "coloured WHITE st \<subseteq> fst ` set (color st)"
    by (auto simp: coloured_def dest: map_of_SomeD intro: rev_image_eqI)
  then show ?thesis by (rule finite_subset) simp
qed

lemma acyclic_finish:
  assumes R: "acyclic {(u, v) \<in> E. u \<in> B}" and closed: "E `` B \<subseteq> B" and i: "i \<notin> B" "E `` {i} \<subseteq> B"
  shows "acyclic {(u, v) \<in> E. u \<in> insert i B}"
proof (rule acyclicI, intro allI notI)
  fix x
  let ?S = "{(u, v) \<in> E. u \<in> insert i B}" and ?R = "{(u, v) \<in> E. u \<in> B}"
  assume cyc: "(x, x) \<in> ?S\<^sup>+"
  have stay: "(y, z) \<in> ?S\<^sup>+ \<Longrightarrow> y \<in> B \<Longrightarrow> (y, z) \<in> ?R\<^sup>+ \<and> z \<in> B" for y z
  proof (induction rule: trancl.induct)
    case (r_into_trancl a b)
    with closed show ?case by (auto intro: trancl.r_into_trancl)
  next
    case (trancl_into_trancl a b c)
    then have "(a, b) \<in> ?R\<^sup>+" "b \<in> B" by auto
    moreover from trancl_into_trancl this closed have "(b, c) \<in> ?R" "c \<in> B" by auto
    ultimately show ?case by (meson trancl.trancl_into_trancl)
  qed
  from cyc obtain y where "(y, x) \<in> ?S" by (meson tranclE)
  then have "x \<in> B" using closed i(2) by auto
  from stay [OF cyc this] R show False by (simp add: acyclic_def)
qed

lemma coloured_disjoint: "v \<in> coloured c st \<Longrightarrow> v \<in> coloured d st \<Longrightarrow> c = d"
  by (simp add: coloured_def)

lemma white_decreases:
  assumes "searched byId st st'" and "card (coloured WHITE st) \<le> n"
  shows "card (coloured WHITE st') \<le> n"
proof -
  have "card (coloured WHITE st') \<le> card (coloured WHITE st)"
    using assms(1) by (intro card_mono finite_white) (simp add: searched_def)
  with assms(2) show ?thesis by simp
qed

text \<open>Finishing a step: once its targets are black it turns black and the finished part grows.\<close>

lemma finish_step:
  assumes start: "dfs_ok byId st" and white: "i \<in> coloured WHITE st" and step: "map_of byId i = Some s"
    and mid: "searched byId (st\<lparr>color := AList.update i GRAY (color st)\<rparr>) st2"
    and targets_black: "\<not> cycleFound st2 \<Longrightarrow> \<forall>t \<in> set (targets s). js_has byId t \<longrightarrow> t \<in> coloured BLACK st2"
  shows "searched byId st (st2\<lparr>color := AList.update i BLACK (color st2)\<rparr>)"
proof -
  let ?st3 = "st2\<lparr>color := AList.update i BLACK (color st2)\<rparr>"
  have i_gray: "i \<in> coloured GRAY st2" using mid by (simp add: searched_def)
  then have i_black: "i \<notin> coloured BLACK st2" and i_white: "i \<notin> coloured WHITE st2"
    using coloured_disjoint by blast+
  have "explored byId ?st3"
  proof (cases "cycleFound st2")
    case False
    have ex: "flow byId `` coloured BLACK st2 \<subseteq> coloured BLACK st2"
      "acyclic {(u, v) \<in> flow byId. u \<in> coloured BLACK st2}"
      using mid False by (auto simp: searched_def dfs_ok_def explored_def)
    have succ: "flow byId `` {i} \<subseteq> coloured BLACK st2"
      using targets_black [OF False] step by (auto simp: flow_def)
    have "acyclic {(u, v) \<in> flow byId. u \<in> insert i (coloured BLACK st2)}"
      by (rule acyclic_finish [OF ex(2,1) i_black succ])
    moreover have "flow byId `` insert i (coloured BLACK st2) \<subseteq> insert i (coloured BLACK st2)"
      using ex(1) succ by blast
    ultimately show ?thesis by (simp add: explored_def)
  qed (simp add: explored_def)
  moreover have "\<forall>v. js_has byId v \<longleftrightarrow> map_of (color ?st3) v \<noteq> None"
    using mid step by (auto simp: searched_def dfs_ok_def js.get_put)
  moreover have "coloured GRAY ?st3 = coloured GRAY st"
    using mid coloured_disjoint [OF white] by (auto simp: searched_def)
  ultimately show ?thesis
    using mid i_white by (auto simp: searched_def dfs_ok_def)
qed

lemma visit_spec:
  "dfs_ok byId st \<Longrightarrow> i \<in> coloured WHITE st \<Longrightarrow> (\<forall>g \<in> coloured GRAY st. (g, i) \<in> (flow byId)\<^sup>*) \<Longrightarrow>
     card (coloured WHITE st) \<le> n \<Longrightarrow>
     \<exists>st'. visit n byId i st = Some st' \<and> searched byId st st' \<and> i \<in> coloured BLACK st'"
  and visit_each_spec:
  "dfs_ok byId st \<Longrightarrow>
     (\<forall>t \<in> set ts. js_has byId t \<longrightarrow> (\<forall>g \<in> coloured GRAY st. (g, t) \<in> (flow byId)\<^sup>+)) \<Longrightarrow>
     card (coloured WHITE st) \<le> n \<Longrightarrow>
     \<exists>st'. visit_each n byId ts st = Some st' \<and> searched byId st st' \<and>
       (\<not> cycleFound st' \<longrightarrow> (\<forall>t \<in> set ts. js_has byId t \<longrightarrow> t \<in> coloured BLACK st'))"
proof (induction n byId i st and n byId ts st rule: visit_visit_each.induct)
  case (1 byId id' st)
  have "0 < card (coloured WHITE st)" using 1(2) finite_white by (auto simp: card_gt_0_iff)
  with 1 show ?case by simp
next
  case (2 n byId i st)
  let ?st1 = "st\<lparr>color := AList.update i GRAY (color st)\<rparr>"
  have "js_has byId i" using 2(2,3) by (auto simp: dfs_ok_def coloured_def)
  then obtain s where s: "map_of byId i = Some s" by auto
  have black1: "coloured BLACK ?st1 = coloured BLACK st"
    using coloured_disjoint [OF 2(3)] by auto
  have "explored byId ?st1"
    using 2(2) unfolding explored_def black1 by (simp add: dfs_ok_def explored_def)
  then have ok1: "dfs_ok byId ?st1" using 2(2) s by (auto simp: dfs_ok_def js.get_put)
  have gray1: "\<forall>t \<in> set (targets s). js_has byId t \<longrightarrow> (\<forall>g \<in> coloured GRAY ?st1. (g, t) \<in> (flow byId)\<^sup>+)"
  proof (intro ballI impI)
    fix t g
    assume t: "t \<in> set (targets s)" "js_has byId t" and g: "g \<in> coloured GRAY ?st1"
    have e: "(i, t) \<in> flow byId" using s t by (auto simp: flow_def)
    have "(g, i) \<in> (flow byId)\<^sup>*" using g 2(4) by auto
    then show "(g, t) \<in> (flow byId)\<^sup>+" using e by (rule rtrancl_into_trancl1)
  qed
  have "card (coloured WHITE ?st1) \<le> n"
    using 2(3,5) finite_white [of st] by simp
  from "2.IH" [OF refl s ok1 gray1 this] obtain st2 where st2:
    "visit_each n byId (targets s) ?st1 = Some st2" "searched byId ?st1 st2"
    "\<not> cycleFound st2 \<longrightarrow> (\<forall>t \<in> set (targets s). js_has byId t \<longrightarrow> t \<in> coloured BLACK st2)"
    by blast
  have "searched byId st (st2\<lparr>color := AList.update i BLACK (color st2)\<rparr>)"
    by (rule finish_step [OF 2(2,3) s st2(2)]) (use st2(3) in blast)
  with st2(1) s show ?case by (simp add: Let_def)
next
  case (3 n byId st)
  then show ?case by (simp add: searched_refl)
next
  case (4 n byId t ts st)
  have rest: "\<exists>st'. visit_each n byId ts st1 = Some st' \<and> searched byId st st' \<and>
      (cycleFound st1 \<longrightarrow> cycleFound st') \<and>
      (\<not> cycleFound st' \<longrightarrow> (\<forall>t \<in> set ts. js_has byId t \<longrightarrow> t \<in> coloured BLACK st') \<and> coloured BLACK st1 \<subseteq> coloured BLACK st')"
    if IH: "dfs_ok byId st1 \<Longrightarrow>
       (\<forall>t \<in> set ts. js_has byId t \<longrightarrow> (\<forall>g \<in> coloured GRAY st1. (g, t) \<in> (flow byId)\<^sup>+)) \<Longrightarrow>
       card (coloured WHITE st1) \<le> n \<Longrightarrow>
       \<exists>st'. visit_each n byId ts st1 = Some st' \<and> searched byId st1 st' \<and>
         (\<not> cycleFound st' \<longrightarrow> (\<forall>t \<in> set ts. js_has byId t \<longrightarrow> t \<in> coloured BLACK st'))"
      and s1: "searched byId st st1" for st1
  proof -
    have "dfs_ok byId st1" using s1 by (simp add: searched_def)
    moreover have "\<forall>t \<in> set ts. js_has byId t \<longrightarrow> (\<forall>g \<in> coloured GRAY st1. (g, t) \<in> (flow byId)\<^sup>+)"
      using s1 "4.prems"(2) by (simp add: searched_def)
    moreover have "card (coloured WHITE st1) \<le> n" by (rule white_decreases [OF s1 "4.prems"(3)])
    ultimately obtain st' where "visit_each n byId ts st1 = Some st'" "searched byId st1 st'"
      "\<not> cycleFound st' \<longrightarrow> (\<forall>t \<in> set ts. js_has byId t \<longrightarrow> t \<in> coloured BLACK st')"
      using IH by blast
    moreover have "searched byId st st'" by (rule searched_trans [OF s1]) fact
    ultimately show ?thesis by (auto simp: searched_def)
  qed
  show ?case
  proof (cases "js_has byId t")
    case False
    from rest [OF "4.IH"(1) [OF False] searched_refl [OF "4.prems"(1)]] False show ?thesis
      by auto
  next
    case True
    then obtain c where c: "map_of (color st) t = Some c"
      using "4.prems"(1) by (auto simp: dfs_ok_def)
    have reach: "\<forall>g \<in> coloured GRAY st. (g, t) \<in> (flow byId)\<^sup>+"
      using "4.prems"(2) True by simp
    show ?thesis
    proof (cases c)
      case WHITE
      have white: "t \<in> coloured WHITE st" using c WHITE by (simp add: coloured_def)
      have "\<forall>g \<in> coloured GRAY st. (g, t) \<in> (flow byId)\<^sup>*" using reach by (blast intro: trancl_into_rtrancl)
      from "4.IH"(3) [OF _ c WHITE "4.prems"(1) white this "4.prems"(3)] True
      obtain st1 where st1: "visit n byId t st = Some st1" "searched byId st st1" "t \<in> coloured BLACK st1"
        by blast
      from rest [OF "4.IH"(4) [OF _ c WHITE st1(1)] st1(2)] True st1 c WHITE show ?thesis
        by auto
    next
      case GRAY
      let ?st1 = "st\<lparr>cycleFound := True\<rparr>"
      have "t \<in> coloured GRAY st" using c GRAY by (simp add: coloured_def)
      then have "\<not> acyclic (flow byId)" using reach by (auto simp: acyclic_def)
      then have "searched byId st ?st1"
        using "4.prems"(1) by (simp add: searched_def dfs_ok_def explored_def)
      from rest [OF "4.IH"(5) [OF _ c GRAY] this] True c GRAY
      show ?thesis by (auto simp: searched_def)
    next
      case BLACK
      have "t \<in> coloured BLACK st" using c BLACK by (simp add: coloured_def)
      with rest [OF "4.IH"(6) [OF _ c BLACK] searched_refl [OF "4.prems"(1)]] True c BLACK show ?thesis
        by auto
    qed
  qed
qed

text \<open>The whole search: it never runs out of fuel and finds a cycle exactly when there is one.\<close>

lemma visit_roots_spec:
  "dfs_ok byId st \<Longrightarrow> coloured GRAY st = {} \<Longrightarrow> \<forall>i \<in> set is. js_has byId i \<Longrightarrow>
     card (coloured WHITE st) \<le> n \<Longrightarrow>
     \<exists>st'. visit_roots n byId is st = Some st' \<and> searched byId st st' \<and> set is \<subseteq> coloured BLACK st'"
proof (induction "is" arbitrary: st)
  case (Cons i "is")
  have step: ?case if s1: "searched byId st st1" "i \<in> coloured BLACK st1"
      and eq: "visit_roots n byId (i # is) st = visit_roots n byId is st1" for st1
  proof -
    have "dfs_ok byId st1" "coloured GRAY st1 = {}"
      using s1(1) Cons.prems(2) by (simp_all add: searched_def)
    from Cons.IH [OF this _ white_decreases [OF s1(1) Cons.prems(4)]] Cons.prems(3) obtain st' where
      st': "visit_roots n byId is st1 = Some st'" "searched byId st1 st'" "set is \<subseteq> coloured BLACK st'"
      by auto
    moreover have "i \<in> coloured BLACK st'" using st'(2) s1(2) by (auto simp: searched_def)
    ultimately show ?thesis using eq searched_trans [OF s1(1) st'(2)] by auto
  qed
  show ?case
  proof (cases "i \<in> coloured WHITE st")
    case True
    from visit_spec [OF Cons.prems(1) True _ Cons.prems(4)] Cons.prems(2)
    obtain st1 where "visit n byId i st = Some st1" "searched byId st st1" "i \<in> coloured BLACK st1" by auto
    then show ?thesis using True by (intro step) (simp_all add: coloured_def)
  next
    case False
    obtain c where c: "map_of (color st) i = Some c" using Cons.prems(1,3) by (auto simp: dfs_ok_def)
    then have "c = BLACK" using False Cons.prems(2) by (cases c) (auto simp: coloured_def)
    then show ?thesis using c searched_refl [OF Cons.prems(1)] by (intro step) (simp_all add: coloured_def)
  qed
qed (simp add: searched_refl)

lemma js_has_steps_by_id: "js_has (steps_by_id steps) v \<longleftrightarrow> v \<in> ws_id ` set steps"
  by (force simp: js_simps steps_by_id_def map_of_eq_None_iff)

lemma map_white:
  fixes steps :: "wf_step list"
  shows "map_of (js_map_of_entries (map (\<lambda>s. (ws_id s, WHITE)) steps)) v = (if v \<in> ws_id ` set steps then Some WHITE else None)"
proof -
  have "map_of (map (\<lambda>s. (ws_id s, WHITE)) xs) v = (if v \<in> ws_id ` set xs then Some WHITE else None)" for xs :: "wf_step list"
    by (induction xs) auto
  from this [of "rev steps"] show ?thesis by (simp add: js_simps rev_map)
qed

lemma find_cycle_spec:
  "\<exists>st. find_cycle steps = Some st \<and> (cycleFound st \<longleftrightarrow> \<not> acyclic (flow (steps_by_id steps)))"
proof -
  let ?byId = "steps_by_id steps"
  let ?st = "\<lparr>color = js_map_of_entries (map (\<lambda>s. (ws_id s, WHITE)) steps), cycleFound = False\<rparr>"
  have white: "coloured WHITE ?st = ws_id ` set steps" "coloured GRAY ?st = {}" "coloured BLACK ?st = {}"
    and cover: "js_has (color ?st) v \<longleftrightarrow> v \<in> ws_id ` set steps"
    for v by (auto simp: coloured_def map_white)
  note known = js_has_steps_by_id [of steps]
  have "dfs_ok ?byId ?st" using cover known white by (simp add: dfs_ok_def explored_def acyclic_def)
  moreover have "card (coloured WHITE ?st) \<le> Suc (length steps)"
    unfolding white by (metis card_length image_set le_SucI length_map)
  moreover have "\<forall>i \<in> set (map ws_id steps). js_has ?byId i" using known by simp
  ultimately obtain st where st: "find_cycle steps = Some st" "searched ?byId ?st st"
      "set (map ws_id steps) \<subseteq> coloured BLACK st"
    unfolding find_cycle_def using visit_roots_spec white(2) by blast
  have "{(u, v) \<in> flow ?byId. u \<in> coloured BLACK st} = flow ?byId"
    using st(3) known by (fastforce simp: flow_def)
  with st show ?thesis by (auto simp: searched_def dfs_ok_def explored_def)
qed

subsection \<open>What the verdict means\<close>

lemma count_filtered:
  "count_list (map snd (concat (map (\<lambda>s. map (\<lambda>t. (ws_id s, t)) (filter K (targets s))) xs))) v =
     (if K v then count_list (concat (map targets xs)) v else 0)"
proof -
  have "count_list (filter K ts) v = (if K v then count_list ts v else 0)" for ts
    by (induction ts) auto
  then show ?thesis by (induction xs) (auto simp: comp_def)
qed

lemma incoming_counts_get:
  "js_get_or 0 (incoming_counts steps) v =
     (if v \<in> ws_id ` set steps then int (count_list (concat (map targets steps)) v) else 0)"
proof -
  let ?known = "\<lambda>t. js_has (steps_by_id steps) t"
  let ?es = "concat (map (\<lambda>s. map (\<lambda>t. (ws_id s, t)) (filter ?known (targets s))) steps)"
  have inner: "foldl (\<lambda>m t. if ?known t then count_edge m (i, t) else m) m ts =
      foldl count_edge m (map (\<lambda>t. (i, t)) (filter ?known ts))" for i m ts
    by (induction ts arbitrary: m) auto
  have zero: "js_get_or 0 (foldl (\<lambda>m s. AList.update (ws_id s) 0 m) m xs) v = (0::int)"
    if "js_get_or 0 m v = (0::int)" for m :: "(string, int) jsmap" and xs :: "wf_step list"
    using that by (induction xs arbitrary: m) (simp_all add: js_get_or_update)
  have "count_list (map snd ?es) v = (if v \<in> ws_id ` set steps then count_list (concat (map targets steps)) v else 0)"
    using count_filtered [of ?known steps v] js_has_steps_by_id [of steps v] by (simp only:)
  then show ?thesis
    unfolding incoming_counts_def Let_def inner foldl_nested count_edges_get
    using zero [of "[]"] by (simp add: js_get_or_def)
qed

text \<open>A step without incoming transition, and the graph over known steps.\<close>

lemma entry_steps_eq:
  "entry_steps steps = filter (\<lambda>s. ws_id s \<notin> (\<Union>r \<in> set steps. set (targets r))) steps"
  unfolding entry_steps_def incoming_counts_get
  by (rule filter_cong) (auto simp: count_list_0_iff)

lemma finite_flow: "finite (flow (steps_by_id steps))"
proof (rule finite_subset)
  show "flow (steps_by_id steps) \<subseteq> (ws_id ` set steps) \<times> (ws_id ` set steps)"
    using js_has_steps_by_id [of steps] by (fastforce simp: flow_def)
qed simp

lemma dangling_errors_Nil:
  "dangling_errors steps = [] \<longleftrightarrow> (\<Union>s \<in> set steps. set (targets s)) \<subseteq> ws_id ` set steps"
  by (auto simp: dangling_errors_def filter_empty_conv js_has_steps_by_id [simplified])

lemma validateWorkflow_spec:
  assumes "steps \<noteq> []"
  shows "\<exists>r. validateWorkflow steps = Some r \<and>
    (vr_valid r \<longleftrightarrow> vr_errors r = []) \<and>
    (Contains_cycle \<in> set (vr_errors r) \<longleftrightarrow> \<not> acyclic (flow (steps_by_id steps))) \<and>
    (No_start_step \<in> set (vr_errors r) \<longleftrightarrow> entry_steps steps = []) \<and>
    (vr_errors r = [] \<longleftrightarrow> dangling_errors steps = [] \<and> entry_steps steps \<noteq> [] \<and> acyclic (flow (steps_by_id steps)))"
proof -
  obtain st where st: "find_cycle steps = Some st" "cycleFound st \<longleftrightarrow> \<not> acyclic (flow (steps_by_id steps))"
    using find_cycle_spec by blast
  have dang: "Contains_cycle \<notin> set (dangling_errors steps)" "No_start_step \<notin> set (dangling_errors steps)"
    by (auto simp: dangling_errors_def)
  show ?thesis using assms st dang by (auto simp: validateWorkflow_def Let_def)
qed

lemma validateWorkflow_returns: "\<exists>r. validateWorkflow steps = Some r"
  using validateWorkflow_spec [of steps] by (cases "steps = []") (auto simp: validateWorkflow_def)

text \<open>C25. \<open>validateWorkflow\<close> always returns, reports a cycle exactly when the transitions between known
  steps have one, and accepts a definition exactly when it has steps, every transition leads to a
  step, some step has no incoming transition and there is no cycle.\<close>

theorem validateWorkflow_correct:
  "\<exists>r. validateWorkflow steps = Some r \<and>
     (Contains_cycle \<in> set (vr_errors r) \<longleftrightarrow> \<not> acyclic (flow (steps_by_id steps))) \<and>
     (vr_valid r \<longleftrightarrow> steps \<noteq> [] \<and> (\<Union>s \<in> set steps. set (targets s)) \<subseteq> ws_id ` set steps \<and>
        ws_id ` set steps - (\<Union>s \<in> set steps. set (targets s)) \<noteq> {} \<and> acyclic (flow (steps_by_id steps)))"
proof (cases "steps = []")
  case True
  then show ?thesis
    by (simp add: validateWorkflow_def flow_def steps_by_id_def js_map_of_entries_def acyclic_def)
next
  case False
  have "entry_steps steps \<noteq> [] \<longleftrightarrow> ws_id ` set steps - (\<Union>s \<in> set steps. set (targets s)) \<noteq> {}"
    by (auto simp: entry_steps_eq filter_empty_conv)
  moreover obtain r where "validateWorkflow steps = Some r" and "vr_valid r \<longleftrightarrow> vr_errors r = []"
    and "Contains_cycle \<in> set (vr_errors r) \<longleftrightarrow> \<not> acyclic (flow (steps_by_id steps))"
    and "vr_errors r = [] \<longleftrightarrow> dangling_errors steps = [] \<and> entry_steps steps \<noteq> [] \<and> acyclic (flow (steps_by_id steps))"
    using validateWorkflow_spec [OF False] by blast
  ultimately show ?thesis using False dangling_errors_Nil [of steps] by simp
qed

lemma map_of_steps_by_id:
  "distinct (map ws_id steps) \<Longrightarrow> s \<in> set steps \<Longrightarrow> map_of (steps_by_id steps) (ws_id s) = Some s"
  unfolding steps_by_id_def js_simps
  by (rule map_of_is_SomeI) (auto simp: rev_map [symmetric] comp_def)

lemma map_of_steps_by_id_SomeD: "map_of (steps_by_id steps) u = Some s \<Longrightarrow> s \<in> set steps \<and> ws_id s = u"
  by (auto simp: steps_by_id_def js_simps dest!: map_of_SomeD)

text \<open>In a finite graph without cycles every chain of transitions ends, forwards and backwards.\<close>

lemma acyclic_reaches_sink:
  assumes "finite E" "acyclic E"
  shows "\<exists>v. (u, v) \<in> E\<^sup>* \<and> E `` {v} = {}"
proof -
  from finite_acyclic_wf_converse [OF assms] show ?thesis
  proof (induction u rule: wf_induct_rule)
    case (less u)
    show ?case
    proof (cases "E `` {u} = {}")
      case False
      then obtain w where w: "(u, w) \<in> E" by auto
      with less [of w] obtain v where "(w, v) \<in> E\<^sup>*" "E `` {v} = {}" by auto
      with w show ?thesis by (meson converse_rtrancl_into_rtrancl)
    qed auto
  qed
qed

lemma acyclic_reaches_source:
  assumes "finite E" "acyclic E"
  shows "\<exists>v. (v, u) \<in> E\<^sup>* \<and> E\<inverse> `` {v} = {}"
  using acyclic_reaches_sink [of "E\<inverse>" u] assms by (simp add: rtrancl_converse acyclic_converse)

lemma flow_sink:
  assumes "dangling_errors steps = []" and s: "map_of (steps_by_id steps) u = Some s"
    and "flow (steps_by_id steps) `` {u} = {}"
  shows "transitionsFor s = []"
proof (rule ccontr)
  assume "transitionsFor s \<noteq> []"
  then obtain t where t: "t \<in> set (targets s)"
    by (metis ex_in_conv map_is_Nil_conv set_empty2 targets_def)
  with s assms(1) have "js_has (steps_by_id steps) t"
    unfolding js_has_steps_by_id dangling_errors_Nil using map_of_steps_by_id_SomeD by blast
  with s t assms(3) show False by (auto simp: flow_def)
qed

lemma flow_source:
  assumes "distinct (map ws_id steps)" and s: "s \<in> set steps"
    and "(flow (steps_by_id steps))\<inverse> `` {ws_id s} = {}"
  shows "s \<in> set (entry_steps steps)"
proof -
  have "ws_id s \<notin> set (targets r)" if r: "r \<in> set steps" for r
    using map_of_steps_by_id [OF assms(1) r] map_of_steps_by_id [OF assms(1) s] assms(3)
    by (auto simp: flow_def)
  with s show ?thesis by (auto simp: entry_steps_eq)
qed

lemma flow_reach_known:
  "(u, v) \<in> (flow (steps_by_id steps))\<^sup>* \<Longrightarrow> js_has (steps_by_id steps) u \<longleftrightarrow> js_has (steps_by_id steps) v"
  by (induction rule: rtrancl_induct) (auto simp: flow_def)

text \<open>C31. In a definition that is accepted without a warning about a leaf, with distinct step ids,
  every step lies on a path of transitions from a step without incoming transition to a step of
  type \<open>end\<close>: a run can get to every step, and from there to the end.\<close>

theorem accepted_workflow_completes:
  assumes "validateWorkflow steps = Some r" "vr_valid r" "Leaf_not_end ` UNIV \<inter> set (vr_warnings r) = {}"
    and ids: "distinct (map ws_id steps)" and s: "s \<in> set steps"
  shows "\<exists>a \<in> set (entry_steps steps). \<exists>e \<in> set steps. ws_type e = End_step \<and> transitionsFor e = [] \<and>
    (ws_id a, ws_id s) \<in> (flow (steps_by_id steps))\<^sup>* \<and> (ws_id s, ws_id e) \<in> (flow (steps_by_id steps))\<^sup>*"
proof -
  let ?E = "flow (steps_by_id steps)"
  have "steps \<noteq> []" using s by auto
  from validateWorkflow_spec [OF this] assms(1,2) have ok: "dangling_errors steps = []" "acyclic ?E" by auto
  have known: "js_has (steps_by_id steps) (ws_id s)" using s by (simp only: js_has_steps_by_id) blast
  obtain v where v: "(ws_id s, v) \<in> ?E\<^sup>*" "?E `` {v} = {}"
    using acyclic_reaches_sink [OF finite_flow ok(2)] by blast
  obtain u where u: "(u, ws_id s) \<in> ?E\<^sup>*" "?E\<inverse> `` {u} = {}"
    using acyclic_reaches_source [OF finite_flow ok(2)] by blast
  obtain e where e: "map_of (steps_by_id steps) v = Some e" using flow_reach_known [OF v(1)] known by auto
  obtain a where a: "map_of (steps_by_id steps) u = Some a" using flow_reach_known [OF u(1)] known by auto
  have ends: "e \<in> set steps" "ws_id e = v" "a \<in> set steps" "ws_id a = u"
    using map_of_steps_by_id_SomeD e a by blast+
  have leaf: "transitionsFor e = []" by (rule flow_sink [OF ok(1) e v(2)])
  moreover have "ws_type e = End_step"
  proof (rule ccontr)
    assume "ws_type e \<noteq> End_step"
    then have "Leaf_not_end (ws_name e) \<in> set (vr_warnings r)"
      using assms(1) \<open>steps \<noteq> []\<close> leaf ends(1)
      by (auto simp: validateWorkflow_def Let_def split: option.splits)
    with assms(3) show False by blast
  qed
  moreover have "a \<in> set (entry_steps steps)" by (rule flow_source [OF ids ends(3)]) (use u(2) ends in simp)
  ultimately show ?thesis using ends u(1) v(1) by blast
qed

definition sample_step :: "string \<Rightarrow> wf_step_type \<Rightarrow> string list \<Rightarrow> wf_step" where
  "sample_step i ty ts = \<lparr>ws_id = i, ws_name = i, ws_type = ty, ws_config = empty_config,
     ws_position = (0, 0), ws_transitions = Some (map (\<lambda>t. \<lparr>wt_id = t, wt_target = t, wt_label = [], wt_condition = None\<rparr>) ts),
     ws_timeout_minutes = None, ws_on_timeout = ''fail'', ws_assignee = None\<rparr>"

definition sample_workflow :: "wf_step list" where
  "sample_workflow = [sample_step ''a'' Review [''b'', ''c''], sample_step ''b'' Notification [''c''],
     sample_step ''c'' End_step []]"

lemma sample_workflow_valid:
  "validateWorkflow sample_workflow = Some \<lparr>vr_valid = True, vr_errors = [], vr_warnings = []\<rparr>"
  by code_simp

theorem accepted_workflow_completes_witness:
  "\<exists>a \<in> set (entry_steps sample_workflow). \<exists>e \<in> set sample_workflow.
     ws_type e = End_step \<and> transitionsFor e = [] \<and>
     (ws_id a, ''b'') \<in> (flow (steps_by_id sample_workflow))\<^sup>* \<and>
     (''b'', ws_id e) \<in> (flow (steps_by_id sample_workflow))\<^sup>*"
  using accepted_workflow_completes [OF sample_workflow_valid, of "sample_step ''b'' Notification [''c'']"]
  by (simp add: sample_workflow_def sample_step_def)

end
