(* ===== verification/WorkflowLint.thy ===== *)
theory WorkflowLint
  imports Workflow
begin

section \<open>Lint of the workflow designer\<close>

text \<open>
  \<open>lintWorkflow\<close> of the designer's \<open>workflow-lint.ts\<close>: it keeps the verdict of \<open>validateWorkflow\<close>
  and lists the findings with the step each belongs to. A message is the constructor of its label.
  No loop of the source reads the list it pushes to, so the pushes are collected as one sequence and
  then performed in order.
\<close>

subsection \<open>Issues\<close>

datatype lint_level = Lint_error | Lint_warning

datatype lint_message =
    DanglingTransition | UnreachableCycle | OrphanStep | NoEndStep | NonEndLeaf | ApprovalNoRole
  | HumanNoRole | ApprovalChainNoApprovers | ApprovalChainEmptyReference | QuorumNoCount
  | WebhookNoUrl | SubWorkflowNoTarget | ScriptNoScript | NotificationNoChannels

record lint_issue =
  li_level :: lint_level
  li_message :: lint_message
  li_step :: "string option"

record lint_result = validation_result +
  lr_issues :: "lint_issue list"
  lr_byStep :: "(string, lint_issue list) jsmap"

text \<open>\<open>push\<close>: the list grows, and the step's own list when there is a non-empty id.\<close>

definition push_issue ::
  "lint_issue list \<times> (string, lint_issue list) jsmap \<Rightarrow> lint_issue \<Rightarrow> lint_issue list \<times> (string, lint_issue list) jsmap" where
  "push_issue st issue =
     (fst st @ [issue],
      case li_step issue of
        None \<Rightarrow> snd st
      | Some i \<Rightarrow>
          if i = [] then snd st
          else AList.update i (js_get_or [] (snd st) i @ [issue]) (snd st))"

definition issue_for :: "lint_level \<Rightarrow> lint_message \<Rightarrow> wf_step \<Rightarrow> lint_issue" where
  "issue_for level message s = \<lparr>li_level = level, li_message = message, li_step = Some (ws_id s)\<rparr>"

subsection \<open>Reachability from the entry steps\<close>

text \<open>A step that is visited for the first time leaves fewer to visit.\<close>

lemma remaining_less:
  assumes "map_of byId i = Some s" "i \<notin> set seen"
  shows "card (fst ` set byId - insert i (set seen)) < card (fst ` set byId - set seen)"
proof (rule psubset_card_mono)
  have "i \<in> fst ` set byId" using assms(1) by (force dest: map_of_SomeD)
  with assms(2) show "fst ` set byId - insert i (set seen) \<subset> fst ` set byId - set seen" by blast
qed simp

lemma remaining_le: "card (fst ` set byId - insert i (set seen)) \<le> card (fst ` set byId - set seen)"
  by (rule card_mono) auto

text \<open>The stack loop; \<open>pop\<close> takes the last element, the visited set is a list.\<close>

function reach_loop :: "(string, wf_step) jsmap \<Rightarrow> string list \<Rightarrow> string list \<Rightarrow> string list" where
  "reach_loop byId reachable stack =
     (if stack = [] then reachable
      else if last stack \<in> set reachable then reach_loop byId reachable (butlast stack)
      else reach_loop byId (reachable @ [last stack])
        (butlast stack @
          (case map_of byId (last stack) of
             None \<Rightarrow> []
           | Some step \<Rightarrow> filter (js_has byId) (targets step))))"
  by pat_completeness auto

termination
proof (relation "measures [\<lambda>(byId, seen, stack). card (fst ` set byId - set seen), \<lambda>(byId, seen, stack). length stack]")
  fix byId :: "(string, wf_step) jsmap" and seen stack :: "string list"
  assume s: "stack \<noteq> []"
  then show "((byId, seen, butlast stack), (byId, seen, stack))
    \<in> measures [\<lambda>(byId, seen, stack). card (fst ` set byId - set seen), \<lambda>(byId, seen, stack). length stack]"
    by simp
  assume "last stack \<notin> set seen"
  then show "((byId, seen @ [last stack], butlast stack @
      (case map_of byId (last stack) of None \<Rightarrow> [] | Some step \<Rightarrow> filter (js_has byId) (targets step))), (byId, seen, stack))
    \<in> measures [\<lambda>(byId, seen, stack). card (fst ` set byId - set seen), \<lambda>(byId, seen, stack). length stack]"
    using s remaining_less [of byId "last stack" _ seen] remaining_le [of byId "last stack" seen]
    by (cases "map_of byId (last stack)") auto
qed simp

declare reach_loop.simps [simp del]

definition next_ids :: "(string, wf_step) jsmap \<Rightarrow> string \<Rightarrow> string list" where
  "next_ids byId i = (case map_of byId i of None \<Rightarrow> [] | Some step \<Rightarrow> filter (js_has byId) (targets step))"

lemma set_next_ids: "set (next_ids byId i) = flow byId `` {i}"
  by (cases "map_of byId i") (auto simp: next_ids_def flow_def)

lemma reach_loop_Nil: "reach_loop byId seen [] = seen"
  by (simp add: reach_loop.simps)

lemma reach_loop_seen:
  "stack \<noteq> [] \<Longrightarrow> last stack \<in> set seen \<Longrightarrow> reach_loop byId seen stack = reach_loop byId seen (butlast stack)"
  by (subst reach_loop.simps) simp

lemma reach_loop_new:
  "stack \<noteq> [] \<Longrightarrow> last stack \<notin> set seen \<Longrightarrow>
     reach_loop byId seen stack = reach_loop byId (seen @ [last stack]) (butlast stack @ next_ids byId (last stack))"
  by (subst reach_loop.simps) (simp add: next_ids_def)

definition reachable_steps :: "wf_step list \<Rightarrow> string list" where
  "reachable_steps steps = reach_loop (steps_by_id steps) [] (map ws_id (entry_steps steps))"

subsection \<open>The findings\<close>

definition unreachable_issues :: "wf_step list \<Rightarrow> lint_issue list" where
  "unreachable_issues steps =
     map (issue_for Lint_warning UnreachableCycle)
       (filter (\<lambda>s. ws_id s \<notin> set (reachable_steps steps) \<and> 0 < js_get_or 0 (incoming_counts steps) (ws_id s)) steps)"

definition dangling_issues :: "wf_step list \<Rightarrow> lint_issue list" where
  "dangling_issues steps =
     concat (map (\<lambda>s. map (\<lambda>t. issue_for Lint_error DanglingTransition s)
       (filter (\<lambda>t. \<not> js_has (steps_by_id steps) t) (targets s))) steps)"

definition orphan_issues :: "wf_step list \<Rightarrow> lint_issue list" where
  "orphan_issues steps =
     (if 1 < length steps then
        map (issue_for Lint_warning OrphanStep)
          (filter (\<lambda>s. js_get_or 0 (incoming_counts steps) (ws_id s) = 0 \<and> transitionsFor s = []) steps)
      else [])"

definition end_issues :: "wf_step list \<Rightarrow> lint_issue list" where
  "end_issues steps =
     (if filter (\<lambda>s. ws_type s = End_step) steps = []
      then [\<lparr>li_level = Lint_warning, li_message = NoEndStep, li_step = None\<rparr>] else []) @
     map (issue_for Lint_warning NonEndLeaf)
       (filter (\<lambda>s. ws_type s \<noteq> End_step \<and> transitionsFor s = []) steps)"

definition falsy_text :: "string option \<Rightarrow> bool" where
  "falsy_text v \<longleftrightarrow> (case v of None \<Rightarrow> True | Some s \<Rightarrow> s = [])"

definition chain_issues :: "wf_step \<Rightarrow> lint_issue list" where
  "chain_issues s =
     (case cf_approvers (ws_config s) of
        None \<Rightarrow> [issue_for Lint_error ApprovalChainNoApprovers s]
      | Some as \<Rightarrow>
          if as = [] then [issue_for Lint_error ApprovalChainNoApprovers s]
          else if list_ex (\<lambda>a. ap_ref a = []) as then [issue_for Lint_warning ApprovalChainEmptyReference s]
          else []) @
     (if cf_quorum (ws_config s) = Some Q_n_of_m \<and> (cf_quorum_n (ws_config s) = None \<or> cf_quorum_n (ws_config s) = Some 0)
      then [issue_for Lint_warning QuorumNoCount s] else [])"

definition config_issues :: "wf_step \<Rightarrow> lint_issue list" where
  "config_issues s =
     (let cfg = ws_config s; warn = (\<lambda>c m. if c then [issue_for Lint_warning m s] else [])
      in case ws_type s of
        Approval \<Rightarrow> warn (lacks_role s) ApprovalNoRole
      | Human_task \<Rightarrow> warn (lacks_role s) HumanNoRole
      | Review \<Rightarrow> warn (lacks_role s) HumanNoRole
      | Approval_chain \<Rightarrow> chain_issues s
      | Webhook \<Rightarrow> warn (falsy_text (cf_webhook_url cfg)) WebhookNoUrl
      | Sub_workflow \<Rightarrow> warn (falsy_text (cf_sub_workflow_id cfg)) SubWorkflowNoTarget
      | Script \<Rightarrow> warn (falsy_text (cf_script_id cfg)) ScriptNoScript
      | Notification \<Rightarrow>
          warn (case cf_notification_channels cfg of None \<Rightarrow> True | Some cs \<Rightarrow> cs = []) NotificationNoChannels
      | _ \<Rightarrow> [])"

definition pushed_issues :: "wf_step list \<Rightarrow> lint_issue list" where
  "pushed_issues steps =
     (if steps = [] then []
      else dangling_issues steps @ unreachable_issues steps @ orphan_issues steps @ end_issues steps @
        concat (map config_issues steps))"

definition lintWorkflow :: "wf_step list \<Rightarrow> lint_result option" where
  "lintWorkflow steps =
     map_option (\<lambda>base.
       let (issues, byStep) = foldl push_issue ([], []) (pushed_issues steps)
       in validation_result.extend base (lint_result.fields issues byStep))
     (validateWorkflow steps)"

subsection \<open>Reachability\<close>

lemma set_last_butlast: "stack \<noteq> [] \<Longrightarrow> set stack = insert (last stack) (set (butlast stack))"
  by (metis append_butlast_last_id list.set(2) rotate1.simps(2) set_rotate1)

lemma reach_loop_closed:
  "flow byId `` set seen \<subseteq> set seen \<union> set stack \<Longrightarrow>
     set seen \<union> set stack \<subseteq> set (reach_loop byId seen stack) \<and>
     flow byId `` set (reach_loop byId seen stack) \<subseteq> set (reach_loop byId seen stack)"
proof (induction byId seen stack rule: reach_loop.induct)
  case (1 byId seen stack)
  consider (empty) "stack = []" | (seen) "stack \<noteq> []" "last stack \<in> set seen"
    | (new) "stack \<noteq> []" "last stack \<notin> set seen" by blast
  then show ?case
  proof cases
    case empty
    with "1.prems" show ?thesis by (simp add: reach_loop_Nil)
  next
    case seen
    have "flow byId `` set seen \<subseteq> set seen \<union> set (butlast stack)"
      using "1.prems" seen(2) unfolding set_last_butlast [OF seen(1)] by blast
    from "1.IH"(1) [OF seen this] seen(2) show ?thesis
      unfolding reach_loop_seen [OF seen] set_last_butlast [OF seen(1)] by blast
  next
    case new
    have "flow byId `` set (seen @ [last stack]) \<subseteq>
        set (seen @ [last stack]) \<union> set (butlast stack @ next_ids byId (last stack))"
      using "1.prems" set_last_butlast [OF new(1)] by (auto simp: set_next_ids)
    from "1.IH"(2) [OF new, folded next_ids_def, OF this] set_last_butlast [OF new(1)] show ?thesis
      by (simp add: reach_loop_new [OF new])
  qed
qed

lemma reach_loop_sound:
  "set (reach_loop byId seen stack) \<subseteq> set seen \<union> (flow byId)\<^sup>* `` set stack"
proof (induction byId seen stack rule: reach_loop.induct)
  case (1 byId seen stack)
  let ?E = "flow byId"
  consider (empty) "stack = []" | (seen) "stack \<noteq> []" "last stack \<in> set seen"
    | (new) "stack \<noteq> []" "last stack \<notin> set seen" by blast
  then show ?case
  proof cases
    case empty
    then show ?thesis by (simp add: reach_loop_Nil)
  next
    case seen
    from "1.IH"(1) [OF seen] set_last_butlast [OF seen(1)] show ?thesis
      by (simp only: reach_loop_seen [OF seen]) blast
  next
    case new
    have "?E\<^sup>* `` set (next_ids byId (last stack)) \<subseteq> ?E\<^sup>* `` {last stack}"
      by (auto simp: set_next_ids intro: converse_rtrancl_into_rtrancl)
    with "1.IH"(2) [OF new, folded next_ids_def] set_last_butlast [OF new(1)] show ?thesis
      unfolding reach_loop_new [OF new] by (simp add: Image_Un) blast
  qed
qed

lemma reachable_steps_set:
  "set (reachable_steps steps) = (flow (steps_by_id steps))\<^sup>* `` (ws_id ` set (entry_steps steps))"
proof
  show "set (reachable_steps steps) \<subseteq> (flow (steps_by_id steps))\<^sup>* `` (ws_id ` set (entry_steps steps))"
    using reach_loop_sound [of "steps_by_id steps" "[]" "map ws_id (entry_steps steps)"] by (simp add: reachable_steps_def)
  have "ws_id ` set (entry_steps steps) \<subseteq> set (reachable_steps steps)"
    and "flow (steps_by_id steps) `` set (reachable_steps steps) \<subseteq> set (reachable_steps steps)"
    using reach_loop_closed [of "steps_by_id steps" "[]" "map ws_id (entry_steps steps)"]
    by (simp_all add: reachable_steps_def)
  then show "(flow (steps_by_id steps))\<^sup>* `` (ws_id ` set (entry_steps steps)) \<subseteq> set (reachable_steps steps)"
    by (metis Image_closed_trancl Image_mono order_refl)
qed

subsection \<open>Properties\<close>

lemma pushed_all:
  "fst (foldl push_issue st xs) = fst st @ xs"
  by (induction xs arbitrary: st) (simp_all add: push_issue_def)

lemma pushed_for_step:
  "js_get_or [] (snd (foldl push_issue st xs)) i =
     js_get_or [] (snd st) i @ (if i = [] then [] else filter (\<lambda>x. li_step x = Some i) xs)"
  by (induction xs arbitrary: st) (auto simp: push_issue_def js_get_or_update split: option.splits)

lemma lintWorkflow_spec:
  "\<exists>r base. lintWorkflow steps = Some r \<and> validateWorkflow steps = Some base \<and>
     validation_result.truncate r = base \<and> lr_issues r = pushed_issues steps \<and>
     lr_byStep r = snd (foldl push_issue ([], []) (pushed_issues steps))"
proof -
  obtain base where "validateWorkflow steps = Some base"
    using validateWorkflow_returns by blast
  then show ?thesis using pushed_all [of "([], [])" "pushed_issues steps"]
    by (auto simp: lintWorkflow_def case_prod_beta validation_result.defs lint_result.defs)
qed

lemma config_issue_messages:
  "x \<in> set (config_issues s) \<Longrightarrow> li_message x \<notin> {DanglingTransition, UnreachableCycle} \<and>
     (li_level x = Lint_error \<longrightarrow> li_message x = ApprovalChainNoApprovers)"
  by (auto simp: config_issues_def chain_issues_def issue_for_def Let_def
      split: wf_step_type.splits option.splits if_splits)

lemma section_messages:
  "x \<in> set (dangling_issues steps) \<Longrightarrow> li_message x = DanglingTransition"
  "x \<in> set (unreachable_issues steps) \<Longrightarrow> li_message x = UnreachableCycle \<and> li_level x = Lint_warning"
  "x \<in> set (orphan_issues steps) \<Longrightarrow> li_message x = OrphanStep \<and> li_level x = Lint_warning"
  "x \<in> set (end_issues steps) \<Longrightarrow> li_message x \<in> {NoEndStep, NonEndLeaf} \<and> li_level x = Lint_warning"
  by (auto simp: dangling_issues_def unreachable_issues_def orphan_issues_def end_issues_def issue_for_def
      split: if_splits)

lemma pushed_cases:
  "x \<in> set (pushed_issues steps) \<longleftrightarrow>
     x \<in> set (dangling_issues steps) \<or> x \<in> set (unreachable_issues steps) \<or> x \<in> set (orphan_issues steps) \<or>
     steps \<noteq> [] \<and> x \<in> set (end_issues steps) \<or> (\<exists>s \<in> set steps. x \<in> set (config_issues s))"
  by (auto simp: pushed_issues_def dangling_issues_def unreachable_issues_def orphan_issues_def)

lemma unreachable_pushed:
  assumes "li_message x = UnreachableCycle"
  shows "x \<in> set (pushed_issues steps) \<longleftrightarrow> x \<in> set (unreachable_issues steps)"
  using section_messages [of x steps] config_issue_messages [of x] assms by (auto simp: pushed_cases)

text \<open>The steps flagged as unreachable are exactly those no entry step leads to; the lint itself
  always returns, with the verdict of \<open>validateWorkflow\<close>.\<close>

theorem lint_flags_unreachable:
  "\<exists>r. lintWorkflow steps = Some r \<and> validateWorkflow steps = Some (validation_result.truncate r) \<and>
     {i. \<lparr>li_level = Lint_warning, li_message = UnreachableCycle, li_step = Some i\<rparr> \<in> set (lr_issues r)} =
       ws_id ` set steps - (flow (steps_by_id steps))\<^sup>* `` (ws_id ` set (entry_steps steps))"
proof -
  have "\<lparr>li_level = Lint_warning, li_message = UnreachableCycle, li_step = Some i\<rparr> \<in> set (unreachable_issues steps) \<longleftrightarrow>
      i \<in> ws_id ` set steps - set (reachable_steps steps)" for i
  proof -
    have entry: "0 < js_get_or 0 (incoming_counts steps) (ws_id s)"
      if "s \<in> set steps" "ws_id s \<notin> set (reachable_steps steps)" for s
    proof -
      have "s \<notin> set (entry_steps steps)" using that(2) by (auto simp: reachable_steps_set)
      with that(1) have "js_get_or 0 (incoming_counts steps) (ws_id s) \<noteq> 0" by (simp add: entry_steps_def)
      moreover have "0 \<le> js_get_or 0 (incoming_counts steps) (ws_id s)" by (simp add: incoming_counts_get)
      ultimately show ?thesis by simp
    qed
    show ?thesis
      by (auto simp: unreachable_issues_def issue_for_def intro: entry)
  qed
  with lintWorkflow_spec [of steps] show ?thesis by (auto simp: unreachable_pushed reachable_steps_set)
qed

text \<open>The list kept for a step is the part of the issue list anchored to it, in order; nothing is
  filed under an empty id.\<close>

theorem lint_index_coherent:
  "\<exists>r. lintWorkflow steps = Some r \<and>
     (js_get_or [] (lr_byStep r) i = (if i = [] then [] else filter (\<lambda>x. li_step x = Some i) (lr_issues r)))"
proof -
  obtain r where "lintWorkflow steps = Some r" "lr_issues r = pushed_issues steps"
    "lr_byStep r = snd (foldl push_issue ([], []) (pushed_issues steps))"
    using lintWorkflow_spec [of steps] by blast
  then show ?thesis by (simp add: pushed_for_step js_get_or_def [of _ "[]"])
qed

lemma error_issues:
  "x \<in> set (pushed_issues steps) \<Longrightarrow> li_level x = Lint_error \<Longrightarrow>
     li_message x \<in> {DanglingTransition, ApprovalChainNoApprovers}"
  using section_messages [of x steps] config_issue_messages [of x] by (auto simp: pushed_cases)

definition looping_workflow :: "wf_step list" where
  "looping_workflow = [sample_step ''a'' Script [''b''], sample_step ''b'' Script [''c''],
     sample_step ''c'' Script [''b'', ''d''], sample_step ''d'' End_step []]"

definition unapproved_workflow :: "wf_step list" where
  "unapproved_workflow = [sample_step ''a'' Approval_chain [''b''], sample_step ''b'' End_step []]"

text \<open>The issue list and the verdict disagree in both directions: the cycle that makes
  \<open>looping_workflow\<close> invalid is in no issue at all, while the chain without approvers is an error
  issue of a definition that counts no error, no warning and is publishable.\<close>

theorem issues_differ_from_verdict:
  "\<exists>r q. lintWorkflow looping_workflow = Some r \<and> vr_errors r = [Contains_cycle] \<and>
     filter (\<lambda>x. li_level x = Lint_error) (lr_issues r) = [] \<and>
     lintWorkflow unapproved_workflow = Some q \<and> vr_valid q \<and> vr_errors q = [] \<and> vr_warnings q = [] \<and>
     map li_message (filter (\<lambda>x. li_level x = Lint_error) (lr_issues q)) = [ApprovalChainNoApprovers]"
proof -
  have "map_option (\<lambda>r. (vr_errors r, filter (\<lambda>x. li_level x = Lint_error) (lr_issues r)))
      (lintWorkflow looping_workflow) = Some ([Contains_cycle], [])"
    by code_simp
  moreover have "map_option (\<lambda>q. (vr_valid q, vr_errors q, vr_warnings q,
        map li_message (filter (\<lambda>x. li_level x = Lint_error) (lr_issues q))))
      (lintWorkflow unapproved_workflow) = Some (True, [], [], [ApprovalChainNoApprovers])"
    by code_simp
  ultimately show ?thesis by auto
qed

end
