(* ===== verification/Canvas.thy ===== *)
theory Canvas
  imports Workflow
begin

section \<open>Canvas state of the workflow designer\<close>

text \<open>
  \<open>hooks/use-canvas-state.ts\<close> of the workflow designer: the reducer of the canvas, its undo and redo
  wrapper and the callbacks that dispatch to it. The source decides by object identity whether an
  action changed anything, so \<open>canvasReducer\<close> returns None where it returns the state it was given.
  Coordinates are rationals. The clock, random ids, labels and the dagre layout are arguments.
\<close>

subsection \<open>State and actions\<close>

type_synonym point = "rat \<times> rat"

record connecting =
  cn_from :: string
  cn_mouseX :: rat
  cn_mouseY :: rat

record canvas_state =
  cs_steps :: "wf_step list"
  cs_selectedStepId :: "string option"
  cs_selectedTransitionId :: "string option"
  cs_pan :: point
  cs_zoom :: rat
  cs_connecting :: "connecting option"

text \<open>\<open>Partial<WorkflowStep>\<close>: the fields that are given.\<close>

record step_updates =
  up_id :: "string option"
  up_name :: "string option"
  up_type :: "wf_step_type option"
  up_config :: "wf_config option"
  up_position :: "point option"
  up_transitions :: "wf_transition list option"
  up_timeout_minutes :: "int option option"
  up_on_timeout :: "string option"
  up_assignee :: "assignee_strategy option"

text \<open>\<open>SET_STEPS\<close> says whether the array given is the very array of the state.\<close>

datatype canvas_action =
    SET_STEPS "wf_step list" bool
  | ADD_STEP wf_step
  | UPDATE_STEP string step_updates
  | REMOVE_STEP string
  | MOVE_STEP string point
  | ADD_TRANSITION string wf_transition
  | REMOVE_TRANSITION string string
  | SELECT_STEP "string option"
  | SELECT_TRANSITION "string option"
  | SET_PAN point
  | SET_ZOOM rat
  | SET_CONNECTING "connecting option"
  | UNDO
  | REDO

definition given :: "'a option \<Rightarrow> 'a \<Rightarrow> 'a" where
  "given u v = (case u of None \<Rightarrow> v | Some x \<Rightarrow> x)"

definition apply_updates :: "wf_step \<Rightarrow> step_updates \<Rightarrow> wf_step" where
  "apply_updates s u =
     \<lparr>ws_id = given (up_id u) (ws_id s), ws_name = given (up_name u) (ws_name s),
      ws_type = given (up_type u) (ws_type s), ws_config = given (up_config u) (ws_config s),
      ws_position = given (up_position u) (ws_position s),
      ws_transitions = (case up_transitions u of None \<Rightarrow> ws_transitions s | Some ts \<Rightarrow> Some ts),
      ws_timeout_minutes = given (up_timeout_minutes u) (ws_timeout_minutes s),
      ws_on_timeout = given (up_on_timeout u) (ws_on_timeout s),
      ws_assignee = (case up_assignee u of None \<Rightarrow> ws_assignee s | Some a \<Rightarrow> Some a)\<rparr>"

text \<open>\<open>state.steps.map((s) => s.id === id ? f(s) : s)\<close>\<close>

definition map_step :: "string \<Rightarrow> (wf_step \<Rightarrow> wf_step) \<Rightarrow> wf_step list \<Rightarrow> wf_step list" where
  "map_step i f steps = map (\<lambda>s. if ws_id s = i then f s else s) steps"

definition without_step :: "string \<Rightarrow> wf_step list \<Rightarrow> wf_step list" where
  "without_step i steps =
     map (\<lambda>s. s\<lparr>ws_transitions := Some (filter (\<lambda>t. wt_target t \<noteq> i) (transitionsFor s))\<rparr>)
       (filter (\<lambda>s. ws_id s \<noteq> i) steps)"

definition samePoint :: "point \<Rightarrow> point \<Rightarrow> bool" where
  "samePoint a b \<longleftrightarrow> fst a = fst b \<and> snd a = snd b"

definition sameConnecting :: "connecting option \<Rightarrow> connecting option \<Rightarrow> bool" where
  "sameConnecting a b \<longleftrightarrow>
     (case (a, b) of
        (None, None) \<Rightarrow> True
      | (Some a, Some b) \<Rightarrow> cn_from a = cn_from b \<and> cn_mouseX a = cn_mouseX b \<and> cn_mouseY a = cn_mouseY b
      | _ \<Rightarrow> False)"

definition clamp_zoom :: "rat \<Rightarrow> rat" where
  "clamp_zoom z = max (1/4) (min 2 z)"

fun canvasReducer :: "canvas_state \<Rightarrow> canvas_action \<Rightarrow> canvas_state option" where
  "canvasReducer st (SET_STEPS steps same) = (if same then None else Some (st\<lparr>cs_steps := steps\<rparr>))"
| "canvasReducer st (ADD_STEP s) = Some (st\<lparr>cs_steps := cs_steps st @ [s]\<rparr>)"
| "canvasReducer st (UPDATE_STEP i u) =
     Some (st\<lparr>cs_steps := map_step i (\<lambda>s. apply_updates s u) (cs_steps st)\<rparr>)"
| "canvasReducer st (REMOVE_STEP i) =
     Some (st\<lparr>cs_steps := without_step i (cs_steps st),
              cs_selectedStepId := (if cs_selectedStepId st = Some i then None else cs_selectedStepId st)\<rparr>)"
| "canvasReducer st (MOVE_STEP i p) =
     (case find (\<lambda>s. ws_id s = i) (cs_steps st) of
        None \<Rightarrow> None
      | Some s \<Rightarrow>
          if samePoint (ws_position s) p then None
          else Some (st\<lparr>cs_steps := map_step i (\<lambda>s. s\<lparr>ws_position := p\<rparr>) (cs_steps st)\<rparr>))"
| "canvasReducer st (ADD_TRANSITION i t) =
     Some (st\<lparr>cs_steps :=
       map_step i (\<lambda>s. s\<lparr>ws_transitions := Some (transitionsFor s @ [t])\<rparr>) (cs_steps st)\<rparr>)"
| "canvasReducer st (REMOVE_TRANSITION i t) =
     Some (st\<lparr>cs_steps :=
       map_step i (\<lambda>s. s\<lparr>ws_transitions := Some (filter (\<lambda>x. wt_id x \<noteq> t) (transitionsFor s))\<rparr>) (cs_steps st)\<rparr>)"
| "canvasReducer st (SELECT_STEP i) =
     (if cs_selectedStepId st = i \<and> cs_selectedTransitionId st = None then None
      else Some (st\<lparr>cs_selectedStepId := i, cs_selectedTransitionId := None\<rparr>))"
| "canvasReducer st (SELECT_TRANSITION i) =
     (if cs_selectedTransitionId st = i \<and> cs_selectedStepId st = None then None
      else Some (st\<lparr>cs_selectedTransitionId := i, cs_selectedStepId := None\<rparr>))"
| "canvasReducer st (SET_PAN p) = (if samePoint (cs_pan st) p then None else Some (st\<lparr>cs_pan := p\<rparr>))"
| "canvasReducer st (SET_ZOOM z) =
     (if cs_zoom st = clamp_zoom z then None else Some (st\<lparr>cs_zoom := clamp_zoom z\<rparr>))"
| "canvasReducer st (SET_CONNECTING c) =
     (if sameConnecting (cs_connecting st) c then None else Some (st\<lparr>cs_connecting := c\<rparr>))"
| "canvasReducer st UNDO = None"
| "canvasReducer st REDO = None"

subsection \<open>Undo and redo\<close>

record undoable =
  ud_current :: canvas_state
  ud_past :: "canvas_state list"
  ud_future :: "canvas_state list"

fun step_modifying :: "canvas_action \<Rightarrow> bool" where
  "step_modifying (ADD_STEP _) = True"
| "step_modifying (UPDATE_STEP _ _) = True"
| "step_modifying (REMOVE_STEP _) = True"
| "step_modifying (MOVE_STEP _ _) = True"
| "step_modifying (ADD_TRANSITION _ _) = True"
| "step_modifying (REMOVE_TRANSITION _ _) = True"
| "step_modifying (SET_STEPS _ _) = True"
| "step_modifying _ = False"

text \<open>\<open>xs.slice(-n)\<close>\<close>

definition slice_last :: "nat \<Rightarrow> 'a list \<Rightarrow> 'a list" where
  "slice_last n xs = drop (length xs - n) xs"

definition undoableReducer :: "undoable \<Rightarrow> canvas_action \<Rightarrow> undoable" where
  "undoableReducer st action =
     (case action of
        UNDO \<Rightarrow>
          if ud_past st = [] then st
          else \<lparr>ud_current = last (ud_past st), ud_past = butlast (ud_past st),
                ud_future = ud_current st # ud_future st\<rparr>
      | REDO \<Rightarrow>
          (case ud_future st of
             [] \<Rightarrow> st
           | n # later \<Rightarrow>
               \<lparr>ud_current = n, ud_past = ud_past st @ [ud_current st], ud_future = later\<rparr>)
      | _ \<Rightarrow>
          (case canvasReducer (ud_current st) action of
             None \<Rightarrow> st
           | Some new \<Rightarrow>
               if step_modifying action
               then \<lparr>ud_current = new, ud_past = slice_last 49 (ud_past st) @ [ud_current st], ud_future = []\<rparr>
               else st\<lparr>ud_current := new\<rparr>))"

definition canvas_initial :: canvas_state where
  "canvas_initial = \<lparr>cs_steps = [], cs_selectedStepId = None, cs_selectedTransitionId = None,
     cs_pan = (0, 0), cs_zoom = 1, cs_connecting = None\<rparr>"

text \<open>\<open>initialSteps ?? []\<close>, and a session of dispatched actions.\<close>

definition canvas_start :: "wf_step list option \<Rightarrow> undoable" where
  "canvas_start initialSteps =
     \<lparr>ud_current = canvas_initial\<lparr>cs_steps := given initialSteps []\<rparr>, ud_past = [], ud_future = []\<rparr>"

definition canvas_run :: "undoable \<Rightarrow> canvas_action list \<Rightarrow> undoable" where
  "canvas_run st actions = foldl undoableReducer st actions"

subsection \<open>The callbacks of the hook\<close>

text \<open>The step counter is module state; the clock and the random suffix are arguments.\<close>

definition generateStepId :: "int \<Rightarrow> nat \<Rightarrow> string \<times> nat" where
  "generateStepId now counter =
     (''step_'' @ int_text now @ ''_'' @ nat_text (Suc counter), Suc counter)"

definition generateTransitionId :: "int \<Rightarrow> string \<Rightarrow> string" where
  "generateTransitionId now suffix = ''trans_'' @ int_text now @ ''_'' @ suffix"

definition defaultStepConfig :: "wf_step_type \<Rightarrow> wf_config" where
  "defaultStepConfig ty =
     (case ty of
        Approval \<Rightarrow> empty_config\<lparr>cf_approval_type := Some ''single'', cf_min_approvers := Some 1\<rparr>
      | Approval_chain \<Rightarrow>
          empty_config\<lparr>cf_approvers := Some [\<lparr>ap_kind = Role_approver, ap_ref = []\<rparr>],
            cf_mode := Some ''sequential'', cf_quorum := Some Q_all\<rparr>
      | Notification \<Rightarrow> empty_config\<lparr>cf_notification_channels := Some [''in_app'']\<rparr>
      | Delay \<Rightarrow> empty_config\<lparr>cf_delay_minutes := Some 60\<rparr>
      | Webhook \<Rightarrow> empty_config\<lparr>cf_webhook_method := Some ''POST''\<rparr>
      | _ \<Rightarrow> empty_config)"

definition defaultAssigneeStrategy :: assignee_strategy where
  "defaultAssigneeStrategy = Role []"

definition addStep ::
  "(wf_step_type \<Rightarrow> string) \<Rightarrow> int \<Rightarrow> undoable \<times> nat \<Rightarrow> wf_step_type \<Rightarrow> point \<Rightarrow> string option \<Rightarrow> string \<times> undoable \<times> nat" where
  "addStep formatLabel now st ty position name =
     (let (i, counter) = generateStepId now (snd st);
          step = \<lparr>ws_id = i, ws_name = given name (formatLabel ty), ws_type = ty,
                  ws_config = defaultStepConfig ty, ws_position = position, ws_transitions = Some [],
                  ws_timeout_minutes = None, ws_on_timeout = ''fail'',
                  ws_assignee = Some defaultAssigneeStrategy\<rparr>
      in (i, undoableReducer (fst st) (ADD_STEP step), counter))"

definition addTransition :: "int \<Rightarrow> string \<Rightarrow> undoable \<Rightarrow> string \<Rightarrow> string \<Rightarrow> string option \<Rightarrow> undoable" where
  "addTransition now suffix st fromStepId targetStepId label =
     undoableReducer st (ADD_TRANSITION fromStepId
       \<lparr>wt_id = generateTransitionId now suffix, wt_target = targetStepId, wt_label = given label [],
        wt_condition = None\<rparr>)"

record key_event =
  ke_meta :: bool
  ke_ctrl :: bool
  ke_shift :: bool
  ke_key :: string
  ke_in_field :: bool

text \<open>The keyboard handler; a selected id counts when it is not empty.\<close>

definition canvas_keydown :: "undoable \<Rightarrow> key_event \<Rightarrow> undoable" where
  "canvas_keydown st e =
     (let selected = cs_selectedStepId (ud_current st);
          st1 = (if (ke_meta e \<or> ke_ctrl e) \<and> ke_key e = ''z''
                 then undoableReducer st (if ke_shift e then REDO else UNDO) else st)
      in case selected of
           None \<Rightarrow> st1
         | Some i \<Rightarrow>
             if i \<noteq> [] \<and> (ke_key e = ''Delete'' \<or> ke_key e = ''Backspace'') \<and> \<not> ke_in_field e
             then undoableReducer st1 (REMOVE_STEP i) else st1)"

text \<open>\<open>Math.min(...xs)\<close> and \<open>Math.max(...xs)\<close> of a non-empty list.\<close>

fun min_of :: "rat list \<Rightarrow> rat" where
  "min_of [] = 0"
| "min_of (x # xs) = foldl min x xs"

fun max_of :: "rat list \<Rightarrow> rat" where
  "max_of [] = 0"
| "max_of (x # xs) = foldl max x xs"

definition fitToScreen :: "undoable \<Rightarrow> rat \<Rightarrow> rat \<Rightarrow> undoable" where
  "fitToScreen st containerWidth containerHeight =
     (let steps = cs_steps (ud_current st)
      in if steps = [] then st
         else
           let xs = map (fst \<circ> ws_position) steps; ys = map (snd \<circ> ws_position) steps;
               minX = min_of xs; maxX = max_of xs + 200; minY = min_of ys; maxY = max_of ys + 80;
               graphW = maxX - minX + 100; graphH = maxY - minY + 100;
               z = min (min (containerWidth / graphW) (containerHeight / graphH)) 1;
               panX = (containerWidth - graphW * z) / 2 - minX * z + 50;
               panY = (containerHeight - graphH * z) / 2 - minY * z + 50
           in undoableReducer (undoableReducer st (SET_ZOOM z)) (SET_PAN (panX, panY)))"

text \<open>dagre lays out nodes and edges and gives each node its centre; a step it does not return keeps its
  place.\<close>

definition layout_edges :: "wf_step list \<Rightarrow> (string \<times> string) list" where
  "layout_edges steps =
     concat (map (\<lambda>s. map (\<lambda>t. (ws_id s, t)) (filter (\<lambda>t. list_ex (\<lambda>r. ws_id r = t) steps) (targets s))) steps)"

definition autoLayout ::
  "(string list \<Rightarrow> (string \<times> string) list \<Rightarrow> string \<Rightarrow> point option) \<Rightarrow> undoable \<Rightarrow> undoable" where
  "autoLayout dagre st =
     (let steps = cs_steps (ud_current st)
      in if steps = [] then st
         else
           let node = dagre (map ws_id steps) (layout_edges steps)
           in undoableReducer st (SET_STEPS (map (\<lambda>s. case node (ws_id s) of
                None \<Rightarrow> s
              | Some p \<Rightarrow> s\<lparr>ws_position := (js_round (fst p - 100), js_round (snd p - 42))\<rparr>) steps) False))"

subsection \<open>Undo histories\<close>

text \<open>What the designer expects of an undo history. The time line is the past, the present and the
  future in order; undo and redo move the present along it.\<close>

locale edit_history =
  fixes present :: "'h \<Rightarrow> 's" and past future :: "'h \<Rightarrow> 's list" and undo redo :: "'h \<Rightarrow> 'h"
  assumes undo_past: "past h \<noteq> [] \<Longrightarrow>
      past (undo h) = butlast (past h) \<and> present (undo h) = last (past h) \<and> future (undo h) = present h # future h"
    and redo_future: "future h = f # fs \<Longrightarrow>
      past (redo h) = past h @ [present h] \<and> present (redo h) = f \<and> future (redo h) = fs"
    and same: "past h = past h' \<Longrightarrow> present h = present h' \<Longrightarrow> future h = future h' \<Longrightarrow> h = h'"
begin

definition time_line :: "'h \<Rightarrow> 's list" where
  "time_line h = past h @ present h # future h"

lemma redo_undo: "past h \<noteq> [] \<Longrightarrow> redo (undo h) = h"
  using undo_past [of h] redo_future [of "undo h" "present h" "future h"]
  by (intro same) simp_all

lemma undo_redo: "future h \<noteq> [] \<Longrightarrow> undo (redo h) = h"
  using redo_future [of h "hd (future h)" "tl (future h)"] undo_past [of "redo h"]
  by (intro same) simp_all

lemma undo_time_line: "past h \<noteq> [] \<Longrightarrow> time_line (undo h) = time_line h"
  using undo_past [of h] append_butlast_last_id [of "past h"] by (simp add: time_line_def)

lemma redo_time_line: "future h \<noteq> [] \<Longrightarrow> time_line (redo h) = time_line h"
  using redo_future [of h "hd (future h)" "tl (future h)"] by (simp add: time_line_def)

lemma undos:
  "n \<le> length (past h) \<Longrightarrow>
     time_line ((undo ^^ n) h) = time_line h \<and> past ((undo ^^ n) h) = take (length (past h) - n) (past h)"
proof (induction n)
  case (Suc n)
  then have "past ((undo ^^ n) h) = take (length (past h) - n) (past h)" "past ((undo ^^ n) h) \<noteq> []"
    "time_line ((undo ^^ n) h) = time_line h" by auto
  moreover have "butlast (take (length (past h) - n) (past h)) = take (length (past h) - Suc n) (past h)"
    by (simp add: butlast_take)
  ultimately show ?case using undo_past [of "(undo ^^ n) h"] undo_time_line [of "(undo ^^ n) h"] by simp
qed simp

lemma undos_present: "n \<le> length (past h) \<Longrightarrow> present ((undo ^^ n) h) = time_line h ! (length (past h) - n)"
proof -
  assume n: "n \<le> length (past h)"
  have "time_line ((undo ^^ n) h) ! length (past ((undo ^^ n) h)) = present ((undo ^^ n) h)"
    by (simp add: time_line_def)
  with undos [OF n] n show ?thesis by simp
qed

lemma redos_undos: "n \<le> length (past h) \<Longrightarrow> (redo ^^ n) ((undo ^^ n) h) = h"
proof (induction n)
  case (Suc n)
  then have "past ((undo ^^ n) h) \<noteq> []" using undos [of n h] by auto
  from redo_undo [OF this] Suc show ?case by (simp add: funpow_swap1)
qed simp

end

interpretation canvas: edit_history ud_current ud_past ud_future
  "\<lambda>st. undoableReducer st UNDO" "\<lambda>st. undoableReducer st REDO"
  by unfold_locales (auto simp: undoableReducer_def)

subsection \<open>Properties\<close>

text \<open>Undoing n recorded edits shows the state n entries back in the history, and redoing n times
  then brings back exactly the state before, past and future included.\<close>

theorem undo_redo_history:
  assumes "n \<le> length (ud_past st)"
  shows "ud_current (((\<lambda>s. undoableReducer s UNDO) ^^ n) st) = (ud_past st @ [ud_current st]) ! (length (ud_past st) - n) \<and>
    ((\<lambda>s. undoableReducer s REDO) ^^ n) (((\<lambda>s. undoableReducer s UNDO) ^^ n) st) = st"
  using canvas.undos_present [OF assms] canvas.redos_undos [OF assms]
  by (simp add: canvas.time_line_def nth_append)

definition history_bounds :: "undoable \<Rightarrow> bool" where
  "history_bounds st \<longleftrightarrow> length (ud_past st) + length (ud_future st) \<le> 50 \<and>
     cs_zoom ` set (ud_past st @ ud_current st # ud_future st) \<subseteq> {1/4..2}"

lemma history_bounds_line:
  "history_bounds st \<longleftrightarrow> length (canvas.time_line st) \<le> 51 \<and> cs_zoom ` set (canvas.time_line st) \<subseteq> {1/4..2}"
  by (auto simp: history_bounds_def canvas.time_line_def)

lemma clamp_zoom_bounds: "clamp_zoom z \<in> {1/4..2}"
  by (simp add: clamp_zoom_def)

lemma canvasReducer_zoom:
  "canvasReducer st a = Some st' \<Longrightarrow> cs_zoom st \<in> {1/4..2} \<Longrightarrow> cs_zoom st' \<in> {1/4..2}"
  using clamp_zoom_bounds by (cases a) (auto split: if_splits option.splits)

lemma slice_last_subset: "set (slice_last n xs) \<subseteq> set xs"
  by (auto simp: slice_last_def dest: in_set_dropD)

lemma undoable_bounds: "history_bounds st \<Longrightarrow> history_bounds (undoableReducer st a)"
proof -
  assume st: "history_bounds st"
  show ?thesis
  proof (cases "a = UNDO \<or> a = REDO")
    case True
    have "undoableReducer st UNDO = st" if "ud_past st = []"
      using that by (simp add: undoableReducer_def)
    moreover have "undoableReducer st REDO = st" if "ud_future st = []"
      using that by (simp add: undoableReducer_def)
    ultimately show ?thesis
      using True st canvas.undo_time_line [of st] canvas.redo_time_line [of st]
      unfolding history_bounds_line by metis
  next
    case False
    then have eq: "undoableReducer st a = (case canvasReducer (ud_current st) a of
             None \<Rightarrow> st
           | Some new \<Rightarrow>
               if step_modifying a
               then \<lparr>ud_current = new, ud_past = slice_last 49 (ud_past st) @ [ud_current st], ud_future = []\<rparr>
               else st\<lparr>ud_current := new\<rparr>)"
      by (auto simp: undoableReducer_def split: canvas_action.split)
    show ?thesis
    proof (cases "canvasReducer (ud_current st) a")
      case (Some new)
      have "cs_zoom new \<in> {1/4..2}"
        using canvasReducer_zoom [OF Some] st by (simp add: history_bounds_def)
      moreover have "length (slice_last 49 (ud_past st)) \<le> 49" by (simp add: slice_last_def)
      moreover have "cs_zoom ` set (slice_last 49 (ud_past st)) \<subseteq> {1/4..2}"
        using slice_last_subset st by (fastforce simp: history_bounds_def)
      ultimately show ?thesis using st Some
        by (simp add: eq history_bounds_def)
    qed (simp add: eq st)
  qed
qed

text \<open>Whatever is dispatched, the history holds at most fifty other states and every state in it
  is zoomed between a quarter and two.\<close>

theorem canvas_history_bounded:
  "history_bounds (canvas_run (canvas_start initialSteps) actions)"
proof -
  have "history_bounds st \<Longrightarrow> history_bounds (foldl undoableReducer st actions)" for st
    by (induction actions arbitrary: st) (auto intro: undoable_bounds)
  moreover have "history_bounds (canvas_start initialSteps)"
    by (simp add: history_bounds_def canvas_start_def canvas_initial_def)
  ultimately show ?thesis by (simp add: canvas_run_def)
qed

definition strip_target :: "string \<Rightarrow> wf_step \<Rightarrow> wf_step" where
  "strip_target i s = s\<lparr>ws_transitions := Some (filter (\<lambda>t. wt_target t \<noteq> i) (transitionsFor s))\<rparr>"

lemma strip_target_simps [simp]:
  "ws_id (strip_target i s) = ws_id s" "targets (strip_target i s) = filter (\<lambda>t. t \<noteq> i) (targets s)"
  by (simp_all add: strip_target_def targets_def transitionsFor_def filter_map comp_def)

lemma without_step_eq: "without_step i steps = map (strip_target i) (filter (\<lambda>s. ws_id s \<noteq> i) steps)"
  by (simp add: without_step_def strip_target_def)

lemma without_step_by_id:
  "map_of (steps_by_id (without_step i steps)) u =
     (if u = i then None else map_option (strip_target i) (map_of (steps_by_id steps) u))"
proof -
  have "map_of (map (\<lambda>s. (ws_id s, s)) (map (strip_target i) (filter (\<lambda>s. ws_id s \<noteq> i) xs))) u =
      (if u = i then None else map_option (strip_target i) (map_of (map (\<lambda>s. (ws_id s, s)) xs) u))" for xs
    by (induction xs) auto
  from this [of "rev steps"] show ?thesis
    by (simp add: steps_by_id_def js_simps without_step_eq rev_map rev_filter)
qed

lemma without_step_flow:
  "flow (steps_by_id (without_step i steps)) = flow (steps_by_id steps) \<inter> (- {i}) \<times> (- {i})"
  by (auto simp: flow_def without_step_by_id split: if_splits)

lemma without_step_ids:
  "i \<notin> ws_id ` set (without_step i steps)" "i \<notin> (\<Union>s \<in> set (without_step i steps). set (targets s))"
proof -
  show "i \<notin> ws_id ` set (without_step i steps)"
    by (auto simp: without_step_eq image_image)
  show "i \<notin> (\<Union>s \<in> set (without_step i steps). set (targets s))"
    by (simp add: without_step_eq)
qed

text \<open>Removing a step leaves neither the step nor a transition to it, keeps every other edge of the
  graph, drops a selection of it, and one undo brings the canvas back.\<close>

theorem remove_step_sound:
  "let before = cs_steps (ud_current st); after = undoableReducer st (REMOVE_STEP i)
   in i \<notin> ws_id ` set (cs_steps (ud_current after)) \<and>
    i \<notin> (\<Union>s \<in> set (cs_steps (ud_current after)). set (targets s)) \<and>
    flow (steps_by_id (cs_steps (ud_current after))) = flow (steps_by_id before) \<inter> (- {i}) \<times> (- {i}) \<and>
    cs_selectedStepId (ud_current after) \<noteq> Some i \<and>
    ud_current (undoableReducer after UNDO) = ud_current st"
proof -
  have "cs_steps (ud_current (undoableReducer st (REMOVE_STEP i))) = without_step i (cs_steps (ud_current st))"
    by (simp add: undoableReducer_def)
  moreover have "cs_selectedStepId (ud_current (undoableReducer st (REMOVE_STEP i))) \<noteq> Some i"
    by (simp add: undoableReducer_def)
  moreover have "ud_current (undoableReducer (undoableReducer st (REMOVE_STEP i)) UNDO) = ud_current st"
    by (simp add: undoableReducer_def)
  ultimately show ?thesis
    using without_step_ids [of i] by (simp only: Let_def without_step_flow) simp
qed

definition sample_session :: undoable where
  "sample_session = canvas_run (canvas_start None)
     [ADD_STEP (sample_step ''a'' Review []), SET_ZOOM 3, ADD_STEP (sample_step ''b'' End_step []),
      REMOVE_STEP ''a'']"

theorem undo_redo_history_witness:
  "map ws_id (cs_steps (ud_current (((\<lambda>s. undoableReducer s UNDO) ^^ 2) sample_session))) = [''a''] \<and>
   ((\<lambda>s. undoableReducer s REDO) ^^ 2) (((\<lambda>s. undoableReducer s UNDO) ^^ 2) sample_session) = sample_session"
proof -
  have "length (ud_past sample_session) = 3" by code_simp
  moreover have "map ws_id (cs_steps ((ud_past sample_session @ [ud_current sample_session]) ! 1)) = [''a'']"
    by code_simp
  ultimately show ?thesis using undo_redo_history [of 2 sample_session] by simp
qed

end
