(* ===== verification/WidgetBoard.thy ===== *)
theory WidgetBoard
  imports Web
begin

section \<open>Widget board of the dashboard\<close>

text \<open>
  Grid layout and persistence of the customisable dashboard:
  \<open>components/dashboard/widget-board/layout-utils.ts\<close> and the data of \<open>registry.tsx\<close>. Grid
  coordinates are rationals. A storage slot holds what \<open>JSON.parse\<close> makes of its text. The numeric
  reading of a text, which only the version check of a hand-edited file needs, is an argument.
\<close>

subsection \<open>Data\<close>

datatype board_bp = Lg | Md | Xs

definition BOARD_BREAKPOINT_IDS :: "board_bp list" where
  "BOARD_BREAKPOINT_IDS = [Lg, Md, Xs]"

fun BOARD_COLS :: "board_bp \<Rightarrow> rat" where
  "BOARD_COLS Lg = 12"
| "BOARD_COLS Md = 8"
| "BOARD_COLS Xs = 4"

fun bp_name :: "board_bp \<Rightarrow> string" where
  "bp_name Lg = ''lg''"
| "bp_name Md = ''md''"
| "bp_name Xs = ''xs''"

definition pxToRows :: "rat \<Rightarrow> rat" where
  "pxToRows px = max 1 (of_int \<lceil>(px + 24) / 2\<rceil>)"

record persisted_item =
  pi_i :: string
  pi_x :: rat
  pi_y :: rat
  pi_w :: rat
  pi_h :: rat

text \<open>The four choices of a stored board are JSON values: the guards below let values through that
  are not the strings and numbers of their TypeScript types.\<close>

record user_board =
  ub_hidden :: "string list"
  ub_sized :: "string list"
  ub_layouts :: "board_bp \<Rightarrow> persisted_item list option"
  ub_preset :: json
  ub_scope :: json
  ub_horizonDays :: json
  ub_alertThreshold :: json

definition createEmptyBoard :: user_board where
  "createEmptyBoard = \<lparr>ub_hidden = [], ub_sized = [], ub_layouts = (\<lambda>_. None),
     ub_preset = JStr ''recommended'', ub_scope = JStr ''all'', ub_horizonDays = JNum (Fin 30),
     ub_alertThreshold = JStr ''high''\<rparr>"

datatype dashboard_preset = Recommended | My_work | Operations | Executive_risk | Admin_preset

fun preset_name :: "dashboard_preset \<Rightarrow> string" where
  "preset_name Recommended = ''recommended''"
| "preset_name My_work = ''my-work''"
| "preset_name Operations = ''operations''"
| "preset_name Executive_risk = ''executive-risk''"
| "preset_name Admin_preset = ''admin''"

fun PRESET_HIDDEN_WIDGETS :: "dashboard_preset \<Rightarrow> string list" where
  "PRESET_HIDDEN_WIDGETS Recommended = []"
| "PRESET_HIDDEN_WIDGETS My_work = [''suites-launcher'', ''onboarding-checklist'', ''metrics-strip'']"
| "PRESET_HIDDEN_WIDGETS Operations = [''welcome-hero'', ''onboarding-checklist'', ''activity-timeline'']"
| "PRESET_HIDDEN_WIDGETS Executive_risk = [''onboarding-checklist'', ''recent-alerts'', ''my-tasks'']"
| "PRESET_HIDDEN_WIDGETS Admin_preset = [''critical-alerts'', ''recent-alerts'', ''my-tasks'']"

definition applyBoardPreset :: "user_board \<Rightarrow> dashboard_preset \<Rightarrow> user_board" where
  "applyBoardPreset board preset =
     board\<lparr>ub_preset := JStr (preset_name preset), ub_hidden := PRESET_HIDDEN_WIDGETS preset,
           ub_sized := [], ub_layouts := (\<lambda>_. None)\<rparr>"

definition isCustomized :: "user_board \<Rightarrow> bool" where
  "isCustomized board \<longleftrightarrow>
     0 < length (ub_hidden board) \<or> 0 < length (ub_sized board) \<or>
     list_ex (\<lambda>bp. ub_layouts board bp \<noteq> None) BOARD_BREAKPOINT_IDS \<or>
     ub_preset board \<noteq> JStr ''recommended'' \<or> ub_scope board \<noteq> JStr ''all'' \<or>
     ub_horizonDays board \<noteq> JNum (Fin 30) \<or> ub_alertThreshold board \<noteq> JStr ''high''"

subsection \<open>Guards on stored values\<close>

text \<open>\<open>String(value)\<close> as far as a comparison with words needs it: None for a value whose text holds a
  numeral, \<open>Infinity\<close> or \<open>NaN\<close>, which no word of the lists does.\<close>

fun js_word :: "json option \<Rightarrow> string option" and js_words :: "json list \<Rightarrow> string list option" where
  "js_word None = Some ''undefined''"
| "js_word (Some JNull) = Some ''null''"
| "js_word (Some (JBool b)) = Some (if b then ''true'' else ''false'')"
| "js_word (Some (JNum _)) = None"
| "js_word (Some (JStr s)) = Some s"
| "js_word (Some (JArr vs)) = map_option (js_join '','') (js_words vs)"
| "js_word (Some (JObj _)) = Some ''[object Object]''"
| "js_words [] = Some []"
| "js_words (v # vs) =
     (case (if v = JNull then Some [] else js_word (Some v), js_words vs) of
        (Some w, Some ws) \<Rightarrow> Some (w # ws)
      | _ \<Rightarrow> None)"

definition includes_word :: "string list \<Rightarrow> json option \<Rightarrow> bool" where
  "includes_word ws v = (case js_word v of None \<Rightarrow> False | Some w \<Rightarrow> w \<in> set ws)"

definition isPreset :: "json option \<Rightarrow> bool" where
  "isPreset v = includes_word [''recommended'', ''my-work'', ''operations'', ''executive-risk'', ''admin''] v"

definition isScope :: "json option \<Rightarrow> bool" where
  "isScope v = includes_word [''all'', ''watheeq'', ''cyber'', ''data''] v"

definition isHorizon :: "json option \<Rightarrow> bool" where
  "isHorizon v \<longleftrightarrow> v = Some (JNum (Fin 7)) \<or> v = Some (JNum (Fin 30)) \<or> v = Some (JNum (Fin 90))"

definition isAlertThreshold :: "json option \<Rightarrow> bool" where
  "isAlertThreshold v = includes_word [''critical'', ''high'', ''medium''] v"

definition sanitizeStringArray :: "json option \<Rightarrow> string list" where
  "sanitizeStringArray v =
     (case v of
        Some (JArr vs) \<Rightarrow> concat (map (\<lambda>x. case x of JStr s \<Rightarrow> [s] | _ \<Rightarrow> []) vs)
      | _ \<Rightarrow> [])"

text \<open>An item is kept when its id is a string and its four numbers are finite.\<close>

definition item_of_json :: "json \<Rightarrow> persisted_item list" where
  "item_of_json v =
     (case (json_get v ''i'', json_get v ''x'', json_get v ''y'', json_get v ''w'', json_get v ''h'') of
        (Some (JStr i), Some (JNum (Fin x)), Some (JNum (Fin y)), Some (JNum (Fin w)), Some (JNum (Fin h))) \<Rightarrow>
          [\<lparr>pi_i = i, pi_x = x, pi_y = y, pi_w = w, pi_h = h\<rparr>]
      | _ \<Rightarrow> [])"

definition sanitizePersistedItems :: "json option \<Rightarrow> persisted_item list option" where
  "sanitizePersistedItems v =
     (case v of
        Some (JArr vs) \<Rightarrow>
          (let items = concat (map item_of_json vs) in if items = [] then None else Some items)
      | _ \<Rightarrow> None)"

definition chosen :: "(json option \<Rightarrow> bool) \<Rightarrow> json option \<Rightarrow> json \<Rightarrow> json" where
  "chosen ok v d = (if ok v then (case v of None \<Rightarrow> d | Some x \<Rightarrow> x) else d)"

definition is_object :: "json \<Rightarrow> bool" where
  "is_object v \<longleftrightarrow> (case v of JArr _ \<Rightarrow> True | JObj _ \<Rightarrow> True | _ \<Rightarrow> False)"

text \<open>\<open>entry.layouts?.[bp]\<close>\<close>

definition stored_items :: "json \<Rightarrow> board_bp \<Rightarrow> persisted_item list option" where
  "stored_items entry bp =
     sanitizePersistedItems (case json_get entry ''layouts'' of None \<Rightarrow> None | Some ls \<Rightarrow> json_get ls (bp_name bp))"

definition sanitizeUserBoard :: "json option \<Rightarrow> user_board option" where
  "sanitizeUserBoard v =
     (case v of
        None \<Rightarrow> None
      | Some entry \<Rightarrow>
          if \<not> is_object entry then None
          else Some \<lparr>ub_hidden = sanitizeStringArray (json_get entry ''hidden''),
            ub_sized = sanitizeStringArray (json_get entry ''sized''),
            ub_layouts = stored_items entry,
            ub_preset = chosen isPreset (json_get entry ''preset'') (JStr ''recommended''),
            ub_scope = chosen isScope (json_get entry ''scope'') (JStr ''all''),
            ub_horizonDays = chosen isHorizon (json_get entry ''horizonDays'') (JNum (Fin 30)),
            ub_alertThreshold = chosen isAlertThreshold (json_get entry ''alertThreshold'') (JStr ''high'')\<rparr>)"

subsection \<open>Local storage\<close>

datatype slot = Slot_empty | Slot_invalid | Slot_json json

record board_storage =
  bs_v2 :: "slot option"
  bs_v1 :: "slot option"

text \<open>\<open>Number(value)\<close>; \<open>num_of\<close> reads a text.\<close>

fun js_Number :: "(string \<Rightarrow> js_num) \<Rightarrow> json option \<Rightarrow> js_num" where
  "js_Number num_of None = NaN"
| "js_Number num_of (Some JNull) = Fin 0"
| "js_Number num_of (Some (JBool b)) = Fin (if b then 1 else 0)"
| "js_Number num_of (Some (JNum n)) = n"
| "js_Number num_of (Some (JStr s)) = num_of s"
| "js_Number num_of (Some (JArr [])) = Fin 0"
| "js_Number num_of (Some (JArr [v])) =
     (case v of JBool _ \<Rightarrow> NaN | JObj _ \<Rightarrow> NaN | _ \<Rightarrow> js_Number num_of (Some v))"
| "js_Number num_of (Some (JArr (v # w # vs))) = NaN"
| "js_Number num_of (Some (JObj _)) = NaN"

definition readFile :: "(string \<Rightarrow> js_num) \<Rightarrow> board_storage option \<Rightarrow> json option" where
  "readFile num_of st =
     (case st of
        None \<Rightarrow> None
      | Some s \<Rightarrow>
          (case (case bs_v2 s of None \<Rightarrow> bs_v1 s | Some r \<Rightarrow> Some r) of
             Some (Slot_json v) \<Rightarrow>
               if \<not> json_truthy v \<or> \<not> is_object v \<or>
                  js_Number num_of (json_get v ''version'') \<notin> {Fin 1, Fin 2} \<or>
                  (case json_get v ''users'' of None \<Rightarrow> True | Some u \<Rightarrow> \<not> (u = JNull \<or> is_object u))
               then None else Some v
           | _ \<Rightarrow> None))"

definition readUserBoard :: "(string \<Rightarrow> js_num) \<Rightarrow> string \<Rightarrow> board_storage option \<Rightarrow> user_board option" where
  "readUserBoard num_of userKey st =
     sanitizeUserBoard (case readFile num_of st of
        None \<Rightarrow> None
      | Some f \<Rightarrow> (case json_get f ''users'' of None \<Rightarrow> None | Some us \<Rightarrow> json_get us userKey))"

definition entry_put :: "string \<Rightarrow> json \<Rightarrow> (string \<times> json) list \<Rightarrow> (string \<times> json) list" where
  "entry_put k v es =
     (if k \<in> fst ` set es then map (\<lambda>e. if fst e = k then (k, v) else e) es else es @ [(k, v)])"

definition json_put :: "string \<Rightarrow> json \<Rightarrow> json \<Rightarrow> json" where
  "json_put k v j = (case j of JObj es \<Rightarrow> JObj (entry_put k v es) | _ \<Rightarrow> j)"

definition item_json :: "persisted_item \<Rightarrow> json" where
  "item_json p = JObj [(''i'', JStr (pi_i p)), (''x'', JNum (Fin (pi_x p))), (''y'', JNum (Fin (pi_y p))),
     (''w'', JNum (Fin (pi_w p))), (''h'', JNum (Fin (pi_h p)))]"

definition board_json :: "user_board \<Rightarrow> json" where
  "board_json b = JObj [(''hidden'', JArr (map JStr (ub_hidden b))), (''sized'', JArr (map JStr (ub_sized b))),
     (''layouts'', JObj (concat (map (\<lambda>bp. case ub_layouts b bp of
         None \<Rightarrow> [] | Some items \<Rightarrow> [(bp_name bp, JArr (map item_json items))]) BOARD_BREAKPOINT_IDS))),
     (''preset'', ub_preset b), (''scope'', ub_scope b), (''horizonDays'', ub_horizonDays b),
     (''alertThreshold'', ub_alertThreshold b)]"

text \<open>\<open>setItem\<close> throws when the storage is full (\<open>writable\<close> is False), and so does an assignment to a
  property of \<open>null\<close>; both are swallowed. A property set on an array is not serialised.\<close>

definition writeUserBoard ::
  "(string \<Rightarrow> js_num) \<Rightarrow> bool \<Rightarrow> string \<Rightarrow> user_board option \<Rightarrow> board_storage option \<Rightarrow> board_storage option" where
  "writeUserBoard num_of writable userKey board st =
     (case st of
        None \<Rightarrow> None
      | Some s \<Rightarrow>
          (let file = json_put ''version'' (JNum (Fin 2)) (case readFile num_of st of
                 Some f \<Rightarrow> f
               | None \<Rightarrow> JObj [(''version'', JNum (Fin 2)), (''users'', JObj [])]);
               store = (\<lambda>f. if writable then Some (s\<lparr>bs_v2 := Some (Slot_json f), bs_v1 := None\<rparr>) else st)
           in case json_get file ''users'' of
                Some JNull \<Rightarrow> st
              | Some (JObj es) \<Rightarrow>
                  store (json_put ''users'' (JObj (case board of
                      Some b \<Rightarrow> entry_put userKey (board_json b) es
                    | None \<Rightarrow> filter (\<lambda>e. fst e \<noteq> userKey) es)) file)
              | _ \<Rightarrow> store file))"

lemma entry_put_get: "map_of (rev (entry_put k v es)) j = (if j = k then Some v else map_of (rev es) j)"
proof -
  have "map_of (map (\<lambda>e. if fst e = k then (k, v) else e) xs) j =
      (if j = k then map_option (\<lambda>_. v) (map_of xs k) else map_of xs j)" for xs :: "(string \<times> json) list"
    by (induction xs) auto
  note replaced = this
  show ?thesis
  proof (cases "k \<in> fst ` set es")
    case True
    then have "map_of (rev es) k \<noteq> None" by (simp add: map_of_eq_None_iff)
    with True show ?thesis using replaced [of "rev es"] by (auto simp: entry_put_def rev_map)
  qed (simp add: entry_put_def map_add_def split: option.split)
qed

lemma entry_del_get:
  fixes k :: string
  shows "map_of (rev (filter (\<lambda>e. fst e \<noteq> k) es)) j = (if j = k then None else map_of (rev es) j)"
proof -
  have "map_of (filter (\<lambda>e. fst e \<noteq> k) xs) j = (if j = k then None else map_of xs j)" for xs
    by (induction xs) auto
  from this [of "rev es"] show ?thesis by (simp add: rev_filter)
qed

text \<open>A board as the guards leave it, and its way through the storage.\<close>

definition board_ok :: "user_board \<Rightarrow> bool" where
  "board_ok b \<longleftrightarrow> isPreset (Some (ub_preset b)) \<and> isScope (Some (ub_scope b)) \<and>
     isHorizon (Some (ub_horizonDays b)) \<and> isAlertThreshold (Some (ub_alertThreshold b)) \<and>
     ub_layouts b Lg \<noteq> Some [] \<and> ub_layouts b Md \<noteq> Some [] \<and> ub_layouts b Xs \<noteq> Some []"

lemma item_of_item_json: "item_of_json (item_json p) = [p]"
  by (simp add: item_of_json_def item_json_def json_get_def)

lemma concat_singletons: "concat (map (\<lambda>x. [x]) xs) = xs"
  by (induction xs) auto

lemma sanitize_items_json:
  "sanitizePersistedItems (Some (JArr (map item_json items))) = (if items = [] then None else Some items)"
proof -
  have "concat (map item_of_json (map item_json items)) = items"
    by (simp add: comp_def item_of_item_json concat_singletons)
  then show ?thesis by (simp only: sanitizePersistedItems_def option.case json.case Let_def)
qed

lemma sanitize_board_json: "board_ok b \<Longrightarrow> sanitizeUserBoard (Some (board_json b)) = Some b"
proof -
  assume ok: "board_ok b"
  have "stored_items (board_json b) bp = sanitizePersistedItems
      (map_option (\<lambda>items. JArr (map item_json items)) (ub_layouts b bp))" for bp
    by (cases bp; cases "ub_layouts b Lg"; cases "ub_layouts b Md"; cases "ub_layouts b Xs")
       (simp_all add: stored_items_def board_json_def json_get_def BOARD_BREAKPOINT_IDS_def)
  moreover have "ub_layouts b bp \<noteq> Some []" for bp using ok by (cases bp) (simp_all add: board_ok_def)
  moreover have "sanitizePersistedItems None = None" by (simp add: sanitizePersistedItems_def)
  ultimately have "stored_items (board_json b) bp = ub_layouts b bp" for bp
    by (cases "ub_layouts b bp") (auto simp: sanitize_items_json)
  then have "stored_items (board_json b) = ub_layouts b" ..
  moreover have "sanitizeStringArray (Some (JArr (map JStr ss))) = ss" for ss
    by (simp add: sanitizeStringArray_def comp_def concat_singletons)
  ultimately show ?thesis using ok
    by (simp add: sanitizeUserBoard_def board_json_def is_object_def json_get_def chosen_def board_ok_def)
qed

lemma readFile_object: "readFile num_of st = Some f \<Longrightarrow> \<exists>es. f = JObj es"
  by (cases f) (auto simp: readFile_def is_object_def json_get_def split: option.splits slot.splits if_splits)

lemma json_get_put: "json_get (json_put k v (JObj es)) j = (if j = k then Some v else json_get (JObj es) j)"
  by (simp add: json_get_def json_put_def entry_put_get)

lemma readUserBoard_stored:
  fixes s :: board_storage
  assumes "json_get f ''version'' = Some (JNum (Fin 2))" "json_get f ''users'' = Some us" "is_object us"
  shows "readUserBoard num_of k (Some (s\<lparr>bs_v2 := Some (Slot_json f), bs_v1 := None\<rparr>)) = sanitizeUserBoard (json_get us k)"
  using assms by (cases f) (auto simp: readUserBoard_def readFile_def is_object_def json_get_def)

text \<open>The file an update starts from, and what the update does to it.\<close>

definition board_file :: "(string \<Rightarrow> js_num) \<Rightarrow> board_storage option \<Rightarrow> json" where
  "board_file num_of st = (case readFile num_of st of
     Some f \<Rightarrow> f | None \<Rightarrow> JObj [(''version'', JNum (Fin 2)), (''users'', JObj [])])"

lemma board_file_shape:
  obtains es us where "board_file num_of st = JObj es" "json_get (JObj es) ''users'' = Some us" "us = JNull \<or> is_object us"
proof (cases "readFile num_of st")
  case None
  then show ?thesis
    by (intro that [where es = "[(''version'', JNum (Fin 2)), (''users'', JObj [])]" and us = "JObj []"]) (simp_all add: board_file_def json_get_def is_object_def)
next
  case (Some f)
  from readFile_object [OF Some] obtain es where f: "f = JObj es" by blast
  moreover have "\<exists>us. json_get f ''users'' = Some us \<and> (us = JNull \<or> is_object us)"
    using Some by (auto simp: readFile_def split: option.splits slot.splits if_splits)
  ultimately show ?thesis using Some that by (auto simp: board_file_def)
qed

lemma write_read_cases:
  fixes s :: board_storage
  assumes "board_file num_of (Some s) = JObj es" "json_get (JObj es) ''users'' = Some us" "us = JNull \<or> is_object us"
  shows "readUserBoard num_of k' (writeUserBoard num_of True k board (Some s)) =
    (case us of
       JNull \<Rightarrow> readUserBoard num_of k' (Some s)
     | JObj es \<Rightarrow>
         (if k' = k then sanitizeUserBoard (map_option board_json board) else sanitizeUserBoard (json_get us k'))
     | _ \<Rightarrow> None)"
proof (cases us)
  case (JArr vs)
  have "writeUserBoard num_of True k board (Some s) =
      Some (s\<lparr>bs_v2 := Some (Slot_json (json_put ''version'' (JNum (Fin 2)) (JObj es))), bs_v1 := None\<rparr>)"
    using assms(1,2) JArr by (simp add: writeUserBoard_def board_file_def json_get_put)
  moreover have "json_get us k' = None" using JArr by (simp add: json_get_def)
  moreover have "sanitizeUserBoard None = None" by (simp add: sanitizeUserBoard_def)
  ultimately show ?thesis using assms(2,3) JArr
    by (simp add: readUserBoard_stored [where us = us] json_get_put)
next
  case (JObj us')
  let ?es = "case board of Some b \<Rightarrow> entry_put k (board_json b) us' | None \<Rightarrow> filter (\<lambda>e. fst e \<noteq> k) us'"
  let ?f = "json_put ''users'' (JObj ?es) (json_put ''version'' (JNum (Fin 2)) (JObj es))"
  have "writeUserBoard num_of True k board (Some s) = Some (s\<lparr>bs_v2 := Some (Slot_json ?f), bs_v1 := None\<rparr>)"
    using assms(1,2) JObj by (simp add: writeUserBoard_def board_file_def json_get_put)
  moreover have "json_get ?f ''version'' = Some (JNum (Fin 2))" "json_get ?f ''users'' = Some (JObj ?es)"
    using json_get_put by (simp_all add: json_put_def json_get_def entry_put_get)
  moreover have "json_get (JObj ?es) k' = (if k' = k then map_option board_json board else json_get us k')"
    using JObj by (cases board) (simp_all add: json_get_def entry_put_get entry_del_get)
  ultimately show ?thesis using JObj
    by (simp add: readUserBoard_stored [where us = "JObj ?es"] is_object_def)
qed (use assms in \<open>simp_all add: writeUserBoard_def board_file_def json_get_put is_object_def\<close>)

text \<open>A written board is read back unchanged, and the boards of the other users are those read
  before. The exception is a stored file whose \<open>users\<close> is \<open>null\<close> or an array: it is accepted as a file,
  and every board written to it is lost.\<close>

theorem board_write_read:
  assumes ok: "board_ok b"
  shows "readUserBoard num_of k' (writeUserBoard num_of True k (Some b) (Some s)) =
    (case readFile num_of (Some s) of
       None \<Rightarrow> if k' = k then Some b else None
     | Some f \<Rightarrow>
         (case json_get f ''users'' of
            Some (JObj es) \<Rightarrow> if k' = k then Some b else readUserBoard num_of k' (Some s)
          | _ \<Rightarrow> None))"
proof -
  obtain es us where bf: "board_file num_of (Some s) = JObj es" "json_get (JObj es) ''users'' = Some us"
    "us = JNull \<or> is_object us"
    by (rule board_file_shape)
  note result = write_read_cases [OF bf, of k' k "Some b"]
  show ?thesis
  proof (cases "readFile num_of (Some s)")
    case None
    with bf have "us = JObj []" by (auto simp: board_file_def json_get_def)
    moreover have "sanitizeUserBoard (json_get (JObj []) k') = None"
      by (simp add: sanitizeUserBoard_def json_get_def)
    ultimately show ?thesis using None by (simp add: result sanitize_board_json [OF ok])
  next
    case (Some f)
    with bf have f: "f = JObj es" by (simp add: board_file_def)
    have "readUserBoard num_of k' (Some s) = sanitizeUserBoard (json_get us k')"
      using Some f bf(2) by (simp add: readUserBoard_def)
    moreover have "sanitizeUserBoard (json_get us k') = None" if "us = JNull"
      using that by (simp add: sanitizeUserBoard_def json_get_def)
    ultimately show ?thesis using Some f bf(2,3) by (cases us) (simp_all add: result is_object_def sanitize_board_json [OF ok])
  qed
qed

theorem board_write_read_witness:
  "readUserBoard (\<lambda>_. NaN) ''u'' (writeUserBoard (\<lambda>_. NaN) True ''u''
     (Some (applyBoardPreset createEmptyBoard Operations)) (Some \<lparr>bs_v2 = None, bs_v1 = None\<rparr>)) =
   Some (applyBoardPreset createEmptyBoard Operations)"
proof -
  have "board_ok (applyBoardPreset createEmptyBoard Operations)" by code_simp
  moreover have "readFile (\<lambda>_. NaN) (Some \<lparr>bs_v2 = None, bs_v1 = None\<rparr>) = None" by code_simp
  ultimately show ?thesis
    using board_write_read [of "applyBoardPreset createEmptyBoard Operations" "\<lambda>_. NaN" "''u''" "''u''" "\<lparr>bs_v2 = None, bs_v1 = None\<rparr>"]
    by simp
qed

end
