(* ===== verification/BoardLayout.thy ===== *)
theory BoardLayout
  imports WidgetBoard "HOL-Library.Multiset"
begin

section \<open>Grid layouts of the widget board\<close>

text \<open>
  The widget registry and the layout functions of
  \<open>components/dashboard/widget-board/\<close>\<open>{registry.tsx, layout-utils.ts}\<close>: the default layout, the
  repair of a stored one, stacking and mirroring. The placement functions take the heights of the
  known widgets as an argument; the locale \<open>grid_placement\<close> proves what holds for any such heights.
\<close>

subsection \<open>Widgets\<close>

record widget_definition =
  wd_id :: string
  wd_permission :: "string option"
  wd_suite :: string
  wd_estimatedHeightPx :: rat
  wd_minHeightPx :: rat
  wd_minW :: rat

definition WIDGET_REGISTRY :: "widget_definition list" where
  "WIDGET_REGISTRY =
     [\<lparr>wd_id = ''critical-alerts'', wd_permission = Some ''cyber:read'', wd_suite = ''cyber'',
       wd_estimatedHeightPx = 56, wd_minHeightPx = 48, wd_minW = 6\<rparr>,
      \<lparr>wd_id = ''welcome-hero'', wd_permission = None, wd_suite = ''all'',
       wd_estimatedHeightPx = 176, wd_minHeightPx = 120, wd_minW = 6\<rparr>,
      \<lparr>wd_id = ''suites-launcher'', wd_permission = None, wd_suite = ''all'',
       wd_estimatedHeightPx = 360, wd_minHeightPx = 160, wd_minW = 4\<rparr>,
      \<lparr>wd_id = ''onboarding-checklist'', wd_permission = None, wd_suite = ''all'',
       wd_estimatedHeightPx = 320, wd_minHeightPx = 140, wd_minW = 4\<rparr>,
      \<lparr>wd_id = ''kpi-strip'', wd_permission = None, wd_suite = ''all'',
       wd_estimatedHeightPx = 194, wd_minHeightPx = 170, wd_minW = 4\<rparr>,
      \<lparr>wd_id = ''metrics-strip'', wd_permission = None, wd_suite = ''all'',
       wd_estimatedHeightPx = 78, wd_minHeightPx = 64, wd_minW = 4\<rparr>,
      \<lparr>wd_id = ''recent-alerts'', wd_permission = Some ''cyber:read'', wd_suite = ''cyber'',
       wd_estimatedHeightPx = 420, wd_minHeightPx = 180, wd_minW = 4\<rparr>,
      \<lparr>wd_id = ''my-tasks'', wd_permission = None, wd_suite = ''all'',
       wd_estimatedHeightPx = 420, wd_minHeightPx = 180, wd_minW = 4\<rparr>,
      \<lparr>wd_id = ''activity-timeline'', wd_permission = None, wd_suite = ''all'',
       wd_estimatedHeightPx = 420, wd_minHeightPx = 180, wd_minW = 4\<rparr>]"

definition DEFAULT_ROWS :: "string list list" where
  "DEFAULT_ROWS = [[''critical-alerts''], [''welcome-hero''], [''kpi-strip''], [''onboarding-checklist''],
     [''metrics-strip''], [''recent-alerts'', ''my-tasks''], [''suites-launcher''], [''activity-timeline'']]"

definition getWidgetDefinition :: "string \<Rightarrow> widget_definition option" where
  "getWidgetDefinition i = find (\<lambda>d. wd_id d = i) WIDGET_REGISTRY"

text \<open>\<open>pxToRows(def.estimatedHeightPx)\<close> of a known widget.\<close>

definition widget_rows :: "string \<Rightarrow> rat option" where
  "widget_rows i = map_option (pxToRows \<circ> wd_estimatedHeightPx) (getWidgetDefinition i)"

subsection \<open>Layouts\<close>

text \<open>Placing a widget over the full width at \<open>y\<close>; an unknown widget is skipped.\<close>

definition place_full ::
  "(string \<Rightarrow> rat option) \<Rightarrow> rat \<Rightarrow> persisted_item list \<times> rat \<Rightarrow> string \<Rightarrow> persisted_item list \<times> rat" where
  "place_full rows_of cols st i =
     (case rows_of i of
        None \<Rightarrow> st
      | Some h \<Rightarrow> (fst st @ [\<lparr>pi_i = i, pi_x = 0, pi_y = snd st, pi_w = cols, pi_h = h\<rparr>], snd st + h))"

text \<open>The widgets of a shared row; the last one takes what is left of the width.\<close>

fun place_shared ::
  "(string \<Rightarrow> rat option) \<Rightarrow> rat \<Rightarrow> rat \<Rightarrow> rat \<Rightarrow> persisted_item list \<times> rat \<times> rat \<Rightarrow> string list \<Rightarrow>
     persisted_item list \<times> rat \<times> rat" where
  "place_shared rows_of cols wd y st [] = st"
| "place_shared rows_of cols wd y (items, x, rowH) (i # is) =
     (case rows_of i of
        None \<Rightarrow> place_shared rows_of cols wd y (items, x, rowH) is
      | Some h \<Rightarrow>
          let w = (if is = [] then cols - x else wd)
          in place_shared rows_of cols wd y
               (items @ [\<lparr>pi_i = i, pi_x = x, pi_y = y, pi_w = w, pi_h = h\<rparr>], x + w, max rowH h) is)"

definition place_row ::
  "(string \<Rightarrow> rat option) \<Rightarrow> rat \<Rightarrow> bool \<Rightarrow> string list \<Rightarrow> persisted_item list \<times> rat \<Rightarrow> string list \<Rightarrow>
     persisted_item list \<times> rat" where
  "place_row rows_of cols narrow enabledIds st row =
     (let rowIds = filter (\<lambda>i. i \<in> set enabledIds) row
      in if rowIds = [] then st
         else if narrow \<or> length rowIds = 1 then foldl (place_full rows_of cols) st rowIds
         else
           let (items, x, rowH) = place_shared rows_of cols (of_int \<lfloor>cols / of_nat (length rowIds)\<rfloor>) (snd st)
                 (fst st, 0, 1) rowIds
           in (items, snd st + rowH))"

definition buildDefaultLayout :: "board_bp \<Rightarrow> string list \<Rightarrow> persisted_item list" where
  "buildDefaultLayout bp enabledIds =
     fst (foldl (\<lambda>st i. if list_ex (\<lambda>it. pi_i it = i) (fst st) then st
                        else place_full widget_rows (BOARD_COLS bp) st i)
       (foldl (place_row widget_rows (BOARD_COLS bp) (bp = Xs) enabledIds) ([], 0) DEFAULT_ROWS)
       enabledIds)"

text \<open>\<open>v || d\<close> on a number.\<close>

definition or_else :: "rat \<Rightarrow> rat \<Rightarrow> rat" where
  "or_else v d = (if v = 0 then d else v)"

definition clamp_item :: "rat \<Rightarrow> persisted_item \<Rightarrow> persisted_item" where
  "clamp_item cols it =
     (let w = max 1 (min (or_else (js_round (pi_w it)) 1) cols);
          x = max 0 (min (or_else (js_round (pi_x it)) 0) (cols - w))
      in \<lparr>pi_i = pi_i it, pi_x = x, pi_y = max 0 (or_else (js_round (pi_y it)) 0), pi_w = w,
          pi_h = max 1 (or_else (js_round (pi_h it)) 1)\<rparr>)"

definition sanitizeLayout :: "persisted_item list option \<Rightarrow> board_bp \<Rightarrow> string list \<Rightarrow> persisted_item list" where
  "sanitizeLayout stored bp enabledIds =
     (case stored of
        None \<Rightarrow> buildDefaultLayout bp enabledIds
      | Some its \<Rightarrow>
          (let kept = map (clamp_item (BOARD_COLS bp))
                 (filter (\<lambda>it. pi_i it \<in> set enabledIds \<and> getWidgetDefinition (pi_i it) \<noteq> None) its);
               present = set (map pi_i kept);
               bottom = foldl (\<lambda>m it. max m (pi_y it + pi_h it)) 0 kept
           in fst (foldl (\<lambda>st i. if i \<in> present then st else place_full widget_rows (BOARD_COLS bp) st i)
                (kept, bottom) enabledIds)))"

text \<open>Reading order: by row, then by column. The comparison of \<open>stackLayout\<close> as an order type.\<close>

datatype grid_pos = Grid_pos (gp_y: rat) (gp_x: rat)

instantiation grid_pos :: linorder
begin

definition less_eq_grid_pos :: "grid_pos \<Rightarrow> grid_pos \<Rightarrow> bool" where
  "less_eq_grid_pos a b \<longleftrightarrow> gp_y a < gp_y b \<or> gp_y a = gp_y b \<and> gp_x a \<le> gp_x b"

definition less_grid_pos :: "grid_pos \<Rightarrow> grid_pos \<Rightarrow> bool" where
  "less_grid_pos a b \<longleftrightarrow> gp_y a < gp_y b \<or> gp_y a = gp_y b \<and> gp_x a < gp_x b"

instance
  by standard (auto simp: less_eq_grid_pos_def less_grid_pos_def intro: grid_pos.expand)

end

fun stack_from :: "rat \<Rightarrow> rat \<Rightarrow> persisted_item list \<Rightarrow> persisted_item list" where
  "stack_from cols y [] = []"
| "stack_from cols y (it # its) =
     \<lparr>pi_i = pi_i it, pi_x = 0, pi_y = y, pi_w = cols, pi_h = pi_h it\<rparr> # stack_from cols (y + pi_h it) its"

definition stackLayout :: "persisted_item list \<Rightarrow> board_bp \<Rightarrow> persisted_item list" where
  "stackLayout its bp = stack_from (BOARD_COLS bp) 0 (sort_key (\<lambda>it. Grid_pos (pi_y it) (pi_x it)) its)"

definition mirrorLayout :: "persisted_item list \<Rightarrow> rat \<Rightarrow> persisted_item list" where
  "mirrorLayout its cols = map (\<lambda>it. it\<lparr>pi_x := max 0 (cols - pi_x it - pi_w it)\<rparr>) its"

subsection \<open>Placement\<close>

text \<open>An item within the columns, and two items that do not overlap.\<close>

definition in_columns :: "rat \<Rightarrow> persisted_item \<Rightarrow> bool" where
  "in_columns cols it \<longleftrightarrow> 0 \<le> pi_x it \<and> 1 \<le> pi_w it \<and> pi_x it + pi_w it \<le> cols \<and> 0 \<le> pi_y it \<and> 1 \<le> pi_h it"

text \<open>An item on grid lines.\<close>

definition on_grid :: "persisted_item \<Rightarrow> bool" where
  "on_grid it \<longleftrightarrow> pi_x it \<in> \<int> \<and> pi_y it \<in> \<int> \<and> pi_w it \<in> \<int> \<and> pi_h it \<in> \<int>"

definition apart :: "persisted_item \<Rightarrow> persisted_item \<Rightarrow> bool" where
  "apart a b \<longleftrightarrow> pi_x a + pi_w a \<le> pi_x b \<or> pi_x b + pi_w b \<le> pi_x a \<or>
     pi_y a + pi_h a \<le> pi_y b \<or> pi_y b + pi_h b \<le> pi_y a"

definition tidy :: "rat \<Rightarrow> persisted_item list \<times> rat \<Rightarrow> bool" where
  "tidy cols st \<longleftrightarrow> 0 \<le> snd st \<and> snd st \<in> \<int> \<and> sorted_wrt apart (fst st) \<and>
     (\<forall>it \<in> set (fst st). in_columns cols it \<and> on_grid it \<and> pi_y it + pi_h it \<le> snd st)"

text \<open>The state inside a shared row at \<open>y\<close>: what is above it, and the row's items left of \<open>x\<close>.\<close>

definition row_open :: "rat \<Rightarrow> rat \<Rightarrow> persisted_item list \<times> rat \<times> rat \<Rightarrow> bool" where
  "row_open cols y st \<longleftrightarrow> (case st of (items, x, rowH) \<Rightarrow>
     0 \<le> y \<and> 0 \<le> x \<and> 1 \<le> rowH \<and> y \<in> \<int> \<and> x \<in> \<int> \<and> rowH \<in> \<int> \<and> sorted_wrt apart items \<and>
     (\<forall>it \<in> set items. in_columns cols it \<and> on_grid it \<and>
        (pi_y it + pi_h it \<le> y \<or> pi_y it = y \<and> pi_h it \<le> rowH \<and> pi_x it + pi_w it \<le> x)))"

locale grid_placement =
  fixes rows_of :: "string \<Rightarrow> rat option" and cols :: rat
  assumes cols_pos: "1 \<le> cols" "cols \<in> \<int>"
    and rows_pos: "rows_of i = Some h \<Longrightarrow> 1 \<le> h" "rows_of i = Some h \<Longrightarrow> h \<in> \<int>"
begin

lemma place_full_tidy: "tidy cols st \<Longrightarrow> tidy cols (place_full rows_of cols st i)"
proof (cases "rows_of i")
  case (Some h)
  assume "tidy cols st"
  with rows_pos [OF Some] cols_pos Some show ?thesis
    by (force simp: tidy_def place_full_def sorted_wrt_append in_columns_def on_grid_def apart_def)
qed (simp add: place_full_def)

lemma place_full_ids:
  "map pi_i (fst (place_full rows_of cols st i)) = map pi_i (fst st) @ (if rows_of i = None then [] else [i])"
  by (auto simp: place_full_def split: option.split)

lemma place_all_ids:
  "map pi_i (fst (foldl (place_full rows_of cols) st is)) = map pi_i (fst st) @ filter (\<lambda>i. rows_of i \<noteq> None) is"
  by (induction "is" arbitrary: st) (auto simp: place_full_ids simp del: not_None_eq)

lemma place_shared_step:
  assumes "row_open cols y (items, x, rowH)" "1 \<le> w" "x + w \<le> cols" "w \<in> \<int>" "1 \<le> h" "h \<in> \<int>"
  shows "row_open cols y (items @ [\<lparr>pi_i = i, pi_x = x, pi_y = y, pi_w = w, pi_h = h\<rparr>], x + w, max rowH h)"
  using assms max_def [of rowH h] by (force simp: row_open_def sorted_wrt_append in_columns_def on_grid_def apart_def)

lemma place_shared_open:
  "row_open cols y (items, x, rowH) \<Longrightarrow> 1 \<le> wd \<Longrightarrow> wd \<in> \<int> \<Longrightarrow> x + wd * of_nat (length is) \<le> cols \<Longrightarrow>
     row_open cols y (place_shared rows_of cols wd y (items, x, rowH) is)"
proof (induction "is" arbitrary: items x rowH)
  case (Cons i "is")
  have room: "x + wd \<le> cols" "x + wd * of_nat (length is) \<le> cols" "0 \<le> x"
  proof -
    have "0 \<le> wd * of_nat (length is)" using Cons.prems(2) by simp
    moreover have "x + wd + wd * of_nat (length is) \<le> cols" using Cons.prems(4) by (simp add: algebra_simps)
    ultimately show "x + wd \<le> cols" "x + wd * of_nat (length is) \<le> cols" using Cons.prems(2) by linarith+
    show "0 \<le> x" using Cons.prems(1) by (simp add: row_open_def)
  qed
  show ?case
  proof (cases "rows_of i")
    case None
    then show ?thesis using Cons.IH [OF Cons.prems(1,2,3) room(2)] by simp
  next
    case (Some h)
    let ?w = "if is = [] then cols - x else wd"
    have "x \<in> \<int>" using Cons.prems(1) by (simp add: row_open_def)
    then have w: "1 \<le> ?w" "x + ?w \<le> cols" "?w \<in> \<int>"
      using room(1) Cons.prems(2,3) cols_pos(2) by auto
    have "x + ?w + wd * of_nat (length is) \<le> cols" using Cons.prems(4) by (simp add: algebra_simps)
    from Cons.IH [OF place_shared_step [OF Cons.prems(1) w rows_pos [OF Some]] Cons.prems(2,3) this]
    show ?thesis by (simp add: Some Let_def)
  qed
qed simp

lemma place_shared_ids:
  "map pi_i (fst (place_shared rows_of cols wd y st is)) = map pi_i (fst st) @ filter (\<lambda>i. rows_of i \<noteq> None) is"
proof (induction "is" arbitrary: st)
  case (Cons i "is")
  obtain items x rowH where "st = (items, x, rowH)" by (cases st)
  then show ?case using Cons by (cases "rows_of i") (simp_all add: Let_def)
qed simp

lemma place_row_ids:
  "map pi_i (fst (place_row rows_of cols narrow enabled st row)) =
     map pi_i (fst st) @ filter (\<lambda>i. i \<in> set enabled \<and> rows_of i \<noteq> None) row"
proof -
  have "filter (\<lambda>i. i \<in> set enabled \<and> rows_of i \<noteq> None) row =
      filter (\<lambda>i. rows_of i \<noteq> None) (filter (\<lambda>i. i \<in> set enabled) row)"
    by (simp add: conj_commute)
  moreover have "fst (let (items, x, rowH) = r in (items, c + rowH)) = fst r" for r :: "'x \<times> rat \<times> rat" and c
    by (simp add: case_prod_beta)
  ultimately show ?thesis
    unfolding place_row_def Let_def
    by (auto simp: place_all_ids place_shared_ids case_prod_beta simp del: not_None_eq filter_filter)
qed

lemma place_row_tidy:
  assumes "tidy cols st" "of_nat (length row) \<le> cols"
  shows "tidy cols (place_row rows_of cols narrow enabled st row)"
proof -
  let ?ids = "filter (\<lambda>i. i \<in> set enabled) row"
  let ?wd = "of_int \<lfloor>cols / of_nat (length ?ids)\<rfloor> :: rat"
  have full: "tidy cols (foldl (place_full rows_of cols) st ?ids)"
    by (rule foldl_invariant [where P = "tidy cols"]) (use assms(1) place_full_tidy in auto)
  show ?thesis
  proof (cases "?ids = [] \<or> narrow \<or> length ?ids = 1")
    case False
    obtain items x rowH where r: "place_shared rows_of cols ?wd (snd st) (fst st, 0, 1) ?ids = (items, x, rowH)"
      by (cases "place_shared rows_of cols ?wd (snd st) (fst st, 0, 1) ?ids")
    have n: "0 < (of_nat (length ?ids) :: rat)" using False by simp
    have "of_nat (length ?ids) \<le> (of_nat (length row) :: rat)" by simp
    then have "of_nat (length ?ids) \<le> cols" using assms(2) by linarith
    then have "1 \<le> cols / of_nat (length ?ids)" using n by (simp add: field_simps)
    then have "1 \<le> ?wd" by (simp add: le_floor_iff)
    moreover have "0 + ?wd * of_nat (length ?ids) \<le> cols"
      using floor_divide_lower [OF n, of cols] by simp
    moreover have "row_open cols (snd st) (fst st, 0, 1)"
      using assms(1) by (auto simp: row_open_def tidy_def)
    moreover have "?wd \<in> \<int>" by simp
    ultimately have "row_open cols (snd st) (items, x, rowH)"
      using place_shared_open r by metis
    then have "tidy cols (items, snd st + rowH)"
      by (force simp: row_open_def tidy_def)
    then show ?thesis using False r by (simp add: place_row_def Let_def)
  qed (use assms(1) full in \<open>auto simp: place_row_def Let_def\<close>)
qed

text \<open>A loop that places the widgets a test on the state so far picks.\<close>

lemma place_some_tidy:
  assumes "tidy cols st"
  shows "tidy cols (foldl (\<lambda>st i. if skip st i then st else place_full rows_of cols st i) st is)"
  by (rule foldl_invariant [where P = "tidy cols"]) (use assms place_full_tidy in auto)

lemma place_missing_ids:
  fixes f
  defines "f \<equiv> \<lambda>st i. if list_ex (\<lambda>it. pi_i it = i) (fst st) then st else place_full rows_of cols st i"
  shows "distinct (map pi_i (fst st)) \<Longrightarrow>
    distinct (map pi_i (fst (foldl f st is))) \<and>
    set (map pi_i (fst (foldl f st is))) = set (map pi_i (fst st)) \<union> {i \<in> set is. rows_of i \<noteq> None}"
proof (induction "is" arbitrary: st)
  case (Cons i "is")
  have "list_ex (\<lambda>it. pi_i it = i) (fst st) \<longleftrightarrow> i \<in> set (map pi_i (fst st))"
    by (auto simp: list_ex_iff)
  then have ids: "map pi_i (fst (f st i)) =
      (if i \<in> set (map pi_i (fst st)) \<or> rows_of i = None then map pi_i (fst st) else map pi_i (fst st) @ [i])"
    by (simp add: f_def place_full_ids)
  have "distinct ys \<and> set ys = set xs \<union> {j. j = i \<and> rows_of j \<noteq> None}"
    if "distinct xs" "ys = (if i \<in> set xs \<or> rows_of i = None then xs else xs @ [i])" for xs ys
    using that by auto
  from this [OF Cons.prems ids] Cons.IH [of "f st i"] show ?case by auto
qed simp

end

text \<open>The registry's heights over every breakpoint are such a placement.\<close>

lemma widget_rows_pos: "widget_rows i = Some h \<Longrightarrow> 1 \<le> h \<and> h \<in> \<int>"
  by (auto simp: widget_rows_def pxToRows_def max_def)

interpretation board: grid_placement widget_rows "BOARD_COLS bp" for bp
proof
  show "1 \<le> BOARD_COLS bp" "BOARD_COLS bp \<in> \<int>" by (cases bp; simp)+
qed (simp_all add: widget_rows_pos)

lemma widget_rows_known: "widget_rows i = None \<longleftrightarrow> getWidgetDefinition i = None"
  by (simp add: widget_rows_def)

subsection \<open>Properties\<close>

definition default_rows_placed :: "board_bp \<Rightarrow> string list \<Rightarrow> persisted_item list \<times> rat" where
  "default_rows_placed bp enabled = foldl (place_row widget_rows (BOARD_COLS bp) (bp = Xs) enabled) ([], 0) DEFAULT_ROWS"

lemma default_rows_tidy: "tidy (BOARD_COLS bp) (default_rows_placed bp enabled)"
  unfolding default_rows_placed_def
proof (rule foldl_invariant [where P = "tidy (BOARD_COLS bp)"])
  fix st row
  assume "row \<in> set DEFAULT_ROWS" and st: "tidy (BOARD_COLS bp) st"
  then have "length row \<le> 2" by (auto simp: DEFAULT_ROWS_def)
  then have "of_nat (length row) \<le> (2 :: rat)" by simp
  then have "of_nat (length row) \<le> BOARD_COLS bp" by (cases bp) simp_all
  with st show "tidy (BOARD_COLS bp) (place_row widget_rows (BOARD_COLS bp) (bp = Xs) enabled st row)"
    by (rule board.place_row_tidy)
qed (simp add: tidy_def)

lemma default_rows_ids:
  "map pi_i (fst (default_rows_placed bp enabled)) =
     filter (\<lambda>i. i \<in> set enabled \<and> widget_rows i \<noteq> None) (concat DEFAULT_ROWS)"
proof -
  have "map pi_i (fst (foldl (place_row widget_rows (BOARD_COLS bp) narrow enabled) st rows)) =
      map pi_i (fst st) @ filter (\<lambda>i. i \<in> set enabled \<and> widget_rows i \<noteq> None) (concat rows)" for rows st narrow
    by (induction rows arbitrary: st) (simp_all add: board.place_row_ids del: not_None_eq)
  then show ?thesis by (simp add: default_rows_placed_def)
qed

lemma buildDefaultLayout_spec:
  "distinct (map pi_i (buildDefaultLayout bp enabled)) \<and>
   set (map pi_i (buildDefaultLayout bp enabled)) = {i \<in> set enabled. getWidgetDefinition i \<noteq> None} \<and>
   tidy (BOARD_COLS bp) (foldl (\<lambda>st i. if list_ex (\<lambda>it. pi_i it = i) (fst st) then st
     else place_full widget_rows (BOARD_COLS bp) st i) (default_rows_placed bp enabled) enabled)"
proof -
  have "distinct (concat DEFAULT_ROWS)" by (simp add: DEFAULT_ROWS_def)
  then have "distinct (map pi_i (fst (default_rows_placed bp enabled)))"
    by (simp only: default_rows_ids distinct_filter)
  from board.place_missing_ids [OF this, of bp enabled] show ?thesis
    using board.place_some_tidy [OF default_rows_tidy]
    unfolding buildDefaultLayout_def default_rows_placed_def [symmetric] default_rows_ids widget_rows_known
    by auto
qed

text \<open>For every breakpoint and list of enabled widgets the default layout places each known enabled
  widget exactly once, within the columns, on grid lines, and no two of them overlap.\<close>

theorem default_layout_tiles:
  "distinct (map pi_i (buildDefaultLayout bp enabled)) \<and>
   set (map pi_i (buildDefaultLayout bp enabled)) = {i \<in> set enabled. getWidgetDefinition i \<noteq> None} \<and>
   list_all (in_columns (BOARD_COLS bp)) (buildDefaultLayout bp enabled) \<and>
   sorted_wrt apart (buildDefaultLayout bp enabled)"
  using buildDefaultLayout_spec [of bp enabled]
  unfolding tidy_def buildDefaultLayout_def default_rows_placed_def [symmetric] by (auto simp: list_all_iff)

text \<open>Repairing a stored layout.\<close>

lemma js_round_Ints [simp]: "x \<in> \<int> \<Longrightarrow> js_round x = x"
proof -
  assume "x \<in> \<int>"
  then obtain n where x: "x = of_int n" by (rule Ints_cases)
  have "\<lfloor>x + 1/2\<rfloor> = n" unfolding x by (rule floor_unique) simp_all
  then show ?thesis by (simp add: js_round_def x)
qed

lemma js_round_in_Ints [simp]: "js_round x \<in> \<int>"
  by (simp add: js_round_def)

lemma or_else_Ints [simp]: "v \<in> \<int> \<Longrightarrow> d \<in> \<int> \<Longrightarrow> or_else v d \<in> \<int>"
  by (simp add: or_else_def)

lemma min_max_Ints [simp]: "(a :: rat) \<in> \<int> \<Longrightarrow> b \<in> \<int> \<Longrightarrow> max a b \<in> \<int>" "a \<in> \<int> \<Longrightarrow> b \<in> \<int> \<Longrightarrow> min a b \<in> \<int>"
  by (simp_all add: max_def min_def)

lemma clamp_item_fits:
  assumes "1 \<le> cols" "cols \<in> \<int>"
  shows "in_columns cols (clamp_item cols it) \<and> on_grid (clamp_item cols it)"
  using assms by (auto simp: clamp_item_def Let_def in_columns_def on_grid_def)

lemma clamp_item_same: "in_columns cols it \<Longrightarrow> on_grid it \<Longrightarrow> clamp_item cols it = it"
  by (cases it) (auto simp: clamp_item_def Let_def in_columns_def on_grid_def or_else_def max_def min_def)

lemma clamp_item_id [simp]: "pi_i (clamp_item cols it) = pi_i it"
  by (simp add: clamp_item_def Let_def)

lemma foldl_max_ge:
  fixes g :: "'a \<Rightarrow> rat"
  shows "m \<le> foldl (\<lambda>m x. max m (g x)) m xs \<and> (\<forall>x \<in> set xs. g x \<le> foldl (\<lambda>m x. max m (g x)) m xs)"
proof (induction xs arbitrary: m)
  case (Cons x xs)
  from Cons [of "max m (g x)"] show ?case by auto
qed simp

text \<open>The items of a layout and a height below them all.\<close>

definition fits :: "rat \<Rightarrow> persisted_item list \<times> rat \<Rightarrow> bool" where
  "fits cols st \<longleftrightarrow> 0 \<le> snd st \<and> snd st \<in> \<int> \<and> list_all (\<lambda>it. in_columns cols it \<and> on_grid it) (fst st)"

lemma place_full_fits: "fits (BOARD_COLS bp) st \<Longrightarrow> fits (BOARD_COLS bp) (place_full widget_rows (BOARD_COLS bp) st i)"
  using board.cols_pos [of bp] widget_rows_pos [of i]
  by (force simp: fits_def place_full_def in_columns_def on_grid_def list_all_iff split: option.split)

lemma sanitize_fixed:
  assumes "list_all (\<lambda>it. in_columns (BOARD_COLS bp) it \<and> on_grid it) L"
    and ids: "set (map pi_i L) = {i \<in> set enabled. getWidgetDefinition i \<noteq> None}"
  shows "sanitizeLayout (Some L) bp enabled = L"
proof -
  have kept: "filter (\<lambda>it. pi_i it \<in> set enabled \<and> getWidgetDefinition (pi_i it) \<noteq> None) L = L"
    using ids by (intro filter_True) auto
  have clamp: "map (clamp_item (BOARD_COLS bp)) L = L"
    using assms(1) by (intro map_idI) (auto simp: list_all_iff clamp_item_same)
  have skip: "foldl (\<lambda>st i. if i \<in> P then st else place_full widget_rows (BOARD_COLS bp) st i) st is = st"
    if "{i \<in> set is. getWidgetDefinition i \<noteq> None} \<subseteq> P" for st "is" P
    using that
  proof (induction "is")
    case (Cons a "is")
    then have "a \<in> P \<or> widget_rows a = None" by (auto simp: widget_rows_def)
    then have "(if a \<in> P then st else place_full widget_rows (BOARD_COLS bp) st a) = st"
      by (auto simp: place_full_def)
    with Cons show ?case by auto
  qed simp
  show ?thesis
    by (simp only: sanitizeLayout_def option.case Let_def kept clamp ids skip [OF subset_refl] fst_conv)
qed

lemma sanitizeLayout_spec:
  "list_all (\<lambda>it. in_columns (BOARD_COLS bp) it \<and> on_grid it) (sanitizeLayout stored bp enabled) \<and>
   set (map pi_i (sanitizeLayout stored bp enabled)) = {i \<in> set enabled. getWidgetDefinition i \<noteq> None}"
proof (cases stored)
  case None
  with buildDefaultLayout_spec [of bp enabled] show ?thesis
    unfolding tidy_def buildDefaultLayout_def default_rows_placed_def [symmetric] sanitizeLayout_def
    by (auto simp: list_all_iff)
next
  case (Some its)
  let ?kept = "map (clamp_item (BOARD_COLS bp))
    (filter (\<lambda>it. pi_i it \<in> set enabled \<and> getWidgetDefinition (pi_i it) \<noteq> None) its)"
  let ?bottom = "foldl (\<lambda>m it. max m (pi_y it + pi_h it)) 0 ?kept"
  let ?f = "\<lambda>st i. if i \<in> set (map pi_i ?kept) then st else place_full widget_rows (BOARD_COLS bp) st i"
  have fit: "in_columns (BOARD_COLS bp) it \<and> on_grid it" if "it \<in> set ?kept" for it
    using that clamp_item_fits [OF board.cols_pos [of bp]] by auto
  have "?bottom \<in> \<int>"
    by (rule foldl_invariant [where P = "\<lambda>m. m \<in> \<int>"]) (use fit in \<open>auto simp: on_grid_def\<close>)
  then have "fits (BOARD_COLS bp) (?kept, ?bottom)"
    using fit foldl_max_ge [of 0 "\<lambda>it. pi_y it + pi_h it" ?kept] by (simp add: fits_def list_all_iff)
  then have "fits (BOARD_COLS bp) (foldl ?f (?kept, ?bottom) enabled)"
    by (rule foldl_invariant [where P = "fits (BOARD_COLS bp)"]) (auto intro: place_full_fits)
  moreover have "map pi_i (fst (foldl ?f st is)) = map pi_i (fst st) @
      filter (\<lambda>i. i \<notin> set (map pi_i ?kept) \<and> widget_rows i \<noteq> None) is" for st "is"
    by (induction "is" arbitrary: st) (simp_all add: board.place_full_ids del: not_None_eq set_map)
  moreover have "sanitizeLayout stored bp enabled = fst (foldl ?f (?kept, ?bottom) enabled)"
    by (simp only: sanitizeLayout_def option.case Let_def Some)
  ultimately show ?thesis
    by (auto simp: fits_def widget_rows_known simp del: not_None_eq)
qed

text \<open>C36. Whatever was stored, the layout shown places exactly the known enabled widgets, every item
  within the columns, and storing and reading it again changes nothing.\<close>

theorem sanitize_layout_correct:
  "list_all (in_columns (BOARD_COLS bp)) (sanitizeLayout stored bp enabled) \<and>
   set (map pi_i (sanitizeLayout stored bp enabled)) = {i \<in> set enabled. getWidgetDefinition i \<noteq> None} \<and>
   sanitizeLayout (Some (sanitizeLayout stored bp enabled)) bp enabled = sanitizeLayout stored bp enabled"
  using sanitizeLayout_spec [of bp stored enabled] sanitize_fixed [of bp "sanitizeLayout stored bp enabled" enabled]
  by (auto simp: list_all_iff)

text \<open>Stacking and mirroring.\<close>

lemma apart_below: "pi_y a + pi_h a \<le> pi_y b \<Longrightarrow> apart a b"
  by (simp add: apart_def)

lemma stack_from_tidy:
  "list_all (\<lambda>it. 1 \<le> pi_h it) its \<Longrightarrow> 0 \<le> y \<Longrightarrow> 1 \<le> cols \<Longrightarrow>
     list_all (\<lambda>it. in_columns cols it \<and> y \<le> pi_y it) (stack_from cols y its) \<and> sorted_wrt apart (stack_from cols y its)"
proof (induction its arbitrary: y)
  case (Cons it its)
  then have "list_all (\<lambda>r. in_columns cols r \<and> y + pi_h it \<le> pi_y r) (stack_from cols (y + pi_h it) its) \<and>
      sorted_wrt apart (stack_from cols (y + pi_h it) its)" by simp
  with Cons.prems show ?case by (auto simp: list_all_iff in_columns_def intro!: apart_below)
qed simp

lemma stack_from_ids: "map pi_i (stack_from cols y its) = map pi_i its"
  by (induction its arbitrary: y) simp_all

text \<open>Stacking a layout keeps its widgets, lists them in reading order, one full-width item below the
  other and none overlapping.\<close>

theorem stack_layout_reading_order:
  assumes "list_all (\<lambda>it. 1 \<le> pi_h it) its"
  shows "map pi_i (stackLayout its bp) = map pi_i (sort_key (\<lambda>it. Grid_pos (pi_y it) (pi_x it)) its) \<and>
    mset (map pi_i (stackLayout its bp)) = mset (map pi_i its) \<and>
    list_all (in_columns (BOARD_COLS bp)) (stackLayout its bp) \<and> sorted_wrt apart (stackLayout its bp)"
proof -
  let ?sorted = "sort_key (\<lambda>it. Grid_pos (pi_y it) (pi_x it)) its"
  have "list_all (\<lambda>it. 1 \<le> pi_h it) ?sorted" using assms by (simp add: list_all_iff)
  from stack_from_tidy [OF this, of 0] board.cols_pos [of bp] show ?thesis
    by (simp add: stackLayout_def stack_from_ids list_all_iff flip: mset_map) (simp add: mset_map)
qed

text \<open>On a layout within the columns mirroring is an involution that stays within the columns and
  keeps items apart.\<close>

theorem mirror_layout_involution:
  assumes "list_all (in_columns cols) its"
  shows "mirrorLayout (mirrorLayout its cols) cols = its \<and> list_all (in_columns cols) (mirrorLayout its cols) \<and>
    (sorted_wrt apart (mirrorLayout its cols) = sorted_wrt apart its)"
proof -
  let ?m = "\<lambda>it. it\<lparr>pi_x := max 0 (cols - pi_x it - pi_w it)\<rparr>"
  have x: "max 0 (cols - pi_x it - pi_w it) = cols - pi_x it - pi_w it" if "it \<in> set its" for it
    using assms that by (auto simp: list_all_iff in_columns_def)
  have "apart (?m a) (?m b) \<longleftrightarrow> apart a b" if "a \<in> set its" "b \<in> set its" for a b
    unfolding apart_def using x [OF that(1)] x [OF that(2)] by auto
  then have "sorted_wrt apart (map ?m its) = sorted_wrt apart its"
    unfolding sorted_wrt_map by (intro iffI; elim sorted_wrt_mono_rel [rotated]) auto
  moreover have "?m (?m it) = it" if "it \<in> set its" for it
    using assms that x [OF that] by (cases it) (auto simp: list_all_iff in_columns_def)
  moreover have "in_columns cols (?m it)" if "it \<in> set its" for it
    using assms that x [OF that] by (auto simp: list_all_iff in_columns_def)
  ultimately show ?thesis by (auto simp: mirrorLayout_def list_all_iff intro: map_idI)
qed

definition sample_board_items :: "persisted_item list" where
  "sample_board_items =
     [\<lparr>pi_i = ''my-tasks'', pi_x = 6, pi_y = 0, pi_w = 6, pi_h = 20\<rparr>,
      \<lparr>pi_i = ''recent-alerts'', pi_x = 0, pi_y = 0, pi_w = 6, pi_h = 30\<rparr>]"

theorem stack_layout_reading_order_witness:
  "map pi_i (stackLayout sample_board_items Xs) = [''recent-alerts'', ''my-tasks''] \<and>
   sorted_wrt apart (stackLayout sample_board_items Xs)"
proof -
  have "list_all (\<lambda>it. 1 \<le> pi_h it) sample_board_items" by (simp add: sample_board_items_def)
  from stack_layout_reading_order [OF this, of Xs] show ?thesis
    by (simp add: sample_board_items_def less_eq_grid_pos_def)
qed

theorem mirror_layout_involution_witness:
  "mirrorLayout (mirrorLayout sample_board_items 12) 12 = sample_board_items"
  using mirror_layout_involution [of 12 sample_board_items] by (simp add: sample_board_items_def in_columns_def)

end
