(* ===== verification/OrgTree.thy ===== *)
theory OrgTree
  imports Web
begin

section \<open>The organisation tree\<close>

text \<open>
  Entities of \<open>lib/lex/admin.ts\<close> and the subtree visits of the re-parenting preview
  \<open>app/(dashboard)/lex/admin/org-entities/_lib/reparent-impact.ts\<close>: descendants, the cycle guard and
  the parents an entity may be moved under. The recursive visits carry fuel for the depth of the call stack; the lemmas
  show that it suffices exactly when no cycle of parents can be reached.
\<close>

subsection \<open>Data\<close>

datatype org_role_key =
    Section_supervisor | Department_manager | Shared_services_manager | Legal_director
  | Contracts_manager | Compliance_officer | General_counsel

record localized_text =
  lt_en :: string
  lt_ar :: string

record org_role =
  or_id :: string
  or_entity_id :: string
  or_role_key :: org_role_key
  or_user_id :: string
  or_label :: localized_text
  or_created_at :: string
  or_updated_at :: string

record org_entity =
  oe_id :: string
  oe_tenant_id :: string
  oe_parent_id :: "string option"
  oe_entity_type :: string
  oe_code :: string
  oe_name :: localized_text
  oe_platform_org_unit_id :: "string option"
  oe_path :: "string list"
  oe_active :: bool
  oe_metadata :: "(string \<times> json) list"
  oe_created_at :: string
  oe_updated_at :: string
  oe_roles :: "org_role list option"

definition indexById :: "org_entity list \<Rightarrow> (string, org_entity) jsmap" where
  "indexById all = js_map_of_entries (map (\<lambda>e. (oe_id e, e)) all)"

text \<open>A parent id counts when it is not empty.\<close>

definition parent_of :: "org_entity \<Rightarrow> string option" where
  "parent_of e = (case oe_parent_id e of None \<Rightarrow> None | Some p \<Rightarrow> if p = [] then None else Some p)"

definition indexChildren :: "org_entity list \<Rightarrow> (string, org_entity list) jsmap" where
  "indexChildren all =
     foldl (\<lambda>m e. case parent_of e of
         None \<Rightarrow> m
       | Some p \<Rightarrow> AList.update p (js_get_or [] m p @ [e]) m) [] all"

subsection \<open>Descendants\<close>

fun descend :: "nat \<Rightarrow> (string, org_entity list) jsmap \<Rightarrow> string \<Rightarrow> org_entity list option"
  and descend_all :: "nat \<Rightarrow> (string, org_entity list) jsmap \<Rightarrow> org_entity list \<Rightarrow> org_entity list option" where
  "descend 0 byParent i = None"
| "descend (Suc n) byParent i = descend_all n byParent (js_get_or [] byParent i)"
| "descend_all n byParent [] = Some []"
| "descend_all n byParent (c # cs) =
     (case descend n byParent (oe_id c) of
        None \<Rightarrow> None
      | Some ds \<Rightarrow> map_option (\<lambda>rest. c # ds @ rest) (descend_all n byParent cs))"

definition collectDescendants :: "string \<Rightarrow> org_entity list \<Rightarrow> org_entity list option" where
  "collectDescendants rootId all = descend (Suc (length all)) (indexChildren all) rootId"

text \<open>The search stops at the first hit, at any depth.\<close>

fun seek :: "nat \<Rightarrow> (string, org_entity list) jsmap \<Rightarrow> string \<Rightarrow> string \<Rightarrow> bool option"
  and seek_all :: "nat \<Rightarrow> (string, org_entity list) jsmap \<Rightarrow> string \<Rightarrow> org_entity list \<Rightarrow> bool option" where
  "seek 0 byParent candidate i = None"
| "seek (Suc n) byParent candidate i = seek_all n byParent candidate (js_get_or [] byParent i)"
| "seek_all n byParent candidate [] = Some False"
| "seek_all n byParent candidate (c # cs) =
     (if oe_id c = candidate then Some True
      else case seek n byParent candidate (oe_id c) of
        None \<Rightarrow> None
      | Some found \<Rightarrow> if found then Some True else seek_all n byParent candidate cs)"

definition isDescendant :: "string \<Rightarrow> string \<Rightarrow> org_entity list \<Rightarrow> bool option" where
  "isDescendant candidateId ofId all =
     (if candidateId = ofId then Some True
      else seek (Suc (length all)) (indexChildren all) candidateId ofId)"

fun keep_unless :: "('a \<Rightarrow> bool option) \<Rightarrow> 'a list \<Rightarrow> 'a list option" where
  "keep_unless f [] = Some []"
| "keep_unless f (x # xs) =
     (case f x of
        None \<Rightarrow> None
      | Some b \<Rightarrow> map_option (\<lambda>ys. if b then ys else x # ys) (keep_unless f xs))"

definition validParents :: "org_entity \<Rightarrow> org_entity list \<Rightarrow> org_entity list option" where
  "validParents entity all = keep_unless (\<lambda>candidate. isDescendant (oe_id candidate) (oe_id entity) all) all"

definition hasRole :: "org_entity \<Rightarrow> org_role_key \<Rightarrow> bool" where
  "hasRole e roleKey = list_ex (\<lambda>r. or_role_key r = roleKey) (case oe_roles e of None \<Rightarrow> [] | Some rs \<Rightarrow> rs)"

subsection \<open>The relation of parents\<close>

definition parent_rel :: "org_entity list \<Rightarrow> (string \<times> string) set" where
  "parent_rel all = {(p, c). \<exists>e \<in> set all. parent_of e = Some p \<and> oe_id e = c}"

lemma children_get: "js_get_or [] (indexChildren all) i = filter (\<lambda>e. parent_of e = Some i) all"
proof -
  have "js_get_or [] (foldl (\<lambda>m e. case parent_of e of
      None \<Rightarrow> m | Some p \<Rightarrow> AList.update p (js_get_or [] m p @ [e]) m) m es) i =
      js_get_or [] m i @ filter (\<lambda>e. parent_of e = Some i) es" for m es
    by (induction es arbitrary: m) (auto simp: js_get_or_update split: option.split)
  from this [of "[]"] show ?thesis by (simp add: indexChildren_def js_get_or_def [of _ "[]"])
qed

lemma parent_rel_ids: "(parent_rel all)\<^sup>+ `` {i} \<subseteq> oe_id ` set all"
proof
  fix c
  assume "c \<in> (parent_rel all)\<^sup>+ `` {i}"
  then obtain p where "(p, c) \<in> parent_rel all" by (auto dest: tranclD2)
  then show "c \<in> oe_id ` set all" by (auto simp: parent_rel_def)
qed

lemma finite_below: "finite ((parent_rel all)\<^sup>+ `` {i})"
  by (rule finite_subset [OF parent_rel_ids]) simp

lemma below_le: "card ((parent_rel all)\<^sup>+ `` {i}) \<le> length all"
proof -
  have "card ((parent_rel all)\<^sup>+ `` {i}) \<le> card (oe_id ` set all)"
    by (rule card_mono [OF _ parent_rel_ids]) simp
  also have "\<dots> \<le> card (set all)" by (rule card_image_le) simp
  also have "\<dots> \<le> length all" by (rule card_length)
  finally show ?thesis .
qed

text \<open>No cycle of parents is reachable from \<open>i\<close>.\<close>

definition well_founded_below :: "org_entity list \<Rightarrow> string \<Rightarrow> bool" where
  "well_founded_below all i \<longleftrightarrow> \<not> (\<exists>j. (i, j) \<in> (parent_rel all)\<^sup>* \<and> (j, j) \<in> (parent_rel all)\<^sup>+)"

lemma well_founded_child: "well_founded_below all i \<Longrightarrow> (i, c) \<in> parent_rel all \<Longrightarrow> well_founded_below all c"
  unfolding well_founded_below_def by (meson converse_rtrancl_into_rtrancl)

lemma below_less:
  assumes "well_founded_below all i" "(i, c) \<in> parent_rel all"
  shows "card ((parent_rel all)\<^sup>+ `` {c}) < card ((parent_rel all)\<^sup>+ `` {i})"
proof (rule psubset_card_mono [OF finite_below], rule psubsetI)
  show "(parent_rel all)\<^sup>+ `` {c} \<subseteq> (parent_rel all)\<^sup>+ `` {i}"
    using assms(2) by (auto intro: trancl_into_trancl2)
  have "(c, c) \<notin> (parent_rel all)\<^sup>+" using assms by (auto simp: well_founded_below_def)
  then show "(parent_rel all)\<^sup>+ `` {c} \<noteq> (parent_rel all)\<^sup>+ `` {i}" using assms(2) by blast
qed

lemma descend_all_spec:
  "(\<And>c. c \<in> set cs \<Longrightarrow> descend n m (oe_id c) = Some (f c)) \<Longrightarrow>
     descend_all n m cs = Some (concat (map (\<lambda>c. c # f c) cs))"
  by (induction cs) simp_all

lemma descend_returns:
  "well_founded_below all i \<Longrightarrow> card ((parent_rel all)\<^sup>+ `` {i}) < n \<Longrightarrow>
     \<exists>ds. descend n (indexChildren all) i = Some ds"
proof (induction n arbitrary: i)
  case (Suc n)
  let ?cs = "filter (\<lambda>e. parent_of e = Some i) all"
  have "\<exists>ds. descend n (indexChildren all) (oe_id c) = Some ds" if "c \<in> set ?cs" for c
  proof (rule Suc.IH)
    have "(i, oe_id c) \<in> parent_rel all" using that by (auto simp: parent_rel_def)
    from well_founded_child [OF Suc.prems(1) this] below_less [OF Suc.prems(1) this] Suc.prems(2)
    show "well_founded_below all (oe_id c)" "card ((parent_rel all)\<^sup>+ `` {oe_id c}) < n" by auto
  qed
  then obtain f where "\<And>c. c \<in> set ?cs \<Longrightarrow> descend n (indexChildren all) (oe_id c) = Some (f c)" by metis
  from descend_all_spec [of ?cs, OF this] show ?case by (simp add: children_get)
qed simp

lemma descend_all_SomeD:
  "descend_all n m cs = Some ds \<Longrightarrow> c \<in> set cs \<Longrightarrow> \<exists>es. descend n m (oe_id c) = Some es"
  by (induction cs arbitrary: ds) (auto split: option.splits)

lemma descend_depth:
  "descend n (indexChildren all) i = Some ds \<Longrightarrow> (i, j) \<in> parent_rel all ^^ k \<Longrightarrow> k < n"
proof (induction n arbitrary: i ds k)
  case (Suc n)
  show ?case
  proof (cases k)
    case (Suc k')
    with Suc.prems(2) obtain c where c: "(i, c) \<in> parent_rel all" "(c, j) \<in> parent_rel all ^^ k'"
      by (metis relpow_Suc_D2)
    then obtain e where "e \<in> set (filter (\<lambda>e. parent_of e = Some i) all)" "oe_id e = c"
      by (auto simp: parent_rel_def)
    with Suc.prems(1) obtain es where "descend n (indexChildren all) c = Some es"
      using descend_all_SomeD by (fastforce simp: children_get)
    from Suc.IH [OF this c(2)] Suc show ?thesis by simp
  qed simp
qed simp

lemma cycle_deep:
  assumes "\<not> well_founded_below all i"
  shows "\<exists>j k. n \<le> k \<and> (i, j) \<in> parent_rel all ^^ k"
proof -
  obtain j where j: "(i, j) \<in> (parent_rel all)\<^sup>*" "(j, j) \<in> (parent_rel all)\<^sup>+"
    using assms by (auto simp: well_founded_below_def)
  then obtain a b where a: "(i, j) \<in> parent_rel all ^^ a" and b: "0 < b" "(j, j) \<in> parent_rel all ^^ b"
    by (metis rtrancl_imp_relpow trancl_power)
  have "(j, j) \<in> parent_rel all ^^ (b * m)" for m
    using b(2) by (induction m) (auto simp: relpow_add)
  with a have "(i, j) \<in> parent_rel all ^^ (a + b * n)" by (auto simp: relpow_add)
  moreover have "n \<le> a + b * n" using b(1) by (simp add: trans_le_add2)
  ultimately show ?thesis by blast
qed

text \<open>C40. \<open>collectDescendants\<close> returns exactly when no cycle of parents can be reached from the root it
  is given; on a cycle no depth of recursion is enough.\<close>

theorem collectDescendants_terminates_iff:
  "(collectDescendants i all \<noteq> None \<longleftrightarrow> well_founded_below all i) \<and>
   ((\<exists>n. descend n (indexChildren all) i \<noteq> None) \<longleftrightarrow> well_founded_below all i)"
proof -
  have "well_founded_below all i" if "descend n (indexChildren all) i = Some ds" for n ds
    using cycle_deep [of all i n] descend_depth [OF that] by (meson leD)
  moreover have "collectDescendants i all \<noteq> None" if "well_founded_below all i"
    using descend_returns [OF that, of "Suc (length all)"] below_le [of all i] by (auto simp: collectDescendants_def)
  ultimately show ?thesis unfolding collectDescendants_def by blast
qed

lemma descend_all_values:
  "descend_all n m cs = Some ds \<Longrightarrow>
     ds = concat (map (\<lambda>c. c # the (descend n m (oe_id c))) cs) \<and> (\<forall>c \<in> set cs. descend n m (oe_id c) \<noteq> None)"
  by (induction cs arbitrary: ds) (auto split: option.splits)

lemma below_children:
  assumes "distinct (map oe_id all)"
  shows "{e \<in> set all. (i, oe_id e) \<in> (parent_rel all)\<^sup>+} =
    (\<Union>c \<in> set (filter (\<lambda>e. parent_of e = Some i) all). insert c {e \<in> set all. (oe_id c, oe_id e) \<in> (parent_rel all)\<^sup>+})"
    (is "?A = ?B")
proof (intro equalityI subsetI)
  fix e
  assume "e \<in> ?A"
  then obtain z where e: "e \<in> set all" and z: "(i, z) \<in> parent_rel all" "(z, oe_id e) \<in> (parent_rel all)\<^sup>*"
    by (auto dest: tranclD)
  then obtain c where c: "c \<in> set all" "parent_of c = Some i" "oe_id c = z" by (auto simp: parent_rel_def)
  have "c = e" if "oe_id c = oe_id e"
    using assms c(1) e that by (auto simp: distinct_map dest: inj_onD)
  with z(2) c e show "e \<in> ?B" by (auto simp: rtrancl_eq_or_trancl)
next
  fix e
  assume "e \<in> ?B"
  then obtain c where c: "c \<in> set all" "parent_of c = Some i" and
    e: "e = c \<or> e \<in> set all \<and> (oe_id c, oe_id e) \<in> (parent_rel all)\<^sup>+" by auto
  have "(i, oe_id c) \<in> parent_rel all" using c by (auto simp: parent_rel_def)
  with c e show "e \<in> ?A" by (auto intro: trancl_into_trancl2)
qed

lemma descend_set:
  "distinct (map oe_id all) \<Longrightarrow> descend n (indexChildren all) i = Some ds \<Longrightarrow>
     set ds = {e \<in> set all. (i, oe_id e) \<in> (parent_rel all)\<^sup>+}"
proof (induction n arbitrary: i ds)
  case (Suc n)
  let ?cs = "filter (\<lambda>e. parent_of e = Some i) all"
  from Suc.prems(2) have ds: "ds = concat (map (\<lambda>c. c # the (descend n (indexChildren all) (oe_id c))) ?cs)"
    and some: "\<And>c. c \<in> set ?cs \<Longrightarrow> descend n (indexChildren all) (oe_id c) \<noteq> None"
    using descend_all_values by (simp_all only: descend.simps children_get) blast+
  have "set (the (descend n (indexChildren all) (oe_id c))) = {e \<in> set all. (oe_id c, oe_id e) \<in> (parent_rel all)\<^sup>+}"
    if "c \<in> set ?cs" for c
    using some [OF that] Suc.IH [OF Suc.prems(1)] by auto
  then have "(\<Union>c \<in> set ?cs. insert c (set (the (descend n (indexChildren all) (oe_id c))))) =
      (\<Union>c \<in> set ?cs. insert c {e \<in> set all. (oe_id c, oe_id e) \<in> (parent_rel all)\<^sup>+})"
    by (intro SUP_cong) simp_all
  moreover have "set ds = (\<Union>c \<in> set ?cs. insert c (set (the (descend n (indexChildren all) (oe_id c)))))"
    by (simp add: ds)
  ultimately show ?case by (simp only: below_children [OF Suc.prems(1), symmetric])
qed simp

lemma collectDescendants_some:
  "well_founded_below all i \<Longrightarrow> distinct (map oe_id all) \<Longrightarrow>
     \<exists>ds. collectDescendants i all = Some ds \<and> set ds = {e \<in> set all. (i, oe_id e) \<in> (parent_rel all)\<^sup>+}"
  using descend_returns [of all i "Suc (length all)"] below_le [of all i] descend_set
  by (fastforce simp: collectDescendants_def)

lemma seek_all_spec:
  "(\<And>c. c \<in> set cs \<Longrightarrow> seek n m candidate (oe_id c) = Some (P c)) \<Longrightarrow>
     seek_all n m candidate cs = Some (\<exists>c \<in> set cs. oe_id c = candidate \<or> P c)"
  by (induction cs) auto

lemma trancl_first: "(a, b) \<in> R\<^sup>+ \<longleftrightarrow> (\<exists>z. (a, z) \<in> R \<and> (z = b \<or> (z, b) \<in> R\<^sup>+))"
  by (auto elim: converse_tranclE intro: trancl_into_trancl2)

lemma seek_spec:
  "well_founded_below all i \<Longrightarrow> card ((parent_rel all)\<^sup>+ `` {i}) < n \<Longrightarrow>
     seek n (indexChildren all) candidate i = Some ((i, candidate) \<in> (parent_rel all)\<^sup>+)"
proof (induction n arbitrary: i)
  case (Suc n)
  let ?cs = "filter (\<lambda>e. parent_of e = Some i) all"
  have "seek n (indexChildren all) candidate (oe_id c) = Some ((oe_id c, candidate) \<in> (parent_rel all)\<^sup>+)"
    if "c \<in> set ?cs" for c
  proof (rule Suc.IH)
    have "(i, oe_id c) \<in> parent_rel all" using that by (auto simp: parent_rel_def)
    from well_founded_child [OF Suc.prems(1) this] below_less [OF Suc.prems(1) this] Suc.prems(2)
    show "well_founded_below all (oe_id c)" "card ((parent_rel all)\<^sup>+ `` {oe_id c}) < n" by auto
  qed
  from seek_all_spec [of ?cs, OF this]
  have "seek (Suc n) (indexChildren all) candidate i =
      Some (\<exists>c \<in> set ?cs. oe_id c = candidate \<or> (oe_id c, candidate) \<in> (parent_rel all)\<^sup>+)"
    by (simp add: children_get)
  moreover have "(\<exists>c \<in> set ?cs. oe_id c = candidate \<or> (oe_id c, candidate) \<in> (parent_rel all)\<^sup>+) \<longleftrightarrow>
      (\<exists>z. (i, z) \<in> parent_rel all \<and> (z = candidate \<or> (z, candidate) \<in> (parent_rel all)\<^sup>+))"
    by (auto simp: parent_rel_def)
  moreover have "\<dots> \<longleftrightarrow> (i, candidate) \<in> (parent_rel all)\<^sup>+"
    by (rule trancl_first [symmetric])
  ultimately show ?case by simp
qed simp

lemma isDescendant_spec:
  "well_founded_below all i \<Longrightarrow> isDescendant candidate i all = Some ((i, candidate) \<in> (parent_rel all)\<^sup>*)"
  using seek_spec [of all i "Suc (length all)"] below_le [of all i]
  by (auto simp: isDescendant_def rtrancl_eq_or_trancl)

lemma keep_unless_spec:
  "(\<And>x. x \<in> set xs \<Longrightarrow> f x = Some (P x)) \<Longrightarrow> keep_unless f xs = Some (filter (\<lambda>x. \<not> P x) xs)"
  by (induction xs) auto

lemma acyclic_well_founded: "acyclic (parent_rel all) \<Longrightarrow> well_founded_below all i"
  by (simp add: well_founded_below_def acyclic_def)

subsection \<open>Re-parenting\<close>

text \<open>What the move does to the registry: the entity's parent is replaced.\<close>

definition reparent_entity :: "string \<Rightarrow> string option \<Rightarrow> org_entity \<Rightarrow> org_entity" where
  "reparent_entity i newParentId e = (if oe_id e = i then e\<lparr>oe_parent_id := newParentId\<rparr> else e)"

definition reparented :: "org_entity \<Rightarrow> string option \<Rightarrow> org_entity list \<Rightarrow> org_entity list" where
  "reparented moved newParentId all = map (reparent_entity (oe_id moved) newParentId) all"

lemma reparent_entity_simps [simp]:
  "oe_id (reparent_entity i np e) = oe_id e" "oe_code (reparent_entity i np e) = oe_code e"
  "hasRole (reparent_entity i np e) r = hasRole e r"
  "oe_id e \<noteq> i \<Longrightarrow> reparent_entity i np e = e"
  by (simp_all add: reparent_entity_def hasRole_def)

lemma parent_of_reparent:
  "parent_of (reparent_entity i (Some p) e) = (if oe_id e = i then (if p = [] then None else Some p) else parent_of e)"
  "parent_of (reparent_entity i None e) = (if oe_id e = i then None else parent_of e)"
  by (simp_all add: reparent_entity_def parent_of_def)

lemma reparented_rel:
  assumes "moved \<in> set all" "p \<noteq> []"
  shows "parent_rel (reparented moved (Some p) all) =
    insert (p, oe_id moved) {(a, b) \<in> parent_rel all. b \<noteq> oe_id moved}"
  using assms by (auto simp: parent_rel_def reparented_def parent_of_reparent split: if_splits)

lemma acyclic_move_iff:
  assumes "acyclic R"
  shows "acyclic (insert (p, m) {(a, b) \<in> R. b \<noteq> m}) \<longleftrightarrow> (m, p) \<notin> R\<^sup>*"
proof -
  let ?S = "{(a, b) \<in> R. b \<noteq> m}"
  have "acyclic ?S" by (rule acyclic_subset [OF assms]) auto
  moreover have "(m, p) \<in> ?S\<^sup>*" if "(m, p) \<in> R\<^sup>*"
    using that
  proof (induction rule: rtrancl_induct)
    case (step y z)
    have "z \<noteq> m" using step(1,2) assms by (auto simp: acyclic_def dest: rtrancl_into_trancl1)
    with step(2) have "(y, z) \<in> ?S" by simp
    with step(3) show ?case by (rule rtrancl.rtrancl_into_rtrancl)
  qed simp
  moreover have "?S\<^sup>* \<subseteq> R\<^sup>*" by (rule rtrancl_mono) auto
  ultimately show ?thesis by (auto simp: acyclic_insert)
qed

text \<open>Among the entities of a registry without cycles, \<open>validParents\<close> offers exactly those under
  which the entity can be moved without closing a cycle.\<close>

theorem validParents_exact:
  assumes "acyclic (parent_rel all)" "moved \<in> set all" "[] \<notin> oe_id ` set all"
  shows "\<exists>ps. validParents moved all = Some ps \<and>
    set ps = {np \<in> set all. acyclic (parent_rel (reparented moved (Some (oe_id np)) all))}"
proof -
  have "validParents moved all =
      Some (filter (\<lambda>c. (oe_id moved, oe_id c) \<notin> (parent_rel all)\<^sup>*) all)"
    unfolding validParents_def
    by (rule keep_unless_spec) (rule isDescendant_spec [OF acyclic_well_founded [OF assms(1)]])
  moreover have "acyclic (parent_rel (reparented moved (Some (oe_id np)) all)) \<longleftrightarrow>
      (oe_id moved, oe_id np) \<notin> (parent_rel all)\<^sup>*" if "np \<in> set all" for np
  proof -
    have "oe_id np \<noteq> []" using that assms(3) by (metis imageI)
    from reparented_rel [OF assms(2) this] show ?thesis by (simp only: acyclic_move_iff [OF assms(1)])
  qed
  ultimately show ?thesis by auto
qed

end
