(* ===== verification/OrgEscalation.thy ===== *)
theory OrgEscalation
  imports OrgTree
begin

section \<open>Escalation in the organisation tree\<close>

text \<open>
  The escalation providers and the projection of a move of \<open>reparent-impact.ts\<close>, and the what-if
  ladder of \<open>escalation-whatif.ts\<close>. Both walk the recorded paths; the specification walks the parents.
\<close>

definition ESCALATION_ROLE_KEYS :: "org_role_key list" where
  "ESCALATION_ROLE_KEYS = [Section_supervisor, Department_manager, Shared_services_manager]"

definition escalationLevel :: "org_role_key \<Rightarrow> int option" where
  "escalationLevel roleKey =
     (if roleKey \<in> set ESCALATION_ROLE_KEYS
      then Some (int (length (takeWhile (\<lambda>r. r \<noteq> roleKey) ESCALATION_ROLE_KEYS)) + 1) else None)"

subsection \<open>Escalation providers\<close>

text \<open>Self first, then the root-first ancestry from its end, skipping the entity itself.\<close>

definition resolveProvider :: "org_entity \<Rightarrow> org_entity list \<Rightarrow> org_role_key \<Rightarrow> (string \<times> string) option" where
  "resolveProvider e ancestry roleKey =
     (if hasRole e roleKey then Some (oe_id e, oe_code e)
      else map_option (\<lambda>a. (oe_id a, oe_code a))
        (find (\<lambda>a. oe_id a \<noteq> oe_id e \<and> hasRole a roleKey) (rev ancestry)))"

text \<open>\<open>for (id of ids) if (id !== self && byId.get(id)) push\<close>\<close>

definition known_ancestors :: "(string, org_entity) jsmap \<Rightarrow> string \<Rightarrow> string list \<Rightarrow> org_entity list" where
  "known_ancestors byId self ids = List.map_filter (map_of byId) (filter (\<lambda>a. a \<noteq> self) ids)"

definition escalationProvider :: "org_entity \<Rightarrow> org_entity list \<Rightarrow> org_role_key \<Rightarrow> (string \<times> string) option" where
  "escalationProvider e all roleKey =
     resolveProvider e (known_ancestors (indexById all) (oe_id e) (oe_path e)) roleKey"

datatype escalation_change = Gained | Lost | Changed | Same

record delta_row =
  dr_entityId :: string
  dr_code :: string
  dr_level :: int
  dr_role_key :: org_role_key
  dr_before :: "string option"
  dr_after :: "string option"
  dr_change :: escalation_change

definition change_of :: "string option \<Rightarrow> string option \<Rightarrow> escalation_change" where
  "change_of before after =
     (if before = after then Same else if before = None then Gained else if after = None then Lost else Changed)"

text \<open>The ancestry above the moved entity after the move, and the part of a node's path from the moved
  entity on.\<close>

definition new_prefix :: "string option \<Rightarrow> org_entity list \<Rightarrow> org_entity list" where
  "new_prefix newParentId all =
     (case newParentId of
        None \<Rightarrow> []
      | Some p \<Rightarrow>
          if p = [] then []
          else case map_of (indexById all) p of
            None \<Rightarrow> []
          | Some np \<Rightarrow> known_ancestors (indexById all) (oe_id np) (oe_path np) @ [np])"

definition intra_ancestry :: "org_entity \<Rightarrow> org_entity list \<Rightarrow> org_entity \<Rightarrow> org_entity list" where
  "intra_ancestry moved all node =
     known_ancestors (indexById all) (oe_id node) (dropWhile (\<lambda>a. a \<noteq> oe_id moved) (oe_path node))"

definition projected :: "org_entity \<Rightarrow> string option \<Rightarrow> org_entity list \<Rightarrow> org_entity \<Rightarrow> org_role_key \<Rightarrow> string option" where
  "projected moved newParentId all node roleKey =
     map_option snd (resolveProvider node (new_prefix newParentId all @ intra_ancestry moved all node) roleKey)"

definition delta_row_of :: "org_entity \<Rightarrow> string option \<Rightarrow> org_entity list \<Rightarrow> org_entity \<Rightarrow> org_role_key \<Rightarrow> delta_row" where
  "delta_row_of moved newParentId all node roleKey =
     (let before = map_option snd (escalationProvider node all roleKey);
          after = projected moved newParentId all node roleKey
      in \<lparr>dr_entityId = oe_id node, dr_code = oe_code node,
          dr_level = (case escalationLevel roleKey of None \<Rightarrow> 0 | Some l \<Rightarrow> l), dr_role_key = roleKey,
          dr_before = before, dr_after = after, dr_change = change_of before after\<rparr>)"

definition projectEscalationDelta :: "org_entity \<Rightarrow> string option \<Rightarrow> org_entity list \<Rightarrow> delta_row list option" where
  "projectEscalationDelta moved newParentId all =
     map_option (\<lambda>ds. concat (map (\<lambda>node. map (delta_row_of moved newParentId all node) ESCALATION_ROLE_KEYS)
       (moved # ds))) (collectDescendants (oe_id moved) all)"

definition countEntitiesLosingCoverage :: "delta_row list \<Rightarrow> nat" where
  "countEntitiesLosingCoverage rows =
     length (js_uniq (map dr_entityId (filter (\<lambda>r. dr_change r = Lost) rows)))"

subsection \<open>What-if ladders\<close>

record escalation_recipient =
  er_level :: int
  er_role_key :: org_role_key
  er_user_id :: string
  er_label :: localized_text
  er_entity_id :: string
  er_entity_code :: string
  er_entity_name :: localized_text

record escalation_ladder =
  el_entity_id :: string
  el_entity_code :: string
  el_entity_name :: localized_text
  el_resolved_at :: string
  el_recipients :: "escalation_recipient list"

datatype whatif_status = Original | Substituted | Uncovered

record whatif_level =
  wl_level :: int
  wl_roleKey :: org_role_key
  wl_status :: whatif_status
  wl_recipient :: "escalation_recipient option"
  wl_baseRecipient :: "escalation_recipient option"

definition ancestryChain :: "org_entity \<Rightarrow> (string, org_entity) jsmap \<Rightarrow> org_entity list" where
  "ancestryChain self byId =
     self # List.map_filter (map_of byId) (filter (\<lambda>a. a \<noteq> oe_id self) (rev (oe_path self)))"

fun resolveAvailable ::
  "org_entity list \<Rightarrow> org_role_key \<Rightarrow> int \<Rightarrow> string set \<Rightarrow> escalation_recipient option" where
  "resolveAvailable [] roleKey level unavailable = None"
| "resolveAvailable (e # chain) roleKey level unavailable =
     (case find (\<lambda>r. or_role_key r = roleKey \<and> or_user_id r \<notin> unavailable)
             (case oe_roles e of None \<Rightarrow> [] | Some rs \<Rightarrow> rs) of
        Some role \<Rightarrow> Some \<lparr>er_level = level, er_role_key = roleKey, er_user_id = or_user_id role,
          er_label = or_label role, er_entity_id = oe_id e, er_entity_code = oe_code e, er_entity_name = oe_name e\<rparr>
      | None \<Rightarrow> resolveAvailable chain roleKey level unavailable)"

definition whatif_level_of ::
  "org_entity list \<Rightarrow> (int, escalation_recipient) jsmap \<Rightarrow> string set \<Rightarrow> int \<Rightarrow> org_role_key \<Rightarrow> whatif_level" where
  "whatif_level_of chain baseByLevel unavailable level roleKey =
     (let base = map_of baseByLevel level;
          recipient = resolveAvailable chain roleKey level unavailable;
          status = (case recipient of
              None \<Rightarrow> Uncovered
            | Some r \<Rightarrow>
                (case base of
                   None \<Rightarrow> Substituted
                 | Some b \<Rightarrow> if er_user_id b = er_user_id r \<and> er_entity_id b = er_entity_id r then Original else Substituted))
      in \<lparr>wl_level = level, wl_roleKey = roleKey, wl_status = status, wl_recipient = recipient, wl_baseRecipient = base\<rparr>)"

definition recomputeEffectiveLadder ::
  "escalation_ladder \<Rightarrow> org_entity list \<Rightarrow> string set \<Rightarrow> whatif_level list" where
  "recomputeEffectiveLadder ladder all unavailable =
     (let byId = indexById all;
          chain = (case map_of byId (el_entity_id ladder) of None \<Rightarrow> [] | Some self \<Rightarrow> ancestryChain self byId);
          baseByLevel = foldl (\<lambda>m r. AList.update (er_level r) r m) [] (el_recipients ladder)
      in map (\<lambda>(idx, roleKey). whatif_level_of chain baseByLevel unavailable (int idx + 1) roleKey)
           (enumerate 0 ESCALATION_ROLE_KEYS))"

definition effectiveRecipients :: "whatif_level list \<Rightarrow> escalation_recipient list" where
  "effectiveRecipients levels = List.map_filter wl_recipient levels"

definition uncoveredCount :: "whatif_level list \<Rightarrow> nat" where
  "uncoveredCount levels = foldl (\<lambda>acc l. acc + (if wl_status l = Uncovered then 1 else 0)) 0 levels"

subsection \<open>The nearest provider up the tree\<close>

text \<open>The specification of escalation: the entity itself if it binds the role, else what its parent
  resolves to.\<close>

inductive nearest :: "org_entity list \<Rightarrow> org_role_key \<Rightarrow> org_entity \<Rightarrow> org_entity option \<Rightarrow> bool" for all r where
  own: "hasRole e r \<Longrightarrow> nearest all r e (Some e)"
| root: "\<not> hasRole e r \<Longrightarrow> parent_of e = None \<Longrightarrow> nearest all r e None"
| up: "\<not> hasRole e r \<Longrightarrow> parent_of e = Some (oe_id p) \<Longrightarrow> p \<in> set all \<Longrightarrow> nearest all r p q \<Longrightarrow> nearest all r e q"

text \<open>The ancestors of an entity, nearest first.\<close>

fun lineage :: "org_entity list \<Rightarrow> org_entity \<Rightarrow> org_entity list \<Rightarrow> bool" where
  "lineage all e [] \<longleftrightarrow> parent_of e = None"
| "lineage all e (p # ls) \<longleftrightarrow> parent_of e = Some (oe_id p) \<and> p \<in> set all \<and> lineage all p ls"

lemma lineage_nearest: "lineage all e ls \<Longrightarrow> nearest all r e (find (\<lambda>a. hasRole a r) (e # ls))"
proof (induction ls arbitrary: e)
  case (Cons p ls)
  then have "nearest all r p (find (\<lambda>a. hasRole a r) (p # ls))" by simp
  with Cons.prems show ?case
    by (cases "hasRole e r") (auto intro: nearest.own nearest.up)
qed (auto intro: nearest.own nearest.root)

lemma lineage_below: "lineage all e ls \<Longrightarrow> e \<in> set all \<Longrightarrow> a \<in> set ls \<Longrightarrow> (oe_id a, oe_id e) \<in> (parent_rel all)\<^sup>+"
proof (induction ls arbitrary: e)
  case (Cons p ls)
  then have "(oe_id p, oe_id e) \<in> parent_rel all" by (auto simp: parent_rel_def)
  moreover have "a = p \<or> (oe_id a, oe_id p) \<in> (parent_rel all)\<^sup>+" using Cons by auto
  ultimately show ?case by (meson r_into_trancl trancl_into_trancl)
qed simp

lemma lineage_members: "lineage all e ls \<Longrightarrow> a \<in> set ls \<Longrightarrow> a \<in> set all"
  by (induction ls arbitrary: e) auto

lemma unique_entity: "distinct (map oe_id all) \<Longrightarrow> a \<in> set all \<Longrightarrow> b \<in> set all \<Longrightarrow> oe_id a = oe_id b \<Longrightarrow> a = b"
  by (auto simp: distinct_map dest: inj_onD)

lemma lineage_complete:
  "lineage all e ls \<Longrightarrow> e \<in> set all \<Longrightarrow> distinct (map oe_id all) \<Longrightarrow> (i, oe_id e) \<in> (parent_rel all)\<^sup>+ \<Longrightarrow>
     i \<in> oe_id ` set ls"
proof (induction ls arbitrary: e)
  case Nil
  from Nil(4) obtain p where "(p, oe_id e) \<in> parent_rel all" by (auto dest: tranclD2)
  then obtain e' where "e' \<in> set all" "parent_of e' = Some p" "oe_id e' = oe_id e" by (auto simp: parent_rel_def)
  with unique_entity [OF Nil(3)] Nil(1,2) show ?case by (metis lineage.simps(1) option.distinct(1))
next
  case (Cons p ls)
  from Cons.prems(4) obtain z where z: "(i, z) \<in> (parent_rel all)\<^sup>*" "(z, oe_id e) \<in> parent_rel all"
    by (auto dest: tranclD2)
  then obtain e' where "e' \<in> set all" "parent_of e' = Some z" "oe_id e' = oe_id e" by (auto simp: parent_rel_def)
  with unique_entity [OF Cons.prems(3)] Cons.prems(1,2) have "z = oe_id p" by (metis lineage.simps(2) option.inject)
  with z(1) Cons show ?case by (auto simp: rtrancl_eq_or_trancl)
qed

text \<open>The paths of the registry agree with its parents: an entity's path, its own id left out, is that
  of its parent followed by the parent.\<close>

definition own_path :: "org_entity \<Rightarrow> string list" where
  "own_path e = filter (\<lambda>a. a \<noteq> oe_id e) (oe_path e)"

definition org_ok :: "org_entity list \<Rightarrow> bool" where
  "org_ok all \<longleftrightarrow> distinct (map oe_id all) \<and>
     (\<forall>e \<in> set all. (oe_path e = own_path e \<or> oe_path e = own_path e @ [oe_id e]) \<and>
       (case parent_of e of
          None \<Rightarrow> own_path e = []
        | Some p \<Rightarrow> (\<exists>pe \<in> set all. oe_id pe = p \<and> own_path e = own_path pe @ [p])))"

lemma indexById_get: "distinct (map oe_id all) \<Longrightarrow> e \<in> set all \<Longrightarrow> map_of (indexById all) (oe_id e) = Some e"
  unfolding indexById_def js_simps
  by (rule map_of_is_SomeI) (auto simp: rev_map [symmetric] comp_def)

lemma known_ancestors_of_ids:
  assumes "distinct (map oe_id all)" "set ls \<subseteq> set all" "i \<notin> oe_id ` set ls"
  shows "known_ancestors (indexById all) i (map oe_id ls) = ls"
  using assms(2,3) by (induction ls) (auto simp: known_ancestors_def List.map_filter_def indexById_get [OF assms(1)])

lemma known_ancestors_own:
  "known_ancestors byId (oe_id e) (oe_path e) = known_ancestors byId (oe_id e) (own_path e)"
  by (simp add: known_ancestors_def own_path_def)

lemma org_lineage:
  assumes "org_ok all"
  shows "e \<in> set all \<Longrightarrow> \<exists>ls. lineage all e ls \<and> own_path e = map oe_id (rev ls)"
proof (induction "length (own_path e)" arbitrary: e rule: less_induct)
  case less
  show ?case
  proof (cases "parent_of e")
    case None
    with assms less.prems have "own_path e = []" by (auto simp: org_ok_def split: option.splits)
    with None show ?thesis by (intro exI [of _ "[]"]) simp
  next
    case (Some p)
    with assms less.prems obtain pe where pe: "pe \<in> set all" "oe_id pe = p" "own_path e = own_path pe @ [p]"
      by (fastforce simp: org_ok_def split: option.splits)
    then obtain ls where "lineage all pe ls" "own_path pe = map oe_id (rev ls)"
      using less.hyps [of pe] by auto
    with pe Some show ?thesis by (intro exI [of _ "pe # ls"]) simp
  qed
qed

lemma org_acyclic:
  assumes "org_ok all"
  shows "acyclic (parent_rel all)"
proof -
  let ?len = "\<lambda>i. length (own_path (the (map_of (indexById all) i)))"
  have dist: "distinct (map oe_id all)" using assms by (simp add: org_ok_def)
  have "parent_rel all \<subseteq> measure ?len"
  proof
    fix pc
    assume "pc \<in> parent_rel all"
    then obtain p e where pc: "pc = (p, oe_id e)" "e \<in> set all" "parent_of e = Some p"
      by (auto simp: parent_rel_def)
    with assms obtain pe where "pe \<in> set all" "oe_id pe = p" "own_path e = own_path pe @ [p]"
      by (fastforce simp: org_ok_def split: option.splits)
    with pc indexById_get [OF dist] show "pc \<in> measure ?len" by auto
  qed
  then show ?thesis by (rule wf_acyclic [OF wf_subset [OF wf_measure]])
qed

lemma lineage_acyclic:
  assumes "org_ok all" "lineage all e ls" "e \<in> set all"
  shows "oe_id e \<notin> oe_id ` set ls"
  using lineage_below [OF assms(2,3)] org_acyclic [OF assms(1)] by (fastforce simp: acyclic_def)

lemma org_known_ancestors:
  assumes "org_ok all" "e \<in> set all" "lineage all e ls" "own_path e = map oe_id (rev ls)"
  shows "known_ancestors (indexById all) (oe_id e) (oe_path e) = rev ls"
proof -
  have "set (rev ls) \<subseteq> set all" using lineage_members [OF assms(3)] by auto
  moreover have "oe_id e \<notin> oe_id ` set (rev ls)" using lineage_acyclic [OF assms(1,3,2)] by simp
  ultimately show ?thesis
    using known_ancestors_of_ids [of all "rev ls"] assms(1) by (simp add: known_ancestors_own assms(4) org_ok_def)
qed

lemma resolveProvider_find:
  assumes "oe_id e \<notin> oe_id ` set ancestry"
  shows "resolveProvider e ancestry r = map_option (\<lambda>a. (oe_id a, oe_code a)) (find (\<lambda>a. hasRole a r) (e # rev ancestry))"
proof -
  have "find (\<lambda>a. oe_id a \<noteq> oe_id e \<and> hasRole a r) (rev ancestry) = find (\<lambda>a. hasRole a r) (rev ancestry)"
    using assms by (intro find_cong) (auto simp: image_iff)
  then show ?thesis by (simp add: resolveProvider_def)
qed

lemma escalationProvider_nearest:
  assumes "org_ok all" "e \<in> set all"
  shows "\<exists>q. nearest all r e q \<and> escalationProvider e all r = map_option (\<lambda>a. (oe_id a, oe_code a)) q"
proof -
  obtain ls where ls: "lineage all e ls" "own_path e = map oe_id (rev ls)" using org_lineage [OF assms] by blast
  have "oe_id e \<notin> oe_id ` set (rev ls)" using lineage_acyclic [OF assms(1) ls(1) assms(2)] by simp
  then show ?thesis
    using lineage_nearest [OF ls(1)] resolveProvider_find org_known_ancestors [OF assms ls]
    unfolding escalationProvider_def by (metis rev_rev_ident)
qed

subsection \<open>The projection\<close>

lemma lineage_reparented:
  assumes "lineage all e ls" "i \<notin> oe_id ` set (e # ls)"
  shows "lineage (map (reparent_entity i np) all) e ls"
  using assms
proof (induction ls arbitrary: e)
  case (Cons p ls)
  then have "reparent_entity i np p \<in> set (map (reparent_entity i np) all)" "oe_id p \<noteq> i" by auto
  with Cons show ?case by auto
qed simp

lemma lineage_splice:
  assumes "lineage all x (pre @ m # post)" "oe_id m \<notin> oe_id ` set (x # pre)" "m \<in> set all"
    and "lineage (map (reparent_entity (oe_id m) np) all) (reparent_entity (oe_id m) np m) ls"
  shows "lineage (map (reparent_entity (oe_id m) np) all) x (pre @ reparent_entity (oe_id m) np m # ls)"
  using assms
proof (induction pre arbitrary: x)
  case (Cons p pre)
  then have "reparent_entity (oe_id m) np p \<in> set (map (reparent_entity (oe_id m) np) all)" "oe_id p \<noteq> oe_id m" by auto
  with Cons show ?case by auto
qed auto

lemma find_map_same:
  "(\<And>a. a \<in> set xs \<Longrightarrow> P (g a) = P a) \<Longrightarrow> find P (map g xs) = map_option g (find P xs)"
  by (induction xs) auto

lemma dropWhile_filter_self:
  "m \<noteq> i \<Longrightarrow> filter (\<lambda>a. a \<noteq> i) (dropWhile (\<lambda>a. a \<noteq> m) ids) = dropWhile (\<lambda>a. a \<noteq> m) (filter (\<lambda>a. a \<noteq> i) ids)"
  by (induction ids) auto

text \<open>A move the preview is asked for: to the root, or under an entity outside the subtree.\<close>

definition valid_target :: "org_entity \<Rightarrow> string option \<Rightarrow> org_entity list \<Rightarrow> bool" where
  "valid_target moved newParentId all \<longleftrightarrow>
     (case newParentId of
        None \<Rightarrow> True
      | Some p \<Rightarrow> p \<noteq> [] \<and> p \<in> oe_id ` set all \<and> (oe_id moved, p) \<notin> (parent_rel all)\<^sup>*)"

lemma new_prefix_lineage:
  assumes ok: "org_ok all" and m: "m \<in> set all" and valid: "valid_target m np all"
  shows "lineage (reparented m np all) (reparent_entity (oe_id m) np m) (rev (new_prefix np all)) \<and>
    (\<forall>a \<in> set (new_prefix np all). a \<in> set all \<and> (oe_id m, oe_id a) \<notin> (parent_rel all)\<^sup>*)"
proof (cases np)
  case None
  then show ?thesis by (simp add: new_prefix_def parent_of_reparent)
next
  case (Some p)
  with valid obtain pe where pe: "pe \<in> set all" "oe_id pe = p" and p: "p \<noteq> []" and
    away: "(oe_id m, oe_id pe) \<notin> (parent_rel all)\<^sup>*" by (auto simp: valid_target_def)
  obtain ls where ls: "lineage all pe ls" "own_path pe = map oe_id (rev ls)" using org_lineage [OF ok pe(1)] by blast
  have "map_of (indexById all) p = Some pe"
    using indexById_get [of all pe] ok pe by (simp add: org_ok_def)
  then have prefix: "new_prefix np all = rev ls @ [pe]"
    using org_known_ancestors [OF ok pe(1) ls] Some p by (simp add: new_prefix_def)
  have far: "(oe_id m, oe_id a) \<notin> (parent_rel all)\<^sup>*" if "a \<in> set (pe # ls)" for a
    using away lineage_below [OF ls(1) pe(1), of a] that by (auto dest: rtrancl_trans trancl_into_rtrancl)
  then have "oe_id m \<notin> oe_id ` set (pe # ls)" by (metis (no_types, lifting) imageE rtrancl.rtrancl_refl)
  from lineage_reparented [OF ls(1) this, of np]
  have "lineage (reparented m np all) pe ls" by (simp add: reparented_def)
  moreover have "oe_id pe \<noteq> oe_id m" using away by auto
  then have "pe \<in> set (reparented m np all)"
    using pe(1) unfolding reparented_def by (metis image_eqI list.set_map reparent_entity_simps(4))
  ultimately have "lineage (reparented m np all) (reparent_entity (oe_id m) np m) (pe # ls)"
    using Some p pe(2) by (simp add: parent_of_reparent)
  moreover have "\<forall>a \<in> set (pe # ls). a \<in> set all \<and> (oe_id m, oe_id a) \<notin> (parent_rel all)\<^sup>*"
    using far lineage_members [OF ls(1)] pe(1) by auto
  ultimately show ?thesis by (simp add: prefix)
qed

text \<open>The part of an affected entity's ancestry inside the moved subtree.\<close>

lemma lineage_split:
  "lineage all x (pre @ m # post) \<Longrightarrow> x \<in> set all \<Longrightarrow>
     lineage all m post \<and> (\<forall>a \<in> set (x # pre). (oe_id m, oe_id a) \<in> (parent_rel all)\<^sup>+)"
proof (induction pre arbitrary: x)
  case (Cons p pre)
  have "lineage all m post \<and> (\<forall>a \<in> set (p # pre). (oe_id m, oe_id a) \<in> (parent_rel all)\<^sup>+)"
    using Cons.IH [of p] Cons.prems by simp
  moreover have "(oe_id m, oe_id x) \<in> (parent_rel all)\<^sup>+"
    using lineage_below [OF Cons.prems(1,2), of m] by simp
  ultimately show ?case by simp
qed (auto simp: parent_rel_def intro!: r_into_trancl)

lemma intra_split:
  assumes ok: "org_ok all" and m: "m \<in> set all" and x: "x \<in> set all" "(oe_id m, oe_id x) \<in> (parent_rel all)\<^sup>+"
  shows "\<exists>pre post. lineage all x (pre @ m # post) \<and> intra_ancestry m all x = m # rev pre \<and>
    oe_id m \<notin> oe_id ` set (x # pre) \<and> oe_id x \<notin> oe_id ` set (pre @ [m])"
proof -
  have dist: "distinct (map oe_id all)" using ok by (simp add: org_ok_def)
  obtain ls where ls: "lineage all x ls" "own_path x = map oe_id (rev ls)" using org_lineage [OF ok x(1)] by blast
  have "oe_id m \<in> oe_id ` set ls" by (rule lineage_complete [OF ls(1) x(1) dist x(2)])
  then have "m \<in> set ls" using unique_entity [OF dist m] lineage_members [OF ls(1)] by force
  then obtain pre post where split: "ls = pre @ m # post" by (meson split_list)
  note below = lineage_split [OF ls(1) [unfolded split] x(1)]
  have m_low: "oe_id m \<notin> oe_id ` set (x # pre)"
    using below org_acyclic [OF ok] by (fastforce simp: acyclic_def)
  have x_low: "oe_id x \<notin> oe_id ` set (pre @ [m])"
    using lineage_acyclic [OF ok ls(1) x(1)] by (auto simp: split)
  have "oe_id m \<notin> oe_id ` set post" using lineage_acyclic [OF ok _ m] below by blast
  then have "dropWhile (\<lambda>a. a \<noteq> oe_id m) (own_path x) = map oe_id (m # rev pre)"
    using dropWhile_append2 [of "map oe_id (rev post)" "\<lambda>a. a \<noteq> oe_id m" "map oe_id (m # rev pre)"]
    by (auto simp: ls(2) split)
  moreover have neq: "oe_id m \<noteq> oe_id x" using x_low by auto
  ultimately have "intra_ancestry m all x = List.map_filter (map_of (indexById all)) (map oe_id (m # rev pre))"
    by (simp only: intra_ancestry_def known_ancestors_def dropWhile_filter_self [OF neq] own_path_def [symmetric])
  moreover have "filter (\<lambda>a. a \<noteq> oe_id x) (map oe_id (m # rev pre)) = map oe_id (m # rev pre)"
    using x_low by (intro filter_True) (auto simp: image_iff)
  moreover have "known_ancestors (indexById all) (oe_id x) (map oe_id (m # rev pre)) = m # rev pre"
    using x_low lineage_members [OF ls(1)] m by (intro known_ancestors_of_ids dist) (auto simp: split)
  ultimately have "intra_ancestry m all x = m # rev pre" by (simp only: known_ancestors_def)
  with ls(1) split m_low x_low show ?thesis by blast
qed

lemma projected_nearest:
  assumes ok: "org_ok all" and m: "m \<in> set all" and valid: "valid_target m np all"
    and x: "x \<in> set all" "(oe_id m, oe_id x) \<in> (parent_rel all)\<^sup>*"
  shows "\<exists>q. nearest (reparented m np all) r (reparent_entity (oe_id m) np x) q \<and>
    projected m np all x r = map_option oe_code q"
proof -
  let ?g = "reparent_entity (oe_id m) np" and ?prefix = "new_prefix np all"
  note prefix = new_prefix_lineage [OF ok m valid]
  have x_high: "oe_id x \<notin> oe_id ` set ?prefix" using prefix x(2) by auto
  have "\<exists>ls. lineage (reparented m np all) (?g x) ls \<and>
      map (\<lambda>a. (oe_id a, oe_code a, hasRole a r)) ls =
      map (\<lambda>a. (oe_id a, oe_code a, hasRole a r)) (rev (?prefix @ intra_ancestry m all x)) \<and>
      oe_id x \<notin> oe_id ` set (intra_ancestry m all x)"
  proof (cases "oe_id x = oe_id m")
    case True
    then have "x = m" using unique_entity [of all x m] ok x(1) m by (simp add: org_ok_def)
    have "oe_path m = own_path m \<or> oe_path m = own_path m @ [oe_id m]" using ok m by (simp add: org_ok_def)
    moreover have "oe_id m \<notin> set (own_path m)" by (simp add: own_path_def)
    then have "dropWhile (\<lambda>a. a \<noteq> oe_id m) (own_path m @ ys) = dropWhile (\<lambda>a. a \<noteq> oe_id m) ys" for ys
      by (intro dropWhile_append2) auto
    from this [of "[]"] this [of "[oe_id m]"]
    have "dropWhile (\<lambda>a. a \<noteq> oe_id m) (own_path m) = []"
      "dropWhile (\<lambda>a. a \<noteq> oe_id m) (own_path m @ [oe_id m]) = [oe_id m]" by simp_all
    ultimately have "dropWhile (\<lambda>a. a \<noteq> oe_id m) (oe_path m) \<in> {[], [oe_id m]}" by (elim disjE) (simp_all only:, simp_all)
    then have "intra_ancestry m all m = []"
      by (auto simp: intra_ancestry_def known_ancestors_def List.map_filter_def simp del: dropWhile_eq_Nil_conv)
    with prefix \<open>x = m\<close> show ?thesis by auto
  next
    case False
    then have "(oe_id m, oe_id x) \<in> (parent_rel all)\<^sup>+" using x(2) by (auto simp: rtrancl_eq_or_trancl)
    from intra_split [OF ok m x(1) this] obtain pre post where
      split: "lineage all x (pre @ m # post)" "intra_ancestry m all x = m # rev pre"
        "oe_id m \<notin> oe_id ` set (x # pre)" "oe_id x \<notin> oe_id ` set (pre @ [m])" by blast
    from lineage_splice [OF split(1,3) m prefix [THEN conjunct1, unfolded reparented_def]] False split(2,4)
    show ?thesis by (intro exI [of _ "pre @ ?g m # rev ?prefix"]) (auto simp: reparented_def)
  qed
  then obtain ls where ls: "lineage (reparented m np all) (?g x) ls"
    "map (\<lambda>a. (oe_id a, oe_code a, hasRole a r)) ls =
      map (\<lambda>a. (oe_id a, oe_code a, hasRole a r)) (rev (?prefix @ intra_ancestry m all x))"
    "oe_id x \<notin> oe_id ` set (intra_ancestry m all x)" by blast
  have code: "map_option oe_code (find (\<lambda>a. hasRole a r) ks) =
      map_option (fst \<circ> snd) (find (snd \<circ> snd) (map (\<lambda>a. (oe_id a, oe_code a, hasRole a r)) ks))" for ks
    by (induction ks) auto
  have "projected m np all x r = map_option oe_code (find (\<lambda>a. hasRole a r) (x # rev (?prefix @ intra_ancestry m all x)))"
  proof -
    have "oe_id x \<notin> oe_id ` set (?prefix @ intra_ancestry m all x)" using x_high ls(3) by (simp add: image_Un)
    from resolveProvider_find [OF this] show ?thesis by (simp add: projected_def option.map_comp comp_def)
  qed
  also have "\<dots> = map_option oe_code (find (\<lambda>a. hasRole a r) (?g x # ls))"
    unfolding code by (simp add: ls(2))
  finally show ?thesis using lineage_nearest [OF ls(1)] by blast
qed

text \<open>C15. On a registry whose paths agree with its parents, the preview of a valid move returns one row
  per entity of the moved subtree and ladder role; its \<open>before\<close> is the code of the nearest provider up
  the tree, its \<open>after\<close> that of the nearest provider in the tree in which the move was made.\<close>

theorem projection_refines_move:
  assumes ok: "org_ok all" and m: "m \<in> set all" and valid: "valid_target m np all"
  shows "\<exists>rows. projectEscalationDelta m np all = Some rows \<and>
    (\<lambda>row. (dr_entityId row, dr_role_key row)) ` set rows =
      {oe_id x |x. x \<in> set all \<and> (oe_id m, oe_id x) \<in> (parent_rel all)\<^sup>*} \<times> set ESCALATION_ROLE_KEYS \<and>
    (\<forall>row \<in> set rows. \<exists>x \<in> set all. \<exists>q q'. oe_id x = dr_entityId row \<and>
       nearest all (dr_role_key row) x q \<and> dr_before row = map_option oe_code q \<and>
       nearest (reparented m np all) (dr_role_key row) (reparent_entity (oe_id m) np x) q' \<and>
       dr_after row = map_option oe_code q')"
proof -
  have dist: "distinct (map oe_id all)" using ok by (simp add: org_ok_def)
  from collectDescendants_some [OF acyclic_well_founded [OF org_acyclic [OF ok]] dist, of "oe_id m"]
  obtain ds where ds: "collectDescendants (oe_id m) all = Some ds"
    "set ds = {e \<in> set all. (oe_id m, oe_id e) \<in> (parent_rel all)\<^sup>+}" by blast
  have affected: "set (m # ds) = {x \<in> set all. (oe_id m, oe_id x) \<in> (parent_rel all)\<^sup>*}"
    using ds(2) m unique_entity [OF dist m] by (auto simp: rtrancl_eq_or_trancl)
  let ?rows = "concat (map (\<lambda>node. map (delta_row_of m np all node) ESCALATION_ROLE_KEYS) (m # ds))"
  have rows: "projectEscalationDelta m np all = Some ?rows" by (simp add: projectEscalationDelta_def ds(1))
  have set_rows: "set ?rows = (\<lambda>(x, r). delta_row_of m np all x r) ` (set (m # ds) \<times> set ESCALATION_ROLE_KEYS)"
    by auto
  have fields: "dr_entityId (delta_row_of m np all x r) = oe_id x" "dr_role_key (delta_row_of m np all x r) = r"
    "dr_before (delta_row_of m np all x r) = map_option snd (escalationProvider x all r)"
    "dr_after (delta_row_of m np all x r) = projected m np all x r" for x r
    by (simp_all add: delta_row_of_def Let_def)
  have "(\<lambda>row. (dr_entityId row, dr_role_key row)) ` set ?rows =
      {oe_id x |x. x \<in> set all \<and> (oe_id m, oe_id x) \<in> (parent_rel all)\<^sup>*} \<times> set ESCALATION_ROLE_KEYS"
    unfolding set_rows affected by (force simp: fields image_iff)
  moreover have "\<exists>x \<in> set all. \<exists>q q'. oe_id x = dr_entityId row \<and>
       nearest all (dr_role_key row) x q \<and> dr_before row = map_option oe_code q \<and>
       nearest (reparented m np all) (dr_role_key row) (reparent_entity (oe_id m) np x) q' \<and>
       dr_after row = map_option oe_code q'" if "row \<in> set ?rows" for row
  proof -
    from that obtain x r where row: "row = delta_row_of m np all x r" and
      x: "x \<in> set all" "(oe_id m, oe_id x) \<in> (parent_rel all)\<^sup>*"
      unfolding set_rows affected by auto
    obtain q where "nearest all r x q" "escalationProvider x all r = map_option (\<lambda>a. (oe_id a, oe_code a)) q"
      using escalationProvider_nearest [OF ok x(1)] by blast
    moreover obtain q' where "nearest (reparented m np all) r (reparent_entity (oe_id m) np x) q'"
      "projected m np all x r = map_option oe_code q'"
      using projected_nearest [OF ok m valid x] by blast
    ultimately show ?thesis using x(1) unfolding row fields
      by (intro bexI [of _ x] exI [of _ q] exI [of _ q']) (simp_all add: option.map_comp comp_def)
  qed
  ultimately show ?thesis using rows by blast
qed

subsection \<open>Agreement of the two previews\<close>

lemma indexById_id: "map_of (indexById all) i = Some e \<Longrightarrow> oe_id e = i"
  by (auto simp: indexById_def js_simps dest!: map_of_SomeD)

lemma resolveAvailable_find:
  "map_option (\<lambda>r. (er_entity_id r, er_entity_code r)) (resolveAvailable chain roleKey level {}) =
     map_option (\<lambda>a. (oe_id a, oe_code a)) (find (\<lambda>a. hasRole a roleKey) chain)"
proof (induction chain)
  case (Cons e chain)
  have "find P xs = None \<longleftrightarrow> \<not> list_ex P xs" for P and xs :: "org_role list"
    by (induction xs) auto
  then have "hasRole e roleKey \<longleftrightarrow> find (\<lambda>r. or_role_key r = roleKey) (case oe_roles e of None \<Rightarrow> [] | Some rs \<Rightarrow> rs) \<noteq> None"
    by (simp add: hasRole_def)
  with Cons show ?case
    by (cases "find (\<lambda>r. or_role_key r = roleKey) (case oe_roles e of None \<Rightarrow> [] | Some rs \<Rightarrow> rs)") simp_all
qed simp

lemma ancestryChain_rev: "ancestryChain e byId = e # rev (known_ancestors byId (oe_id e) (oe_path e))"
  by (simp add: ancestryChain_def known_ancestors_def List.map_filter_def rev_map rev_filter)

lemma known_ancestors_not_self: "e' \<in> set (known_ancestors (indexById all) i ids) \<Longrightarrow> oe_id e' \<noteq> i"
  by (auto simp: known_ancestors_def List.map_filter_def dest: indexById_id)

text \<open>With nobody on leave the what-if ladder of an entity names, level by level, exactly the
  providers the re-parenting preview resolves for it.\<close>

theorem whatif_agrees_with_preview:
  assumes "map_of (indexById all) (el_entity_id ladder) = Some e"
  shows "map (\<lambda>l. map_option (\<lambda>r. (er_entity_id r, er_entity_code r)) (wl_recipient l))
      (recomputeEffectiveLadder ladder all {}) = map (escalationProvider e all) ESCALATION_ROLE_KEYS"
proof -
  let ?known = "known_ancestors (indexById all) (oe_id e) (oe_path e)"
  have "oe_id e \<notin> oe_id ` set ?known" using known_ancestors_not_self by (metis imageE)
  from resolveProvider_find [OF this]
  have "escalationProvider e all r =
      map_option (\<lambda>a. (oe_id a, oe_code a)) (find (\<lambda>a. hasRole a r) (ancestryChain e (indexById all)))" for r
    unfolding escalationProvider_def ancestryChain_rev by simp
  then show ?thesis
    unfolding recomputeEffectiveLadder_def Let_def assms option.case
    by (simp add: ESCALATION_ROLE_KEYS_def whatif_level_of_def Let_def resolveAvailable_find)
qed

definition sample_entity :: "string \<Rightarrow> string option \<Rightarrow> string list \<Rightarrow> org_role_key list \<Rightarrow> org_entity" where
  "sample_entity i p path rs = \<lparr>oe_id = i, oe_tenant_id = ''t'', oe_parent_id = p, oe_entity_type = ''department'',
     oe_code = i, oe_name = \<lparr>lt_en = i, lt_ar = i\<rparr>, oe_platform_org_unit_id = None, oe_path = path, oe_active = True,
     oe_metadata = [], oe_created_at = [], oe_updated_at = [],
     oe_roles = Some (map (\<lambda>r. \<lparr>or_id = i, or_entity_id = i, or_role_key = r, or_user_id = i,
       or_label = \<lparr>lt_en = [], lt_ar = []\<rparr>, or_created_at = [], or_updated_at = []\<rparr>) rs)\<rparr>"

definition sample_org :: "org_entity list" where
  "sample_org = [sample_entity ''c'' None [''c''] [Shared_services_manager],
     sample_entity ''d'' (Some ''c'') [''c'', ''d''] [Department_manager],
     sample_entity ''s'' (Some ''d'') [''c'', ''d'', ''s''] [],
     sample_entity ''e'' (Some ''c'') [''c''] []]"

lemma sample_org_ok: "org_ok sample_org"
  by code_simp

lemma sample_org_moved:
  "sample_entity ''s'' (Some ''d'') [''c'', ''d'', ''s''] [] \<in> set sample_org"
  by (simp add: sample_org_def)

theorem validParents_exact_witness:
  "\<exists>ps. validParents (sample_entity ''s'' (Some ''d'') [''c'', ''d'', ''s''] []) sample_org = Some ps \<and>
    set ps = {np \<in> set sample_org. acyclic (parent_rel (reparented
      (sample_entity ''s'' (Some ''d'') [''c'', ''d'', ''s''] []) (Some (oe_id np)) sample_org))}"
  by (rule validParents_exact [OF org_acyclic [OF sample_org_ok] sample_org_moved])
     (simp add: sample_org_def sample_entity_def)

lemma sample_target:
  "valid_target (sample_entity ''s'' (Some ''d'') [''c'', ''d'', ''s''] []) (Some ''e'') sample_org"
proof -
  have "(''s'', ''e'') \<notin> (parent_rel sample_org)\<^sup>+"
  proof
    assume "(''s'', ''e'') \<in> (parent_rel sample_org)\<^sup>+"
    then obtain z where "(''s'', z) \<in> parent_rel sample_org" by (auto dest: tranclD)
    then show False by (auto simp: parent_rel_def parent_of_def sample_org_def sample_entity_def)
  qed
  then show ?thesis by (simp add: valid_target_def sample_org_def sample_entity_def rtrancl_eq_or_trancl)
qed

theorem projection_refines_move_witness:
  "\<exists>rows. projectEscalationDelta (sample_entity ''s'' (Some ''d'') [''c'', ''d'', ''s''] []) (Some ''e'') sample_org = Some rows \<and>
    (\<exists>row \<in> set rows. dr_role_key row = Department_manager \<and> dr_before row = Some ''d'' \<and> dr_after row = None)"
proof -
  have "\<exists>rows. projectEscalationDelta (sample_entity ''s'' (Some ''d'') [''c'', ''d'', ''s''] []) (Some ''e'') sample_org = Some rows"
    using projection_refines_move [OF sample_org_ok sample_org_moved sample_target] by blast
  moreover have "map_option (list_ex (\<lambda>row. dr_role_key row = Department_manager \<and> dr_before row = Some ''d'' \<and> dr_after row = None))
      (projectEscalationDelta (sample_entity ''s'' (Some ''d'') [''c'', ''d'', ''s''] []) (Some ''e'') sample_org) = Some True"
    by code_simp
  ultimately show ?thesis by (auto simp: list_ex_iff)
qed

theorem whatif_agrees_with_preview_witness:
  "map (\<lambda>l. map_option (\<lambda>r. (er_entity_id r, er_entity_code r)) (wl_recipient l))
      (recomputeEffectiveLadder \<lparr>el_entity_id = ''s'', el_entity_code = ''s'', el_entity_name = \<lparr>lt_en = [], lt_ar = []\<rparr>,
        el_resolved_at = [], el_recipients = []\<rparr> sample_org {}) =
   [None, Some (''d'', ''d''), Some (''c'', ''c'')]"
proof -
  let ?e = "sample_entity ''s'' (Some ''d'') [''c'', ''d'', ''s''] []"
  have "map_of (indexById sample_org) ''s'' = Some ?e" by code_simp
  moreover have "map (escalationProvider ?e sample_org) ESCALATION_ROLE_KEYS = [None, Some (''d'', ''d''), Some (''c'', ''c'')]"
    by code_simp
  ultimately show ?thesis
    using whatif_agrees_with_preview [of sample_org "\<lparr>el_entity_id = ''s'', el_entity_code = ''s'',
      el_entity_name = \<lparr>lt_en = [], lt_ar = []\<rparr>, el_resolved_at = [], el_recipients = []\<rparr>" ?e] by simp
qed

end
