(* ===== verification/Csv.thy ===== *)
theory Csv
  imports Web
begin

section \<open>CSV export and import\<close>

text \<open>
  The canonical CSV writer \<open>lib/format/csv.ts\<close>, the parser of the documents import
  \<open>app/(dashboard)/lex/documents/_lib/csv-parse.ts\<close> and the writer of the documents export in
  \<open>documents-helpers.ts\<close>. A text is the list of its UTF-16 code units. Labels, the text of numbers,
  dates and objects, and lower-casing come from the platform and are arguments.
\<close>

subsection \<open>Texts\<close>

type_synonym js_text = "nat list"

abbreviation "QUOTE \<equiv> 34 :: nat"
abbreviation "CR \<equiv> 13 :: nat"
abbreviation "LF \<equiv> 10 :: nat"
abbreviation "BOM \<equiv> 65279 :: nat"

datatype csv_delimiter = Comma | Tab

fun delimiter_code :: "csv_delimiter \<Rightarrow> nat" where
  "delimiter_code Comma = 44"
| "delimiter_code Tab = 9"

definition text_space :: "nat \<Rightarrow> bool" where
  "text_space c \<longleftrightarrow> c \<in> {9, 10, 11, 12, 13, 32, 160, 5760, 8232, 8233, 8239, 8287, 12288, 65279} \<or> 8192 \<le> c \<and> c \<le> 8202"

definition text_trim :: "js_text \<Rightarrow> js_text" where
  "text_trim s = rev (dropWhile text_space (rev (dropWhile text_space s)))"

definition ascii :: "string \<Rightarrow> js_text" where
  "ascii s = map of_char s"

subsection \<open>Writing\<close>

definition double_quotes :: "js_text \<Rightarrow> js_text" where
  "double_quotes field = concat (map (\<lambda>c. if c = QUOTE then [QUOTE, QUOTE] else [c]) field)"

definition csvEscape :: "js_text \<Rightarrow> js_text \<Rightarrow> js_text" where
  "csvEscape field delimiter =
     (if js_includes field delimiter \<or> QUOTE \<in> set field \<or> LF \<in> set field \<or> CR \<in> set field
      then QUOTE # double_quotes field @ [QUOTE] else field)"

datatype app_locale = Ar | En

text \<open>A value to export, by the tests of \<open>serializeCell\<close>; a Date is its ISO text, None when invalid.\<close>

datatype csv_value =
    V_null
  | V_undefined
  | V_bool bool
  | V_number js_num
  | V_date "js_text option"
  | V_array "csv_value list"
  | V_object json
  | V_string js_text

record csv_env =
  env_message :: "js_text \<Rightarrow> app_locale \<Rightarrow> js_text \<Rightarrow> js_text option"
  env_number :: "rat \<Rightarrow> js_text"
  env_stringify :: "json \<Rightarrow> js_text"

fun serializeCell :: "csv_env \<Rightarrow> app_locale \<Rightarrow> csv_value \<Rightarrow> js_text" where
  "serializeCell env locale V_null = []"
| "serializeCell env locale V_undefined = []"
| "serializeCell env locale (V_bool b) =
     (case env_message env (ascii ''table'') locale (ascii (if b then ''export.yes'' else ''export.no'')) of
        Some t \<Rightarrow> t
      | None \<Rightarrow> ascii (if b then ''Yes'' else ''No''))"
| "serializeCell env locale (V_number n) = (case n of Fin q \<Rightarrow> env_number env q | _ \<Rightarrow> [])"
| "serializeCell env locale (V_date d) = (case d of None \<Rightarrow> [] | Some t \<Rightarrow> t)"
| "serializeCell env locale (V_array vs) = js_join (ascii ''; '') (map (serializeCell env locale) vs)"
| "serializeCell env locale (V_object j) = env_stringify env j"
| "serializeCell env locale (V_string t) = t"

datatype csv_header = Header_text js_text | Header_bilingual (hb_en: js_text) (hb_ar: js_text)

record 'row csv_column =
  cc_key :: js_text
  cc_header :: "csv_header option"
  cc_headerKey :: "js_text option"
  cc_value :: "('row \<Rightarrow> csv_value) option"

definition resolveHeader :: "csv_env \<Rightarrow> 'row csv_column \<Rightarrow> app_locale \<Rightarrow> js_text \<Rightarrow> js_text" where
  "resolveHeader env column locale namespace =
     (case (case cc_headerKey column of
              None \<Rightarrow> None
            | Some k \<Rightarrow> if k = [] then None else env_message env namespace locale k) of
        Some t \<Rightarrow> t
      | None \<Rightarrow>
          (case cc_header column of
             Some (Header_text t) \<Rightarrow> t
           | Some (Header_bilingual en ar) \<Rightarrow>
               (let side = (if locale = Ar then ar else en)
                in if side \<noteq> [] then side else if en \<noteq> [] then en else ar)
           | None \<Rightarrow> (case cc_headerKey column of Some k \<Rightarrow> k | None \<Rightarrow> cc_key column)))"

record csv_options =
  co_locale :: "app_locale option"
  co_headerNamespace :: "js_text option"
  co_delimiter :: "js_text option"

definition option_or :: "'a option \<Rightarrow> 'a \<Rightarrow> 'a" where
  "option_or v d = (case v of None \<Rightarrow> d | Some x \<Rightarrow> x)"

text \<open>The cells of the document, header row first; \<open>row_get\<close> reads a property of a row.\<close>

definition csv_cells ::
  "csv_env \<Rightarrow> ('row \<Rightarrow> js_text \<Rightarrow> csv_value) \<Rightarrow> 'row list \<Rightarrow> 'row csv_column list \<Rightarrow> csv_options \<Rightarrow> js_text list list" where
  "csv_cells env row_get rows columns options =
     (let locale = option_or (co_locale options) Ar;
          namespace = option_or (co_headerNamespace options) (ascii ''table'')
      in map (\<lambda>column. resolveHeader env column locale namespace) columns #
         map (\<lambda>row. map (\<lambda>column. serializeCell env locale
           (case cc_value column of Some f \<Rightarrow> f row | None \<Rightarrow> row_get row (cc_key column))) columns) rows)"

definition csv_line :: "js_text \<Rightarrow> js_text list \<Rightarrow> js_text" where
  "csv_line delimiter cells = js_join delimiter (map (\<lambda>c. csvEscape c delimiter) cells)"

definition buildCsv ::
  "csv_env \<Rightarrow> ('row \<Rightarrow> js_text \<Rightarrow> csv_value) \<Rightarrow> 'row list \<Rightarrow> 'row csv_column list \<Rightarrow> csv_options \<Rightarrow> js_text" where
  "buildCsv env row_get rows columns options =
     js_join [CR, LF] (map (csv_line (option_or (co_delimiter options) [44]))
       (csv_cells env row_get rows columns options))"

text \<open>What \<open>downloadCsv\<close> puts into the file.\<close>

definition downloaded :: "js_text \<Rightarrow> js_text" where
  "downloaded csvText = BOM # csvText"

subsection \<open>Parsing\<close>

definition stripBom :: "js_text \<Rightarrow> js_text" where
  "stripBom t = (case t of [] \<Rightarrow> [] | c # r \<Rightarrow> if c = BOM then r else t)"

definition firstPhysicalLine :: "js_text \<Rightarrow> js_text" where
  "firstPhysicalLine t = takeWhile (\<lambda>c. c \<noteq> CR \<and> c \<noteq> LF) t"

fun count_delimiters :: "bool \<Rightarrow> nat \<Rightarrow> nat \<Rightarrow> js_text \<Rightarrow> nat \<times> nat" where
  "count_delimiters inQuotes commas tabs [] = (commas, tabs)"
| "count_delimiters inQuotes commas tabs (c # r) =
     (if c = QUOTE then
        if inQuotes \<and> r \<noteq> [] \<and> hd r = QUOTE then count_delimiters inQuotes commas tabs (tl r)
        else count_delimiters (\<not> inQuotes) commas tabs r
      else if inQuotes then count_delimiters inQuotes commas tabs r
      else if c = 44 then count_delimiters inQuotes (commas + 1) tabs r
      else if c = 9 then count_delimiters inQuotes commas (tabs + 1) r
      else count_delimiters inQuotes commas tabs r)"

definition detectDelimiter :: "js_text \<Rightarrow> csv_delimiter" where
  "detectDelimiter text =
     (let (commas, tabs) = count_delimiters False 0 0 (firstPhysicalLine (stripBom text))
      in if 0 < tabs \<and> commas \<le> tabs then Tab else Comma)"

record csv_state =
  cv_matrix :: "js_text list list"
  cv_row :: "js_text list"
  cv_field :: js_text
  cv_inQuotes :: bool
  cv_started :: bool

definition pushField :: "csv_state \<Rightarrow> csv_state" where
  "pushField st = st\<lparr>cv_row := cv_row st @ [cv_field st], cv_field := [], cv_started := True\<rparr>"

definition pushRow :: "csv_state \<Rightarrow> csv_state" where
  "pushRow st =
     (let st = pushField st
      in st\<lparr>cv_matrix := (if cv_row st = [[]] then cv_matrix st else cv_matrix st @ [cv_row st]),
            cv_row := [], cv_started := False\<rparr>)"

fun csv_scan :: "nat \<Rightarrow> csv_state \<Rightarrow> js_text \<Rightarrow> csv_state" where
  "csv_scan d st [] = st"
| "csv_scan d st (c # r) =
     (if cv_inQuotes st then
        if c = QUOTE then
          if r \<noteq> [] \<and> hd r = QUOTE then csv_scan d (st\<lparr>cv_field := cv_field st @ [QUOTE]\<rparr>) (tl r)
          else csv_scan d (st\<lparr>cv_inQuotes := False\<rparr>) r
        else csv_scan d (st\<lparr>cv_field := cv_field st @ [c]\<rparr>) r
      else if c = QUOTE then csv_scan d (st\<lparr>cv_inQuotes := True, cv_started := True\<rparr>) r
      else if c = d then csv_scan d (pushField st) r
      else if c = CR then csv_scan d (pushRow st) (if r \<noteq> [] \<and> hd r = LF then tl r else r)
      else if c = LF then csv_scan d (pushRow st) r
      else csv_scan d (st\<lparr>cv_field := cv_field st @ [c], cv_started := True\<rparr>) r)"

definition csv_start :: csv_state where
  "csv_start = \<lparr>cv_matrix = [], cv_row = [], cv_field = [], cv_inQuotes = False, cv_started = False\<rparr>"

definition csv_flush :: "csv_state \<Rightarrow> js_text list list" where
  "csv_flush st =
     cv_matrix (if cv_started st \<or> cv_field st \<noteq> [] \<or> cv_row st \<noteq> [] then pushRow st else st)"

definition parseDelimited :: "js_text \<Rightarrow> csv_delimiter \<Rightarrow> js_text list list" where
  "parseDelimited text delimiter =
     csv_flush (csv_scan (delimiter_code delimiter) csv_start (stripBom text))"

record parsed_csv =
  pc_delimiter :: csv_delimiter
  pc_headers :: "js_text list"
  pc_rows :: "(js_text, js_text) jsmap list"
  pc_matrix :: "js_text list list"

text \<open>A data row keyed by the headers; a missing cell is empty, a repeated header keeps the last cell.\<close>

definition keyed_row :: "js_text list \<Rightarrow> js_text list \<Rightarrow> (js_text, js_text) jsmap" where
  "keyed_row headers cells =
     foldl (\<lambda>m (c, h). AList.update h (if c < length cells then cells ! c else []) m) [] (enumerate 0 headers)"

definition parseCsv :: "js_text \<Rightarrow> csv_delimiter option \<Rightarrow> parsed_csv" where
  "parseCsv text forced =
     (let delimiter = option_or forced (detectDelimiter text);
          matrix = parseDelimited text delimiter
      in case matrix of
           [] \<Rightarrow> \<lparr>pc_delimiter = delimiter, pc_headers = [], pc_rows = [], pc_matrix = matrix\<rparr>
         | first # rest \<Rightarrow>
             (let headers = map text_trim first
              in \<lparr>pc_delimiter = delimiter, pc_headers = headers, pc_rows = map (keyed_row headers) rest,
                  pc_matrix = matrix\<rparr>))"

definition normalizeHeaderKey :: "(js_text \<Rightarrow> js_text) \<Rightarrow> js_text \<Rightarrow> js_text" where
  "normalizeHeaderKey lower header =
     text_trim (filter (\<lambda>c. \<not> (text_space c \<or> c = 95 \<or> c = 45)) (lower header))"

fun split_tags :: "js_text \<Rightarrow> js_text list" where
  "split_tags [] = [[]]"
| "split_tags (c # r) =
     (if c = 59 \<or> c = 44 then [] # split_tags r
      else (c # hd (split_tags r)) # tl (split_tags r))"

definition splitTagsCell :: "js_text \<Rightarrow> js_text list" where
  "splitTagsCell cell = filter (\<lambda>t. 0 < length t) (map text_trim (split_tags cell))"

subsection \<open>What is written is read back\<close>

lemma js_includes_single [simp]: "js_includes s [d] \<longleftrightarrow> d \<in> set s"
  by (induction s) auto

lemma double_quotes_simps [simp]:
  "double_quotes [] = []"
  "double_quotes (c # f) = (if c = QUOTE then [QUOTE, QUOTE] else [c]) @ double_quotes f"
  by (simp_all add: double_quotes_def)

lemma scan_plain:
  assumes "\<forall>c \<in> set f. c \<notin> {QUOTE, d, CR, LF}" "\<not> cv_inQuotes st"
  shows "csv_scan d st (f @ rest) =
    csv_scan d (st\<lparr>cv_field := cv_field st @ f, cv_started := (cv_started st \<or> f \<noteq> [])\<rparr>) rest"
  using assms by (induction f arbitrary: st) simp_all

lemma scan_quoted:
  assumes "cv_inQuotes st" "rest = [] \<or> hd rest \<noteq> QUOTE"
  shows "csv_scan d st (double_quotes f @ QUOTE # rest) =
    csv_scan d (st\<lparr>cv_field := cv_field st @ f, cv_inQuotes := False\<rparr>) rest"
  using assms by (induction f arbitrary: st) auto

text \<open>\<open>e\<close> is a faithful encoding of the cell \<open>f\<close>: the cell itself when it holds nothing special, or quoted.\<close>

definition encodes :: "nat \<Rightarrow> js_text \<Rightarrow> js_text \<Rightarrow> bool" where
  "encodes d e f \<longleftrightarrow>
     (e = f \<and> (\<forall>c \<in> set f. c \<notin> {QUOTE, d, CR, LF}) \<or> e = QUOTE # double_quotes f @ [QUOTE] \<and> f \<noteq> [])"

lemma csvEscape_encodes: "encodes d (csvEscape f [d]) f"
  by (auto simp: encodes_def csvEscape_def)

lemma scan_cell:
  assumes "encodes d e f" "\<not> cv_inQuotes st" "cv_field st = []" "rest = [] \<or> hd rest \<noteq> QUOTE"
  shows "csv_scan d st (e @ rest) =
    csv_scan d (st\<lparr>cv_field := f, cv_started := (cv_started st \<or> f \<noteq> [])\<rparr>) rest"
proof -
  consider "e = f" "\<forall>c \<in> set f. c \<notin> {QUOTE, d, CR, LF}" | "e = QUOTE # double_quotes f @ [QUOTE]" "f \<noteq> []"
    using assms(1) by (auto simp: encodes_def)
  then show ?thesis
  proof cases
    case 1
    with assms show ?thesis by (simp add: scan_plain)
  next
    case 2
    have "csv_scan d st (e @ rest) =
        csv_scan d (st\<lparr>cv_inQuotes := True, cv_started := True\<rparr>) (double_quotes f @ QUOTE # rest)"
      using 2 assms(2) by simp
    also have "\<dots> = csv_scan d (st\<lparr>cv_field := f, cv_started := True\<rparr>) rest"
      using assms by (subst scan_quoted) (cases st; simp)+
    finally show ?thesis using 2 by simp
  qed
qed

lemma scan_line:
  assumes "list_all2 (encodes d) es cells" "\<not> cv_inQuotes st" "cv_field st = []" "d \<notin> {QUOTE, CR, LF}"
    "rest = [] \<or> hd rest \<noteq> QUOTE" "cells \<noteq> []"
  shows "csv_scan d st (js_join [d] es @ rest) =
    csv_scan d (st\<lparr>cv_row := cv_row st @ butlast cells, cv_field := last cells,
                   cv_started := (cv_started st \<or> cells \<noteq> [[]])\<rparr>) rest"
  using assms
proof (induction es cells arbitrary: st rule: list_all2_induct)
  case (Cons e es c cells)
  show ?case
  proof (cases cells)
    case Nil
    with Cons show ?thesis by (simp add: scan_cell)
  next
    case (Cons c' cells')
    with Cons.hyps(2) have "es \<noteq> []" by auto
    then have "js_join [d] (e # es) @ rest = e @ d # js_join [d] es @ rest"
      by (cases es) simp_all
    with Cons Cons.prems Cons.hyps
      Cons.IH [of "pushField (st\<lparr>cv_field := c, cv_started := (cv_started st \<or> c \<noteq> [])\<rparr>)"]
    show ?thesis by (simp add: scan_cell pushField_def)
  qed
qed simp

definition blank_row :: "js_text list \<Rightarrow> bool" where
  "blank_row cells \<longleftrightarrow> cells = [] \<or> cells = [[]]"

text \<open>A line of a document: the joined encodings of its cells.\<close>

definition encodes_row :: "nat \<Rightarrow> js_text \<Rightarrow> js_text list \<Rightarrow> bool" where
  "encodes_row d line cells \<longleftrightarrow> (\<exists>es. line = js_join [d] es \<and> list_all2 (encodes d) es cells)"

lemma csv_line_encodes_row: "encodes_row d (csv_line [d] cells) cells"
proof -
  have "list_all2 (encodes d) (map (\<lambda>c. csvEscape c [d]) cells) cells"
    by (simp add: list_all2_conv_all_nth csvEscape_encodes)
  then show ?thesis by (auto simp: encodes_row_def csv_line_def)
qed

lemma encodes_row_nonempty:
  assumes "encodes_row d line cells"
  obtains cs es where "line = js_join [d] es" "list_all2 (encodes d) es cs" "cs \<noteq> []"
    "blank_row cells \<longleftrightarrow> cs = [[]]" "cs = [[]] \<or> cs = cells"
proof (cases "cells = []")
  case True
  with assms have "line = js_join [d] [[]]" by (simp add: encodes_row_def)
  moreover have "list_all2 (encodes d) [[]] [[]]" by (simp add: encodes_def)
  ultimately show ?thesis using that [of "[[]]" "[[]]"] True by (simp add: blank_row_def)
next
  case False
  with assms that show ?thesis unfolding encodes_row_def blank_row_def by blast
qed

definition between_rows :: "js_text list list \<Rightarrow> csv_state" where
  "between_rows m = \<lparr>cv_matrix = m, cv_row = [], cv_field = [], cv_inQuotes = False, cv_started = False\<rparr>"

abbreviation row_breaks :: "js_text set" where
  "row_breaks \<equiv> {[CR, LF], [LF]}"

lemma scan_row:
  assumes "encodes_row d line cells" and d: "d \<notin> {QUOTE, CR, LF}"
  shows "brk \<in> row_breaks \<Longrightarrow> csv_scan d (between_rows m) (line @ brk @ rest) =
      csv_scan d (between_rows (if blank_row cells then m else m @ [cells])) rest"
    and "csv_flush (csv_scan d (between_rows m) line) = (if blank_row cells then m else m @ [cells])"
proof -
  obtain cs es where line: "line = js_join [d] es" and enc: "list_all2 (encodes d) es cs" and "cs \<noteq> []"
    and blank: "blank_row cells \<longleftrightarrow> cs = [[]]" and cells: "cs = [[]] \<or> cs = cells"
    using encodes_row_nonempty [OF assms(1)] by metis
  have app: "butlast cs @ [last cs] = cs" using \<open>cs \<noteq> []\<close> by simp
  let ?st = "\<lambda>m. (between_rows m)\<lparr>cv_row := butlast cs, cv_field := last cs, cv_started := cs \<noteq> [[]]\<rparr>"
  have push: "pushRow (?st m) = between_rows (if cs = [[]] then m else m @ [cs])" for m
    by (simp add: pushRow_def pushField_def between_rows_def app Let_def)
  note scan = scan_line [OF enc, of "between_rows m", OF _ _ d _ \<open>cs \<noteq> []\<close>]
  show "csv_scan d (between_rows m) (line @ brk @ rest) =
      csv_scan d (between_rows (if blank_row cells then m else m @ [cells])) rest" if "brk \<in> row_breaks"
  proof -
    have "csv_scan d (between_rows m) (line @ brk @ rest) = csv_scan d (?st m) (brk @ rest)"
      unfolding line using that by (subst scan) (auto simp: between_rows_def)
    also have "\<dots> = csv_scan d (pushRow (?st m)) rest"
      using that d by (auto simp: between_rows_def)
    finally show ?thesis unfolding blank push using cells by auto
  qed
  have "csv_scan d (between_rows m) line = ?st m"
    unfolding line using scan [of "[]"] by (simp add: between_rows_def)
  then show "csv_flush (csv_scan d (between_rows m) line) = (if blank_row cells then m else m @ [cells])"
    unfolding blank using push [of m] cells
    by (cases "cs = [[]]") (auto simp: csv_flush_def between_rows_def)
qed

lemma scan_rows:
  assumes "list_all2 (encodes_row d) ls rows" "d \<notin> {QUOTE, CR, LF}" "brk \<in> row_breaks" "rows \<noteq> []"
  shows "csv_flush (csv_scan d (between_rows m) (js_join brk ls)) =
    m @ filter (\<lambda>r. \<not> blank_row r) rows"
  using assms
proof (induction ls rows arbitrary: m rule: list_all2_induct)
  case (Cons l ls r rows)
  show ?case
  proof (cases rows)
    case Nil
    with Cons show ?thesis by (simp add: scan_row)
  next
    case (Cons r' rows')
    with Cons.hyps(2) obtain l' ls' where "ls = l' # ls'" by (cases ls) auto
    with Cons Cons.prems Cons.IH show ?thesis
      by (simp add: scan_row(1) [OF Cons.hyps(1)] del: csv_scan.simps)
  qed
qed simp

lemma parse_rows:
  assumes "list_all2 (encodes_row (delimiter_code d)) ls rows" "brk \<in> row_breaks" "rows \<noteq> []"
    "stripBom t = js_join brk ls"
  shows "parseDelimited t d = filter (\<lambda>r. \<not> blank_row r) rows"
proof -
  have "delimiter_code d \<notin> {QUOTE, CR, LF}" by (cases d) simp_all
  from scan_rows [OF assms(1) this assms(2,3), of "[]"] show ?thesis
    by (simp add: parseDelimited_def assms(4) csv_start_def between_rows_def)
qed

text \<open>C34. A downloaded export, read by the importer with the delimiter it was written with, gives back exactly its cells: the localized header row and one row per record, in order, whatever quotes, delimiters and line breaks the values hold. Only rows that consist of a single empty cell are not read back.\<close>

theorem csv_export_import:
  "parseDelimited (downloaded (buildCsv env row_get rows columns
       (options\<lparr>co_delimiter := Some [delimiter_code d]\<rparr>))) d =
     filter (\<lambda>cells. \<not> blank_row cells) (csv_cells env row_get rows columns options)"
proof -
  let ?cells = "csv_cells env row_get rows columns options"
  have "list_all2 (encodes_row (delimiter_code d)) (map (csv_line [delimiter_code d]) ?cells) ?cells"
    by (simp add: list_all2_conv_all_nth csv_line_encodes_row)
  note parse = parse_rows [OF this, of "[CR, LF]"]
  show ?thesis
    by (rule parse)
      (simp_all add: csv_cells_def Let_def buildCsv_def downloaded_def stripBom_def option_or_def)
qed

end
