(* ===== verification/CsvImport.thy ===== *)
theory CsvImport
  imports Csv
begin

section \<open>Mapping and validating an import of legal documents\<close>

text \<open>
  The import of legal documents, \<open>app/(dashboard)/lex/documents/_components/bulk-import-csv-dialog.tsx\<close>
  (the mapping of columns to fields, the validation of rows, the state of the dialog), and the writer of
  the documents list in \<open>_lib/documents-helpers.ts\<close>. \<open>lower\<close> stands for \<open>toLowerCase\<close>. No header is
  called \<open>__proto__\<close>.
\<close>

subsection \<open>Fields\<close>

datatype csv_target =
    F_title | F_type | F_description | F_category | F_confidentiality | F_tags
  | F_folder_path | F_jurisdiction | F_retention_policy | F_source_record_id

definition TARGET_FIELDS :: "csv_target list" where
  "TARGET_FIELDS =
     [F_title, F_type, F_description, F_category, F_confidentiality, F_tags,
      F_folder_path, F_jurisdiction, F_retention_policy, F_source_record_id]"

definition METADATA_FIELDS :: "csv_target list" where
  "METADATA_FIELDS = [F_folder_path, F_jurisdiction, F_retention_policy, F_source_record_id]"

fun FIELD_SYNONYMS :: "csv_target \<Rightarrow> string list" where
  "FIELD_SYNONYMS F_title = [''title'', ''name'', ''documenttitle'', ''subject'']"
| "FIELD_SYNONYMS F_type = [''type'', ''documenttype'', ''doctype'', ''category'', ''kind'']"
| "FIELD_SYNONYMS F_description = [''description'', ''desc'', ''summary'', ''notes'']"
| "FIELD_SYNONYMS F_category = [''category'', ''class'', ''classification'', ''group'']"
| "FIELD_SYNONYMS F_confidentiality =
     [''confidentiality'', ''confidential'', ''sensitivity'', ''classificationlevel'']"
| "FIELD_SYNONYMS F_tags = [''tags'', ''tag'', ''labels'', ''keywords'']"
| "FIELD_SYNONYMS F_folder_path = [''folderpath'', ''folder'', ''path'', ''directory'']"
| "FIELD_SYNONYMS F_jurisdiction = [''jurisdiction'', ''region'', ''country'', ''territory'']"
| "FIELD_SYNONYMS F_retention_policy = [''retentionpolicy'', ''retention'', ''retentionschedule'']"
| "FIELD_SYNONYMS F_source_record_id =
     [''sourcerecordid'', ''sourceid'', ''recordid'', ''externalid'', ''legacyid'', ''sourcerecord'']"

datatype document_type =
    DT_policy | DT_regulation | DT_template | DT_memo | DT_opinion | DT_filing
  | DT_correspondence | DT_resolution | DT_power_of_attorney | DT_other

fun document_type_code :: "document_type \<Rightarrow> string" where
  "document_type_code DT_policy = ''policy''"
| "document_type_code DT_regulation = ''regulation''"
| "document_type_code DT_template = ''template''"
| "document_type_code DT_memo = ''memo''"
| "document_type_code DT_opinion = ''opinion''"
| "document_type_code DT_filing = ''filing''"
| "document_type_code DT_correspondence = ''correspondence''"
| "document_type_code DT_resolution = ''resolution''"
| "document_type_code DT_power_of_attorney = ''power_of_attorney''"
| "document_type_code DT_other = ''other''"

datatype confidentiality = CF_public | CF_internal | CF_confidential | CF_privileged

fun confidentiality_code :: "confidentiality \<Rightarrow> string" where
  "confidentiality_code CF_public = ''public''"
| "confidentiality_code CF_internal = ''internal''"
| "confidentiality_code CF_confidential = ''confidential''"
| "confidentiality_code CF_privileged = ''privileged''"

definition DOCUMENT_TYPES :: "document_type list" where
  "DOCUMENT_TYPES =
     [DT_policy, DT_regulation, DT_template, DT_memo, DT_opinion, DT_filing,
      DT_correspondence, DT_resolution, DT_power_of_attorney, DT_other]"

definition CONFIDENTIALITY :: "confidentiality list" where
  "CONFIDENTIALITY = [CF_public, CF_internal, CF_confidential, CF_privileged]"

text \<open>The type a cell names, when it names one.\<close>

definition isDocumentType :: "js_text \<Rightarrow> document_type option" where
  "isDocumentType v = List.find (\<lambda>t. ascii (document_type_code t) = v) DOCUMENT_TYPES"

definition isConfidentiality :: "js_text \<Rightarrow> confidentiality option" where
  "isConfidentiality v = List.find (\<lambda>t. ascii (confidentiality_code t) = v) CONFIDENTIALITY"

subsection \<open>Mapping headers to fields\<close>

type_synonym csv_mapping = "(js_text, csv_target option) jsmap"

definition auto_match :: "csv_target list \<Rightarrow> js_text \<Rightarrow> csv_target option" where
  "auto_match claimed key =
     List.find (\<lambda>field. field \<notin> set claimed \<and> key \<in> set (map ascii (FIELD_SYNONYMS field))) TARGET_FIELDS"

definition auto_step ::
  "(js_text \<Rightarrow> js_text) \<Rightarrow> csv_mapping \<times> csv_target list \<Rightarrow> js_text \<Rightarrow> csv_mapping \<times> csv_target list" where
  "auto_step lower acc header =
     (case auto_match (snd acc) (normalizeHeaderKey lower header) of
        Some field \<Rightarrow> (AList.update header (Some field) (fst acc), field # snd acc)
      | None \<Rightarrow> (AList.update header None (fst acc), snd acc))"

definition autoMap :: "(js_text \<Rightarrow> js_text) \<Rightarrow> js_text list \<Rightarrow> csv_mapping" where
  "autoMap lower headers = fst (foldl (auto_step lower) ([], []) headers)"

text \<open>\<open>Object.entries\<close>: the keys that are array indices first, in ascending order, then the others.\<close>

definition index_value :: "js_text \<Rightarrow> nat" where
  "index_value s = foldl (\<lambda>n c. 10 * n + (c - 48)) 0 s"

definition index_key :: "js_text \<Rightarrow> bool" where
  "index_key s \<longleftrightarrow> s \<noteq> [] \<and> list_all (\<lambda>c. 48 \<le> c \<and> c \<le> 57) s \<and> (hd s \<noteq> 48 \<or> s = [48]) \<and>
     index_value s < 4294967295"

definition object_entries :: "(js_text, 'v) jsmap \<Rightarrow> (js_text \<times> 'v) list" where
  "object_entries m =
     sort_key (\<lambda>e. index_value (fst e)) (filter (\<lambda>e. index_key (fst e)) m) @
     filter (\<lambda>e. \<not> index_key (fst e)) m"

definition field_to_header :: "csv_mapping \<Rightarrow> (csv_target, js_text) jsmap" where
  "field_to_header mapping =
     foldl (\<lambda>m (header, target). case target of None \<Rightarrow> m | Some field \<Rightarrow> AList.update field header m)
       [] (object_entries mapping)"

definition valueFor ::
  "(csv_target, js_text) jsmap \<Rightarrow> (js_text, js_text) jsmap \<Rightarrow> csv_target \<Rightarrow> js_text" where
  "valueFor fieldToHeader data field =
     (case map_of fieldToHeader field of
        None \<Rightarrow> []
      | Some header \<Rightarrow> if header = [] then [] else text_trim (js_get_or [] data header))"

subsection \<open>Validation\<close>

record bulk_document =
  bd_title :: js_text
  bd_type :: document_type
  bd_description :: js_text
  bd_category :: js_text
  bd_confidentiality :: confidentiality
  bd_tags :: "js_text list"
  bd_metadata :: "(csv_target, js_text) jsmap"

datatype import_issue = Title_required | Type_invalid js_text | Confidentiality_invalid js_text

record validated_row =
  vr_rowNumber :: nat
  vr_payload :: bulk_document
  vr_rawTitle :: js_text
  vr_rawType :: js_text
  vr_rawConfidentiality :: js_text
  vr_issues :: "import_issue list"
  vr_valid :: bool

definition row_metadata :: "(csv_target \<Rightarrow> js_text) \<Rightarrow> (csv_target, js_text) jsmap" where
  "row_metadata value_of =
     map (\<lambda>f. (f, value_of f)) (filter (\<lambda>f. value_of f \<noteq> []) METADATA_FIELDS)"

definition validate_row ::
  "(js_text \<Rightarrow> js_text) \<Rightarrow> (csv_target, js_text) jsmap \<Rightarrow> nat \<Rightarrow> (js_text, js_text) jsmap \<Rightarrow> validated_row" where
  "validate_row lower fieldToHeader index data =
     (let value_of = valueFor fieldToHeader data;
          rawTitle = value_of F_title;
          rawType = lower (value_of F_type);
          rawConfidentiality = lower (value_of F_confidentiality);
          known_type = isDocumentType rawType;
          known_conf = isConfidentiality rawConfidentiality;
          issues =
            (if rawTitle = [] then [Title_required] else []) @
            (if rawType \<noteq> [] \<and> known_type = None then [Type_invalid rawType] else []) @
            (if rawConfidentiality \<noteq> [] \<and> known_conf = None
             then [Confidentiality_invalid rawConfidentiality] else []);
          tagsCell = (if js_has fieldToHeader F_tags then value_of F_tags else [])
      in \<lparr>vr_rowNumber = index + 1,
          vr_payload =
            \<lparr>bd_title = rawTitle,
             bd_type = (if rawType = [] then DT_other else option_or known_type DT_other),
             bd_description = value_of F_description,
             bd_category = value_of F_category,
             bd_confidentiality =
               (if rawConfidentiality = [] then CF_internal else option_or known_conf CF_internal),
             bd_tags = (if tagsCell = [] then [] else splitTagsCell tagsCell),
             bd_metadata = row_metadata value_of\<rparr>,
          vr_rawTitle = rawTitle, vr_rawType = rawType, vr_rawConfidentiality = rawConfidentiality,
          vr_issues = issues, vr_valid = (issues = [])\<rparr>)"

definition validateRows ::
  "(js_text \<Rightarrow> js_text) \<Rightarrow> (js_text, js_text) jsmap list \<Rightarrow> csv_mapping \<Rightarrow> validated_row list" where
  "validateRows lower dataRows mapping =
     map (\<lambda>(index, data). validate_row lower (field_to_header mapping) index data) (enumerate 0 dataRows)"

subsection \<open>The documents export\<close>

record lex_document =
  ld_id :: js_text
  ld_title :: js_text
  ld_type :: document_type
  ld_status :: js_text
  ld_confidentiality :: confidentiality
  ld_category :: "js_text option"
  ld_current_version :: nat
  ld_tags :: "js_text list"
  ld_updated_at :: js_text

definition export_keys :: "string list" where
  "export_keys = [''id'', ''title'', ''type'', ''status'', ''confidentiality'', ''category'',
     ''current_version'', ''tags'', ''updated_at'']"

definition EXPORT_COLUMNS :: "(nat \<Rightarrow> js_text) \<Rightarrow> lex_document \<Rightarrow> js_text list" where
  "EXPORT_COLUMNS number_text d =
     [ld_id d, ld_title d, ascii (document_type_code (ld_type d)), ld_status d,
      ascii (confidentiality_code (ld_confidentiality d)), option_or (ld_category d) [],
      number_text (ld_current_version d), js_join (ascii ''|'') (ld_tags d), ld_updated_at d]"

definition documents_csvEscape :: "js_text \<Rightarrow> js_text" where
  "documents_csvEscape raw =
     (if QUOTE \<in> set raw \<or> 44 \<in> set raw \<or> LF \<in> set raw then QUOTE # double_quotes raw @ [QUOTE] else raw)"

definition documentsToCsv :: "(nat \<Rightarrow> js_text) \<Rightarrow> lex_document list \<Rightarrow> js_text" where
  "documentsToCsv number_text rows =
     (let header = js_join [44] (map ascii export_keys);
          body = js_join [LF] (map (\<lambda>doc. js_join [44]
                   (map documents_csvEscape (EXPORT_COLUMNS number_text doc))) rows)
      in if body \<noteq> [] then header @ [LF] @ body else header)"

subsection \<open>What the mapping and the validation promise\<close>

text \<open>What is asked of \<open>toLowerCase\<close>: lower-case letters, digits and the underscore stay what they are.\<close>

definition lower_keeps :: "(js_text \<Rightarrow> js_text) \<Rightarrow> bool" where
  "lower_keeps lower \<longleftrightarrow> (\<forall>s. list_all (\<lambda>c. 97 \<le> c \<and> c \<le> 122 \<or> 48 \<le> c \<and> c \<le> 57 \<or> c = 95) s \<longrightarrow> lower s = s)"

lemma lower_keepsD:
  assumes "lower_keeps lower" "list_all (\<lambda>c. 97 \<le> c \<and> c \<le> 122 \<or> 48 \<le> c \<and> c \<le> 57 \<or> c = 95) s"
  shows "lower s = s"
  using assms by (simp add: lower_keeps_def)

lemma isDocumentType_code [simp]: "isDocumentType (ascii (document_type_code t)) = Some t"
  by (induction t; code_simp)

lemma isConfidentiality_code [simp]: "isConfidentiality (ascii (confidentiality_code t)) = Some t"
  by (induction t; code_simp)

lemma code_not_blank [simp]:
  "text_trim (ascii (document_type_code t)) = ascii (document_type_code t)"
  "document_type_code t \<noteq> []"
  "text_trim (ascii (confidentiality_code f)) = ascii (confidentiality_code f)"
  "confidentiality_code f \<noteq> []"
proof -
  show "text_trim (ascii (document_type_code t)) = ascii (document_type_code t)"
    by (induction t; simp add: ascii_def text_trim_def text_space_def)
  show "document_type_code t \<noteq> []"
    by (induction t; simp add: ascii_def)
  show "text_trim (ascii (confidentiality_code f)) = ascii (confidentiality_code f)"
    by (induction f; simp add: ascii_def text_trim_def text_space_def)
  show "confidentiality_code f \<noteq> []"
    by (induction f; simp add: ascii_def)
qed

lemma lower_code:
  assumes "lower_keeps lower"
  shows "lower (ascii (document_type_code t)) = ascii (document_type_code t)"
    and "lower (ascii (confidentiality_code f)) = ascii (confidentiality_code f)"
proof -
  show "lower (ascii (document_type_code t)) = ascii (document_type_code t)"
    by (rule lower_keepsD [OF assms]) (induction t; code_simp)
  show "lower (ascii (confidentiality_code f)) = ascii (confidentiality_code f)"
    by (rule lower_keepsD [OF assms]) (induction f; code_simp)
qed

lemma ascii_eq [simp]: "ascii s = ascii t \<longleftrightarrow> s = t"
  by (auto simp: ascii_def inj_map_eq_map [OF inj_of_char])

lemma ascii_Nil [simp]: "ascii s = [] \<longleftrightarrow> s = []"
  by (simp add: ascii_def)

lemma ascii_in_map [simp]: "ascii s \<in> set (map ascii ss) \<longleftrightarrow> s \<in> set ss"
  by auto

definition export_targets :: "(string \<times> csv_target option) list" where
  "export_targets =
     [(''id'', None), (''title'', Some F_title), (''type'', Some F_type), (''status'', None),
      (''confidentiality'', Some F_confidentiality), (''category'', Some F_category),
      (''current_version'', None), (''tags'', Some F_tags), (''updated_at'', None)]"

text \<open>The same mapping over the plain strings of the headers.\<close>

fun auto_strings :: "csv_target list \<Rightarrow> (string \<times> string) list \<Rightarrow> (string \<times> csv_target option) list" where
  "auto_strings claimed [] = []"
| "auto_strings claimed ((h, k) # hs) =
     (case List.find (\<lambda>field. field \<notin> set claimed \<and> k \<in> set (FIELD_SYNONYMS field)) TARGET_FIELDS of
        Some f \<Rightarrow> (h, Some f) # auto_strings (f # claimed) hs
      | None \<Rightarrow> (h, None) # auto_strings claimed hs)"

lemma auto_strings:
  assumes "list_all (\<lambda>(h, k). normalizeHeaderKey lower (ascii h) = ascii k) hks"
    "distinct (map fst hks)" "fst ` set m \<inter> set (map (ascii \<circ> fst) hks) = {}"
  shows "fst (foldl (auto_step lower) (m, claimed) (map (ascii \<circ> fst) hks)) =
    m @ map (apfst ascii) (auto_strings claimed hks)"
  using assms
proof (induction claimed hks arbitrary: m rule: auto_strings.induct)
  case (2 claimed h k hs)
  have eq: "auto_match claimed (ascii k) =
      List.find (\<lambda>field. field \<notin> set claimed \<and> k \<in> set (FIELD_SYNONYMS field)) TARGET_FIELDS"
    unfolding auto_match_def ascii_in_map ..
  have fresh: "ascii h \<notin> fst ` set m" using 2(5) by auto
  have rest: "fst ` set (m @ [(ascii h, v)]) \<inter> set (map (ascii \<circ> fst) hs) = {}" for v
    using 2(4,5) by (force simp: image_iff)
  show ?case
    using 2 rest
    by (cases "auto_match claimed (ascii k)")
      (simp_all add: auto_step_def eq [symmetric] update_fresh [OF fresh])
qed simp

lemma normalized_export_keys:
  assumes "lower_keeps lower"
  shows "list_all (\<lambda>(h, k). normalizeHeaderKey lower (ascii h) = ascii k)
    [(''id'', ''id''), (''title'', ''title''), (''type'', ''type''), (''status'', ''status''),
     (''confidentiality'', ''confidentiality''), (''category'', ''category''),
     (''current_version'', ''currentversion''), (''tags'', ''tags''), (''updated_at'', ''updatedat'')]"
proof -
  have keep: "lower (ascii h) = ascii h" if "list_all (\<lambda>c. 97 \<le> (of_char c :: nat) \<and> of_char c \<le> (122 :: nat) \<or> c = CHR ''_'') h" for h
    by (rule lower_keepsD [OF assms]) (use that in \<open>induction h; auto simp: ascii_def\<close>)
  show ?thesis
    by (simp add: keep normalizeHeaderKey_def) (simp add: text_trim_def text_space_def ascii_def)
qed

text \<open>The automatic mapping of the headers of a documents export.\<close>

lemma autoMap_export:
  assumes "lower_keeps lower"
  shows "autoMap lower (map ascii export_keys) = map (apfst ascii) export_targets"
proof -
  let ?hks = "[(''id'', ''id''), (''title'', ''title''), (''type'', ''type''), (''status'', ''status''),
     (''confidentiality'', ''confidentiality''), (''category'', ''category''),
     (''current_version'', ''currentversion''), (''tags'', ''tags''), (''updated_at'', ''updatedat'')]"
  have "map ascii export_keys = map (ascii \<circ> fst) ?hks" by (simp add: export_keys_def)
  moreover have "distinct (map fst ?hks)" by code_simp
  moreover have "auto_strings [] ?hks = export_targets" by code_simp
  ultimately show ?thesis
    using auto_strings [OF normalized_export_keys [OF assms], of "[]" "[]"]
    unfolding autoMap_def by simp
qed

lemma field_to_header_export:
  assumes "lower_keeps lower"
  shows "field_to_header (autoMap lower (map ascii export_keys)) =
    [(F_title, ascii ''title''), (F_type, ascii ''type''), (F_confidentiality, ascii ''confidentiality''),
     (F_category, ascii ''category''), (F_tags, ascii ''tags'')]"
proof -
  have "object_entries (map (apfst ascii) export_targets) = map (apfst ascii) export_targets"
    unfolding export_targets_def by (simp add: object_entries_def index_key_def ascii_def)
  then show ?thesis
    by (simp add: autoMap_export [OF assms] field_to_header_def) (simp add: export_targets_def)
qed

lemma keyed_row_zip:
  assumes "distinct headers" "length cells = length headers"
  shows "keyed_row headers cells = zip headers cells"
proof -
  have "foldl (\<lambda>m (c, h). AList.update h (if c < length cells then cells ! c else []) m) acc (enumerate n hs) =
      acc @ zip hs (drop n cells)"
    if "distinct hs" "fst ` set acc \<inter> set hs = {}" "n + length hs = length cells" for acc n hs
    using that
  proof (induction hs arbitrary: acc n)
    case (Cons h hs)
    then have "drop n cells = cells ! n # drop (Suc n) cells"
      by (simp add: Cons_nth_drop_Suc)
    moreover from Cons.prems have "h \<notin> fst ` set acc" by auto
    ultimately show ?case using Cons by (simp add: update_fresh)
  qed simp
  from this [of headers "[]" 0] assms show ?thesis by (simp add: keyed_row_def)
qed

text \<open>What the importer makes of an exported document.\<close>

definition reimported :: "nat \<Rightarrow> lex_document \<Rightarrow> validated_row" where
  "reimported index d =
     (let title = text_trim (ld_title d);
          tags = text_trim (js_join (ascii ''|'') (ld_tags d))
      in \<lparr>vr_rowNumber = index + 1,
          vr_payload =
            \<lparr>bd_title = title, bd_type = ld_type d, bd_description = [],
             bd_category = text_trim (option_or (ld_category d) []),
             bd_confidentiality = ld_confidentiality d,
             bd_tags = (if tags = [] then [] else splitTagsCell tags), bd_metadata = []\<rparr>,
          vr_rawTitle = title, vr_rawType = ascii (document_type_code (ld_type d)),
          vr_rawConfidentiality = ascii (confidentiality_code (ld_confidentiality d)),
          vr_issues = (if title = [] then [Title_required] else []), vr_valid = (title \<noteq> [])\<rparr>)"

lemma export_header_line:
  "stripBom (js_join [44] (map ascii export_keys) @ rest) = js_join [44] (map ascii export_keys) @ rest"
  "rest = [] \<or> hd rest = LF \<Longrightarrow>
     firstPhysicalLine (js_join [44] (map ascii export_keys) @ rest) = js_join [44] (map ascii export_keys)"
  "count_delimiters False 0 0 (js_join [44] (map ascii export_keys)) = (8, 0)"
  "encodes_row 44 (js_join [44] (map ascii export_keys)) (map ascii export_keys)"
proof -
  show "stripBom (js_join [44] (map ascii export_keys) @ rest) = js_join [44] (map ascii export_keys) @ rest"
    by (simp add: export_keys_def ascii_def stripBom_def)
  show "firstPhysicalLine (js_join [44] (map ascii export_keys) @ rest) = js_join [44] (map ascii export_keys)"
    if "rest = [] \<or> hd rest = LF"
    using that by (cases rest) (simp_all add: export_keys_def ascii_def firstPhysicalLine_def)
  show "count_delimiters False 0 0 (js_join [44] (map ascii export_keys)) = (8, 0)"
    by code_simp
  have "list_all2 (encodes 44) (map ascii export_keys) (map ascii export_keys)"
    by (simp add: export_keys_def ascii_def encodes_def)
  then show "encodes_row 44 (js_join [44] (map ascii export_keys)) (map ascii export_keys)"
    by (auto simp: encodes_row_def)
qed

definition cr_free :: "(nat \<Rightarrow> js_text) \<Rightarrow> lex_document \<Rightarrow> bool" where
  "cr_free number_text d \<longleftrightarrow> list_all (\<lambda>cell. CR \<notin> set cell) (EXPORT_COLUMNS number_text d)"

lemma documents_parse:
  assumes "list_all (cr_free number_text) docs"
  shows "parseDelimited (documentsToCsv number_text docs) Comma =
    map ascii export_keys # map (EXPORT_COLUMNS number_text) docs"
    and "detectDelimiter (documentsToCsv number_text docs) = Comma"
proof -
  let ?header = "js_join [44] (map ascii export_keys)"
  let ?lines = "map (\<lambda>d. js_join [44] (map documents_csvEscape (EXPORT_COLUMNS number_text d))) docs"
  have nonempty: "?lines = [] \<longleftrightarrow> js_join [LF] ?lines = []"
    by (cases docs rule: remdups_adj.cases) (simp_all add: EXPORT_COLUMNS_def)
  have whole: "documentsToCsv number_text docs = js_join [LF] (?header # ?lines)"
    using nonempty by (cases docs) (simp_all add: documentsToCsv_def Let_def)
  then obtain rest where rest: "documentsToCsv number_text docs = ?header @ rest" "rest = [] \<or> hd rest = LF"
    by (cases docs) auto
  have "encodes 44 (documents_csvEscape c) c" if "CR \<notin> set c" for c
    using that by (auto simp: encodes_def documents_csvEscape_def)
  then have "encodes_row 44 (js_join [44] (map documents_csvEscape (EXPORT_COLUMNS number_text d)))
      (EXPORT_COLUMNS number_text d)" if "d \<in> set docs" for d
    using that assms
    by (auto simp: encodes_row_def list_all2_conv_all_nth cr_free_def list_all_iff
        intro!: exI [of _ "map documents_csvEscape (EXPORT_COLUMNS number_text d)"])
  then have rows: "list_all2 (encodes_row 44) (?header # ?lines)
      (map ascii export_keys # map (EXPORT_COLUMNS number_text) docs)"
    by (auto simp: list_all2_conv_all_nth export_header_line(4) nth_Cons split: nat.splits)
  have "\<not> blank_row (EXPORT_COLUMNS number_text d)" for d
    by (simp add: blank_row_def EXPORT_COLUMNS_def)
  moreover have "\<not> blank_row (map ascii export_keys)"
    by (simp add: blank_row_def export_keys_def)
  moreover have "parseDelimited (documentsToCsv number_text docs) Comma =
      filter (\<lambda>r. \<not> blank_row r) (map ascii export_keys # map (EXPORT_COLUMNS number_text) docs)"
    by (rule parse_rows [where brk = "[LF]" and ls = "?header # ?lines"])
      (use rows rest whole in \<open>simp_all add: export_header_line(1)\<close>)
  ultimately show "parseDelimited (documentsToCsv number_text docs) Comma =
      map ascii export_keys # map (EXPORT_COLUMNS number_text) docs"
    by (simp add: filter_map o_def)
  show "detectDelimiter (documentsToCsv number_text docs) = Comma"
    by (simp add: detectDelimiter_def rest(1) export_header_line(1) export_header_line(2) [OF rest(2)]
        export_header_line(3))
qed

lemma validate_exported:
  assumes "lower_keeps lower"
  shows "validate_row lower (field_to_header (autoMap lower (map ascii export_keys))) index
      (keyed_row (map ascii export_keys) (EXPORT_COLUMNS number_text d)) = reimported index d"
proof -
  let ?cell_of = "valueFor (field_to_header (autoMap lower (map ascii export_keys)))
    (keyed_row (map ascii export_keys) (EXPORT_COLUMNS number_text d))"
  have row: "keyed_row (map ascii export_keys) (EXPORT_COLUMNS number_text d) =
      zip (map ascii export_keys) (EXPORT_COLUMNS number_text d)"
    by (rule keyed_row_zip) (simp_all add: export_keys_def EXPORT_COLUMNS_def)
  have cells: "?cell_of F_title = text_trim (ld_title d)"
    "?cell_of F_type = ascii (document_type_code (ld_type d))"
    "?cell_of F_confidentiality = ascii (confidentiality_code (ld_confidentiality d))"
    "?cell_of F_category = text_trim (option_or (ld_category d) [])"
    "?cell_of F_tags = text_trim (js_join (ascii ''|'') (ld_tags d))"
    "?cell_of F_description = []" "?cell_of F_folder_path = []" "?cell_of F_jurisdiction = []"
    "?cell_of F_retention_policy = []" "?cell_of F_source_record_id = []"
    unfolding valueFor_def field_to_header_export [OF assms] row
    by (simp_all add: js_get_or_def export_keys_def EXPORT_COLUMNS_def)
  have tags: "js_has (field_to_header (autoMap lower (map ascii export_keys))) F_tags"
    by (simp add: field_to_header_export [OF assms])
  show ?thesis
    unfolding validate_row_def reimported_def
    using tags by (simp add: cells lower_code [OF assms] row_metadata_def METADATA_FIELDS_def option_or_def Let_def)
qed


text \<open>A concrete export: two documents, one with quotes, a comma and a line break in its title.\<close>

definition sample_lower :: "js_text \<Rightarrow> js_text" where
  "sample_lower s = map (\<lambda>c. if 65 \<le> c \<and> c \<le> 90 then c + 32 else c) s"

definition sample_document :: "string \<Rightarrow> string list \<Rightarrow> lex_document" where
  "sample_document title tags =
     \<lparr>ld_id = ascii ''d-1'', ld_title = ascii title, ld_type = DT_memo, ld_status = ascii ''active'',
      ld_confidentiality = CF_privileged, ld_category = None, ld_current_version = 3,
      ld_tags = map ascii tags, ld_updated_at = ascii ''2026-01-02''\<rparr>"

lemma sample_lower_keeps: "lower_keeps sample_lower"
  by (auto simp: lower_keeps_def sample_lower_def list_all_iff intro!: map_idI)


text \<open>The export joins the tags with a bar, which the importer does not split: several tags come back as one.\<close>

lemma split_tags_plain: "split_tags s = [s]" if "59 \<notin> set s" "44 \<notin> set s"
  using that by (induction s) auto

theorem export_merges_tags:
  assumes "59 \<notin> set (js_join (ascii ''|'') (ld_tags d))" "44 \<notin> set (js_join (ascii ''|'') (ld_tags d))"
  shows "length (bd_tags (vr_payload (reimported i d))) \<le> 1"
proof -
  have "set (text_trim t) \<subseteq> set t" for t
    by (auto simp: text_trim_def dest!: set_dropWhileD)
  then have "split_tags (text_trim (js_join (ascii ''|'') (ld_tags d))) = [text_trim (js_join (ascii ''|'') (ld_tags d))]"
    using assms by (intro split_tags_plain) (auto simp: subset_iff)
  then show ?thesis
    by (simp add: reimported_def Let_def splitTagsCell_def)
qed

text \<open>A title with a bare carriage return is written unquoted, and its row is read back as two.\<close>

theorem export_breaks_at_bare_cr:
  "length (parseDelimited (documentsToCsv (\<lambda>n. [51]) [(sample_document ''t'' [])\<lparr>ld_title := [65, CR, 66]\<rparr>]) Comma) = 3"
proof -
  let ?d = "(sample_document ''t'' [])\<lparr>ld_title := [65, CR, 66]\<rparr>"
  let ?line = "js_join [44] (map documents_csvEscape (EXPORT_COLUMNS (\<lambda>n. [51]) ?d))"
  let ?header = "js_join [44] (map ascii export_keys)"
  have whole: "documentsToCsv (\<lambda>n. [51]) [?d] = ?header @ [LF] @ ?line"
    by (simp add: documentsToCsv_def Let_def EXPORT_COLUMNS_def)
  have "csv_flush (csv_scan 44 (between_rows m) ?line) = m @ [[ascii ''d-1'', [65]], [66] # drop 2 (EXPORT_COLUMNS (\<lambda>n. [51]) ?d)]" for m
    by (simp add: EXPORT_COLUMNS_def sample_document_def documents_csvEscape_def ascii_def option_or_def
        between_rows_def pushRow_def pushField_def csv_flush_def)
  then have "parseDelimited (documentsToCsv (\<lambda>n. [51]) [?d]) Comma =
      [map ascii export_keys, [ascii ''d-1'', [65]], [66] # drop 2 (EXPORT_COLUMNS (\<lambda>n. [51]) ?d)]"
    unfolding whole parseDelimited_def export_header_line(1)
    using scan_row(1) [OF export_header_line(4), of "[LF]" "[]" ?line]
    by (simp add: blank_row_def export_keys_def between_rows_def csv_start_def)
  then show ?thesis by simp
qed

text \<open>A repeated header undoes its own mapping: the second occurrence overwrites the field with none.\<close>

theorem repeated_header_unmapped:
  assumes "lower_keeps lower"
  shows "autoMap lower [ascii ''title'', ascii ''title''] = [(ascii ''title'', None)]"
proof -
  have "normalizeHeaderKey lower (ascii ''title'') = ascii ''title''"
    using normalized_export_keys [OF assms] by simp
  moreover have "auto_match [] (ascii ''title'') = Some F_title"
    "auto_match [F_title] (ascii ''title'') = None"
    unfolding auto_match_def ascii_in_map by code_simp+
  ultimately show ?thesis by (simp add: autoMap_def auto_step_def)
qed

text \<open>The automatic mapping gives no field to two headers.\<close>

definition mapped_fields :: "csv_mapping \<Rightarrow> csv_target list" where
  "mapped_fields m = List.map_filter snd m"

lemma mapped_fields_update:
  "set (mapped_fields (AList.update h v m)) \<subseteq> set_option v \<union> set (mapped_fields m)"
  by (induction m) (auto simp: mapped_fields_def List.map_filter_simps split: option.splits)

lemma mapped_fields_update_distinct:
  assumes "distinct (mapped_fields m)" "set_option v \<inter> set (mapped_fields m) = {}"
  shows "distinct (mapped_fields (AList.update h v m))"
  using assms
proof (induction m)
  case (Cons e m)
  then show ?case
    using mapped_fields_update [of h v m]
    by (auto simp: mapped_fields_def List.map_filter_simps split: option.splits if_splits)
qed (auto simp: mapped_fields_def List.map_filter_simps split: option.splits)

lemma auto_step_invariant:
  assumes "distinct (mapped_fields (fst acc)) \<and> set (mapped_fields (fst acc)) \<subseteq> set (snd acc)"
  shows "distinct (mapped_fields (fst (auto_step lower acc h))) \<and>
    set (mapped_fields (fst (auto_step lower acc h))) \<subseteq> set (snd (auto_step lower acc h))"
proof (cases "auto_match (snd acc) (normalizeHeaderKey lower h)")
  case None
  with assms mapped_fields_update [of h None "fst acc"] mapped_fields_update_distinct [of "fst acc" None h]
  show ?thesis by (auto simp: auto_step_def)
next
  case (Some f)
  then have "f \<notin> set (snd acc)" by (auto simp: auto_match_def find_Some_iff)
  with Some assms mapped_fields_update [of h "Some f" "fst acc"]
    mapped_fields_update_distinct [of "fst acc" "Some f" h]
  show ?thesis by (auto simp: auto_step_def)
qed

lemma autoMap_claims_once: "distinct (mapped_fields (autoMap lower headers))"
proof -
  have "distinct (mapped_fields (fst (foldl (auto_step lower) acc headers)))"
    if "distinct (mapped_fields (fst acc)) \<and> set (mapped_fields (fst acc)) \<subseteq> set (snd acc)" for acc
    using that by (induction headers arbitrary: acc) (simp_all add: auto_step_invariant)
  then show ?thesis by (simp add: autoMap_def mapped_fields_def List.map_filter_simps)
qed

text \<open>What makes a row importable.\<close>

lemma validate_row_valid:
  "vr_valid (validate_row lower m i data) \<longleftrightarrow>
     valueFor m data F_title \<noteq> [] \<and>
     (lower (valueFor m data F_type) = [] \<or> isDocumentType (lower (valueFor m data F_type)) \<noteq> None) \<and>
     (lower (valueFor m data F_confidentiality) = [] \<or>
      isConfidentiality (lower (valueFor m data F_confidentiality)) \<noteq> None)"
  by (auto simp: validate_row_def Let_def)

lemma validateRows_titles:
  assumes "r \<in> set (validateRows lower rows m)" "vr_valid r"
  shows "bd_title (vr_payload r) \<noteq> []"
  using assms by (auto simp: validateRows_def validate_row_def Let_def split: if_splits)

lemma valueFor_unmapped: "valueFor m data f = []" if "map_of m f = None"
  using that by (simp add: valueFor_def)

end
