(* ===== verification/CsvDialog.thy ===== *)
theory CsvDialog
  imports CsvImport
begin

section \<open>The guided import dialog\<close>

text \<open>
  The state of \<open>GuidedBulkImportDialog\<close> (\<open>bulk-import-csv-dialog.tsx\<close>): its three pages, what it sends to
  the server, and the import request in flight, which closing the dialog does not cancel; it is pending
  until the lists it invalidates are fetched again. An event is
  possible when the dialog shows the control for it, enabled. Toasts and cache invalidation are left out.
\<close>

definition MAX_ROWS :: nat where
  "MAX_ROWS = 250"

datatype import_page = Input_page | Mapping_page | Preview_page

record import_request =
  ir_batch_id :: "js_text option"
  ir_source_system :: "js_text option"
  ir_index :: bool
  ir_documents :: "bulk_document list"

record 'r import_dialog =
  dg_open :: bool
  dg_step :: import_page
  dg_rawText :: js_text
  dg_fileName :: js_text
  dg_headers :: "js_text list"
  dg_dataRows :: "(js_text, js_text) jsmap list"
  dg_delimiter :: csv_delimiter
  dg_mapping :: csv_mapping
  dg_parseError :: bool
  dg_mappingError :: bool
  dg_batchId :: js_text
  dg_sourceSystem :: js_text
  dg_shouldIndex :: bool
  dg_result :: "'r option"
  dg_reading :: nat
  dg_isPending :: bool
  dg_refetching :: bool
  dg_sent :: "import_request list"
  dg_answered :: nat

definition initial_dialog :: "'r import_dialog" where
  "initial_dialog =
     \<lparr>dg_open = False, dg_step = Input_page, dg_rawText = [], dg_fileName = [], dg_headers = [],
      dg_dataRows = [], dg_delimiter = Comma, dg_mapping = [], dg_parseError = False,
      dg_mappingError = False, dg_batchId = [], dg_sourceSystem = [], dg_shouldIndex = True,
      dg_result = None, dg_reading = 0, dg_isPending = False, dg_refetching = False, dg_sent = [], dg_answered = 0\<rparr>"

definition resetAll :: "'r import_dialog \<Rightarrow> 'r import_dialog" where
  "resetAll s = s\<lparr>dg_step := Input_page, dg_rawText := [], dg_fileName := [], dg_headers := [],
     dg_dataRows := [], dg_delimiter := Comma, dg_mapping := [], dg_parseError := False,
     dg_mappingError := False, dg_batchId := [], dg_sourceSystem := [], dg_shouldIndex := True,
     dg_result := None\<rparr>"

definition validRows :: "(js_text \<Rightarrow> js_text) \<Rightarrow> 'r import_dialog \<Rightarrow> validated_row list" where
  "validRows lower s = filter vr_valid (validateRows lower (dg_dataRows s) (dg_mapping s))"

definition importableRows :: "(js_text \<Rightarrow> js_text) \<Rightarrow> 'r import_dialog \<Rightarrow> validated_row list" where
  "importableRows lower s = take MAX_ROWS (validRows lower s)"

definition hasTitleMapping :: "'r import_dialog \<Rightarrow> bool" where
  "hasTitleMapping s \<longleftrightarrow> Some F_title \<in> snd ` set (dg_mapping s)"

definition handleParse :: "(js_text \<Rightarrow> js_text) \<Rightarrow> 'r import_dialog \<Rightarrow> 'r import_dialog" where
  "handleParse lower s =
     (let s = s\<lparr>dg_parseError := False\<rparr>
      in if text_trim (dg_rawText s) = [] then s\<lparr>dg_parseError := True\<rparr>
         else (let parsed = parseCsv (dg_rawText s) None
               in if pc_headers parsed = [] \<or> pc_rows parsed = [] then s\<lparr>dg_parseError := True\<rparr>
                  else s\<lparr>dg_headers := pc_headers parsed, dg_dataRows := pc_rows parsed,
                         dg_delimiter := pc_delimiter parsed,
                         dg_mapping := autoMap lower (pc_headers parsed),
                         dg_mappingError := False, dg_step := Mapping_page\<rparr>))"

definition handleContinueToPreview :: "'r import_dialog \<Rightarrow> 'r import_dialog" where
  "handleContinueToPreview s =
     (if \<not> hasTitleMapping s then s\<lparr>dg_mappingError := True\<rparr>
      else s\<lparr>dg_mappingError := False, dg_step := Preview_page\<rparr>)"

definition nonblank :: "js_text \<Rightarrow> js_text option" where
  "nonblank t = (if text_trim t = [] then None else Some (text_trim t))"

text \<open>The request is built by \<open>mutationFn\<close> when the mutation starts.\<close>

definition handleImport :: "(js_text \<Rightarrow> js_text) \<Rightarrow> 'r import_dialog \<Rightarrow> 'r import_dialog" where
  "handleImport lower s =
     (if importableRows lower s = [] then s
      else s\<lparr>dg_isPending := True,
             dg_sent := dg_sent s @
               [\<lparr>ir_batch_id = nonblank (dg_batchId s), ir_source_system = nonblank (dg_sourceSystem s),
                 ir_index = dg_shouldIndex s, ir_documents = map vr_payload (importableRows lower s)\<rparr>]\<rparr>)"

datatype 'r import_event =
    Open_dialog
  | Close_dialog
  | Choose_file js_text
  | File_read js_text
  | Edit_text js_text
  | Press_parse
  | Map_column js_text "csv_target option"
  | Press_continue
  | Press_back
  | Edit_batch js_text
  | Edit_source js_text
  | Toggle_index bool
  | Press_import
  | Import_answered 'r
  | Import_settled
  | Import_failed

fun dialog_event ::
  "(js_text \<Rightarrow> js_text) \<Rightarrow> 'r import_dialog \<Rightarrow> 'r import_event \<Rightarrow> 'r import_dialog option" where
  "dialog_event lower s Open_dialog = (if dg_open s then None else Some (s\<lparr>dg_open := True\<rparr>))"
| "dialog_event lower s Close_dialog =
     (if dg_open s then Some ((resetAll s)\<lparr>dg_open := False\<rparr>) else None)"
| "dialog_event lower s (Choose_file name) =
     (if dg_open s \<and> dg_step s = Input_page
      then Some (s\<lparr>dg_fileName := name, dg_reading := dg_reading s + 1\<rparr>) else None)"
| "dialog_event lower s (File_read content) =
     (if 0 < dg_reading s then Some (s\<lparr>dg_reading := dg_reading s - 1, dg_rawText := content\<rparr>) else None)"
| "dialog_event lower s (Edit_text content) =
     (if dg_open s \<and> dg_step s = Input_page then Some (s\<lparr>dg_rawText := content\<rparr>) else None)"
| "dialog_event lower s Press_parse =
     (if dg_open s \<and> dg_step s = Input_page \<and> text_trim (dg_rawText s) \<noteq> []
      then Some (handleParse lower s) else None)"
| "dialog_event lower s (Map_column header target) =
     (if dg_open s \<and> dg_step s = Mapping_page \<and> header \<in> set (dg_headers s)
      then Some (s\<lparr>dg_mapping := AList.update header target (dg_mapping s)\<rparr>) else None)"
| "dialog_event lower s Press_continue =
     (if dg_open s \<and> dg_step s = Mapping_page then Some (handleContinueToPreview s) else None)"
| "dialog_event lower s Press_back =
     (if dg_open s \<and> dg_step s \<noteq> Input_page \<and> dg_result s = None
      then Some (s\<lparr>dg_step := (if dg_step s = Preview_page then Mapping_page else Input_page)\<rparr>) else None)"
| "dialog_event lower s (Edit_batch v) =
     (if dg_open s \<and> dg_step s = Preview_page then Some (s\<lparr>dg_batchId := v\<rparr>) else None)"
| "dialog_event lower s (Edit_source v) =
     (if dg_open s \<and> dg_step s = Preview_page then Some (s\<lparr>dg_sourceSystem := v\<rparr>) else None)"
| "dialog_event lower s (Toggle_index v) =
     (if dg_open s \<and> dg_step s = Preview_page then Some (s\<lparr>dg_shouldIndex := v\<rparr>) else None)"
| "dialog_event lower s Press_import =
     (if dg_open s \<and> dg_step s = Preview_page \<and> dg_result s = None \<and>
         importableRows lower s \<noteq> [] \<and> \<not> dg_isPending s
      then Some (handleImport lower s) else None)"
| "dialog_event lower s (Import_answered r) =
     (if dg_isPending s \<and> \<not> dg_refetching s
      then Some (s\<lparr>dg_refetching := True, dg_result := Some r\<rparr>) else None)"
| "dialog_event lower s Import_settled =
     (if dg_isPending s \<and> dg_refetching s
      then Some (s\<lparr>dg_isPending := False, dg_refetching := False, dg_answered := dg_answered s + 1\<rparr>) else None)"
| "dialog_event lower s Import_failed =
     (if dg_isPending s \<and> \<not> dg_refetching s
      then Some (s\<lparr>dg_isPending := False, dg_answered := dg_answered s + 1\<rparr>) else None)"

inductive dialog_reachable :: "(js_text \<Rightarrow> js_text) \<Rightarrow> 'r import_dialog \<Rightarrow> bool" for lower where
  start: "dialog_reachable lower initial_dialog"
| event: "dialog_reachable lower s \<Longrightarrow> dialog_event lower s e = Some s' \<Longrightarrow> dialog_reachable lower s'"

lemmas dialog_defs = handleParse_def handleContinueToPreview_def handleImport_def resetAll_def Let_def

text \<open>What every import request carries.\<close>

definition request_sound :: "(js_text \<Rightarrow> js_text) \<Rightarrow> import_request \<Rightarrow> bool" where
  "request_sound lower q \<longleftrightarrow>
     0 < length (ir_documents q) \<and> length (ir_documents q) \<le> MAX_ROWS \<and>
     list_all (\<lambda>d. bd_title d \<noteq> []) (ir_documents q) \<and>
     (\<exists>rows mapping. Some F_title \<in> snd ` set mapping \<and>
        ir_documents q = take MAX_ROWS (map vr_payload (filter vr_valid (validateRows lower rows mapping))))"

lemma importable_sound:
  assumes "importableRows lower s \<noteq> []" "hasTitleMapping s"
  shows "request_sound lower \<lparr>ir_batch_id = b, ir_source_system = c, ir_index = i,
    ir_documents = map vr_payload (importableRows lower s)\<rparr>"
proof -
  have title: "bd_title (vr_payload r) \<noteq> []" if "r \<in> set (importableRows lower s)" for r
    using that validateRows_titles [of r lower "dg_dataRows s" "dg_mapping s"]
    by (auto simp: importableRows_def validRows_def dest: in_set_takeD)
  have "map vr_payload (importableRows lower s) =
      take MAX_ROWS (map vr_payload (filter vr_valid (validateRows lower (dg_dataRows s) (dg_mapping s))))"
    by (simp add: importableRows_def validRows_def take_map)
  with assms(2) have "\<exists>rows mapping. Some F_title \<in> snd ` set mapping \<and> map vr_payload (importableRows lower s) =
      take MAX_ROWS (map vr_payload (filter vr_valid (validateRows lower rows mapping)))"
    unfolding hasTitleMapping_def by blast
  moreover have "length (importableRows lower s) \<le> MAX_ROWS" by (simp add: importableRows_def)
  ultimately show ?thesis
    using assms(1) title unfolding request_sound_def by (auto simp: list_all_iff)
qed

definition dialog_inv :: "(js_text \<Rightarrow> js_text) \<Rightarrow> 'r import_dialog \<Rightarrow> bool" where
  "dialog_inv lower s \<longleftrightarrow>
     (dg_step s = Preview_page \<longrightarrow> hasTitleMapping s) \<and>
     list_all (request_sound lower) (dg_sent s) \<and>
     length (dg_sent s) = dg_answered s + of_bool (dg_isPending s)"

lemma dialog_event_inv:
  assumes "dialog_inv lower s" "dialog_event lower s e = Some s'"
  shows "dialog_inv lower s'"
  using assms importable_sound [of lower s]
  by (cases e) (auto simp: dialog_inv_def dialog_defs hasTitleMapping_def split: if_splits)

text \<open>Whatever the user does in the guided import, opening and closing the dialog while a request is under way included, at most one import request is in flight, and every request carries between one and 250 documents: the first valid rows of a parsed file under a mapping with a title column, each with a title that is not blank.\<close>

theorem guided_import_requests:
  assumes "dialog_reachable lower s"
  shows "list_all (request_sound lower) (dg_sent s) \<and>
    length (dg_sent s) = dg_answered s + of_bool (dg_isPending s)"
proof -
  have "dialog_inv lower s"
    using assms
    by induction (simp add: dialog_inv_def initial_dialog_def, rule dialog_event_inv)
  then show ?thesis by (simp add: dialog_inv_def)
qed

text \<open>A concrete session: one titled row is parsed, mapped and sent.\<close>

fun dialog_run ::
  "(js_text \<Rightarrow> js_text) \<Rightarrow> 'r import_dialog \<Rightarrow> 'r import_event list \<Rightarrow> 'r import_dialog option" where
  "dialog_run lower s [] = Some s"
| "dialog_run lower s (e # es) =
     (case dialog_event lower s e of None \<Rightarrow> None | Some s' \<Rightarrow> dialog_run lower s' es)"

lemma dialog_run_reachable:
  assumes "dialog_run lower s es = Some s'" "dialog_reachable lower s"
  shows "dialog_reachable lower s'"
  using assms
  by (induction es arbitrary: s) (auto split: option.splits intro: dialog_reachable.event)

definition sample_csv :: js_text where
  "sample_csv = ascii ''title'' @ [LF] @ ascii ''A''"

definition sample_row :: validated_row where
  "sample_row =
     \<lparr>vr_rowNumber = 1,
      vr_payload = \<lparr>bd_title = ascii ''A'', bd_type = DT_other, bd_description = [], bd_category = [],
        bd_confidentiality = CF_internal, bd_tags = [], bd_metadata = []\<rparr>,
      vr_rawTitle = ascii ''A'', vr_rawType = [], vr_rawConfidentiality = [], vr_issues = [], vr_valid = True\<rparr>"

lemmas csv_run_simps = parseCsv_def parseDelimited_def detectDelimiter_def firstPhysicalLine_def stripBom_def
  csv_start_def csv_flush_def pushRow_def pushField_def keyed_row_def text_trim_def text_space_def
  option_or_def Let_def

lemma sample_parse:
  "parseCsv sample_csv None =
     \<lparr>pc_delimiter = Comma, pc_headers = [ascii ''title''], pc_rows = [[(ascii ''title'', ascii ''A'')]],
      pc_matrix = [[ascii ''title''], [ascii ''A'']]\<rparr>"
  by (simp add: csv_run_simps sample_csv_def ascii_def)

lemma sample_map: "autoMap sample_lower [ascii ''title''] = [(ascii ''title'', Some F_title)]"
proof -
  have "normalizeHeaderKey sample_lower (ascii ''title'') = ascii ''title''"
    using normalized_export_keys [OF sample_lower_keeps] by simp
  moreover have "auto_match [] (ascii ''title'') = Some F_title"
    unfolding auto_match_def ascii_in_map by code_simp
  ultimately show ?thesis by (simp add: autoMap_def auto_step_def)
qed

lemma sample_validate:
  "validateRows sample_lower [[(ascii ''title'', ascii ''A'')]] [(ascii ''title'', Some F_title)] = [sample_row]"
  by (simp add: validateRows_def validate_row_def valueFor_def field_to_header_def object_entries_def
      index_key_def ascii_def sample_row_def js_get_or_def sample_lower_def text_trim_def text_space_def
      row_metadata_def METADATA_FIELDS_def Let_def option_or_def)

lemma sample_csv_not_blank: "text_trim sample_csv \<noteq> []"
proof -
  have "text_trim sample_csv = sample_csv"
    by (simp add: text_trim_def sample_csv_def text_space_def ascii_def)
  then show ?thesis by (simp add: sample_csv_def ascii_def)
qed

lemma sample_parse_step:
  assumes "dg_rawText s = sample_csv"
  shows "handleParse sample_lower s = s\<lparr>dg_parseError := False, dg_headers := [ascii ''title''],
    dg_dataRows := [[(ascii ''title'', ascii ''A'')]], dg_delimiter := Comma,
    dg_mapping := [(ascii ''title'', Some F_title)], dg_mappingError := False, dg_step := Mapping_page\<rparr>"
  using assms by (simp add: handleParse_def sample_csv_not_blank sample_parse sample_map)

lemma sample_importable:
  assumes "dg_dataRows s = [[(ascii ''title'', ascii ''A'')]]" "dg_mapping s = [(ascii ''title'', Some F_title)]"
  shows "importableRows sample_lower s = [sample_row]" "hasTitleMapping s"
  using assms
  by (simp_all add: importableRows_def validRows_def sample_validate sample_row_def MAX_ROWS_def hasTitleMapping_def)

lemma nonblank_Nil: "nonblank [] = None"
  by (simp add: nonblank_def text_trim_def)

definition import_session :: "'r import_event list" where
  "import_session = [Open_dialog, Edit_text sample_csv, Press_parse, Press_continue, Press_import]"

lemma import_session_run:
  "\<exists>s. dialog_run sample_lower initial_dialog import_session = Some s \<and>
     dg_isPending s \<and> \<not> dg_refetching s \<and> dg_open s \<and> dg_step s = Preview_page \<and> dg_result s = None \<and>
     dg_sent s = [\<lparr>ir_batch_id = None, ir_source_system = None, ir_index = True,
                   ir_documents = [vr_payload sample_row]\<rparr>]"
  by (simp add: import_session_def initial_dialog_def sample_csv_not_blank sample_parse_step
      handleContinueToPreview_def sample_importable handleImport_def nonblank_Nil)

lemma guided_import_requests_witness:
  "\<exists>s :: nat import_dialog. dg_isPending s \<and> list_all (request_sound sample_lower) (dg_sent s) \<and>
     length (dg_sent s) = dg_answered s + of_bool (dg_isPending s)"
proof -
  obtain s :: "nat import_dialog" where run: "dialog_run sample_lower initial_dialog import_session = Some s"
    and "dg_isPending s"
    using import_session_run by blast
  from guided_import_requests [OF dialog_run_reachable [OF run dialog_reachable.start]] \<open>dg_isPending s\<close>
  show ?thesis by blast
qed

text \<open>An answer that arrives after the dialog was closed is kept as the result of the next session.\<close>

definition stale_session :: "'r \<Rightarrow> 'r import_event list" where
  "stale_session r = import_session @
     [Close_dialog, Open_dialog, Import_answered r, Import_settled, Edit_text sample_csv, Press_parse, Press_continue]"

lemma dialog_run_append:
  "dialog_run lower s (es @ es') =
     (case dialog_run lower s es of None \<Rightarrow> None | Some s' \<Rightarrow> dialog_run lower s' es')"
  by (induction es arbitrary: s) (simp_all split: option.splits)

text \<open>Closing the dialog while its import is under way and starting over leaves the new import stuck: after the late answer, a freshly parsed file with a valid row can be mapped and previewed, but neither imported nor stepped back from, until the dialog is closed again.\<close>

theorem late_answer_blocks_next_import:
  fixes r :: "'r"
  shows "\<exists>s. dialog_run sample_lower initial_dialog (stale_session r) = Some s \<and>
     dg_open s \<and> dg_step s = Preview_page \<and> importableRows sample_lower s \<noteq> [] \<and> \<not> dg_isPending s \<and>
     dialog_event sample_lower s Press_import = None \<and> dialog_event sample_lower s Press_back = None"
proof -
  obtain s :: "'r import_dialog" where run: "dialog_run sample_lower initial_dialog import_session = Some s"
    and "dg_isPending s" "dg_open s" "\<not> dg_refetching s"
    using import_session_run by blast
  then show ?thesis
    by (simp add: stale_session_def dialog_run_append resetAll_def sample_csv_not_blank sample_parse_step
        handleContinueToPreview_def sample_importable)
qed

end
