(* ===== verification/SessionRefresh.thy ===== *)
theory SessionRefresh
  imports Web
begin

section \<open>Renewing the access token\<close>

text \<open>
  \<open>lib/session-refresh.ts\<close>: the promise chain of each tab, the Web Lock shared by the tabs, the shared
  in-flight refresh and its cooldown, and the outcome of a refresh. The browser holds one refresh cookie;
  the server accepts each refresh token once. Tokens are numbered by the rotation that issued them. A
  request given up by its timeout may still reach the server later: it becomes a stray. The order in which
  the browser grants the lock to waiting tabs is left open.
\<close>

subsection \<open>The outcome of a refresh\<close>

datatype refresh_result = Refreshed json | Terminal | Transient

text \<open>A fetch fails (network, abort) or brings a status and a body, None when it is not JSON.\<close>

datatype fetch_outcome = Fetch_failed | Fetched nat "json option"

definition response_ok :: "nat \<Rightarrow> bool" where
  "response_ok status \<longleftrightarrow> 200 \<le> status \<and> status \<le> 299"

definition refresh_outcome :: "fetch_outcome \<Rightarrow> refresh_result" where
  "refresh_outcome f =
     (case f of
        Fetch_failed \<Rightarrow> Transient
      | Fetched status body \<Rightarrow>
          if status = 401 then Terminal
          else if status = 403 then Transient
          else if \<not> response_ok status then Transient
          else (case body of
                  None \<Rightarrow> Transient
                | Some data \<Rightarrow>
                    (case json_get data ''access_token'' of
                       None \<Rightarrow> Transient
                     | Some token \<Rightarrow> if json_truthy token then Refreshed token else Transient)))"

subsection \<open>One tab\<close>

datatype session_op = Op_refresh | Op_hydrate

datatype op_phase = Not_started | Sent nat | Answered "nat option"

record refresh_tab =
  rt_token :: "json option"
  rt_lastSuccessAt :: int
  rt_inFlight :: bool
  rt_chain :: "session_op list"
  rt_phase :: op_phase

definition REFRESH_COOLDOWN_MS :: int where
  "REFRESH_COOLDOWN_MS = 15000"

definition serializeSessionOp :: "session_op \<Rightarrow> refresh_tab \<Rightarrow> refresh_tab" where
  "serializeSessionOp op t = t\<lparr>rt_chain := rt_chain t @ [op]\<rparr>"

text \<open>A call is answered at once, shares the refresh in flight, or starts one.\<close>

datatype refresh_call = Immediate json | Shared | Started

definition refreshAccessToken :: "bool \<Rightarrow> int \<Rightarrow> refresh_tab \<Rightarrow> refresh_call \<times> refresh_tab" where
  "refreshAccessToken force now t =
     (if rt_inFlight t then (Shared, t)
      else
        (case rt_token t of
           Some current \<Rightarrow>
             if \<not> force \<and> json_truthy current \<and> now - rt_lastSuccessAt t < REFRESH_COOLDOWN_MS
             then (Immediate current, t)
             else (Started, serializeSessionOp Op_refresh (t\<lparr>rt_inFlight := True\<rparr>))
         | None \<Rightarrow> (Started, serializeSessionOp Op_refresh (t\<lparr>rt_inFlight := True\<rparr>))))"

text \<open>The head of the chain settles: \<open>finally\<close> clears the shared promise.\<close>

definition settle_op :: "refresh_result \<Rightarrow> int \<Rightarrow> refresh_tab \<Rightarrow> refresh_tab" where
  "settle_op result now t =
     (case rt_chain t of
        [] \<Rightarrow> t
      | op # rest \<Rightarrow>
          (let t = t\<lparr>rt_chain := rest, rt_phase := Not_started\<rparr>
           in if op = Op_refresh
              then (let t = t\<lparr>rt_inFlight := False\<rparr>
                    in (case result of
                          Refreshed token \<Rightarrow> t\<lparr>rt_token := Some token, rt_lastSuccessAt := now\<rparr>
                        | _ \<Rightarrow> t))
              else t))"

subsection \<open>The tabs, the lock, the cookie and the server\<close>

record rotation_state =
  rs_tab :: "nat \<Rightarrow> refresh_tab"
  rs_lock :: "nat option"
  rs_cookie :: nat
  rs_server :: nat
  rs_strays :: "nat list"
  rs_replays :: nat
  rs_given_up :: nat

definition server_rotates :: "nat \<Rightarrow> rotation_state \<Rightarrow> nat option \<times> rotation_state" where
  "server_rotates presented s =
     (if presented = rs_server s
      then (Some (Suc (rs_server s)), s\<lparr>rs_server := Suc (rs_server s)\<rparr>)
      else (None, s\<lparr>rs_replays := rs_replays s + 1\<rparr>))"

definition put_tab :: "nat \<Rightarrow> refresh_tab \<Rightarrow> rotation_state \<Rightarrow> rotation_state" where
  "put_tab i t s = s\<lparr>rs_tab := (rs_tab s)(i := t)\<rparr>"

definition release :: "rotation_state \<Rightarrow> rotation_state" where
  "release s = s\<lparr>rs_lock := None\<rparr>"

definition initial_tab :: refresh_tab where
  "initial_tab = \<lparr>rt_token = None, rt_lastSuccessAt = 0, rt_inFlight = False, rt_chain = [], rt_phase = Not_started\<rparr>"

definition initial_rotation :: rotation_state where
  "initial_rotation =
     \<lparr>rs_tab = (\<lambda>i. initial_tab), rs_lock = None, rs_cookie = 0, rs_server = 0, rs_strays = [], rs_replays = 0,
      rs_given_up = 0\<rparr>"

inductive rotation_step :: "bool \<Rightarrow> rotation_state \<Rightarrow> rotation_state \<Rightarrow> bool" for locks where
  call: "rotation_step locks s (put_tab i (snd (refreshAccessToken force now (rs_tab s i))) s)"
| hydrate: "rotation_step locks s (put_tab i (serializeSessionOp Op_hydrate (rs_tab s i)) s)"
| start: "rt_chain (rs_tab s i) \<noteq> [] \<Longrightarrow> rt_phase (rs_tab s i) = Not_started \<Longrightarrow> (locks \<Longrightarrow> rs_lock s = None) \<Longrightarrow>
    rotation_step locks s
      ((put_tab i ((rs_tab s i)\<lparr>rt_phase := Sent (rs_cookie s)\<rparr>) s)\<lparr>rs_lock := (if locks then Some i else None)\<rparr>)"
| rotate: "rt_phase (rs_tab s i) = Sent presented \<Longrightarrow> server_rotates presented s = (answer, s') \<Longrightarrow>
    rotation_step locks s (put_tab i ((rs_tab s' i)\<lparr>rt_phase := Answered answer\<rparr>) s')"
| answered: "rt_phase (rs_tab s i) = Answered (Some issued) \<Longrightarrow> response_ok status \<Longrightarrow>
    rotation_step locks s
      (release (put_tab i (settle_op (refresh_outcome (Fetched status body)) now (rs_tab s i)) s)\<lparr>rs_cookie := issued\<rparr>)"
| refused: "rt_phase (rs_tab s i) = Answered None \<Longrightarrow>
    rotation_step locks s
      (release (put_tab i (settle_op (refresh_outcome (Fetched 401 body)) now (rs_tab s i)) s))"
| not_rotated: "rt_phase (rs_tab s i) = Sent presented \<Longrightarrow>
    rotation_step locks s
      (release (put_tab i (settle_op (refresh_outcome (Fetched status body)) now (rs_tab s i)) s))"
| give_up_before: "rt_phase (rs_tab s i) = Sent presented \<Longrightarrow>
    rotation_step locks s
      ((release (put_tab i (settle_op (refresh_outcome Fetch_failed) now (rs_tab s i)) s))
        \<lparr>rs_strays := presented # rs_strays s, rs_given_up := rs_given_up s + 1\<rparr>)"
| give_up_after: "rt_phase (rs_tab s i) = Answered answer \<Longrightarrow>
    rotation_step locks s
      ((release (put_tab i (settle_op (refresh_outcome Fetch_failed) now (rs_tab s i)) s))
        \<lparr>rs_given_up := rs_given_up s + 1\<rparr>)"
| stray: "presented \<in> set (rs_strays s) \<Longrightarrow> server_rotates presented s = (answer, s') \<Longrightarrow>
    rotation_step locks s (s'\<lparr>rs_strays := remove1 presented (rs_strays s)\<rparr>)"
| reload: "rt_phase (rs_tab s i) = Not_started \<Longrightarrow> rotation_step locks s (put_tab i initial_tab s)"
| lock_rejected: "locks \<Longrightarrow> rt_chain (rs_tab s i) \<noteq> [] \<Longrightarrow> rt_phase (rs_tab s i) = Not_started \<Longrightarrow>
    rotation_step locks s (put_tab i (settle_op Transient now (rs_tab s i)) s)"

definition rotation_reachable :: "bool \<Rightarrow> rotation_state \<Rightarrow> bool" where
  "rotation_reachable locks s \<longleftrightarrow> (rotation_step locks)\<^sup>*\<^sup>* initial_rotation s"

subsection \<open>What holds in every reachable state\<close>

text \<open>The shared promise stands for the one refresh on the chain, and only the head of a chain runs.\<close>

definition tab_ok :: "refresh_tab \<Rightarrow> bool" where
  "tab_ok t \<longleftrightarrow> count_list (rt_chain t) Op_refresh = of_bool (rt_inFlight t) \<and>
     (rt_phase t \<noteq> Not_started \<longrightarrow> rt_chain t \<noteq> [])"

lemma refresh_call_ok: "tab_ok t \<Longrightarrow> tab_ok (snd (refreshAccessToken force now t))"
  by (auto simp: tab_ok_def refreshAccessToken_def serializeSessionOp_def split: option.splits)

lemma settle_ok: "tab_ok t \<Longrightarrow> tab_ok (settle_op result now t)"
  by (cases "rt_inFlight t")
    (auto simp: tab_ok_def settle_op_def Let_def split: list.splits refresh_result.splits if_splits)

lemma settle_phase: "tab_ok t \<Longrightarrow> rt_phase (settle_op result now t) = Not_started"
  by (auto simp: tab_ok_def settle_op_def Let_def split: list.splits refresh_result.splits)

lemma call_phase: "rt_phase (snd (refreshAccessToken force now t)) = rt_phase t"
  by (auto simp: refreshAccessToken_def serializeSessionOp_def split: option.splits)

lemma server_fields:
  assumes "server_rotates presented s = (answer, s')"
  shows "rs_tab s' = rs_tab s" "rs_lock s' = rs_lock s" "rs_cookie s' = rs_cookie s"
    "rs_strays s' = rs_strays s" "rs_given_up s' = rs_given_up s"
  using assms by (auto simp: server_rotates_def split: if_splits)

definition in_turn :: "rotation_state \<Rightarrow> bool" where
  "in_turn s \<longleftrightarrow>
     rs_strays s = [] \<and> rs_replays s = 0 \<and>
     (case rs_lock s of
        None \<Rightarrow> rs_cookie s = rs_server s
      | Some i \<Rightarrow>
          (case rt_phase (rs_tab s i) of
             Not_started \<Rightarrow> False
           | Sent presented \<Rightarrow> presented = rs_server s \<and> rs_cookie s = rs_server s
           | Answered answer \<Rightarrow> answer = Some (rs_server s)))"

definition rotation_inv :: "rotation_state \<Rightarrow> bool" where
  "rotation_inv s \<longleftrightarrow>
     (\<forall>i. tab_ok (rs_tab s i)) \<and>
     (\<forall>i. rt_phase (rs_tab s i) \<noteq> Not_started \<longleftrightarrow> rs_lock s = Some i) \<and>
     (rs_given_up s = 0 \<longrightarrow> in_turn s)"

lemma put_tab_simps [simp]:
  "rs_tab (put_tab i t s) j = (if j = i then t else rs_tab s j)"
  "rs_lock (put_tab i t s) = rs_lock s" "rs_cookie (put_tab i t s) = rs_cookie s"
  "rs_server (put_tab i t s) = rs_server s" "rs_strays (put_tab i t s) = rs_strays s"
  "rs_replays (put_tab i t s) = rs_replays s" "rs_given_up (put_tab i t s) = rs_given_up s"
  by (simp_all add: put_tab_def)

lemma release_simps [simp]:
  "rs_tab (release s) = rs_tab s" "rs_lock (release s) = None" "rs_cookie (release s) = rs_cookie s"
  "rs_server (release s) = rs_server s" "rs_strays (release s) = rs_strays s"
  "rs_replays (release s) = rs_replays s" "rs_given_up (release s) = rs_given_up s"
  by (simp_all add: release_def)

lemma rotation_inv_lock: "rotation_inv s \<Longrightarrow> rt_phase (rs_tab s i) \<noteq> Not_started \<longleftrightarrow> rs_lock s = Some i"
  by (simp add: rotation_inv_def)

text \<open>Finishing the running operation frees the lock and leaves no tab running.\<close>

lemma finish_inv:
  assumes "rotation_inv s" "rt_phase (rs_tab s i) \<noteq> Not_started"
    and s': "rs_tab s' = rs_tab (put_tab i (settle_op result now (rs_tab s i)) s)" "rs_lock s' = None"
    and turn: "rs_given_up s' = 0 \<Longrightarrow> rs_given_up s = 0 \<Longrightarrow> in_turn s \<Longrightarrow> in_turn s'"
    and "rs_given_up s' = 0 \<Longrightarrow> rs_given_up s = 0"
  shows "rotation_inv s'"
proof -
  have lock: "rs_lock s = Some i" and ok: "\<And>j. tab_ok (rs_tab s j)"
    and phases: "\<And>j. rt_phase (rs_tab s j) \<noteq> Not_started \<longleftrightarrow> rs_lock s = Some j"
    using assms(1,2) by (auto simp: rotation_inv_def)
  have "rt_phase (rs_tab s' j) = Not_started" for j
    using phases [of j] lock by (cases "j = i") (auto simp: s' settle_phase ok)
  moreover have "tab_ok (rs_tab s' j)" for j
    by (simp add: s' ok settle_ok)
  moreover have "rs_given_up s' = 0 \<longrightarrow> in_turn s'"
    using assms by (auto simp: rotation_inv_def)
  ultimately show ?thesis by (simp add: rotation_inv_def s'(2))
qed

text \<open>A step that starts nothing keeps the turn.\<close>

lemma quiet_inv:
  assumes "rotation_inv s" "tab_ok t" "rt_phase t = rt_phase (rs_tab s i)"
  shows "rotation_inv (put_tab i t s)"
  using assms by (auto simp: rotation_inv_def in_turn_def split: option.splits op_phase.splits)

lemma rotation_step_inv:
  assumes "rotation_step True s s'" "rotation_inv s"
  shows "rotation_inv s'"
  using assms(1)
proof cases
  case (call i force now)
  have "tab_ok (rs_tab s i)" using assms(2) by (simp add: rotation_inv_def)
  with call show ?thesis
    by (simp add: quiet_inv [OF assms(2)] refresh_call_ok call_phase)
next
  case (hydrate i)
  have "tab_ok (rs_tab s i)" using assms(2) by (simp add: rotation_inv_def)
  then have "tab_ok (serializeSessionOp Op_hydrate (rs_tab s i))"
    by (simp add: serializeSessionOp_def tab_ok_def)
  with hydrate show ?thesis
    by (simp add: quiet_inv [OF assms(2)] serializeSessionOp_def)
next
  case (start i)
  then show ?thesis
    using assms(2) by (auto simp: rotation_inv_def in_turn_def tab_ok_def)
next
  case (rotate i presented answer s'')
  then show ?thesis
    using assms(2)
    by (auto simp: rotation_inv_def in_turn_def tab_ok_def server_fields [OF rotate(3)] server_rotates_def
        split: if_splits option.splits)
next
  case (answered i issued status body now)
  then have "rs_lock s = Some i" using rotation_inv_lock [OF assms(2), of i] by simp
  then show ?thesis
    by (intro finish_inv [OF assms(2), of i]) (use answered in \<open>auto simp: in_turn_def\<close>)
next
  case (refused i body now)
  then have "rs_lock s = Some i" using rotation_inv_lock [OF assms(2), of i] by simp
  then show ?thesis
    by (intro finish_inv [OF assms(2), of i]) (use refused in \<open>auto simp: in_turn_def\<close>)
next
  case (not_rotated i presented status body now)
  then have "rs_lock s = Some i" using rotation_inv_lock [OF assms(2), of i] by simp
  then show ?thesis
    by (intro finish_inv [OF assms(2), of i]) (use not_rotated in \<open>auto simp: in_turn_def\<close>)
next
  case (give_up_before i presented now)
  show ?thesis
    by (rule finish_inv [OF assms(2), of i]) (use give_up_before in auto)
next
  case (give_up_after i answer now)
  show ?thesis
    by (rule finish_inv [OF assms(2), of i]) (use give_up_after in auto)
next
  case (stray presented answer s'')
  then show ?thesis
    using assms(2) by (auto simp: rotation_inv_def in_turn_def server_fields [OF stray(3)])
next
  case (reload i)
  then show ?thesis
    by (simp add: quiet_inv [OF assms(2)] initial_tab_def tab_ok_def)
next
  case (lock_rejected i now)
  have "tab_ok (rs_tab s i)" using assms(2) by (simp add: rotation_inv_def)
  with lock_rejected show ?thesis
    by (simp add: quiet_inv [OF assms(2)] settle_ok settle_phase)
qed

lemma rotation_reachable_inv: "rotation_reachable True s \<Longrightarrow> rotation_inv s"
  unfolding rotation_reachable_def
proof (induction rule: rtranclp_induct)
  case base
  show ?case by (simp add: rotation_inv_def in_turn_def initial_rotation_def initial_tab_def tab_ok_def)
next
  case (step s s')
  then show ?case by (simp add: rotation_step_inv)
qed


text \<open>Two tabs that refresh at once.\<close>

definition called :: refresh_tab where
  "called = initial_tab\<lparr>rt_inFlight := True, rt_chain := [Op_refresh]\<rparr>"

lemma called_call: "snd (refreshAccessToken False 0 initial_tab) = called"
  by (simp add: refreshAccessToken_def initial_tab_def serializeSessionOp_def called_def)

definition both_called :: rotation_state where
  "both_called = put_tab 1 called (put_tab 0 called initial_rotation)"

lemma both_called_reachable: "rotation_reachable locks both_called"
proof -
  have "rotation_step locks initial_rotation (put_tab 0 called initial_rotation)"
    using rotation_step.call [of locks initial_rotation 0 False 0]
    by (simp add: initial_rotation_def called_call)
  moreover have "rotation_step locks (put_tab 0 called initial_rotation) both_called"
    using rotation_step.call [of locks "put_tab 0 called initial_rotation" 1 False 0]
    by (simp add: both_called_def called_call) (simp add: initial_rotation_def called_call)
  ultimately show ?thesis
    unfolding rotation_reachable_def by (meson rtranclp.rtrancl_into_rtrancl rtranclp.rtrancl_refl)
qed

lemma rotation_reachable_step:
  "rotation_reachable locks s \<Longrightarrow> rotation_step locks s s' \<Longrightarrow> rotation_reachable locks s'"
  unfolding rotation_reachable_def by (rule rtranclp.rtrancl_into_rtrancl)

lemma first_starts:
  "rotation_step locks both_called ((put_tab 0 (called\<lparr>rt_phase := Sent 0\<rparr>) both_called)
     \<lparr>rs_lock := (if locks then Some 0 else None)\<rparr>)"
  using rotation_step.start [of both_called 0 locks]
  by (simp add: both_called_def called_def initial_tab_def initial_rotation_def)


text \<open>Without Web Locks the two tabs send the same token, and the second is a replay.\<close>

lemma replay_without_locks:
  "\<exists>s. rotation_reachable False s \<and> rs_given_up s = 0 \<and> rs_replays s = 1"
proof -
  let ?s1 = "(put_tab 0 (called\<lparr>rt_phase := Sent 0\<rparr>) both_called)\<lparr>rs_lock := None\<rparr>"
  have "rotation_reachable False ?s1"
    using rotation_reachable_step [OF both_called_reachable first_starts [of False]] by simp
  moreover define s2 where "s2 = (put_tab 1 (called\<lparr>rt_phase := Sent 0\<rparr>) ?s1)\<lparr>rs_lock := None\<rparr>"
  have "rotation_step False ?s1 s2"
    using rotation_step.start [of ?s1 1 False]
    by (simp add: s2_def both_called_def called_def initial_tab_def initial_rotation_def)
  moreover define s3 where "s3 = put_tab 0 (called\<lparr>rt_phase := Answered (Some 1)\<rparr>) (s2\<lparr>rs_server := 1\<rparr>)"
  have "rotation_step False s2 s3"
    using rotation_step.rotate [of s2 0 0 "Some 1" "s2\<lparr>rs_server := 1\<rparr>" False]
    by (simp add: s3_def s2_def server_rotates_def both_called_def initial_rotation_def)
  moreover define s4 where "s4 = put_tab 1 (called\<lparr>rt_phase := Answered None\<rparr>) (s3\<lparr>rs_replays := 1\<rparr>)"
  have "rotation_step False s3 s4"
    using rotation_step.rotate [of s3 1 0 None "s3\<lparr>rs_replays := 1\<rparr>" False]
    by (simp add: s4_def s3_def s2_def server_rotates_def both_called_def initial_rotation_def)
  moreover have "rs_given_up s4 = 0" "rs_replays s4 = 1"
    by (simp_all add: s4_def s3_def s2_def both_called_def initial_rotation_def)
  ultimately show ?thesis by (meson rotation_reachable_step)
qed

text \<open>Only a 401 ends the session; a network error, a 403 or an unreadable answer is retried.\<close>

lemma refresh_terminal_iff: "refresh_outcome f = Terminal \<longleftrightarrow> (\<exists>body. f = Fetched 401 body)"
  by (auto simp: refresh_outcome_def split: fetch_outcome.splits option.splits)

end
