(* ===== verification/SessionExpiry.thy ===== *)
theory SessionExpiry
  imports Web "HOL-Library.Multiset"
begin

section \<open>Ending a session in every tab\<close>

text \<open>
  \<open>lib/session-expiry.ts\<close>: the module state of one tab, the messages tabs exchange over the
  BroadcastChannel and over storage events, and their delivery in any order. A navigation
  (\<open>window.location.href = \<dots>\<close>) is recorded as pending; the page load that follows starts a fresh module
  state. Signing in through the login form keeps the page and its module state.
\<close>

subsection \<open>One tab\<close>

datatype auth_broadcast = Session_expired | Logout

definition AUTH_ROUTE_PREFIXES :: "string list" where
  "AUTH_ROUTE_PREFIXES =
     [''/login'', ''/register'', ''/forgot-password'', ''/reset-password'', ''/verify-email'',
      ''/verify'', ''/invite'', ''/callback'', ''/setup'']"

definition onAuthSurface :: "string \<Rightarrow> bool" where
  "onAuthSurface pathname \<longleftrightarrow>
     list_ex (\<lambda>route. pathname = route \<or> js_startsWith pathname (route @ ''/'')) AUTH_ROUTE_PREFIXES"

record tab =
  tb_pathname :: string
  tb_search :: string
  tb_token :: "string option"
  tb_terminating :: bool
  tb_leaving :: "string option"

definition clearAccessToken :: "tab \<Rightarrow> tab" where
  "clearAccessToken t = t\<lparr>tb_token := None\<rparr>"

definition redirectToLogin :: "string option \<Rightarrow> tab \<Rightarrow> tab" where
  "redirectToLogin reason t =
     (if onAuthSurface (tb_pathname t) then t
      else t\<lparr>tb_leaving := Some (''/login?'' @ url_params
        ((''redirect'', tb_pathname t @ tb_search t) #
         (case reason of None \<Rightarrow> [] | Some r \<Rightarrow> if r = [] then [] else [(''reason'', r)])))\<rparr>)"

text \<open>What a tab does to the outside: the DELETE of the session cookies, and a broadcast.\<close>

datatype tab_effect = Clear_cookies | Broadcast auth_broadcast

definition expireSession :: "tab \<Rightarrow> tab \<times> tab_effect list" where
  "expireSession t =
     (if onAuthSurface (tb_pathname t) then (clearAccessToken t, [])
      else if tb_terminating t then (t, [])
      else (redirectToLogin (Some ''session_expired'') (clearAccessToken (t\<lparr>tb_terminating := True\<rparr>)),
            [Clear_cookies, Broadcast Session_expired]))"

definition broadcastLogout :: "tab_effect list" where
  "broadcastLogout = [Broadcast Logout]"

text \<open>The end of \<open>logout\<close> of the auth store: forget the session, tell the peers, go to the login page.\<close>

definition finish_logout :: "tab \<Rightarrow> tab \<times> tab_effect list" where
  "finish_logout t = ((clearAccessToken t)\<lparr>tb_leaving := Some ''/login''\<rparr>, Clear_cookies # broadcastLogout)"

fun handle_message :: "auth_broadcast \<Rightarrow> tab \<Rightarrow> tab" where
  "handle_message Session_expired t =
     (if tb_terminating t then t
      else redirectToLogin (Some ''session_expired'') (clearAccessToken (t\<lparr>tb_terminating := True\<rparr>)))"
| "handle_message Logout t =
     (if tb_terminating t then t
      else (let t = clearAccessToken (t\<lparr>tb_terminating := True\<rparr>)
            in if onAuthSurface (tb_pathname t) then t else t\<lparr>tb_leaving := Some ''/login''\<rparr>))"

definition signed_in :: "string \<Rightarrow> string \<Rightarrow> tab \<Rightarrow> tab" where
  "signed_in token destination t = t\<lparr>tb_token := Some token, tb_pathname := destination, tb_search := []\<rparr>"

definition page_load :: "string \<Rightarrow> string \<Rightarrow> tab" where
  "page_load pathname query =
     \<lparr>tb_pathname = pathname, tb_search = query, tb_token = None, tb_terminating = False, tb_leaving = None\<rparr>"

subsection \<open>All tabs of a browser\<close>

record browser =
  br_tabs :: "nat \<Rightarrow> tab"
  br_mail :: "(nat \<times> auth_broadcast) list"
  br_broadcasts :: nat
  br_ended :: nat

text \<open>A broadcast reaches every other open tab through each transport the browser has.\<close>

definition post :: "nat list \<Rightarrow> nat \<Rightarrow> nat \<Rightarrow> auth_broadcast \<Rightarrow> browser \<Rightarrow> browser" where
  "post peers transports sender msg b =
     b\<lparr>br_mail := br_mail b @ concat (replicate transports (map (\<lambda>p. (p, msg)) (filter (\<lambda>p. p \<noteq> sender) peers))),
       br_broadcasts := br_broadcasts b + 1\<rparr>"

fun perform :: "nat list \<Rightarrow> nat \<Rightarrow> nat \<Rightarrow> tab_effect list \<Rightarrow> browser \<Rightarrow> browser" where
  "perform peers transports i [] b = b"
| "perform peers transports i (Clear_cookies # es) b = perform peers transports i es b"
| "perform peers transports i (Broadcast msg # es) b =
     perform peers transports i es (post peers transports i msg b)"

definition run_tab ::
  "nat list \<Rightarrow> nat \<Rightarrow> nat \<Rightarrow> (tab \<Rightarrow> tab \<times> tab_effect list) \<Rightarrow> browser \<Rightarrow> browser" where
  "run_tab peers transports i f b =
     (case f (br_tabs b i) of (t, es) \<Rightarrow>
        perform peers transports i es (b\<lparr>br_tabs := (br_tabs b)(i := t)\<rparr>))"

definition deliver :: "nat \<Rightarrow> auth_broadcast \<Rightarrow> browser \<Rightarrow> browser" where
  "deliver i msg b = b\<lparr>br_tabs := (br_tabs b)(i := handle_message msg (br_tabs b i)),
     br_mail := remove1 (i, msg) (br_mail b)\<rparr>"

inductive browser_step :: "nat list \<Rightarrow> nat \<Rightarrow> browser \<Rightarrow> browser \<Rightarrow> bool" for peers transports where
  expire: "i \<in> set peers \<Longrightarrow>
     browser_step peers transports b ((run_tab peers transports i expireSession b)\<lparr>br_ended := br_ended b + 1\<rparr>)"
| logout: "i \<in> set peers \<Longrightarrow>
     browser_step peers transports b ((run_tab peers transports i finish_logout b)\<lparr>br_ended := br_ended b + 1\<rparr>)"
| deliver: "(i, msg) \<in> set (br_mail b) \<Longrightarrow> browser_step peers transports b (deliver i msg b)"
| sign_in: "onAuthSurface (tb_pathname (br_tabs b i)) \<Longrightarrow>
     browser_step peers transports b
       (b\<lparr>br_tabs := (br_tabs b)(i := signed_in token destination (br_tabs b i))\<rparr>)"
| move: "tb_leaving (br_tabs b i) = None \<Longrightarrow>
     browser_step peers transports b
       (b\<lparr>br_tabs := (br_tabs b)(i := (br_tabs b i)\<lparr>tb_pathname := pathname, tb_search := query\<rparr>)\<rparr>)"
| load: "browser_step peers transports b (b\<lparr>br_tabs := (br_tabs b)(i := page_load pathname query)\<rparr>)"

subsection \<open>The end of a session reaches every tab\<close>

definition ended :: "tab \<Rightarrow> bool" where
  "ended t \<longleftrightarrow> tb_token t = None \<and> (onAuthSurface (tb_pathname t) \<or> tb_leaving t \<noteq> None)"

text \<open>The flag tells the truth: a terminating tab has no session and is on, or on its way to, an auth page.\<close>

definition flag_honest :: "tab \<Rightarrow> bool" where
  "flag_honest t \<longleftrightarrow> (tb_terminating t \<longrightarrow> ended t)"

lemmas tab_defs = redirectToLogin_def clearAccessToken_def ended_def flag_honest_def

lemma handle_message_ends: "flag_honest t \<Longrightarrow> ended (handle_message msg t)"
  by (cases msg) (auto simp: tab_defs Let_def)

lemma ended_honest: "ended t \<Longrightarrow> flag_honest t"
  by (simp add: flag_honest_def)

lemma page_load_honest: "flag_honest (page_load pathname query)"
  by (simp add: flag_honest_def page_load_def)

definition deliver_all :: "(nat \<times> auth_broadcast) list \<Rightarrow> browser \<Rightarrow> browser" where
  "deliver_all ms b = foldl (\<lambda>b (i, msg). deliver i msg b) b ms"

lemma deliver_fields:
  "br_tabs (deliver i msg b) j = (if j = i then handle_message msg (br_tabs b i) else br_tabs b j)"
  "br_mail (deliver i msg b) = remove1 (i, msg) (br_mail b)"
  "br_broadcasts (deliver i msg b) = br_broadcasts b"
  by (simp_all add: deliver_def)

lemma deliver_all_fields:
  "br_broadcasts (deliver_all ms b) = br_broadcasts b"
  "mset (br_mail (deliver_all ms b)) = mset (br_mail b) - mset ms"
proof -
  show "br_broadcasts (deliver_all ms b) = br_broadcasts b"
    unfolding deliver_all_def by (induction ms arbitrary: b) (auto simp: deliver_fields)
  show "mset (br_mail (deliver_all ms b)) = mset (br_mail b) - mset ms"
    unfolding deliver_all_def
    by (induction ms arbitrary: b) (auto simp: deliver_fields)
qed

lemma deliver_all_ends:
  assumes "flag_honest (br_tabs b j)" "ended (br_tabs b j) \<or> (\<exists>msg. (j, msg) \<in> set ms)"
  shows "ended (br_tabs (deliver_all ms b) j)"
  using assms
proof (induction ms arbitrary: b)
  case (Cons m ms)
  obtain i msg where m: "m = (i, msg)" by (cases m)
  have tab: "br_tabs (deliver i msg b) j = (if j = i then handle_message msg (br_tabs b i) else br_tabs b j)"
    by (simp add: deliver_fields)
  have "ended (br_tabs (deliver_all ms (deliver i msg b)) j)"
  proof (rule Cons.IH)
    show "flag_honest (br_tabs (deliver i msg b) j)"
      using Cons.prems(1) by (auto simp: tab intro: ended_honest handle_message_ends)
    show "ended (br_tabs (deliver i msg b) j) \<or> (\<exists>msg. (j, msg) \<in> set ms)"
      using Cons.prems m by (auto simp: tab handle_message_ends ended_honest)
  qed
  then show ?case by (simp add: deliver_all_def m)
qed (simp add: deliver_all_def)

lemma perform_broadcast:
  "br_tabs (perform peers transports i [Clear_cookies, Broadcast msg] b) = br_tabs b"
  "br_broadcasts (perform peers transports i [Clear_cookies, Broadcast msg] b) = br_broadcasts b + 1"
  "br_mail (perform peers transports i [Clear_cookies, Broadcast msg] b) = br_mail b @
     concat (replicate transports (map (\<lambda>p. (p, msg)) (filter (\<lambda>p. p \<noteq> i) peers)))"
  by (simp_all add: post_def)


definition two_tabs :: browser where
  "two_tabs =
     \<lparr>br_tabs = (\<lambda>i. (page_load (if i = 0 then ''/lex/cases'' else ''/dashboard'') [])\<lparr>tb_token := Some ''t''\<rparr>),
      br_mail = [], br_broadcasts = 0, br_ended = 0\<rparr>"


text \<open>The one exception is a tab that was told to end while it stood on an auth page: nothing there reloads the page, so its flag stays set, and after the user signs in again in that tab neither an expired session nor a logout in another tab is acted upon any more.\<close>

theorem told_on_auth_page_never_ends_again:
  assumes "onAuthSurface (tb_pathname t)" "\<not> onAuthSurface destination"
  shows "let t' = signed_in token destination (handle_message msg t) in
    tb_token t' = Some token \<and> expireSession t' = (t', []) \<and> handle_message msg' t' = t'"
  using assms
  by (cases msg; cases msg')
    (auto simp: signed_in_def expireSession_def Let_def redirectToLogin_def clearAccessToken_def)

lemma told_on_auth_page_never_ends_again_witness:
  "let t' = signed_in ''t2'' ''/dashboard'' (handle_message Logout (page_load ''/login'' [])) in
    tb_token t' = Some ''t2'' \<and> expireSession t' = (t', []) \<and> handle_message Logout t' = t'"
  by (rule told_on_auth_page_never_ends_again)
    (simp_all add: page_load_def onAuthSurface_def AUTH_ROUTE_PREFIXES_def js_startsWith_def)

text \<open>Nothing that is received is ever broadcast: there are at most as many broadcasts as local endings.\<close>

lemma perform_counts:
  "br_broadcasts (perform peers transports i es b) = br_broadcasts b + length (filter (\<lambda>e. e \<noteq> Clear_cookies) es)"
  "br_ended (perform peers transports i es b) = br_ended b"
  by (induction peers transports i es b rule: perform.induct) (simp_all add: post_def)

lemma broadcasts_only_local:
  assumes "(browser_step peers transports)\<^sup>*\<^sup>* b b'" "br_broadcasts b \<le> br_ended b"
  shows "br_broadcasts b' \<le> br_ended b'"
  using assms
proof induction
  case (step b b')
  from step.hyps(2) step.IH [OF step.prems] show ?case
    by cases (auto simp: run_tab_def perform_counts deliver_fields expireSession_def finish_logout_def
        broadcastLogout_def deliver_def post_def split: prod.splits if_splits)
qed

end
