(* ===== verification/AuthStore.thy ===== *)
theory AuthStore
  imports Permissions SessionRefresh SessionExpiry "HOL-Library.List_Lexorder" "HOL-Library.Char_ord"
begin

section \<open>The auth store\<close>

text \<open>
  \<open>stores/auth-store.ts\<close>: the session state of a tab, its sign-in, logout and hydration actions, and the
  memoised set of effective permissions, with the renewal watchdog of
  \<open>components/providers/auth-provider.tsx\<close>. An action that awaits the server is split where it awaits:
  one operation starts it, another applies what came back, and any others may run in between. What the
  payload of a token grants (\<open>getTokenPayload\<close>) is an argument.
\<close>

subsection \<open>State\<close>

record auth_user =
  au_roles :: "string list list"
  au_profile :: json

record last_sign_in =
  ls_at :: "string option"
  ls_ip :: "string option"

record auth_store =
  as_user :: "auth_user option"
  as_tenant :: "json option"
  as_isAuthenticated :: bool
  as_isLoading :: bool
  as_isHydrated :: bool
  as_sessionExpired :: bool
  as_permissionsVersion :: int
  as_error :: "string option"
  as_lastSignIn :: "last_sign_in option"
  as_pendingMfaRemember :: "bool option"
  as_token :: "string option"
  as_cachedPermToken :: "string option"
  as_cachedPerms :: "string list"
  as_externalPerms :: "string list"
  as_externalPermsVersion :: int
  as_cachedMergedVersion :: int
  as_cachedRoleSig :: "string option"
  as_refreshInFlight :: bool
  as_stored :: "(string \<times> string \<times> bool option) list"

definition initial_auth :: auth_store where
  "initial_auth =
     \<lparr>as_user = None, as_tenant = None, as_isAuthenticated = False, as_isLoading = False, as_isHydrated = False,
      as_sessionExpired = False, as_permissionsVersion = 0, as_error = None, as_lastSignIn = None,
      as_pendingMfaRemember = None, as_token = None, as_cachedPermToken = None, as_cachedPerms = [],
      as_externalPerms = [], as_externalPermsVersion = 0, as_cachedMergedVersion = -1,
      as_cachedRoleSig = None, as_refreshInFlight = False, as_stored = []\<rparr>"

subsection \<open>Effective permissions\<close>

definition resetPermissionsCache :: "auth_store \<Rightarrow> auth_store" where
  "resetPermissionsCache s = s\<lparr>as_cachedPermToken := None, as_cachedPerms := [], as_cachedMergedVersion := -1,
     as_cachedRoleSig := None\<rparr>"

definition setExternalPermissions :: "string list \<Rightarrow> auth_store \<Rightarrow> auth_store" where
  "setExternalPermissions permissions s =
     (let new = sort (js_uniq permissions)
      in if new = as_externalPerms s then s
         else s\<lparr>as_externalPerms := new, as_externalPermsVersion := as_externalPermsVersion s + 1,
                as_permissionsVersion := as_externalPermsVersion s + 1\<rparr>)"

definition clearExternalPermissions :: "auth_store \<Rightarrow> auth_store" where
  "clearExternalPermissions = setExternalPermissions []"

abbreviation "ROLE_SEPARATOR \<equiv> CHR 0x01"

definition role_sig :: "string list \<Rightarrow> string" where
  "role_sig rolePerms = (if rolePerms = [] then [] else js_join [ROLE_SEPARATOR] rolePerms)"

definition current_token :: "auth_store \<Rightarrow> string option" where
  "current_token s = (case as_token s of Some t \<Rightarrow> if t = [] then None else Some t | None \<Rightarrow> None)"

definition jwt_permissions :: "(string \<Rightarrow> string list) \<Rightarrow> string option \<Rightarrow> string list" where
  "jwt_permissions payload token = (case token of None \<Rightarrow> [] | Some t \<Rightarrow> payload t)"

definition merged_permissions :: "string list \<Rightarrow> string list \<Rightarrow> string list \<Rightarrow> string list" where
  "merged_permissions jwtPerms externalPerms rolePerms =
     (if jwtPerms \<noteq> [] \<or> externalPerms \<noteq> [] \<or> rolePerms \<noteq> []
      then js_uniq (jwtPerms @ externalPerms @ rolePerms) else [])"

definition getEffectivePermissions ::
  "(string \<Rightarrow> string list) \<Rightarrow> string list \<Rightarrow> auth_store \<Rightarrow> string list \<times> auth_store" where
  "getEffectivePermissions payload rolePerms s =
     (let token = current_token s;
          roleSig = role_sig rolePerms
      in if token = as_cachedPermToken s \<and> as_cachedMergedVersion s = as_externalPermsVersion s \<and>
            as_cachedRoleSig s = Some roleSig
         then (as_cachedPerms s, s)
         else (let perms = merged_permissions (jwt_permissions payload token) (as_externalPerms s) rolePerms
               in (perms, s\<lparr>as_cachedPerms := perms, as_cachedPermToken := token,
                            as_cachedMergedVersion := as_externalPermsVersion s, as_cachedRoleSig := Some roleSig\<rparr>)))"

definition role_permissions :: "auth_store \<Rightarrow> string list" where
  "role_permissions s = (case as_user s of None \<Rightarrow> [] | Some u \<Rightarrow> concat (au_roles u))"

definition hasPermission :: "(string \<Rightarrow> string list) \<Rightarrow> string \<Rightarrow> auth_store \<Rightarrow> bool \<times> auth_store" where
  "hasPermission payload permission s =
     (case getEffectivePermissions payload (role_permissions s) s of
        (perms, s') \<Rightarrow> (checkPermission perms permission, s'))"

text \<open>\<open>permissions.some\<close> and \<open>permissions.every\<close> stop at the first answer that decides.\<close>

fun hasAnyPermission :: "(string \<Rightarrow> string list) \<Rightarrow> string list \<Rightarrow> auth_store \<Rightarrow> bool \<times> auth_store" where
  "hasAnyPermission payload [] s = (False, s)"
| "hasAnyPermission payload (p # ps) s =
     (case hasPermission payload p s of (b, s') \<Rightarrow> if b then (True, s') else hasAnyPermission payload ps s')"

fun hasAllPermissions :: "(string \<Rightarrow> string list) \<Rightarrow> string list \<Rightarrow> auth_store \<Rightarrow> bool \<times> auth_store" where
  "hasAllPermissions payload [] s = (True, s)"
| "hasAllPermissions payload (p # ps) s =
     (case hasPermission payload p s of (b, s') \<Rightarrow> if b then hasAllPermissions payload ps s' else (False, s'))"

datatype suite = Cyber | Data_suite | Respond | Acta | Lex_suite | Visus

fun SUITE_PERMISSIONS :: "suite \<Rightarrow> string" where
  "SUITE_PERMISSIONS Cyber = ''cyber:read''"
| "SUITE_PERMISSIONS Data_suite = ''data:read''"
| "SUITE_PERMISSIONS Respond = ''respond:incident:read''"
| "SUITE_PERMISSIONS Acta = ''acta:read''"
| "SUITE_PERMISSIONS Lex_suite = ''lex:read''"
| "SUITE_PERMISSIONS Visus = ''visus:read''"

definition hasSuiteAccess :: "(string \<Rightarrow> string list) \<Rightarrow> suite \<Rightarrow> auth_store \<Rightarrow> bool \<times> auth_store" where
  "hasSuiteAccess payload su s = hasPermission payload (SUITE_PERMISSIONS su) s"

subsection \<open>Signing in and out\<close>

definition pick_string :: "json \<Rightarrow> string list \<Rightarrow> string option" where
  "pick_string obj keys =
     (case List.find (\<lambda>k. case json_get obj k of Some (JStr v) \<Rightarrow> v \<noteq> [] | _ \<Rightarrow> False) keys of
        None \<Rightarrow> None
      | Some k \<Rightarrow> (case json_get obj k of Some (JStr v) \<Rightarrow> Some v | _ \<Rightarrow> None))"

definition extractLastSignIn :: "json \<Rightarrow> last_sign_in option" where
  "extractLastSignIn obj =
     (let when_at = pick_string obj [''last_login_at'', ''last_sign_in_at'', ''previous_login_at'', ''last_seen_at''];
          ip = pick_string obj [''last_login_ip'', ''last_sign_in_ip'', ''previous_login_ip'']
      in if when_at = None \<and> ip = None then None else Some \<lparr>ls_at = when_at, ls_ip = ip\<rparr>)"

text \<open>What the sign-in calls bring back; an error carries its message.\<close>

datatype login_reply =
    Login_failed string
  | Login_mfa string
  | Login_tokens string string "auth_user option"

datatype passkey_reply =
    Passkey_failed string
  | Passkey_mfa string
  | Passkey_tokens "string option" "string option" "auth_user option"

datatype mfa_reply =
    Mfa_failed string
  | Mfa_tokens string string "auth_user option"

datatype 'a fetched = Failed string | Got 'a

record login_result =
  lr_requiresMFA :: bool
  lr_mfaToken :: "string option"

definition start_sign_in :: "auth_store \<Rightarrow> auth_store" where
  "start_sign_in s = s\<lparr>as_isLoading := True, as_error := None, as_sessionExpired := False\<rparr>"

definition fail_sign_in :: "string \<Rightarrow> auth_store \<Rightarrow> auth_store" where
  "fail_sign_in msg s = s\<lparr>as_isLoading := False, as_error := Some msg\<rparr>"

definition storeSessionInBFF ::
  "unit fetched \<Rightarrow> string \<Rightarrow> string \<Rightarrow> bool option \<Rightarrow> auth_store \<Rightarrow> string option \<times> auth_store" where
  "storeSessionInBFF reply access refresh remember s =
     (let s = s\<lparr>as_stored := as_stored s @ [(access, refresh, remember)]\<rparr>
      in case reply of Failed msg \<Rightarrow> (Some msg, s) | Got u \<Rightarrow> (None, s))"

definition commit_user :: "auth_user \<Rightarrow> auth_store \<Rightarrow> auth_store" where
  "commit_user u s = s\<lparr>as_user := Some u, as_isAuthenticated := True, as_isLoading := False, as_error := None,
     as_lastSignIn := extractLastSignIn (au_profile u), as_pendingMfaRemember := None\<rparr>"

text \<open>The profile comes with the reply or is fetched.\<close>

definition finish_profile ::
  "(auth_user \<Rightarrow> auth_store \<Rightarrow> auth_store) \<Rightarrow> auth_user option \<Rightarrow> auth_user fetched \<Rightarrow> auth_store \<Rightarrow> auth_store" where
  "finish_profile commit own profile s =
     (case own of
        Some u \<Rightarrow> commit u s
      | None \<Rightarrow> (case profile of Failed msg \<Rightarrow> fail_sign_in msg s | Got u \<Rightarrow> commit u s))"

definition commit_login :: "auth_user \<Rightarrow> auth_store \<Rightarrow> auth_store" where
  "commit_login u s = (commit_user u s)\<lparr>as_sessionExpired := False\<rparr>"

definition pend_mfa :: "bool option \<Rightarrow> auth_store \<Rightarrow> auth_store" where
  "pend_mfa remember s =
     s\<lparr>as_isLoading := False, as_pendingMfaRemember := Some (case remember of Some b \<Rightarrow> b | None \<Rightarrow> False)\<rparr>"

fun login ::
  "bool option \<Rightarrow> login_reply \<Rightarrow> unit fetched \<Rightarrow> auth_user fetched \<Rightarrow> auth_store \<Rightarrow> auth_store" where
  "login remember (Login_failed msg) bff profile s = fail_sign_in msg s"
| "login remember (Login_mfa token) bff profile s = pend_mfa remember s"
| "login remember (Login_tokens access refresh own) bff profile s =
     (case storeSessionInBFF bff access refresh remember s of
        (Some msg, s) \<Rightarrow> fail_sign_in msg s
      | (None, s) \<Rightarrow> finish_profile commit_login own profile (s\<lparr>as_token := Some access\<rparr>))"

fun loginWithPasskey ::
  "bool option \<Rightarrow> passkey_reply \<Rightarrow> unit fetched \<Rightarrow> auth_user fetched \<Rightarrow> auth_store \<Rightarrow> auth_store" where
  "loginWithPasskey remember (Passkey_failed msg) bff profile s = fail_sign_in msg s"
| "loginWithPasskey remember (Passkey_mfa token) bff profile s = pend_mfa remember s"
| "loginWithPasskey remember (Passkey_tokens access refresh own) bff profile s =
     (case access of
        None \<Rightarrow> finish_profile commit_login own profile s
      | Some a \<Rightarrow>
          if a = [] then finish_profile commit_login own profile s
          else (case (case refresh of
                        Some r \<Rightarrow> if r = [] then (None, s) else storeSessionInBFF bff a r remember s
                      | None \<Rightarrow> (None, s)) of
                  (Some msg, s) \<Rightarrow> fail_sign_in msg s
                | (None, s) \<Rightarrow> finish_profile commit_login own profile (s\<lparr>as_token := Some a\<rparr>)))"

definition start_mfa :: "auth_store \<Rightarrow> auth_store" where
  "start_mfa s = s\<lparr>as_isLoading := True, as_error := None\<rparr>"

fun verifyMFA ::
  "mfa_reply \<Rightarrow> unit fetched \<Rightarrow> auth_user fetched \<Rightarrow> auth_store \<Rightarrow> auth_store" where
  "verifyMFA (Mfa_failed msg) bff profile s = fail_sign_in msg s"
| "verifyMFA (Mfa_tokens access refresh own) bff profile s =
     (case storeSessionInBFF bff access refresh
             (Some (case as_pendingMfaRemember s of Some b \<Rightarrow> b | None \<Rightarrow> False)) s of
        (Some msg, s) \<Rightarrow> fail_sign_in msg s
      | (None, s) \<Rightarrow> finish_profile commit_user own profile (s\<lparr>as_token := Some access\<rparr>))"

definition logout :: "auth_store \<Rightarrow> auth_store" where
  "logout s = (clearExternalPermissions (s\<lparr>as_token := None\<rparr>))
     \<lparr>as_user := None, as_tenant := None, as_isAuthenticated := False, as_sessionExpired := False,
      as_error := None, as_lastSignIn := None, as_pendingMfaRemember := None\<rparr>"

subsection \<open>Hydration\<close>

record hydrated_session =
  hs_user :: auth_user
  hs_tenant :: json
  hs_token :: string

text \<open>None when the fetch failed or its answer was no session; a status other than 2xx is no session.\<close>

definition hydrateSessionFromBFF :: "(nat \<times> hydrated_session option) option \<Rightarrow> hydrated_session option" where
  "hydrateSessionFromBFF reply =
     (case reply of None \<Rightarrow> None | Some (status, session) \<Rightarrow> if response_ok status then session else None)"

definition start_refresh :: "auth_store \<Rightarrow> auth_store" where
  "start_refresh s =
     (if as_refreshInFlight s then s else s\<lparr>as_isLoading := True, as_refreshInFlight := True\<rparr>)"

definition finish_refresh :: "(nat \<times> hydrated_session option) option \<Rightarrow> auth_store \<Rightarrow> auth_store" where
  "finish_refresh reply s =
     (case hydrateSessionFromBFF reply of
        Some h \<Rightarrow> s\<lparr>as_token := Some (hs_token h), as_user := Some (hs_user h), as_tenant := Some (hs_tenant h),
          as_isAuthenticated := True, as_isHydrated := True, as_isLoading := False, as_error := None,
          as_lastSignIn := extractLastSignIn (au_profile (hs_user h)), as_refreshInFlight := False\<rparr>
      | None \<Rightarrow> s\<lparr>as_user := None, as_tenant := None, as_isAuthenticated := False, as_isHydrated := True,
          as_isLoading := False, as_refreshInFlight := False\<rparr>)"

text \<open>\<open>updateProfile\<close>, \<open>updateAvatar\<close> and \<open>removeAvatar\<close>.\<close>

definition finish_update :: "auth_user fetched \<Rightarrow> auth_store \<Rightarrow> auth_store" where
  "finish_update reply s =
     (case reply of Failed msg \<Rightarrow> fail_sign_in msg s | Got u \<Rightarrow> s\<lparr>as_user := Some u, as_isLoading := False\<rparr>)"

subsection \<open>The renewal watchdog\<close>

definition RENEWAL_LEAD_SECONDS :: rat where
  "RENEWAL_LEAD_SECONDS = 300"

text \<open>Whether a tick renews; a token whose expiry cannot be read counts as expired. Times in seconds.\<close>

definition token_expiry :: "json option \<Rightarrow> rat" where
  "token_expiry payload =
     (case payload of
        None \<Rightarrow> 0
      | Some p \<Rightarrow> (case json_get p ''exp'' of Some (JNum (Fin q)) \<Rightarrow> q | _ \<Rightarrow> 0))"

definition watchdog_renews :: "string option \<Rightarrow> json option \<Rightarrow> rat \<Rightarrow> bool" where
  "watchdog_renews token payload now \<longleftrightarrow>
     (case token of None \<Rightarrow> False | Some t \<Rightarrow> t \<noteq> [] \<and> \<not> now + RENEWAL_LEAD_SECONDS < token_expiry payload)"

definition watchdog_expires :: "refresh_result \<Rightarrow> json option \<Rightarrow> rat \<Rightarrow> bool" where
  "watchdog_expires result payload now \<longleftrightarrow> result = Terminal \<and> token_expiry payload \<le> now"

text \<open>One tick: the refresh is awaited, so the clock is read again before the session may end.\<close>

definition watchdog_tick ::
  "string option \<Rightarrow> json option \<Rightarrow> rat \<Rightarrow> fetch_outcome \<Rightarrow> rat \<Rightarrow> tab \<Rightarrow> tab \<times> tab_effect list" where
  "watchdog_tick token payload before reply after t =
     (if watchdog_renews token payload before \<and> watchdog_expires (refresh_outcome reply) payload after
      then expireSession t else (t, []))"

subsection \<open>Runs of the store\<close>

datatype auth_op =
    Start_sign_in
  | Login "bool option" login_reply "unit fetched" "auth_user fetched"
  | Login_with_passkey "bool option" passkey_reply "unit fetched" "auth_user fetched"
  | Start_mfa
  | Verify_mfa mfa_reply "unit fetched" "auth_user fetched"
  | Log_out
  | Start_refresh
  | Finish_refresh "(nat \<times> hydrated_session option) option"
  | Start_update
  | Finish_update "auth_user fetched"
  | Set_external "string list"
  | Renewed string
  | Cleared
  | Mark_hydrated
  | Clear_error
  | Set_session_expired bool
  | Read_permission string
  | Reset_cache

fun auth_step :: "(string \<Rightarrow> string list) \<Rightarrow> auth_op \<Rightarrow> auth_store \<Rightarrow> auth_store" where
  "auth_step payload Start_sign_in s = start_sign_in s"
| "auth_step payload (Login remember reply bff profile) s = login remember reply bff profile s"
| "auth_step payload (Login_with_passkey remember reply bff profile) s = loginWithPasskey remember reply bff profile s"
| "auth_step payload Start_mfa s = start_mfa s"
| "auth_step payload (Verify_mfa reply bff profile) s = verifyMFA reply bff profile s"
| "auth_step payload Log_out s = logout s"
| "auth_step payload Start_refresh s = start_refresh s"
| "auth_step payload (Finish_refresh reply) s = finish_refresh reply s"
| "auth_step payload Start_update s = s\<lparr>as_isLoading := True, as_error := None\<rparr>"
| "auth_step payload (Finish_update reply) s = finish_update reply s"
| "auth_step payload (Set_external ps) s = setExternalPermissions ps s"
| "auth_step payload (Renewed token) s = s\<lparr>as_token := Some token\<rparr>"
| "auth_step payload Cleared s = s\<lparr>as_token := None\<rparr>"
| "auth_step payload Mark_hydrated s = s\<lparr>as_isHydrated := True, as_isLoading := False\<rparr>"
| "auth_step payload Clear_error s = s\<lparr>as_error := None\<rparr>"
| "auth_step payload (Set_session_expired v) s = s\<lparr>as_sessionExpired := v\<rparr>"
| "auth_step payload (Read_permission p) s = snd (hasPermission payload p s)"
| "auth_step payload Reset_cache s = resetPermissionsCache s"

text \<open>The users an operation may commit; a permission is neither empty nor holds the separator.\<close>

fun fetched_users :: "auth_user fetched \<Rightarrow> auth_user list" where
  "fetched_users (Got u) = [u]"
| "fetched_users (Failed msg) = []"

fun op_users :: "auth_op \<Rightarrow> auth_user list" where
  "op_users (Login remember (Login_tokens a r (Some u)) bff profile) = [u]"
| "op_users (Login remember (Login_tokens a r None) bff profile) = fetched_users profile"
| "op_users (Login_with_passkey remember (Passkey_tokens a r (Some u)) bff profile) = [u]"
| "op_users (Login_with_passkey remember (Passkey_tokens a r None) bff profile) = fetched_users profile"
| "op_users (Verify_mfa (Mfa_tokens a r (Some u)) bff profile) = [u]"
| "op_users (Verify_mfa (Mfa_tokens a r None) bff profile) = fetched_users profile"
| "op_users (Finish_refresh (Some (status, Some h))) = [hs_user h]"
| "op_users (Finish_update reply) = fetched_users reply"
| "op_users op = []"

definition clean_permissions :: "string list \<Rightarrow> bool" where
  "clean_permissions ps \<longleftrightarrow> list_all (\<lambda>p. p \<noteq> [] \<and> ROLE_SEPARATOR \<notin> set p) ps"

definition clean_user :: "auth_user \<Rightarrow> bool" where
  "clean_user u \<longleftrightarrow> clean_permissions (concat (au_roles u))"

definition auth_run :: "(string \<Rightarrow> string list) \<Rightarrow> auth_op list \<Rightarrow> auth_store" where
  "auth_run payload ops = foldl (\<lambda>s op. auth_step payload op s) initial_auth ops"

subsection \<open>The memo never goes stale\<close>

lemma role_sig_inj:
  assumes "clean_permissions ps" "clean_permissions qs" "role_sig ps = role_sig qs"
  shows "ps = qs"
proof -
  have split: "js_split ROLE_SEPARATOR (role_sig rs) = rs" if "clean_permissions rs" "rs \<noteq> []" for rs
    using that by (simp add: role_sig_def js_split_join clean_permissions_def list_all_iff)
  have "role_sig rs \<noteq> []" if "clean_permissions rs" "rs \<noteq> []" for rs
    using that by (cases rs rule: remdups_adj.cases) (auto simp: role_sig_def clean_permissions_def)
  then show ?thesis
    using assms split [of ps] split [of qs] by (cases "ps = []"; cases "qs = []") (auto simp: role_sig_def clean_permissions_def)
qed

text \<open>What the memo claims: a set merged from some token, some roles and the external set of its version.\<close>

definition memo_ok :: "(string \<Rightarrow> string list) \<Rightarrow> auth_store \<Rightarrow> bool" where
  "memo_ok payload s \<longleftrightarrow> 0 \<le> as_externalPermsVersion s \<and>
     as_cachedMergedVersion s \<le> as_externalPermsVersion s \<and>
     (case as_cachedRoleSig s of
        None \<Rightarrow> True
      | Some sig \<Rightarrow> \<exists>roles. clean_permissions roles \<and> sig = role_sig roles \<and>
          (as_cachedMergedVersion s = as_externalPermsVersion s \<longrightarrow>
           as_cachedPerms s = merged_permissions (jwt_permissions payload (as_cachedPermToken s))
             (as_externalPerms s) roles))"

definition memo_view :: "auth_store \<Rightarrow> _" where
  "memo_view s = (as_cachedMergedVersion s, as_externalPermsVersion s, as_cachedRoleSig s, as_cachedPerms s,
     as_cachedPermToken s, as_externalPerms s)"

lemma memo_ok_view: "memo_view s' = memo_view s \<Longrightarrow> memo_ok payload s' = memo_ok payload s"
  by (simp add: memo_view_def memo_ok_def split: option.split)

lemma effective_value:
  assumes "memo_ok payload s" "clean_permissions roles"
  shows "fst (getEffectivePermissions payload roles s) =
    merged_permissions (jwt_permissions payload (current_token s)) (as_externalPerms s) roles"
proof (cases "current_token s = as_cachedPermToken s \<and> as_cachedMergedVersion s = as_externalPermsVersion s \<and>
    as_cachedRoleSig s = Some (role_sig roles)")
  case True
  with assms(1) obtain cached where "clean_permissions cached" "role_sig roles = role_sig cached"
    and perms: "as_cachedPerms s =
      merged_permissions (jwt_permissions payload (as_cachedPermToken s)) (as_externalPerms s) cached"
    by (auto simp: memo_ok_def)
  with role_sig_inj [OF assms(2)] have "cached = roles" by auto
  with True perms show ?thesis by (simp add: getEffectivePermissions_def)
next
  case False
  then show ?thesis by (auto simp: getEffectivePermissions_def Let_def)
qed

lemma effective_memo:
  assumes "memo_ok payload s" "clean_permissions roles"
  shows "memo_ok payload (snd (getEffectivePermissions payload roles s))"
proof (cases "current_token s = as_cachedPermToken s \<and> as_cachedMergedVersion s = as_externalPermsVersion s \<and>
    as_cachedRoleSig s = Some (role_sig roles)")
  case True
  with assms(1) show ?thesis by (simp add: getEffectivePermissions_def)
next
  case False
  with assms show ?thesis by (auto simp: getEffectivePermissions_def Let_def memo_ok_def)
qed

lemma setExternal_memo: "memo_ok payload s \<Longrightarrow> memo_ok payload (setExternalPermissions ps s)"
  by (auto simp: setExternalPermissions_def Let_def memo_ok_def split: option.splits)

lemma fetched_clean: "(\<And>u. u \<in> set (fetched_users r) \<Longrightarrow> P u) \<Longrightarrow> r = Got u \<Longrightarrow> P u"
  by auto

definition auth_ok :: "(string \<Rightarrow> string list) \<Rightarrow> auth_store \<Rightarrow> bool" where
  "auth_ok payload s \<longleftrightarrow> memo_ok payload s \<and> (case as_user s of None \<Rightarrow> True | Some u \<Rightarrow> clean_user u)"

lemma role_permissions_clean: "auth_ok payload s \<Longrightarrow> clean_permissions (role_permissions s)"
  by (auto simp: auth_ok_def role_permissions_def clean_user_def clean_permissions_def split: option.splits)

lemma auth_ok_view:
  assumes "auth_ok payload s" "memo_view s' = memo_view s" "as_user s' = as_user s \<or> (\<exists>u. as_user s' = Some u \<and> clean_user u) \<or> as_user s' = None"
  shows "auth_ok payload s'"
  using assms memo_ok_view [OF assms(2)] by (auto simp: auth_ok_def split: option.splits)

lemma read_keeps: "as_user (snd (getEffectivePermissions payload roles s)) = as_user s"
  "as_token (snd (getEffectivePermissions payload roles s)) = as_token s"
  "as_externalPerms (snd (getEffectivePermissions payload roles s)) = as_externalPerms s"
  by (simp_all add: getEffectivePermissions_def Let_def)

lemma setExternal_keeps: "as_user (setExternalPermissions ps s) = as_user s"
  by (simp add: setExternalPermissions_def Let_def)

lemma hasPermission_snd:
  "snd (hasPermission payload p s) = snd (getEffectivePermissions payload (role_permissions s) s)"
  by (simp add: hasPermission_def split: prod.splits)

lemma hasPermission_fst:
  "fst (hasPermission payload p s) = checkPermission (fst (getEffectivePermissions payload (role_permissions s) s)) p"
  by (simp add: hasPermission_def split: prod.splits)

lemma merged_permissions_eq: "merged_permissions jwt ext roles = js_uniq (jwt @ ext @ roles)"
  by (simp add: merged_permissions_def js_uniq_def)

lemmas sign_in_defs = fail_sign_in_def pend_mfa_def storeSessionInBFF_def finish_profile_def commit_login_def
  commit_user_def memo_view_def Let_def

lemma sign_in_view:
  "memo_view (login remember lr bff profile s) = memo_view s"
  "memo_view (loginWithPasskey remember pr bff profile s) = memo_view s"
  "memo_view (verifyMFA mr bff profile s) = memo_view s"
proof -
  show "memo_view (login remember lr bff profile s) = memo_view s"
    by (cases lr) (auto simp: sign_in_defs split: fetched.splits option.splits)
  show "memo_view (loginWithPasskey remember pr bff profile s) = memo_view s"
    by (cases pr) (auto simp: sign_in_defs split: fetched.splits option.splits)
  show "memo_view (verifyMFA mr bff profile s) = memo_view s"
    by (cases mr) (auto simp: sign_in_defs split: fetched.splits option.splits)
qed

lemma sign_in_user:
  "as_user (login remember lr bff profile s) = as_user s \<or>
     (\<exists>u \<in> set (op_users (Login remember lr bff profile)). as_user (login remember lr bff profile s) = Some u)"
  "as_user (loginWithPasskey remember pr bff profile s) = as_user s \<or>
     (\<exists>u \<in> set (op_users (Login_with_passkey remember pr bff profile)).
        as_user (loginWithPasskey remember pr bff profile s) = Some u)"
  "as_user (verifyMFA mr bff profile s) = as_user s \<or>
     (\<exists>u \<in> set (op_users (Verify_mfa mr bff profile)). as_user (verifyMFA mr bff profile s) = Some u)"
proof -
  show "as_user (login remember lr bff profile s) = as_user s \<or>
     (\<exists>u \<in> set (op_users (Login remember lr bff profile)). as_user (login remember lr bff profile s) = Some u)"
  proof (cases lr)
    case (Login_tokens a r own)
    then show ?thesis by (cases own) (auto simp: sign_in_defs split: fetched.splits)
  qed (auto simp: sign_in_defs)
  show "as_user (loginWithPasskey remember pr bff profile s) = as_user s \<or>
     (\<exists>u \<in> set (op_users (Login_with_passkey remember pr bff profile)).
        as_user (loginWithPasskey remember pr bff profile s) = Some u)"
  proof (cases pr)
    case (Passkey_tokens a r own)
    then show ?thesis by (cases own) (auto simp: sign_in_defs split: fetched.splits option.splits)
  qed (auto simp: sign_in_defs)
  show "as_user (verifyMFA mr bff profile s) = as_user s \<or>
     (\<exists>u \<in> set (op_users (Verify_mfa mr bff profile)). as_user (verifyMFA mr bff profile s) = Some u)"
  proof (cases mr)
    case (Mfa_tokens a r own)
    then show ?thesis by (cases own) (auto simp: sign_in_defs split: fetched.splits)
  qed (auto simp: sign_in_defs)
qed

lemma auth_step_ok:
  assumes "auth_ok payload s" "list_all clean_user (op_users op)"
  shows "auth_ok payload (auth_step payload op s)"
proof -
  have memo: "memo_ok payload s" and user: "case as_user s of None \<Rightarrow> True | Some u \<Rightarrow> clean_user u"
    using assms(1) by (auto simp: auth_ok_def)
  note roles = role_permissions_clean [OF assms(1)]
  note view = auth_ok_view [OF assms(1)]
  show ?thesis
  proof (cases op)
    case (Login remember lr bff profile)
    then show ?thesis
      using view [OF sign_in_view(1)] sign_in_user(1) assms(2) by (fastforce simp: list_all_iff)
  next
    case (Login_with_passkey remember pr bff profile)
    then show ?thesis
      using view [OF sign_in_view(2)] sign_in_user(2) assms(2) by (fastforce simp: list_all_iff)
  next
    case (Verify_mfa mr bff profile)
    then show ?thesis
      using view [OF sign_in_view(3)] sign_in_user(3) assms(2) by (fastforce simp: list_all_iff)
  next
    case (Finish_refresh reply)
    then show ?thesis
      using assms(2)
      by (cases "hydrateSessionFromBFF reply")
        (auto simp: finish_refresh_def hydrateSessionFromBFF_def memo_view_def intro!: view
          split: option.splits prod.splits if_splits)
  next
    case (Finish_update reply)
    then show ?thesis
      using assms(2) by (cases reply) (auto simp: finish_update_def fail_sign_in_def memo_view_def intro!: view)
  next
    case (Read_permission p)
    then show ?thesis
      using effective_memo [OF memo roles] user by (simp add: auth_ok_def hasPermission_snd read_keeps)
  next
    case (Set_external ps)
    then show ?thesis
      using setExternal_memo [OF memo] user by (simp add: auth_ok_def setExternal_keeps)
  next
    case Log_out
    let ?t = "setExternalPermissions [] (s\<lparr>as_token := None\<rparr>)"
    have "memo_view (s\<lparr>as_token := None\<rparr>) = memo_view s" by (simp add: memo_view_def)
    from memo_ok_view [OF this] memo have "memo_ok payload ?t" by (intro setExternal_memo) simp
    moreover have "memo_view (logout s) = memo_view ?t"
      by (simp add: logout_def clearExternalPermissions_def memo_view_def)
    ultimately have "memo_ok payload (logout s)" using memo_ok_view by blast
    with Log_out show ?thesis by (simp add: auth_ok_def logout_def)
  next
    case Reset_cache
    have "memo_ok payload (resetPermissionsCache s)"
      using memo by (simp add: memo_ok_def resetPermissionsCache_def)
    with Reset_cache user show ?thesis by (simp add: auth_ok_def resetPermissionsCache_def)
  qed (auto simp: start_sign_in_def start_mfa_def start_refresh_def memo_view_def intro!: view)
qed

lemma auth_run_ok:
  assumes "list_all (\<lambda>op. list_all clean_user (op_users op)) ops"
  shows "auth_ok payload (auth_run payload ops)"
proof -
  have "auth_ok payload s \<Longrightarrow> auth_ok payload (foldl (\<lambda>s op. auth_step payload op s) s ops)" for s
    using assms by (induction ops arbitrary: s) (simp_all add: auth_step_ok)
  moreover have "auth_ok payload initial_auth"
    by (simp add: auth_ok_def memo_ok_def initial_auth_def)
  ultimately show ?thesis by (simp add: auth_run_def)
qed

text \<open>C13. Whatever runs before it, sign-ins, logouts, renewals, persona changes and reads in any order, a permission check is decided by the session as it is now: by the union of what the current token, the current external set and the roles of the loaded user grant. The memo never answers for an earlier token, user or persona, and after a logout nothing is granted that the next session does not bring itself.\<close>

theorem permission_memo_never_stale:
  assumes "list_all (\<lambda>op. list_all clean_user (op_users op)) ops"
  shows "let s = auth_run payload ops in
    fst (hasPermission payload p s) =
      checkPermission (js_uniq (jwt_permissions payload (current_token s) @ as_externalPerms s @ role_permissions s)) p \<and>
    (let s' = logout s in fst (hasPermission payload p s') = checkPermission [] p)"
proof -
  let ?s = "auth_run payload ops"
  have check: "fst (hasPermission payload p s) =
      checkPermission (js_uniq (jwt_permissions payload (current_token s) @ as_externalPerms s @ role_permissions s)) p"
    if "auth_ok payload s" for s
    using effective_value [OF _ role_permissions_clean [OF that]] that
    by (simp add: hasPermission_fst auth_ok_def merged_permissions_eq)
  have ok: "auth_ok payload ?s" by (rule auth_run_ok [OF assms])
  have "auth_ok payload (logout ?s)" using auth_step_ok [OF ok, of Log_out] by simp
  moreover have "current_token (logout ?s) = None" "as_externalPerms (logout ?s) = []" "role_permissions (logout ?s) = []"
    by (simp_all add: logout_def clearExternalPermissions_def setExternalPermissions_def Let_def current_token_def
        role_permissions_def js_uniq_def)
  ultimately show ?thesis
    using check [OF ok] check [of "logout ?s"] by (simp add: Let_def jwt_permissions_def js_uniq_def)
qed

definition sample_payload :: "string \<Rightarrow> string list" where
  "sample_payload token = (if token = ''t1'' then [''lex:read''] else [])"

definition sample_session :: "auth_op list" where
  "sample_session =
     [Start_sign_in,
      Login (Some True) (Login_tokens ''t1'' ''r1'' (Some \<lparr>au_roles = [[''dr:*'']], au_profile = JObj []\<rparr>)) (Got ())
        (Failed ''unused''),
      Read_permission ''dr:plan:read'', Set_external [''lex:case:view''], Read_permission ''lex:case:view'',
      Renewed ''t2'']"

lemma permission_memo_never_stale_witness:
  "let s = auth_run sample_payload sample_session in
    fst (hasPermission sample_payload ''lex:read'' s) =
      checkPermission (js_uniq (jwt_permissions sample_payload (current_token s) @ as_externalPerms s @
        role_permissions s)) ''lex:read'' \<and>
    (let s' = logout s in fst (hasPermission sample_payload ''lex:read'' s') = checkPermission [] ''lex:read'')"
  by (rule permission_memo_never_stale)
    (simp add: sample_session_def clean_user_def clean_permissions_def)

text \<open>Two checks in a row agree: reading changes nothing that is read.\<close>

lemma hasAnyPermission_iff:
  assumes "auth_ok payload s"
  shows "fst (hasAnyPermission payload ps s) = list_ex (\<lambda>p. fst (hasPermission payload p s)) ps"
  using assms
proof (induction ps arbitrary: s)
  case (Cons p ps)
  let ?s' = "snd (hasPermission payload p s)"
  have ok: "auth_ok payload ?s'" using auth_step_ok [OF Cons.prems, of "Read_permission p"] by simp
  have same: "role_permissions ?s' = role_permissions s" "current_token ?s' = current_token s"
    "as_externalPerms ?s' = as_externalPerms s"
    by (simp_all add: hasPermission_snd role_permissions_def current_token_def read_keeps)
  have "fst (hasPermission payload q ?s') = fst (hasPermission payload q s)" for q
    using effective_value [OF _ role_permissions_clean [OF Cons.prems]]
      effective_value [OF _ role_permissions_clean [OF ok]] ok Cons.prems same
    by (simp add: hasPermission_fst auth_ok_def)
  with Cons.IH [OF ok] show ?case by (simp split: prod.splits) (metis fst_conv snd_conv)
qed simp

text \<open>A hydration that cannot reach the server signs the user out of the store, as a refused one does, and
  keeps the token.\<close>

lemma unreachable_hydration_signs_out:
  "as_isAuthenticated (finish_refresh (Some (503, session)) s) = False \<and>
   as_isAuthenticated (finish_refresh None s) = False \<and>
   as_token (finish_refresh None s) = as_token s"
  by (simp add: finish_refresh_def hydrateSessionFromBFF_def response_ok_def)

text \<open>The watchdog ends a session only when the server refused it and the token has expired.\<close>

lemma watchdog_ends_only_refused:
  assumes "snd (watchdog_tick token payload before reply after t) \<noteq> []"
  shows "(\<exists>body. reply = Fetched 401 body) \<and> token_expiry payload \<le> after \<and> token \<noteq> None"
  using assms
  by (auto simp: watchdog_tick_def watchdog_expires_def watchdog_renews_def refresh_terminal_iff
      split: if_splits option.splits)

text \<open>The choice to stay signed in survives the second factor: the session stored after it carries the choice made with the password or the passkey, and it is used up.\<close>

theorem remember_choice_survives_mfa:
  assumes "op \<in> {login remember (Login_mfa token) bff0 profile0, loginWithPasskey remember (Passkey_mfa token) bff0 profile0}"
  shows "let s' = verifyMFA (Mfa_tokens a r own) bff profile (start_mfa (op s)) in
    as_stored s' = as_stored s @ [(a, r, Some (remember = Some True))] \<and>
    (as_isAuthenticated s' \<and> \<not> as_isAuthenticated s \<longrightarrow> as_pendingMfaRemember s' = None \<and> as_token s' = Some a)"
  using assms
  by (auto simp: start_mfa_def sign_in_defs split: fetched.splits option.splits)

lemma remember_choice_survives_mfa_witness:
  "let s' = verifyMFA (Mfa_tokens ''a'' ''r'' (Some \<lparr>au_roles = [], au_profile = JNull\<rparr>)) (Got ()) (Failed ''unused'')
      (start_mfa (login (Some True) (Login_mfa ''m'') (Got ()) (Failed ''unused'') initial_auth)) in
    as_stored s' = as_stored initial_auth @ [(''a'', ''r'', Some (Some True = Some True))] \<and>
    (as_isAuthenticated s' \<and> \<not> as_isAuthenticated initial_auth \<longrightarrow> as_pendingMfaRemember s' = None \<and> as_token s' = Some ''a'')"
  by (rule remember_choice_survives_mfa [of _ "Some True" "''m''" "Got ()" "Failed ''unused''"]) (rule insertI1)

end
