(* ===== verification/ApiClient.thy ===== *)
theory ApiClient
  imports SessionRefresh
begin

section \<open>The API client\<close>

text \<open>
  \<open>lib/api.ts\<close>: the response interceptor with its queue of requests that wait for a token refresh, and the
  translation of failures into API errors. Each request is a number; its URL does not change when it is
  sent again. The HTTP transport is outside: a request that was sent is answered with any status.
\<close>

subsection \<open>The 401 interceptor\<close>

datatype request_phase = Unsent | In_flight | Queued | Leading | Fulfilled | Rejected

record api_state =
  ap_phase :: "nat \<Rightarrow> request_phase"
  ap_retry :: "nat \<Rightarrow> bool"
  ap_isRefreshing :: bool
  ap_subscribers :: "nat list"
  ap_refreshes :: nat
  ap_expired :: nat

definition initial_api :: api_state where
  "initial_api = \<lparr>ap_phase = (\<lambda>r. Unsent), ap_retry = (\<lambda>r. False), ap_isRefreshing = False,
     ap_subscribers = [], ap_refreshes = 0, ap_expired = 0\<rparr>"

definition set_phase :: "nat \<Rightarrow> request_phase \<Rightarrow> api_state \<Rightarrow> api_state" where
  "set_phase r p s = s\<lparr>ap_phase := (ap_phase s)(r := p)\<rparr>"

definition set_phases :: "nat list \<Rightarrow> request_phase \<Rightarrow> api_state \<Rightarrow> api_state" where
  "set_phases rs p s = s\<lparr>ap_phase := (\<lambda>r. if r \<in> set rs then p else ap_phase s r)\<rparr>"

definition expired :: "api_state \<Rightarrow> api_state" where
  "expired s = s\<lparr>ap_expired := ap_expired s + 1\<rparr>"

definition subscribeTokenRefresh :: "nat \<Rightarrow> api_state \<Rightarrow> api_state" where
  "subscribeTokenRefresh r s = (set_phase r Queued s)\<lparr>ap_subscribers := ap_subscribers s @ [r]\<rparr>"

text \<open>Every queued request is sent again.\<close>

definition onRefreshSuccess :: "api_state \<Rightarrow> api_state" where
  "onRefreshSuccess s = (set_phases (ap_subscribers s) In_flight s)\<lparr>ap_subscribers := []\<rparr>"

definition onRefreshFailure :: "api_state \<Rightarrow> api_state" where
  "onRefreshFailure s = (set_phases (ap_subscribers s) Rejected s)\<lparr>ap_subscribers := []\<rparr>"

definition on_response :: "string \<Rightarrow> nat \<Rightarrow> nat \<Rightarrow> api_state \<Rightarrow> api_state" where
  "on_response url r status s =
     (if response_ok status then set_phase r Fulfilled s
      else if status = 401 then
        (if js_includes url ''/api/auth/refresh'' \<or> js_includes url ''/api/v1/auth/refresh''
         then set_phase r Rejected (expired s)
         else if js_includes url ''/api/v1/auth/login'' then set_phase r Rejected s
         else if ap_retry s r then set_phase r Rejected s
         else if ap_isRefreshing s then subscribeTokenRefresh r s
         else (set_phase r Leading s)
                \<lparr>ap_retry := (ap_retry s)(r := True), ap_isRefreshing := True,
                 ap_refreshes := ap_refreshes s + 1\<rparr>)
      else set_phase r Rejected s)"

text \<open>The refresh the leading request waits for settles; None is the exception it never throws.\<close>

definition on_refreshed :: "refresh_result option \<Rightarrow> nat \<Rightarrow> api_state \<Rightarrow> api_state" where
  "on_refreshed result r s =
     (case result of
        Some (Refreshed token) \<Rightarrow> (set_phase r In_flight (onRefreshSuccess s))\<lparr>ap_isRefreshing := False\<rparr>
      | Some Terminal \<Rightarrow> (set_phase r Rejected (expired (onRefreshFailure s)))\<lparr>ap_isRefreshing := False\<rparr>
      | _ \<Rightarrow> (set_phase r Rejected (onRefreshFailure s))\<lparr>ap_isRefreshing := False\<rparr>)"

inductive api_step :: "(nat \<Rightarrow> string) \<Rightarrow> nat set \<Rightarrow> api_state \<Rightarrow> api_state \<Rightarrow> bool" for url requests where
  issue: "r \<in> requests \<Longrightarrow> ap_phase s r = Unsent \<Longrightarrow> api_step url requests s (set_phase r In_flight s)"
| response: "ap_phase s r = In_flight \<Longrightarrow> api_step url requests s (on_response (url r) r status s)"
| no_response: "ap_phase s r = In_flight \<Longrightarrow> api_step url requests s (set_phase r Rejected s)"
| refreshed: "ap_phase s r = Leading \<Longrightarrow> api_step url requests s (on_refreshed result r s)"

definition api_reachable :: "(nat \<Rightarrow> string) \<Rightarrow> nat set \<Rightarrow> api_state \<Rightarrow> bool" where
  "api_reachable url requests s \<longleftrightarrow> (api_step url requests)\<^sup>*\<^sup>* initial_api s"

definition settled :: "request_phase \<Rightarrow> bool" where
  "settled p \<longleftrightarrow> p = Fulfilled \<or> p = Rejected"

subsection \<open>Invariants\<close>

text \<open>The queue holds the waiting requests, and they wait for a refresh that is under way.\<close>

definition api_inv :: "nat set \<Rightarrow> api_state \<Rightarrow> bool" where
  "api_inv requests s \<longleftrightarrow>
     (\<forall>r. r \<in> set (ap_subscribers s) \<longleftrightarrow> ap_phase s r = Queued) \<and>
     (\<forall>r r'. ap_phase s r = Leading \<longrightarrow> ap_phase s r' = Leading \<longrightarrow> r = r') \<and>
     (ap_isRefreshing s \<longleftrightarrow> (\<exists>r. ap_phase s r = Leading)) \<and>
     (ap_subscribers s \<noteq> [] \<longrightarrow> ap_isRefreshing s) \<and>
     (\<forall>r. ap_phase s r \<noteq> Unsent \<longrightarrow> r \<in> requests) \<and>
     (\<forall>r. ap_retry s r \<longrightarrow> ap_phase s r \<noteq> Unsent) \<and>
     (\<forall>r. ap_phase s r = Leading \<longrightarrow> ap_retry s r)"

lemmas api_defs = set_phase_def set_phases_def expired_def subscribeTokenRefresh_def onRefreshSuccess_def
  onRefreshFailure_def

lemma api_inv_quiet:
  assumes "api_inv requests s" "ap_phase s r \<notin> {Queued, Leading}" "p \<notin> {Queued, Leading, Unsent}" "r \<in> requests"
  shows "api_inv requests (set_phase r p s)"
  using assms unfolding api_inv_def by (auto simp: set_phase_def)

lemma api_inv_expired: "api_inv requests (expired s) = api_inv requests s"
  by (simp add: api_inv_def expired_def)

lemma on_response_inv:
  assumes "api_inv requests s" "ap_phase s r = In_flight"
  shows "api_inv requests (on_response url r status s)"
proof -
  have r: "r \<in> requests" using assms unfolding api_inv_def by auto
  have quiet: "api_inv requests (set_phase r p s)" "api_inv requests (set_phase r p (expired s))"
    if "p \<notin> {Queued, Leading, Unsent}" for p
    using api_inv_quiet [OF assms(1) _ that r] api_inv_quiet [OF _ _ that r, of "expired s"] assms
    by (simp_all add: api_inv_expired) (simp add: expired_def)
  have "api_inv requests (subscribeTokenRefresh r s)" if "ap_isRefreshing s"
  proof -
    from that assms(1) obtain l where "ap_phase s l = Leading" unfolding api_inv_def by auto
    moreover from this assms(2) have "l \<noteq> r" by auto
    ultimately have "\<exists>q. q \<noteq> r \<and> ap_phase s q = Leading" by auto
    with assms that r show ?thesis unfolding api_inv_def by (auto simp: api_defs)
  qed
  moreover have "api_inv requests ((set_phase r Leading s)\<lparr>ap_retry := (ap_retry s)(r := True),
      ap_isRefreshing := True, ap_refreshes := n\<rparr>)" if "\<not> ap_isRefreshing s" for n
    using assms that r unfolding api_inv_def by (auto simp: api_defs)
  ultimately show ?thesis
    by (auto simp: on_response_def quiet)
qed

lemma on_refreshed_inv:
  assumes "api_inv requests s" "ap_phase s r = Leading"
  shows "api_inv requests (on_refreshed result r s)"
proof -
  have r: "r \<in> requests" using assms unfolding api_inv_def by auto
  have only: "\<And>q. ap_phase s q = Leading \<Longrightarrow> q = r"
    "\<And>q. q \<in> set (ap_subscribers s) \<longleftrightarrow> ap_phase s q = Queued"
    "\<And>q. ap_phase s q \<noteq> Unsent \<Longrightarrow> q \<in> requests" "\<And>q. ap_retry s q \<Longrightarrow> ap_phase s q \<noteq> Unsent"
    using assms unfolding api_inv_def by auto
  have "ap_phase s q = Queued \<Longrightarrow> q \<in> requests" for q by (rule only(3)) simp
  then show ?thesis
    unfolding api_inv_def on_refreshed_def
    by (auto simp: api_defs only(2) r dest: only(1,3,4) split: option.splits refresh_result.splits if_splits)
qed

lemma api_step_inv: "api_step url requests s s' \<Longrightarrow> api_inv requests s \<Longrightarrow> api_inv requests s'"
proof (induction rule: api_step.induct)
  case (issue r s)
  then show ?case by (simp add: api_inv_quiet)
next
  case (no_response s r)
  then have "r \<in> requests" unfolding api_inv_def by auto
  with no_response show ?case by (simp add: api_inv_quiet)
qed (simp_all add: on_response_inv on_refreshed_inv)

lemma api_reachable_inv: "api_reachable url requests s \<Longrightarrow> api_inv requests s"
  unfolding api_reachable_def
proof (induction rule: rtranclp_induct)
  case base
  show ?case by (simp add: api_inv_def initial_api_def)
qed (rule api_step_inv)

subsection \<open>Every request settles\<close>

definition unretried :: "nat set \<Rightarrow> api_state \<Rightarrow> nat" where
  "unretried requests s = 2 * card {r \<in> requests. \<not> ap_retry s r} + of_bool (ap_isRefreshing s)"

fun phase_weight :: "request_phase \<Rightarrow> nat" where
  "phase_weight Unsent = 2"
| "phase_weight In_flight = 1"
| "phase_weight _ = 0"

definition open_work :: "nat set \<Rightarrow> api_state \<Rightarrow> nat" where
  "open_work requests s = (\<Sum>r \<in> requests. phase_weight (ap_phase s r))"

definition api_measure :: "nat set \<Rightarrow> (api_state \<times> api_state) set" where
  "api_measure requests = inv_image (less_than <*lex*> less_than) (\<lambda>s. (unretried requests s, open_work requests s))"

lemma open_work_decreases:
  assumes "finite requests" "r \<in> requests" "phase_weight p < phase_weight (ap_phase s r)"
    "\<And>q. ap_phase s' q = (if q = r then p else ap_phase s q)"
  shows "open_work requests s' < open_work requests s"
  unfolding open_work_def
  using assms by (intro sum_strict_mono_ex1) auto

lemma set_phase_decreases:
  assumes "finite requests" "r \<in> requests" "phase_weight p < phase_weight (ap_phase s r)"
  shows "(set_phase r p s, s) \<in> api_measure requests"
proof -
  have "open_work requests (set_phase r p s) < open_work requests s"
    by (rule open_work_decreases [OF assms]) (simp add: set_phase_def)
  then show ?thesis by (simp add: api_measure_def unretried_def set_phase_def)
qed

lemma on_response_decreases:
  assumes "finite requests" "api_inv requests s" "ap_phase s r = In_flight"
  shows "(on_response url r status s, s) \<in> api_measure requests"
proof -
  have r: "r \<in> requests" using assms unfolding api_inv_def by auto
  have quiet: "(set_phase r p s, s) \<in> api_measure requests" if "phase_weight p = 0" for p
    using set_phase_decreases [OF assms(1) r] that assms(3) by simp
  have exp: "(set_phase r p (expired s), s) \<in> api_measure requests" if "phase_weight p = 0" for p
    using quiet [OF that] by (simp add: api_measure_def unretried_def open_work_def api_defs)
  have "(subscribeTokenRefresh r s, s) \<in> api_measure requests"
    using quiet [of Queued] by (simp add: api_measure_def unretried_def open_work_def api_defs)
  moreover have "((set_phase r Leading s)\<lparr>ap_retry := (ap_retry s)(r := True),
      ap_isRefreshing := True, ap_refreshes := n\<rparr>, s) \<in> api_measure requests" if "\<not> ap_retry s r" for n
  proof -
    have "{q \<in> requests. \<not> ((ap_retry s)(r := True)) q} = {q \<in> requests. \<not> ap_retry s q} - {r}"
      by auto
    moreover have "card ({q \<in> requests. \<not> ap_retry s q} - {r}) < card {q \<in> requests. \<not> ap_retry s q}"
      using assms(1) r that by (intro card_Diff1_less) auto
    ultimately show ?thesis by (simp add: api_measure_def unretried_def)
  qed
  ultimately show ?thesis
    by (auto simp: on_response_def quiet exp)
qed

lemma on_refreshed_decreases:
  assumes "api_inv requests s" "ap_phase s r = Leading"
  shows "(on_refreshed result r s, s) \<in> api_measure requests"
proof -
  have "ap_isRefreshing s" using assms unfolding api_inv_def by auto
  then show ?thesis
    by (auto simp: api_measure_def unretried_def on_refreshed_def api_defs split: option.splits refresh_result.splits)
qed

lemma api_step_decreases:
  assumes "api_step url requests s s'" "finite requests" "api_inv requests s"
  shows "(s', s) \<in> api_measure requests"
  using assms
proof (induction rule: api_step.induct)
  case (no_response s r)
  then have "r \<in> requests" unfolding api_inv_def by auto
  with no_response show ?case by (simp add: set_phase_decreases)
qed (simp_all add: set_phase_decreases on_response_decreases on_refreshed_decreases)

text \<open>A request leads at most one refresh.\<close>

lemma refreshes_counted:
  assumes "api_reachable url requests s"
  shows "finite {r. ap_retry s r} \<and> ap_refreshes s = card {r. ap_retry s r}"
  using assms unfolding api_reachable_def
proof (induction rule: rtranclp_induct)
  case base
  show ?case by (simp add: initial_api_def)
next
  case (step s s')
  have lead: "Collect ((ap_retry s)(r := True)) = insert r (Collect (ap_retry s))" for r
    by auto
  have "finite (Collect (ap_retry s))" "ap_refreshes s = card (Collect (ap_retry s))"
    using step.IH by auto
  with step.hyps(2) show ?case
    by cases (auto simp: on_response_def on_refreshed_def api_defs lead
        split: option.splits refresh_result.splits)
qed

lemma refreshes_bounded:
  assumes "api_reachable url requests s" "finite requests"
  shows "ap_refreshes s \<le> card requests"
proof -
  have "{r. ap_retry s r} \<subseteq> requests"
    using api_reachable_inv [OF assms(1)] unfolding api_inv_def by auto
  with refreshes_counted [OF assms(1)] assms(2) show ?thesis by (simp add: card_mono)
qed

text \<open>C4. For any finite set of requests, in every order of answers and refreshes, the interceptor comes to rest: no run goes on for ever, and a run that can go no further has every request either fulfilled or rejected, none left in the queue of a refresh that is over. There are never more refreshes than requests.\<close>

theorem every_request_settles:
  assumes "finite requests"
  shows "wf {(s', s). api_reachable url requests s \<and> api_step url requests s s'} \<and>
    {s. api_reachable url requests s \<and> (\<nexists>s'. api_step url requests s s')} \<subseteq>
      {s. \<forall>r \<in> requests. settled (ap_phase s r)} \<and>
    {s. api_reachable url requests s} \<subseteq> {s. ap_refreshes s \<le> card requests}"
proof (intro conjI)
  have "{(s', s). api_reachable url requests s \<and> api_step url requests s s'} \<subseteq> api_measure requests"
    using assms api_step_decreases api_reachable_inv by auto
  then show "wf {(s', s). api_reachable url requests s \<and> api_step url requests s s'}"
    by (rule wf_subset [rotated]) (simp add: api_measure_def wf_inv_image wf_lex_prod)
  show "{s. api_reachable url requests s \<and> (\<nexists>s'. api_step url requests s s')} \<subseteq>
      {s. \<forall>r \<in> requests. settled (ap_phase s r)}"
  proof clarify
    fix s r assume "api_reachable url requests s" "\<nexists>s'. api_step url requests s s'" "r \<in> requests"
    then have stuck: "ap_phase s q \<noteq> In_flight" "ap_phase s q \<noteq> Leading" "ap_phase s r \<noteq> Unsent" for q
      using api_step.no_response [of s q url requests] api_step.refreshed [of s q url requests None]
        api_step.issue [of r requests s url] by auto
    from \<open>api_reachable url requests s\<close> have inv: "api_inv requests s" by (rule api_reachable_inv)
    with stuck(2) have "\<not> ap_isRefreshing s" unfolding api_inv_def by blast
    with inv have "ap_phase s r \<noteq> Queued" unfolding api_inv_def by force
    with stuck show "settled (ap_phase s r)"
      by (cases "ap_phase s r") (auto simp: settled_def)
  qed
  show "{s. api_reachable url requests s} \<subseteq> {s. ap_refreshes s \<le> card requests}"
    using refreshes_bounded assms by auto
qed

lemma every_request_settles_witness:
  "wf {(s', s). api_reachable (\<lambda>r. ''/api/v1/users'') {0, 1} s \<and> api_step (\<lambda>r. ''/api/v1/users'') {0, 1} s s'} \<and>
    {s. api_reachable (\<lambda>r. ''/api/v1/users'') {0, 1} s \<and> (\<nexists>s'. api_step (\<lambda>r. ''/api/v1/users'') {0, 1} s s')} \<subseteq>
      {s. \<forall>r \<in> {0, 1}. settled (ap_phase s r)} \<and>
    {s. api_reachable (\<lambda>r. ''/api/v1/users'') {0, 1} s} \<subseteq> {s. ap_refreshes s \<le> card {0 :: nat, 1}}"
  by (rule every_request_settles) simp

subsection \<open>API errors\<close>

definition nullish :: "json option \<Rightarrow> bool" where
  "nullish v \<longleftrightarrow> v = None \<or> v = Some JNull"

text \<open>\<open>a ?? b ?? \<dots>\<close>: the first value that is neither null nor undefined, else the last one.\<close>

fun coalesce :: "json option list \<Rightarrow> json option" where
  "coalesce [] = None"
| "coalesce [v] = v"
| "coalesce (v # w # vs) = (if nullish v then coalesce (w # vs) else v)"

definition field_of :: "json option \<Rightarrow> string \<Rightarrow> json option" where
  "field_of v k = (case v of None \<Rightarrow> None | Some j \<Rightarrow> json_get j k)"

fun object_or_null :: "json option \<Rightarrow> json option" where
  "object_or_null (Some (JObj es)) = Some (JObj es)"
| "object_or_null (Some (JArr vs)) = Some (JArr vs)"
| "object_or_null _ = None"

fun array_or_undefined :: "json option \<Rightarrow> json option" where
  "array_or_undefined (Some (JArr vs)) = Some (JArr vs)"
| "array_or_undefined _ = None"

fun firstString_value :: "json \<Rightarrow> string option" and firstString :: "json list \<Rightarrow> string option" where
  "firstString_value (JStr s) = (if js_trim s \<noteq> [] then Some s else None)"
| "firstString_value (JArr vs) =
     (case firstString vs of Some s \<Rightarrow> if s \<noteq> [] then Some s else None | None \<Rightarrow> None)"
| "firstString_value _ = None"
| "firstString [] = None"
| "firstString (v # vs) = (case firstString_value v of Some s \<Rightarrow> Some s | None \<Rightarrow> firstString vs)"

record api_error =
  ae_status :: nat
  ae_code :: json
  ae_message :: json
  ae_details :: "json option"
  ae_errors :: "json option"
  ae_request_id :: "json option"
  ae_plan_required :: "string option"
  ae_upgrade_url :: "string option"
  ae_required_permission :: "string option"
  ae_required_permissions :: "json option"

text \<open>A failure without a response is a timeout (\<open>ECONNABORTED\<close>) or a network error.\<close>

datatype axios_failure = Aborted | Unreachable | Responded nat json

definition plain_error :: "nat \<Rightarrow> string \<Rightarrow> string \<Rightarrow> api_error" where
  "plain_error status code message =
     \<lparr>ae_status = status, ae_code = JStr code, ae_message = JStr message, ae_details = None, ae_errors = None,
      ae_request_id = None, ae_plan_required = None, ae_upgrade_url = None, ae_required_permission = None,
      ae_required_permissions = None\<rparr>"

definition present :: "json option list \<Rightarrow> json list" where
  "present vs = List.map_filter id vs"

definition or_default :: "json option \<Rightarrow> json \<Rightarrow> json" where
  "or_default v d = (if nullish v then d else the v)"

definition response_error :: "(nat \<Rightarrow> string) \<Rightarrow> nat \<Rightarrow> json \<Rightarrow> api_error" where
  "response_error number_text status body =
     (let b = Some body;
          nested = object_or_null (field_of b ''error'');
          nestedDetails = object_or_null (field_of nested ''details'');
          bodyDetails = object_or_null (field_of b ''details'');
          fallbackMessage = (case field_of b ''error'' of Some (JStr s) \<Rightarrow> Some (JStr s) | _ \<Rightarrow> None)
      in \<lparr>ae_status = status,
          ae_code = or_default (coalesce [field_of nested ''code'', field_of b ''code''])
            (JStr (''HTTP_'' @ number_text status)),
          ae_message = or_default (coalesce [field_of nested ''message'', field_of b ''message'', fallbackMessage])
            (JStr (''Request failed with status '' @ number_text status)),
          ae_details = coalesce [field_of nested ''details'', field_of b ''details'', None],
          ae_errors = coalesce [array_or_undefined (field_of nested ''errors''),
            array_or_undefined (field_of b ''errors''), None],
          ae_request_id = coalesce [field_of nested ''request_id'', field_of b ''request_id'', None],
          ae_plan_required = firstString (present [field_of nested ''plan_required'', field_of b ''plan_required'',
            field_of nestedDetails ''plan_required'', field_of bodyDetails ''plan_required'']),
          ae_upgrade_url = firstString (present [field_of nested ''upgrade_url'', field_of b ''upgrade_url'',
            field_of nestedDetails ''upgrade_url'', field_of bodyDetails ''upgrade_url'']),
          ae_required_permission = firstString (present [field_of nested ''required_permission'',
            field_of b ''required_permission'']),
          ae_required_permissions = coalesce [array_or_undefined (field_of nested ''required_permissions''),
            array_or_undefined (field_of b ''required_permissions'')]\<rparr>)"

fun buildApiError :: "(nat \<Rightarrow> string) \<Rightarrow> axios_failure \<Rightarrow> api_error" where
  "buildApiError number_text Aborted =
     plain_error 408 ''TIMEOUT'' ''Request timed out. Please try again.''"
| "buildApiError number_text Unreachable =
     plain_error 0 ''NETWORK_ERROR'' ''Unable to connect to server. Please check your connection.''"
| "buildApiError number_text (Responded status body) = response_error number_text status body"

text \<open>The events a rejection raises: the entitlement prompt, and the permission toast of a mutation.\<close>

datatype api_event = Entitlement_required | Permission_denied

definition dispatchEntitlementRequired :: "api_error \<Rightarrow> api_event list" where
  "dispatchEntitlementRequired e =
     (if ae_status e \<noteq> 402 \<or> ae_code e \<noteq> JStr ''ENTITLEMENT_REQUIRED'' then [] else [Entitlement_required])"

definition dispatchPermissionDenied :: "(string \<Rightarrow> string) \<Rightarrow> api_error \<Rightarrow> string option \<Rightarrow> api_event list" where
  "dispatchPermissionDenied lower e verb =
     (if ae_status e \<noteq> 403 \<or> ae_code e \<noteq> JStr ''FORBIDDEN'' then []
      else (let m = lower (case verb of None \<Rightarrow> ''get'' | Some v \<Rightarrow> v)
            in if m = ''get'' \<or> m = ''head'' then [] else [Permission_denied]))"

definition rejectApiError ::
  "(nat \<Rightarrow> string) \<Rightarrow> (string \<Rightarrow> string) \<Rightarrow> axios_failure \<Rightarrow> string option \<Rightarrow> api_error \<times> api_event list" where
  "rejectApiError number_text lower f verb =
     (let e = buildApiError number_text f
      in (e, dispatchEntitlementRequired e @ dispatchPermissionDenied lower e verb))"

text \<open>The search for a string is a depth-first search over nested arrays.\<close>

fun json_strings :: "json \<Rightarrow> string list" and json_list_strings :: "json list \<Rightarrow> string list" where
  "json_strings (JStr s) = [s]"
| "json_strings (JArr vs) = json_list_strings vs"
| "json_strings _ = []"
| "json_list_strings [] = []"
| "json_list_strings (v # vs) = json_strings v @ json_list_strings vs"

lemma find_append: "List.find P (xs @ ys) = (case List.find P xs of Some x \<Rightarrow> Some x | None \<Rightarrow> List.find P ys)"
  by (induction xs) auto

lemma firstString_depth_first:
  "firstString_value v = List.find (\<lambda>s. js_trim s \<noteq> []) (json_strings v)"
  "firstString vs = List.find (\<lambda>s. js_trim s \<noteq> []) (json_list_strings vs)"
proof (induction v and vs rule: firstString_value_firstString.induct)
  case (2 vs)
  have "s \<noteq> []" if "List.find (\<lambda>s. js_trim s \<noteq> []) xs = Some s" for s xs
    using that by (auto simp: find_Some_iff js_trim_def)
  with 2 show ?case by (auto split: option.splits)
qed (simp_all add: find_append split: option.splits)

text \<open>A failure raises at most one event, and the two never meet.\<close>

lemma rejection_events:
  "length (snd (rejectApiError number_text lower f verb)) \<le> 1"
  by (auto simp: rejectApiError_def dispatchEntitlementRequired_def dispatchPermissionDenied_def Let_def)

end
