(* ===== verification/StepAdapter.thy ===== *)
theory StepAdapter
  imports Workflow
begin

section \<open>The workflow designer and the stored definition\<close>

text \<open>
  \<open>admin/workflows/definitions/[defId]/designer/workflow-step-adapter.ts\<close>: reading the stored steps of a
  workflow definition, any JSON, into designer steps, and writing designer steps back. A step keeps its
  configuration as the entries of the JSON object; \<open>String(v)\<close>, \<open>JSON.stringify\<close> and the digits of an index are
  arguments.
\<close>

record adapter_env =
  da_digits :: "nat \<Rightarrow> string"
  da_string :: "json \<Rightarrow> string"
  da_stringify :: "json \<Rightarrow> string"

subsection \<open>Data\<close>

fun step_type_code :: "wf_step_type \<Rightarrow> string" where
  "step_type_code Approval = ''approval''"
| "step_type_code Approval_chain = ''approval_chain''"
| "step_type_code Review = ''review''"
| "step_type_code Human_task = ''task''"
| "step_type_code Notification = ''notification''"
| "step_type_code Condition = ''condition''"
| "step_type_code Parallel_gateway = ''parallel_gateway''"
| "step_type_code Join_gateway = ''join_gateway''"
| "step_type_code Delay = ''delay''"
| "step_type_code Webhook = ''webhook''"
| "step_type_code Script = ''script''"
| "step_type_code Sub_workflow = ''sub_workflow''"
| "step_type_code End_step = ''end''"

definition DESIGNER_STEP_TYPES :: "wf_step_type list" where
  "DESIGNER_STEP_TYPES =
     [Approval, Approval_chain, Review, Human_task, Notification, Condition, Parallel_gateway, Join_gateway,
      Delay, Webhook, Script, Sub_workflow, End_step]"

datatype timeout_action = Skip_step | Escalate_step | Fail_step

fun timeout_code :: "timeout_action \<Rightarrow> string" where
  "timeout_code Skip_step = ''skip''"
| "timeout_code Escalate_step = ''escalate''"
| "timeout_code Fail_step = ''fail''"

record designer_transition =
  dt_id :: string
  dt_target :: string
  dt_label :: string
  dt_condition :: "json option"

record designer_step =
  ds_id :: string
  ds_name :: string
  ds_type :: wf_step_type
  ds_config :: "(string \<times> json) list"
  ds_position :: "js_num \<times> js_num"
  ds_transitions :: "designer_transition list"
  ds_timeout :: "rat option"
  ds_on_timeout :: timeout_action
  ds_assignee :: "(string \<times> json) list"

record backend_transition =
  bt_target :: string
  bt_condition :: "string option"

record backend_step =
  bs_id :: string
  bs_name :: string
  bs_type :: string
  bs_config :: "(string \<times> json) list"
  bs_transitions :: "backend_transition list"

abbreviation "DESIGNER_META_KEY \<equiv> ''_designer''"

subsection \<open>Reading\<close>

fun isRecord :: "json option \<Rightarrow> (string \<times> json) list option" where
  "isRecord (Some (JObj es)) = Some es"
| "isRecord _ = None"

fun stringValue :: "json option \<Rightarrow> string option" where
  "stringValue (Some (JStr s)) = (if 0 < length s then Some s else None)"
| "stringValue _ = None"

fun isWorkflowStepType :: "json option \<Rightarrow> wf_step_type option" where
  "isWorkflowStepType (Some (JStr s)) = List.find (\<lambda>t. step_type_code t = s) DESIGNER_STEP_TYPES"
| "isWorkflowStepType _ = None"

definition normalizeConfig :: "json option \<Rightarrow> (string \<times> json) list" where
  "normalizeConfig v =
     (case isRecord v of None \<Rightarrow> [] | Some es \<Rightarrow> filter (\<lambda>e. fst e \<noteq> DESIGNER_META_KEY) es)"

definition designerMeta :: "json option \<Rightarrow> json" where
  "designerMeta v =
     (case isRecord v of
        None \<Rightarrow> JObj []
      | Some es \<Rightarrow>
          (case isRecord (json_get (JObj es) DESIGNER_META_KEY) of Some m \<Rightarrow> JObj m | None \<Rightarrow> JObj []))"

text \<open>\<open>a ?? b\<close>\<close>

definition or_else_value :: "json option \<Rightarrow> json option \<Rightarrow> json option" where
  "or_else_value a b = (if a = None \<or> a = Some JNull then b else a)"

definition normalizePosition :: "json option \<Rightarrow> nat \<Rightarrow> js_num \<times> js_num" where
  "normalizePosition v index =
     (case v of
        Some (JObj es) \<Rightarrow>
          (case (json_get (JObj es) ''x'', json_get (JObj es) ''y'') of
             (Some (JNum x), Some (JNum y)) \<Rightarrow> (x, y)
           | _ \<Rightarrow> (Fin (of_nat index * 280), Fin 160))
      | _ \<Rightarrow> (Fin (of_nat index * 280), Fin 160))"

definition config_truthy :: "(string \<times> json) list \<Rightarrow> string \<Rightarrow> bool" where
  "config_truthy config k = (case json_get (JObj config) k of None \<Rightarrow> False | Some v \<Rightarrow> json_truthy v)"

definition normalizeStepType :: "json option \<Rightarrow> (string \<times> json) list \<Rightarrow> json \<Rightarrow> wf_step_type" where
  "normalizeStepType rawType config meta =
     (case isWorkflowStepType (json_get meta ''display_type'') of
        Some t \<Rightarrow> t
      | None \<Rightarrow>
          (case isWorkflowStepType rawType of
             Some t \<Rightarrow> t
           | None \<Rightarrow>
               if rawType = Some (JStr ''human_task'') then
                 (if config_truthy config ''approval_type'' then Approval else Human_task)
               else if rawType = Some (JStr ''service_task'') then
                 (if config_truthy config ''notification_template'' \<or> config_truthy config ''notification_channels''
                  then Notification
                  else if config_truthy config ''webhook_url'' \<or> config_truthy config ''webhook_method'' then Webhook
                  else if config_truthy config ''sub_workflow_id'' then Sub_workflow
                  else Script)
               else if rawType = Some (JStr ''event_task'') then Webhook
               else if rawType = Some (JStr ''timer'') then Delay
               else Human_task))"

definition default_assignee :: "(string \<times> json) list" where
  "default_assignee = [(''type'', JStr ''role''), (''role_id'', JStr [])]"

definition normalizeAssigneeStrategy :: "json option \<Rightarrow> (string \<times> json) list" where
  "normalizeAssigneeStrategy v =
     (case isRecord v of
        None \<Rightarrow> default_assignee
      | Some es \<Rightarrow> (case json_get (JObj es) ''type'' of Some (JStr t) \<Rightarrow> es | _ \<Rightarrow> default_assignee))"

fun normalizeTimeout :: "json option \<Rightarrow> rat option" where
  "normalizeTimeout (Some (JNum (Fin q))) = Some q"
| "normalizeTimeout _ = None"

definition normalizeOnTimeout :: "json option \<Rightarrow> timeout_action" where
  "normalizeOnTimeout v =
     (if v = Some (JStr ''skip'') then Skip_step
      else if v = Some (JStr ''escalate'') then Escalate_step else Fail_step)"

definition or_default_string :: "string option \<Rightarrow> string \<Rightarrow> string" where
  "or_default_string v d = (case v of None \<Rightarrow> d | Some s \<Rightarrow> s)"

definition normalizeTransition :: "adapter_env \<Rightarrow> string \<Rightarrow> json \<Rightarrow> nat \<Rightarrow> designer_transition option" where
  "normalizeTransition env stepId transition index =
     (case isRecord (Some transition) of
        None \<Rightarrow> None
      | Some t \<Rightarrow>
          (case (case stringValue (json_get (JObj t) ''target_step_id'') of
                   Some s \<Rightarrow> Some s
                 | None \<Rightarrow> stringValue (json_get (JObj t) ''target'')) of
             None \<Rightarrow> None
           | Some target \<Rightarrow>
               Some \<lparr>dt_id = or_default_string (stringValue (json_get (JObj t) ''id''))
                       (stepId @ ''-'' @ target @ ''-'' @ da_digits env index),
                     dt_target = target,
                     dt_label = or_default_string (stringValue (json_get (JObj t) ''label'')) [],
                     dt_condition = json_get (JObj t) ''condition''\<rparr>))"

definition read_transitions :: "adapter_env \<Rightarrow> string \<Rightarrow> json option \<Rightarrow> designer_transition list" where
  "read_transitions env stepId v =
     (case v of
        Some (JArr ts) \<Rightarrow> List.map_filter (\<lambda>(i, t). normalizeTransition env stepId t i) (enumerate 0 ts)
      | _ \<Rightarrow> [])"

definition toDesignerStep :: "adapter_env \<Rightarrow> nat \<Rightarrow> (string \<times> json) list \<Rightarrow> designer_step" where
  "toDesignerStep env index es =
     (let step = JObj es;
          rawConfig = json_get step ''config'';
          meta = designerMeta rawConfig;
          config = normalizeConfig rawConfig;
          id = or_default_string (stringValue (json_get step ''id'')) (''step_'' @ da_digits env (index + 1))
      in \<lparr>ds_id = id,
          ds_name = or_default_string (stringValue (json_get step ''name'')) (''Step '' @ da_digits env (index + 1)),
          ds_type = normalizeStepType (json_get step ''type'') config meta,
          ds_config = config,
          ds_position = normalizePosition (or_else_value (json_get step ''position'') (json_get meta ''position'')) index,
          ds_transitions = read_transitions env id (json_get step ''transitions''),
          ds_timeout = normalizeTimeout
            (or_else_value (json_get step ''timeout_minutes'') (json_get meta ''timeout_minutes'')),
          ds_on_timeout = normalizeOnTimeout (or_else_value (json_get step ''on_timeout'') (json_get meta ''on_timeout'')),
          ds_assignee = normalizeAssigneeStrategy
            (or_else_value (json_get step ''assignee_strategy'') (json_get meta ''assignee_strategy''))\<rparr>)"

definition toDesignerSteps :: "adapter_env \<Rightarrow> json \<Rightarrow> designer_step list" where
  "toDesignerSteps env steps =
     (case steps of
        JArr vs \<Rightarrow> map (\<lambda>(i, es). toDesignerStep env i es) (enumerate 0 (List.map_filter (\<lambda>v. isRecord (Some v)) vs))
      | _ \<Rightarrow> [])"

subsection \<open>Writing\<close>

fun backendStepType :: "wf_step_type \<Rightarrow> string" where
  "backendStepType Approval = ''human_task''"
| "backendStepType Review = ''human_task''"
| "backendStepType Human_task = ''human_task''"
| "backendStepType Approval_chain = ''approval_chain''"
| "backendStepType Notification = ''service_task''"
| "backendStepType Webhook = ''service_task''"
| "backendStepType Script = ''service_task''"
| "backendStepType Sub_workflow = ''service_task''"
| "backendStepType Delay = ''timer''"
| "backendStepType Join_gateway = ''parallel_gateway''"
| "backendStepType Condition = ''condition''"
| "backendStepType Parallel_gateway = ''parallel_gateway''"
| "backendStepType End_step = ''end''"

definition quoteLiteral :: "string \<Rightarrow> string" where
  "quoteLiteral v =
     CHR 0x27 # concat (map (\<lambda>c. if c = CHR 0x5C \<or> c = CHR 0x27 then [CHR 0x5C, c] else [c]) v) @ [CHR 0x27]"

fun expressionValue :: "adapter_env \<Rightarrow> json \<Rightarrow> string" where
  "expressionValue env (JStr s) = quoteLiteral s"
| "expressionValue env (JNum n) = da_string env (JNum n)"
| "expressionValue env (JBool b) = da_string env (JBool b)"
| "expressionValue env JNull = ''null''"
| "expressionValue env (JArr vs) = ''['' @ js_join '', '' (map (expressionValue env) vs) @ '']''"
| "expressionValue env (JObj es) = quoteLiteral (da_stringify env (JObj es))"

definition operator_expression :: "string \<Rightarrow> string \<Rightarrow> string \<Rightarrow> string option" where
  "operator_expression op field v =
     (if op = ''eq'' then Some (field @ '' == '' @ v)
      else if op = ''neq'' then Some (field @ '' != '' @ v)
      else if op = ''gt'' then Some (field @ '' > '' @ v)
      else if op = ''gte'' then Some (field @ '' >= '' @ v)
      else if op = ''lt'' then Some (field @ '' < '' @ v)
      else if op = ''lte'' then Some (field @ '' <= '' @ v)
      else if op = ''in'' then Some (field @ '' in '' @ v)
      else if op = ''notIn'' \<or> op = ''not_in'' then Some (''!('' @ field @ '' in '' @ v @ '')'')
      else if op = ''truthy'' \<or> op = ''isSet'' then Some (field @ '' != null'')
      else if op = ''falsy'' then Some (field @ '' == false'')
      else if op = ''isEmpty'' then Some (field @ '' == '' @ [CHR 0x27, CHR 0x27])
      else if op = ''contains'' \<or> op = ''matches'' then Some (field @ '' == '' @ v)
      else None)"

definition conditionExpression :: "adapter_env \<Rightarrow> json option \<Rightarrow> string option" where
  "conditionExpression env condition =
     (case condition of
        None \<Rightarrow> None
      | Some c \<Rightarrow>
          if \<not> json_truthy c then None
          else (case c of
                  JStr s \<Rightarrow> (if js_trim s = [] then None else Some (js_trim s))
                | _ \<Rightarrow>
                    (case json_get c ''field'' of
                       None \<Rightarrow> None
                     | Some f \<Rightarrow>
                         if \<not> json_truthy f then None
                         else operator_expression
                                (case json_get c ''operator'' of None \<Rightarrow> ''undefined''
                                 | Some (JStr op) \<Rightarrow> op | Some v \<Rightarrow> da_string env v)
                                (case f of JStr s \<Rightarrow> s | _ \<Rightarrow> da_string env f)
                                (case json_get c ''value'' of None \<Rightarrow> ''null'' | Some v \<Rightarrow> expressionValue env v))))"

definition backendTransition :: "adapter_env \<Rightarrow> designer_transition \<Rightarrow> backend_transition" where
  "backendTransition env t =
     \<lparr>bt_target = dt_target t, bt_condition = conditionExpression env (dt_condition t)\<rparr>"

definition designer_meta_of :: "designer_step \<Rightarrow> json" where
  "designer_meta_of step = JObj
     [(''display_type'', JStr (step_type_code (ds_type step))),
      (''position'', JObj [(''x'', JNum (fst (ds_position step))), (''y'', JNum (snd (ds_position step)))]),
      (''timeout_minutes'', case ds_timeout step of None \<Rightarrow> JNull | Some q \<Rightarrow> JNum (Fin q)),
      (''on_timeout'', JStr (timeout_code (ds_on_timeout step))),
      (''assignee_strategy'', JObj (ds_assignee step))]"

definition toBackendSteps :: "adapter_env \<Rightarrow> designer_step list \<Rightarrow> backend_step list" where
  "toBackendSteps env steps =
     map (\<lambda>step. \<lparr>bs_id = ds_id step, bs_name = ds_name step, bs_type = backendStepType (ds_type step),
       bs_config = ds_config step @ [(DESIGNER_META_KEY, designer_meta_of step)],
       bs_transitions = map (backendTransition env) (ds_transitions step)\<rparr>) steps"

text \<open>The saved steps, as the JSON that is stored and read again.\<close>

definition transition_json :: "backend_transition \<Rightarrow> json" where
  "transition_json t = JObj ((''target'', JStr (bt_target t)) #
     (case bt_condition t of None \<Rightarrow> [] | Some c \<Rightarrow> [(''condition'', JStr c)]))"

definition step_json :: "backend_step \<Rightarrow> json" where
  "step_json s = JObj
     [(''id'', JStr (bs_id s)), (''name'', JStr (bs_name s)), (''type'', JStr (bs_type s)),
      (''config'', JObj (bs_config s)), (''transitions'', JArr (map transition_json (bs_transitions s)))]"

definition saved :: "adapter_env \<Rightarrow> designer_step list \<Rightarrow> json" where
  "saved env steps = JArr (map step_json (toBackendSteps env steps))"

subsection \<open>Every definition opens as well-formed steps\<close>

definition transition_ok :: "designer_transition \<Rightarrow> bool" where
  "transition_ok t \<longleftrightarrow> dt_id t \<noteq> [] \<and> dt_target t \<noteq> []"

definition designer_ok :: "designer_step \<Rightarrow> bool" where
  "designer_ok s \<longleftrightarrow>
     ds_id s \<noteq> [] \<and> ds_name s \<noteq> [] \<and> DESIGNER_META_KEY \<notin> fst ` set (ds_config s) \<and>
     list_all transition_ok (ds_transitions s) \<and>
     (\<exists>t. json_get (JObj (ds_assignee s)) ''type'' = Some (JStr t))"

lemma stringValue_nonempty: "stringValue v = Some s \<Longrightarrow> s \<noteq> []"
  by (cases v rule: stringValue.cases) (auto split: if_splits)

lemma or_default_string_nonempty: "d \<noteq> [] \<Longrightarrow> or_default_string (stringValue v) d \<noteq> []"
  by (auto simp: or_default_string_def dest: stringValue_nonempty split: option.splits)

lemma normalizeTransition_ok: "normalizeTransition env i t n = Some d \<Longrightarrow> transition_ok d"
  by (auto simp: normalizeTransition_def transition_ok_def or_default_string_nonempty
      dest: stringValue_nonempty split: option.splits)

lemma set_map_filter: "y \<in> set (List.map_filter f xs) \<longleftrightarrow> (\<exists>x \<in> set xs. f x = Some y)"
  by (induction xs) (auto simp: List.map_filter_simps split: option.splits)

lemma read_transitions_ok: "list_all transition_ok (read_transitions env i v)"
  by (auto simp: read_transitions_def list_all_iff set_map_filter normalizeTransition_ok
      split: option.splits json.splits)

lemma normalizeAssignee_ok: "\<exists>t. json_get (JObj (normalizeAssigneeStrategy v)) ''type'' = Some (JStr t)"
proof (cases "isRecord v")
  case None
  then show ?thesis by (simp add: normalizeAssigneeStrategy_def default_assignee_def json_get_def)
next
  case (Some es)
  then show ?thesis
    by (cases "json_get (JObj es) ''type''")
      (auto simp: normalizeAssigneeStrategy_def default_assignee_def json_get_def split: json.splits)
qed

text \<open>C23. Whatever JSON is stored for a definition, malformed or written by another tool, the designer opens it as well-formed steps: each step and each transition has an id, each step a name and one of the thirteen types, each transition a target, each assignee strategy a type, and no configuration holds the designer's own metadata.\<close>

theorem designer_steps_well_formed: "list_all designer_ok (toDesignerSteps env stored)"
proof -
  have "designer_ok (toDesignerStep env i es)" for i es
    by (auto simp: designer_ok_def toDesignerStep_def Let_def or_default_string_nonempty read_transitions_ok
        normalizeAssignee_ok normalizeConfig_def split: option.splits)
  then show ?thesis
    by (auto simp: toDesignerSteps_def list_all_iff split: json.splits)
qed

subsection \<open>Saving and opening again\<close>

definition reloaded :: "adapter_env \<Rightarrow> designer_step \<Rightarrow> designer_step" where
  "reloaded env s = s\<lparr>ds_transitions := map (\<lambda>(i, t).
     \<lparr>dt_id = ds_id s @ ''-'' @ dt_target t @ ''-'' @ da_digits env i, dt_target = dt_target t, dt_label = [],
      dt_condition = map_option JStr (conditionExpression env (dt_condition t))\<rparr>)
     (enumerate 0 (ds_transitions s))\<rparr>"

lemma type_read_back: "List.find (\<lambda>t. step_type_code t = step_type_code ty) DESIGNER_STEP_TYPES = Some ty"
  by (cases ty) (simp_all add: DESIGNER_STEP_TYPES_def)

lemma timeout_read_back: "normalizeOnTimeout (Some (JStr (timeout_code a))) = a"
  by (cases a) (simp_all add: normalizeOnTimeout_def)

lemma transition_read_back:
  assumes "dt_target t \<noteq> []"
  shows "normalizeTransition env i (transition_json (backendTransition env t)) n =
    Some \<lparr>dt_id = i @ ''-'' @ dt_target t @ ''-'' @ da_digits env n, dt_target = dt_target t, dt_label = [],
      dt_condition = map_option JStr (conditionExpression env (dt_condition t))\<rparr>"
  using assms
  by (simp add: normalizeTransition_def transition_json_def backendTransition_def json_get_def or_default_string_def
      split: option.splits)

lemma map_filter_total: "(\<And>x. x \<in> set xs \<Longrightarrow> f x = Some (g x)) \<Longrightarrow> List.map_filter f xs = map g xs"
  by (induction xs) (simp_all add: List.map_filter_simps)

lemma transitions_read_back:
  assumes "list_all transition_ok ts"
  shows "read_transitions env i (Some (JArr (map transition_json (map (backendTransition env) ts)))) =
    map (\<lambda>(n, t). \<lparr>dt_id = i @ ''-'' @ dt_target t @ ''-'' @ da_digits env n, dt_target = dt_target t, dt_label = [],
      dt_condition = map_option JStr (conditionExpression env (dt_condition t))\<rparr>) (enumerate 0 ts)"
proof -
  have "read_transitions env i (Some (JArr (map transition_json (map (backendTransition env) ts)))) =
      map (\<lambda>(n, v). the (normalizeTransition env i v n)) (enumerate 0 (map (transition_json \<circ> backendTransition env) ts))"
    unfolding read_transitions_def using assms
    by (auto intro!: map_filter_total simp: in_set_enumerate_eq list_all_length transition_ok_def transition_read_back)
  also have "\<dots> = map (\<lambda>(n, t). \<lparr>dt_id = i @ ''-'' @ dt_target t @ ''-'' @ da_digits env n, dt_target = dt_target t,
      dt_label = [], dt_condition = map_option JStr (conditionExpression env (dt_condition t))\<rparr>) (enumerate 0 ts)"
    using assms
    by (auto intro!: nth_equalityI simp: nth_enumerate_eq list_all_length transition_ok_def transition_read_back)
  finally show ?thesis .
qed

lemma step_read_back:
  assumes "designer_ok s"
  shows "toDesignerStep env n
      [(''id'', JStr (ds_id s)), (''name'', JStr (ds_name s)), (''type'', JStr (backendStepType (ds_type s))),
       (''config'', JObj (ds_config s @ [(DESIGNER_META_KEY, designer_meta_of s)])),
       (''transitions'', JArr (map transition_json (map (backendTransition env) (ds_transitions s))))] = reloaded env s"
proof -
  from assms obtain t where assignee: "json_get (JObj (ds_assignee s)) ''type'' = Some (JStr t)"
    by (auto simp: designer_ok_def)
  have config: "filter (\<lambda>e. fst e \<noteq> DESIGNER_META_KEY) (ds_config s) = ds_config s"
    using assms by (force simp: designer_ok_def filter_id_conv)
  have trans: "list_all transition_ok (ds_transitions s)" using assms by (simp add: designer_ok_def)
  show ?thesis
    using assms assignee
    by (simp add: toDesignerStep_def Let_def json_get_def designerMeta_def designer_meta_of_def normalizeConfig_def
        config or_default_string_def or_else_value_def normalizePosition_def normalizeStepType_def type_read_back
        normalizeAssigneeStrategy_def timeout_read_back transitions_read_back [OF trans, simplified] designer_ok_def reloaded_def
        split: option.splits)
qed

lemma save_and_reopen_core:
  assumes "list_all designer_ok steps"
  shows "toDesignerSteps env (saved env steps) = map (reloaded env) steps"
proof -
  have records: "List.map_filter (\<lambda>v. isRecord (Some v)) (map step_json bs) =
      map (\<lambda>b. [(''id'', JStr (bs_id b)), (''name'', JStr (bs_name b)), (''type'', JStr (bs_type b)),
        (''config'', JObj (bs_config b)), (''transitions'', JArr (map transition_json (bs_transitions b)))]) bs" for bs
    by (induction bs) (simp_all add: List.map_filter_simps step_json_def)
  show ?thesis
    unfolding toDesignerSteps_def saved_def json.case records
    using assms
    by (auto intro!: nth_equalityI simp: nth_enumerate_eq list_all_length toBackendSteps_def step_read_back [simplified])
qed


definition sample_steps :: "designer_step list" where
  "sample_steps =
     [\<lparr>ds_id = ''s1'', ds_name = ''Review'', ds_type = Review, ds_config = [(''form'', JNull)],
       ds_position = (Fin 10, Fin 20),
       ds_transitions = [\<lparr>dt_id = ''t1'', dt_target = ''s2'', dt_label = ''approved'',
         dt_condition = Some (JObj [(''field'', JStr ''amount''), (''operator'', JStr ''gt''), (''value'', JStr ''a'')])\<rparr>],
       ds_timeout = Some 30, ds_on_timeout = Escalate_step, ds_assignee = default_assignee\<rparr>]"

definition sample_env :: adapter_env where
  "sample_env = \<lparr>da_digits = (\<lambda>n. [CHR ''0'']), da_string = (\<lambda>v. ''0''), da_stringify = (\<lambda>v. ''{}'')\<rparr>"


text \<open>A definition that was opened, saved and opened again is saved the same from then on.\<close>

lemma operator_expression_nonempty: "operator_expression op f v = Some e \<Longrightarrow> e \<noteq> []"
  unfolding operator_expression_def by (simp split: if_split_asm) auto

lemma expression_nonempty:
  assumes "conditionExpression env c = Some e"
  shows "e \<noteq> []"
proof (cases "\<exists>s. c = Some (JStr s)")
  case True
  with assms show ?thesis by (auto simp: conditionExpression_def split: if_splits)
next
  case False
  with assms show ?thesis
    by (cases c) (auto simp: conditionExpression_def dest: operator_expression_nonempty
      split: option.splits if_splits json.splits(2))
qed

lemma expression_read_back:
  assumes "conditionExpression env c = Some e" "js_trim e = e"
  shows "conditionExpression env (Some (JStr e)) = Some e"
  using assms expression_nonempty [OF assms(1)] by (simp add: conditionExpression_def)

definition trimmed_expressions :: "adapter_env \<Rightarrow> designer_step \<Rightarrow> bool" where
  "trimmed_expressions env s \<longleftrightarrow>
     list_all (\<lambda>t. case conditionExpression env (dt_condition t) of None \<Rightarrow> True | Some e \<Rightarrow> js_trim e = e)
       (ds_transitions s)"

lemma saving_settles:
  assumes "list_all designer_ok steps" "list_all (trimmed_expressions env) steps"
  shows "toBackendSteps env (toDesignerSteps env (saved env steps)) = toBackendSteps env steps"
proof -
  have "conditionExpression env (map_option JStr (conditionExpression env c)) = conditionExpression env c"
    if "case conditionExpression env c of None \<Rightarrow> True | Some e \<Rightarrow> js_trim e = e" for c
    using that expression_read_back [of env c]
    by (cases "conditionExpression env c") (auto simp: conditionExpression_def [of env None])
  then have "map (backendTransition env) (ds_transitions (reloaded env s)) = map (backendTransition env) (ds_transitions s)"
    if "trimmed_expressions env s" for s
    using that
    by (auto intro!: nth_equalityI
        simp: reloaded_def trimmed_expressions_def backendTransition_def nth_enumerate_eq list_all_length)
  moreover have "designer_meta_of (reloaded env s) = designer_meta_of s" for s
    by (simp add: designer_meta_of_def reloaded_def)
  ultimately show ?thesis
    using assms(2) unfolding save_and_reopen_core [OF assms(1)]
    by (auto simp: toBackendSteps_def list_all_iff) (simp_all add: reloaded_def)
qed

text \<open>Two operators of the condition builder are saved as plain equality.\<close>

lemma contains_saved_as_equality:
  "operator_expression ''contains'' f v = operator_expression ''eq'' f v"
  "operator_expression ''matches'' f v = operator_expression ''eq'' f v"
  by (simp_all add: operator_expression_def)

end
