(* ===== verification/SelectionScope.thy ===== *)
theory SelectionScope
  imports Web "HOL-Library.Multiset"
begin

section \<open>Select all matching: the selection of a data table\<close>

text \<open>
  \<open>components/shared/data-table/selection-scope.ts\<close> and the effects of \<open>data-table.tsx\<close> that drive it: the
  checked rows of the rendered page, and beside them the scope handed to the bulk actions, which is either a list
  of ids or everything that matches a filter minus exclusions. A filter map is the association list of a
  JavaScript object; two filter maps are compared by the text of their normal forms, which is injective on maps
  from strings to strings and lists of strings, so the model compares the normal forms.
\<close>

subsection \<open>Filter maps\<close>

datatype filter_value = One string | Many "string list"

type_synonym filter_query = "(string \<times> filter_value) list"

fun normal_value :: "filter_value \<Rightarrow> filter_value option" where
  "normal_value (One v) = (if v \<noteq> [] then Some (One v) else None)"
| "normal_value (Many vs) = (if vs \<noteq> [] then Some (Many (sort vs)) else None)"

definition normal_entry :: "filter_query \<Rightarrow> string \<Rightarrow> (string \<times> filter_value) option" where
  "normal_entry query key = map_option (Pair key) (Option.bind (map_of query key) normal_value)"

definition normalizeFilterQuery :: "filter_query \<Rightarrow> filter_query" where
  "normalizeFilterQuery query = List.map_filter (normal_entry query) (sort (map fst query))"

definition filterQueriesEqual :: "filter_query \<Rightarrow> filter_query \<Rightarrow> bool" where
  "filterQueriesEqual a b \<longleftrightarrow> normalizeFilterQuery a = normalizeFilterQuery b"

subsection \<open>The scope\<close>

datatype selection_scope = Page_scope "string list" | All_matching filter_query "string list"

definition EMPTY_SELECTION_SCOPE :: selection_scope where
  "EMPTY_SELECTION_SCOPE = Page_scope []"

datatype scope_action =
    Page_selection_changed "string list" "string list"
  | Select_all_matching filter_query
  | Filters_changed filter_query
  | Clear_scope

fun countScopeSelected :: "selection_scope \<Rightarrow> nat \<Rightarrow> nat" where
  "countScopeSelected (Page_scope ids) totalRows = length ids"
| "countScopeSelected (All_matching q ex) totalRows = totalRows - length ex"

definition isScopeEmpty :: "selection_scope \<Rightarrow> nat \<Rightarrow> bool" where
  "isScopeEmpty scope totalRows \<longleftrightarrow> countScopeSelected scope totalRows = 0"

definition mark_row :: "string list \<Rightarrow> string list \<Rightarrow> string \<Rightarrow> string list" where
  "mark_row selected excluded i =
     (if i \<in> set selected then remove1 i excluded
      else if i \<in> set excluded then excluded else excluded @ [i])"

fun selectionScopeReducer :: "selection_scope \<Rightarrow> scope_action \<Rightarrow> selection_scope" where
  "selectionScopeReducer (All_matching q ex) (Page_selection_changed selectedIds pageIds) =
     (if selectedIds = [] then EMPTY_SELECTION_SCOPE
      else All_matching q (foldl (mark_row selectedIds) (js_uniq ex) pageIds))"
| "selectionScopeReducer (Page_scope ids) (Page_selection_changed selectedIds pageIds) = Page_scope selectedIds"
| "selectionScopeReducer state (Select_all_matching q) = All_matching (normalizeFilterQuery q) []"
| "selectionScopeReducer (Page_scope ids) (Filters_changed q) = Page_scope ids"
| "selectionScopeReducer (All_matching q ex) (Filters_changed q') =
     (if filterQueriesEqual q q' then All_matching q ex else EMPTY_SELECTION_SCOPE)"
| "selectionScopeReducer state Clear_scope = EMPTY_SELECTION_SCOPE"

subsection \<open>The table\<close>

text \<open>
  \<open>ts_checked\<close> holds the keys of \<open>rowSelection\<close> that are true, \<open>ts_page\<close> the ids of the rows on the page and
  \<open>ts_filter\<close> the filter map in force. The table library turns a click into the next \<open>rowSelection\<close>.
\<close>

record table_selection =
  ts_checked :: "string list"
  ts_scope :: selection_scope
  ts_page :: "string list"
  ts_filter :: filter_query

datatype table_event =
    Check_row string bool
  | Check_page bool
  | Extend_selection
  | Show_page "string list"
  | Change_filter filter_query
  | Reset_selection

definition dispatch_scope :: "scope_action \<Rightarrow> table_selection \<Rightarrow> table_selection" where
  "dispatch_scope a s = s\<lparr>ts_scope := selectionScopeReducer (ts_scope s) a\<rparr>"

text \<open>The effect that derives the checked rows from an extended scope.\<close>

definition sync_rows :: "table_selection \<Rightarrow> table_selection" where
  "sync_rows s =
     (case ts_scope s of
        Page_scope ids \<Rightarrow> s
      | All_matching q ex \<Rightarrow> s\<lparr>ts_checked := filter (\<lambda>i. i \<notin> set ex) (ts_page s)\<rparr>)"

definition check_ids :: "string list \<Rightarrow> bool \<Rightarrow> string list \<Rightarrow> string list" where
  "check_ids ids on checked =
     (if on then checked @ filter (\<lambda>i. i \<notin> set checked) ids else filter (\<lambda>i. i \<notin> set ids) checked)"

definition onRowSelectionChange :: "string list \<Rightarrow> table_selection \<Rightarrow> table_selection" where
  "onRowSelectionChange next_s s =
     sync_rows (dispatch_scope (Page_selection_changed next_s (ts_page s)) (s\<lparr>ts_checked := next_s\<rparr>))"

definition clearScopeSelection :: "table_selection \<Rightarrow> table_selection" where
  "clearScopeSelection s = dispatch_scope Clear_scope (s\<lparr>ts_checked := []\<rparr>)"

definition filter_effect :: "filter_query \<Rightarrow> table_selection \<Rightarrow> table_selection" where
  "filter_effect f s =
     (let s1 = s\<lparr>ts_filter := f\<rparr>
      in if normalizeFilterQuery f = normalizeFilterQuery (ts_filter s) then s1
         else (case ts_scope s of
                 Page_scope ids \<Rightarrow> s1
               | All_matching q ex \<Rightarrow> dispatch_scope (Filters_changed f) (s1\<lparr>ts_checked := []\<rparr>)))"

fun table_step :: "table_selection \<Rightarrow> table_event \<Rightarrow> table_selection" where
  "table_step s (Check_row i on) =
     (if i \<in> set (ts_page s) then onRowSelectionChange (check_ids [i] on (ts_checked s)) s else s)"
| "table_step s (Check_page on) = onRowSelectionChange (check_ids (ts_page s) on (ts_checked s)) s"
| "table_step s Extend_selection = sync_rows (dispatch_scope (Select_all_matching (ts_filter s)) s)"
| "table_step s (Show_page ids) = sync_rows (s\<lparr>ts_page := ids\<rparr>)"
| "table_step s (Change_filter f) = filter_effect f s"
| "table_step s Reset_selection = clearScopeSelection s"

definition table_mounted :: "string list \<Rightarrow> filter_query \<Rightarrow> table_selection" where
  "table_mounted ids f = \<lparr>ts_checked = [], ts_scope = EMPTY_SELECTION_SCOPE, ts_page = ids, ts_filter = f\<rparr>"

subsection \<open>Normal forms\<close>

text \<open>What a key says in a filter map: nothing, a text, or a list up to its order.\<close>

definition meaning :: "filter_query \<Rightarrow> string \<Rightarrow> filter_value option" where
  "meaning q k = Option.bind (map_of q k) normal_value"

lemma normal_value_idem:
  assumes "normal_value v = Some w"
  shows "normal_value w = Some w"
proof (cases v)
  case (One x)
  with assms show ?thesis by (auto split: if_splits)
next
  case (Many vs)
  with assms have "vs \<noteq> []" "w = Many (sort vs)" by (auto split: if_splits)
  moreover from this have "sort vs \<noteq> []" by (metis length_0_conv length_sort)
  moreover have "sort (sort vs) = sort vs" by (rule sorted_sort_id [OF sorted_sort])
  ultimately show ?thesis by simp
qed

lemma meaning_key: "meaning q k \<noteq> None \<Longrightarrow> k \<in> set (map fst q)"
  by (cases "map_of q k") (auto simp: meaning_def dest: map_of_SomeD intro: rev_image_eqI)

lemma normalize_map:
  "normalizeFilterQuery q =
     map (\<lambda>k. (k, the (meaning q k))) (filter (\<lambda>k. meaning q k \<noteq> None) (sort (map fst q)))"
proof -
  have "the (normal_entry q k) = (k, the (meaning q k))" if "meaning q k \<noteq> None" for k
    using that by (auto simp: normal_entry_def meaning_def)
  then show ?thesis
    unfolding normalizeFilterQuery_def List.map_filter_def
    by (intro map_cong filter_cong) (auto simp: normal_entry_def meaning_def)
qed

lemma normalize_sorted_list:
  assumes "distinct (map fst q)"
  shows "normalizeFilterQuery q = map (\<lambda>k. (k, the (meaning q k))) (sorted_list_of_set {k. meaning q k \<noteq> None})"
proof -
  have s: "set (filter (\<lambda>k. meaning q k \<noteq> None) (sort (map fst q))) = {k. meaning q k \<noteq> None}"
    using meaning_key by auto
  have "sorted (filter (\<lambda>k. meaning q k \<noteq> None) (sort (map fst q)))"
    using sorted_filter [where f = "\<lambda>x. x" and xs = "sort (map fst q)"] sorted_sort [of "map fst q"] by simp
  then have "sorted_list_of_set (set (filter (\<lambda>k. meaning q k \<noteq> None) (sort (map fst q)))) =
      filter (\<lambda>k. meaning q k \<noteq> None) (sort (map fst q))"
    using assms by (intro sorted_list_of_set.idem_if_sorted_distinct) auto
  then show ?thesis unfolding s normalize_map by simp
qed

lemma finite_meaning: "finite {k. meaning q k \<noteq> None}"
  by (rule finite_subset [of _ "set (map fst q)"]) (use meaning_key in blast, simp)

lemma meaning_normalize:
  assumes "distinct (map fst q)"
  shows "meaning (normalizeFilterQuery q) k = meaning q k"
proof -
  have "map_of (map (\<lambda>k. (k, h k)) ks) k = (if k \<in> set ks then Some (h k) else None)" for h :: "string \<Rightarrow> filter_value" and ks
    by (induction ks) auto
  then have "map_of (normalizeFilterQuery q) k = meaning q k"
    unfolding normalize_sorted_list [OF assms] using finite_meaning [of q] by auto
  then show ?thesis
    by (cases "map_of q k"; cases "meaning q k") (auto simp: meaning_def dest: normal_value_idem)
qed

lemma distinct_normalize: "distinct (map fst q) \<Longrightarrow> distinct (map fst (normalizeFilterQuery q))"
  unfolding normalize_map by (simp add: comp_def)

text \<open>Two filter maps count as equal exactly when every key says the same in both.\<close>

lemma filterQueriesEqual_iff:
  assumes "distinct (map fst a)" "distinct (map fst b)"
  shows "filterQueriesEqual a b \<longleftrightarrow> (\<forall>k. meaning a k = meaning b k)"
proof
  assume "filterQueriesEqual a b"
  then show "\<forall>k. meaning a k = meaning b k"
    using meaning_normalize assms unfolding filterQueriesEqual_def by metis
next
  assume "\<forall>k. meaning a k = meaning b k"
  then have "meaning a = meaning b" by auto
  then show "filterQueriesEqual a b"
    unfolding filterQueriesEqual_def normalize_sorted_list [OF assms(1)] normalize_sorted_list [OF assms(2)] by simp
qed

lemma normalize_idem: "distinct (map fst q) \<Longrightarrow> normalizeFilterQuery (normalizeFilterQuery q) = normalizeFilterQuery q"
  using filterQueriesEqual_iff [OF distinct_normalize] meaning_normalize unfolding filterQueriesEqual_def by blast

subsection \<open>The checked rows and the scope agree\<close>

lemma mark_row_set:
  assumes "distinct ex"
  shows "set (mark_row selected ex i) = (if i \<in> set selected then set ex - {i} else insert i (set ex))"
    and "distinct (mark_row selected ex i)"
  using assms by (auto simp: mark_row_def set_remove1_eq)

lemma mark_rows_set:
  assumes "distinct ex"
  shows "set (foldl (mark_row selected) ex ids) = (set ex - set selected \<inter> set ids) \<union> (set ids - set selected)"
    and "distinct (foldl (mark_row selected) ex ids)"
  using assms
proof (induction ids arbitrary: ex)
  case (Cons i ids)
  case 1 then show ?case using Cons.IH(1) mark_row_set [OF 1] by auto
  case 2 then show ?case using Cons.IH(2) mark_row_set [OF 2] by auto
qed auto

text \<open>
  In page mode the scope lists the checked ids. An extended scope carries the normal form of the filter in force
  and the rows of the page are checked exactly when they are not excluded.
\<close>

fun scope_agrees :: "table_selection \<Rightarrow> selection_scope \<Rightarrow> bool" where
  "scope_agrees s (Page_scope ids) \<longleftrightarrow> ids = ts_checked s"
| "scope_agrees s (All_matching q ex) \<longleftrightarrow>
     q = normalizeFilterQuery (ts_filter s) \<and> ts_checked s = filter (\<lambda>i. i \<notin> set ex) (ts_page s)"

definition selection_ok :: "table_selection \<Rightarrow> bool" where
  "selection_ok s \<longleftrightarrow> scope_agrees s (ts_scope s) \<and> distinct (map fst (ts_filter s))"

fun event_ok :: "table_event \<Rightarrow> bool" where
  "event_ok (Change_filter f) = distinct (map fst f)"
| "event_ok e = True"

lemma scope_agrees_cong:
  "ts_checked s = ts_checked t \<Longrightarrow> ts_page s = ts_page t \<Longrightarrow> ts_filter s = ts_filter t \<Longrightarrow>
   scope_agrees s sc = scope_agrees t sc"
  by (cases sc) auto

lemma selection_change_ok:
  assumes "selection_ok s"
  shows "selection_ok (onRowSelectionChange next_s s)"
  using assms
  by (cases "ts_scope s")
    (auto simp: selection_ok_def onRowSelectionChange_def dispatch_scope_def sync_rows_def EMPTY_SELECTION_SCOPE_def)

lemma filter_effect_ok:
  assumes "selection_ok s" "distinct (map fst f)"
  shows "selection_ok (filter_effect f s)"
proof (cases "ts_scope s")
  case (Page_scope ids)
  with assms show ?thesis by (auto simp: selection_ok_def filter_effect_def Let_def)
next
  case (All_matching q ex)
  have q: "q = normalizeFilterQuery (ts_filter s)" "distinct (map fst (ts_filter s))"
    using assms(1) All_matching by (auto simp: selection_ok_def)
  have "filterQueriesEqual q f \<longleftrightarrow> normalizeFilterQuery f = normalizeFilterQuery (ts_filter s)"
    unfolding filterQueriesEqual_def q(1) normalize_idem [OF q(2)] by auto
  with assms All_matching q show ?thesis
    by (auto simp: selection_ok_def filter_effect_def Let_def dispatch_scope_def EMPTY_SELECTION_SCOPE_def)
qed

lemma table_step_ok: "selection_ok s \<Longrightarrow> event_ok e \<Longrightarrow> selection_ok (table_step s e)"
proof (induction s e rule: table_step.induct)
  case (3 s)
  then show ?case by (simp add: selection_ok_def dispatch_scope_def sync_rows_def)
next
  case (4 s ids)
  then show ?case by (cases "ts_scope s") (auto simp: selection_ok_def sync_rows_def)
next
  case (6 s)
  then show ?case by (auto simp: selection_ok_def clearScopeSelection_def dispatch_scope_def EMPTY_SELECTION_SCOPE_def)
qed (simp_all add: selection_change_ok filter_effect_ok)

lemma table_run_ok:
  assumes "distinct (map fst f)" "list_all event_ok es"
  shows "selection_ok (foldl table_step (table_mounted ids f) es)"
proof -
  have "selection_ok (table_mounted ids f)"
    using assms(1) by (simp add: selection_ok_def table_mounted_def EMPTY_SELECTION_SCOPE_def)
  then show ?thesis using assms(2)
    by (induction es rule: rev_induct) (auto simp: table_step_ok)
qed



end
