(* ===== verification/BulkScope.thy ===== *)
theory BulkScope
  imports SelectionScope
begin

section \<open>From a selection to a bulk request\<close>

text \<open>
  \<open>lex/contracts/_lib/use-bulk-scope.ts\<close>, the transition map of \<open>contracts-board.ts\<close> and the submit
  handler of \<open>bulk-status-dialog.tsx\<close>. The list endpoint is an argument: the answer to the request for a page
  number, or \<open>None\<close> when the request is rejected. Localised messages are left out; an error is its code.
\<close>

subsection \<open>The contract lifecycle\<close>

datatype contract_status =
    Draft | Internal_review | Legal_review | Negotiation | Pending_signature | Active | Suspended | Expired
  | Terminated | Renewed | Contract_cancelled

fun CONTRACT_STATUS_TRANSITIONS :: "contract_status \<Rightarrow> contract_status list" where
  "CONTRACT_STATUS_TRANSITIONS Draft = [Internal_review, Contract_cancelled]"
| "CONTRACT_STATUS_TRANSITIONS Internal_review = [Legal_review, Draft]"
| "CONTRACT_STATUS_TRANSITIONS Legal_review = [Negotiation, Internal_review, Draft]"
| "CONTRACT_STATUS_TRANSITIONS Negotiation = [Pending_signature, Contract_cancelled, Draft]"
| "CONTRACT_STATUS_TRANSITIONS Pending_signature = [Contract_cancelled]"
| "CONTRACT_STATUS_TRANSITIONS Active = [Suspended, Terminated, Expired, Renewed]"
| "CONTRACT_STATUS_TRANSITIONS Suspended = [Active, Terminated]"
| "CONTRACT_STATUS_TRANSITIONS Expired = [Renewed]"
| "CONTRACT_STATUS_TRANSITIONS Terminated = []"
| "CONTRACT_STATUS_TRANSITIONS Renewed = []"
| "CONTRACT_STATUS_TRANSITIONS Contract_cancelled = []"

definition isAllowedContractTransition :: "contract_status \<Rightarrow> contract_status \<Rightarrow> bool" where
  "isAllowedContractTransition from_s to_s \<longleftrightarrow>
     from_s \<noteq> to_s \<and> to_s \<in> set (CONTRACT_STATUS_TRANSITIONS from_s)"

subsection \<open>Filters the bulk endpoints accept\<close>

definition MAX_BULK_CONTRACT_TARGETS :: nat where
  "MAX_BULK_CONTRACT_TARGETS = 1000"

definition BULK_RESOLVE_PAGE_SIZE :: nat where
  "BULK_RESOLVE_PAGE_SIZE = 200"

definition BULK_FILTER_ALLOWED_KEYS :: "string list" where
  "BULK_FILTER_ALLOWED_KEYS =
     [''search'', ''status'', ''type'', ''risk_level'', ''owner_user_id'', ''department'', ''tag'', ''expiring_in_days'']"

definition BULK_FILTER_IGNORED_KEYS :: "string list" where
  "BULK_FILTER_IGNORED_KEYS = [''page'', ''per_page'', ''sort'', ''order'']"

fun value_list :: "filter_value \<Rightarrow> string list" where
  "value_list (One v) = [v]"
| "value_list (Many vs) = vs"

definition nonblank_values :: "filter_value \<Rightarrow> string list" where
  "nonblank_values raw = filter (\<lambda>v. js_trim v \<noteq> []) (value_list raw)"

definition sanitize_entry ::
  "(string \<times> string) list \<times> string list \<Rightarrow> string \<times> filter_value \<Rightarrow> (string \<times> string) list \<times> string list" where
  "sanitize_entry acc entry =
     (case acc of (filter_s, unsupported) \<Rightarrow> case entry of (key, raw) \<Rightarrow>
        (if key \<in> set BULK_FILTER_IGNORED_KEYS then acc
         else (let nonEmpty = nonblank_values raw
               in if nonEmpty = [] then acc
                  else if key \<notin> set BULK_FILTER_ALLOWED_KEYS \<or> 1 < length nonEmpty
                  then (filter_s, unsupported @ [key])
                  else (AList.update key (js_trim (hd nonEmpty)) filter_s, unsupported))))"

definition sanitizeBulkFilter :: "filter_query \<Rightarrow> (string \<times> string) list \<times> string list" where
  "sanitizeBulkFilter query = foldl sanitize_entry ([], []) query"

datatype bulk_plan =
    Plan_ids "string list"
  | Plan_filter "(string \<times> string) list"
  | Plan_resolve filter_query "string list"

fun planBulkScope :: "selection_scope \<Rightarrow> bulk_plan" where
  "planBulkScope (Page_scope ids) = Plan_ids ids"
| "planBulkScope (All_matching q ex) =
     (case sanitizeBulkFilter q of (filter_s, unsupported) \<Rightarrow>
        if unsupported = [] \<and> ex = [] then Plan_filter filter_s else Plan_resolve q ex)"

definition split_entry ::
  "string option \<times> filter_query \<Rightarrow> string \<times> filter_value \<Rightarrow> string option \<times> filter_query" where
  "split_entry acc entry =
     (case acc of (search, filters) \<Rightarrow> case entry of (key, v) \<Rightarrow>
        (if key \<in> set BULK_FILTER_IGNORED_KEYS then acc
         else if key = ''search''
         then (case v of One t \<Rightarrow> (if t \<noteq> [] then Some t else search, filters) | Many vs \<Rightarrow> acc)
         else (search, AList.update key v filters)))"

definition splitScopeQuery :: "filter_query \<Rightarrow> string option \<times> filter_query" where
  "splitScopeQuery query = foldl split_entry (None, []) query"

subsection \<open>Resolving the targets\<close>

record list_page =
  lp_rows :: "string list"
  lp_total :: "nat option"

datatype scope_error = Too_many nat | Resolve_failed | Nothing_selected

datatype bulk_payload = Contract_ids "string list" | Bulk_filter "(string \<times> string) list"

text \<open>
  The loop over the pages. It goes on only after a page that adds ids and stays below the total, which is at most the
  cap, so it ends whatever the server answers.
\<close>

function collect_pages :: "(nat \<Rightarrow> list_page option) \<Rightarrow> nat \<Rightarrow> string list \<Rightarrow> scope_error + string list" where
  "collect_pages fetch page ids =
     (case fetch page of
        None \<Rightarrow> Inl Resolve_failed
      | Some result \<Rightarrow>
          (let tot = (case lp_total result of None \<Rightarrow> length (lp_rows result) | Some t \<Rightarrow> t);
               ids' = ids @ lp_rows result
           in if MAX_BULK_CONTRACT_TARGETS < tot then Inl (Too_many tot)
              else if lp_rows result = [] \<or> tot \<le> length ids' then Inr ids'
              else collect_pages fetch (page + 1) ids'))"
  by pat_completeness auto

termination collect_pages
  by (relation "measure (\<lambda>(fetch, page, ids). MAX_BULK_CONTRACT_TARGETS - length ids)")
    (auto simp: length_greater_0_conv [symmetric] split: option.splits simp del: length_greater_0_conv)

declare collect_pages.simps [simp del]

definition drop_excluded :: "string list \<Rightarrow> scope_error + string list \<Rightarrow> scope_error + bulk_payload" where
  "drop_excluded excludedIds resolved =
     (case resolved of
        Inl e \<Rightarrow> Inl e
      | Inr ids \<Rightarrow>
          (let contractIds = filter (\<lambda>i. i \<notin> set excludedIds) ids
           in if contractIds = [] then Inl Nothing_selected else Inr (Contract_ids contractIds)))"

definition resolveBulkPayload ::
  "(string option \<times> filter_query \<Rightarrow> nat \<Rightarrow> list_page option) \<Rightarrow> selection_scope \<Rightarrow> scope_error + bulk_payload" where
  "resolveBulkPayload list_contracts scope =
     (case planBulkScope scope of
        Plan_ids ids \<Rightarrow> if ids = [] then Inl Nothing_selected else Inr (Contract_ids ids)
      | Plan_filter f \<Rightarrow> Inr (Bulk_filter f)
      | Plan_resolve q ex \<Rightarrow> drop_excluded ex (collect_pages (list_contracts (splitScopeQuery q)) 1 []))"

subsection \<open>The bulk status dialog\<close>

record contract_row =
  cr_id :: string
  cr_status :: contract_status

definition selected_rows :: "contract_row list \<Rightarrow> string list \<Rightarrow> contract_row list" where
  "selected_rows contracts selectedIds = filter (\<lambda>c. cr_id c \<in> set selectedIds) contracts"

definition valid_rows :: "contract_row list \<Rightarrow> string list \<Rightarrow> contract_status option \<Rightarrow> contract_row list" where
  "valid_rows contracts selectedIds target =
     (case target of
        None \<Rightarrow> []
      | Some t \<Rightarrow> filter (\<lambda>c. isAllowedContractTransition (cr_status c) t) (selected_rows contracts selectedIds))"

definition skipped_rows :: "contract_row list \<Rightarrow> string list \<Rightarrow> contract_status option \<Rightarrow> contract_row list" where
  "skipped_rows contracts selectedIds target =
     (case target of
        None \<Rightarrow> []
      | Some t \<Rightarrow> filter (\<lambda>c. \<not> isAllowedContractTransition (cr_status c) t) (selected_rows contracts selectedIds))"

datatype apply_result = Nothing_sent | Scope_refused scope_error | Bulk_request bulk_payload contract_status

definition is_all_matching :: "selection_scope option \<Rightarrow> bool" where
  "is_all_matching scope = (case scope of Some (All_matching q ex) \<Rightarrow> True | _ \<Rightarrow> False)"

definition handleApply ::
  "(string option \<times> filter_query \<Rightarrow> nat \<Rightarrow> list_page option) \<Rightarrow> selection_scope option \<Rightarrow> contract_row list \<Rightarrow>
   string list \<Rightarrow> contract_status option \<Rightarrow> bool \<Rightarrow> apply_result" where
  "handleApply list_contracts scope contracts selectedIds target submitting =
     (case target of
        None \<Rightarrow> Nothing_sent
      | Some t \<Rightarrow>
          (let valid = valid_rows contracts selectedIds target
           in if submitting \<or> (\<not> is_all_matching scope \<and> valid = []) then Nothing_sent
              else (case resolveBulkPayload list_contracts
                           (if is_all_matching scope then the scope else Page_scope (map cr_id valid)) of
                      Inl e \<Rightarrow> Scope_refused e
                    | Inr p \<Rightarrow> Bulk_request p t)))"

subsection \<open>The walk over the pages\<close>

lemma collect_pages_cong:
  assumes "\<And>n. page \<le> n \<Longrightarrow> n \<le> page + (MAX_BULK_CONTRACT_TARGETS - length ids - 1) \<Longrightarrow> fetch n = fetch' n"
  shows "collect_pages fetch page ids = collect_pages fetch' page ids"
  using assms
proof (induction fetch page ids rule: collect_pages.induct)
  case (1 fetch page ids)
  have here: "fetch page = fetch' page" using "1.prems" [of page] by simp
  show ?case
  proof (cases "fetch' page")
    case None
    with here show ?thesis by (simp add: collect_pages.simps)
  next
    case (Some r)
    let ?tot = "case lp_total r of None \<Rightarrow> length (lp_rows r) | Some t \<Rightarrow> t" and ?ids = "ids @ lp_rows r"
    show ?thesis
    proof (cases "MAX_BULK_CONTRACT_TARGETS < ?tot \<or> lp_rows r = [] \<or> ?tot \<le> length ?ids")
      case True
      with here Some show ?thesis by (subst (1 2) collect_pages.simps) (auto simp: Let_def)
    next
      case False
      then have len: "length ids < length ?ids" "length ?ids < MAX_BULK_CONTRACT_TARGETS"
        by (auto simp: length_greater_0_conv [symmetric] simp del: length_greater_0_conv)
      have "collect_pages fetch (page + 1) ?ids = collect_pages fetch' (page + 1) ?ids"
      proof (rule "1.IH" [OF _ refl refl])
        show "fetch page = Some r" using here Some by simp
        show "fetch n = fetch' n" if "page + 1 \<le> n" "n \<le> page + 1 + (MAX_BULK_CONTRACT_TARGETS - length ?ids - 1)" for n
          by (rule "1.prems") (use that len in linarith)+
      qed (use False in auto)
      with here Some False show ?thesis by (subst (1 2) collect_pages.simps) (simp add: Let_def)
    qed
  qed
qed

text \<open>Resolving an extended selection asks for at most a thousand pages, whatever the server answers: the result
  depends on the answers to the first thousand requests only.\<close>

theorem resolution_stops_within_cap:
  assumes "\<And>n. 1 \<le> n \<Longrightarrow> n \<le> 1000 \<Longrightarrow> fetch n = fetch' n"
  shows "collect_pages fetch 1 [] = collect_pages fetch' 1 []"
  by (rule collect_pages_cong) (use assms in \<open>simp add: MAX_BULK_CONTRACT_TARGETS_def\<close>)

theorem resolution_stops_within_cap_witness:
  "collect_pages (\<lambda>n. Some \<lparr>lp_rows = [''a''], lp_total = Some 900\<rparr>) 1 [] =
   collect_pages (\<lambda>n. if n \<le> 1000 then Some \<lparr>lp_rows = [''a''], lp_total = Some 900\<rparr> else None) 1 []"
  by (rule resolution_stops_within_cap) simp

text \<open>A server that serves a fixed list, \<open>k\<close> rows to a page.\<close>

definition serve :: "nat \<Rightarrow> string list \<Rightarrow> nat \<Rightarrow> list_page option" where
  "serve k xs n = Some \<lparr>lp_rows = take k (drop ((n - 1) * k) xs), lp_total = Some (length xs)\<rparr>"

lemma collect_pages_serve:
  assumes "0 < k" "length xs \<le> MAX_BULK_CONTRACT_TARGETS" "1 \<le> page"
  shows "collect_pages (serve k xs) page (take ((page - 1) * k) xs) = Inr xs"
  using assms(3)
proof (induction "length xs - (page - 1) * k" arbitrary: page rule: less_induct)
  case less
  let ?done = "take ((page - 1) * k) xs" and ?rows = "take k (drop ((page - 1) * k) xs)"
  have step: "?done @ ?rows = take (page * k) xs"
  proof -
    have "page * k = (page - 1) * k + k" using less.prems by (cases page) auto
    then show ?thesis by (simp add: take_add)
  qed
  show ?case
  proof (cases "?rows = [] \<or> length xs \<le> length (?done @ ?rows)")
    case True
    have "?done @ ?rows = xs"
    proof (cases "?rows = []")
      case True
      then have "length xs \<le> (page - 1) * k" using assms(1) by auto
      with True show ?thesis by simp
    next
      case False
      with True have "length xs \<le> page * k" unfolding step by simp
      then show ?thesis unfolding step by simp
    qed
    moreover have "collect_pages (serve k xs) page ?done = Inr (?done @ ?rows)"
      using True assms(2) unfolding collect_pages.simps [of _ page] serve_def Let_def by simp
    ultimately show ?thesis by simp
  next
    case False
    then have more: "page * k < length xs" unfolding step by auto
    have "collect_pages (serve k xs) page ?done = collect_pages (serve k xs) (page + 1) (?done @ ?rows)"
      using False assms(2)
      by (subst collect_pages.simps, simp only: serve_def Let_def option.case list_page.simps if_False not_less [symmetric])
    also have "\<dots> = collect_pages (serve k xs) (page + 1) (take ((page + 1 - 1) * k) xs)"
      unfolding step by simp
    also have "\<dots> = Inr xs"
    proof (rule less.hyps)
      have "(page - 1) * k < page * k" using assms(1) less.prems by (cases page) auto
      with more have "length xs - page * k < length xs - (page - 1) * k" by (simp only: diff_less_mono2)
      then show "length xs - (page + 1 - 1) * k < length xs - (page - 1) * k" by (simp only: add_diff_cancel_right')
    qed simp
    finally show ?thesis .
  qed
qed

lemma resolved_payload:
  assumes "planBulkScope scope = Plan_resolve q ex" "0 < k" "length xs \<le> MAX_BULK_CONTRACT_TARGETS"
  shows "resolveBulkPayload (\<lambda>query. serve k xs) scope =
    (if filter (\<lambda>i. i \<notin> set ex) xs = [] then Inl Nothing_selected
     else Inr (Contract_ids (filter (\<lambda>i. i \<notin> set ex) xs)))"
  using collect_pages_serve [OF assms(2,3), of 1]
  by (simp add: resolveBulkPayload_def assms(1) drop_excluded_def Let_def)

text \<open>When a user has extended a selection over a result of at most a thousand contracts and unchecked some of
  them, the bulk request addresses the matching contracts except exactly the excluded ones, in the order of the list
  and whatever the size of the server's pages; on the page in view these are exactly the checked rows.\<close>

theorem bulk_targets_are_checked_rows:
  assumes "distinct (map fst f)" "list_all event_ok es" "s = foldl table_step (table_mounted ids f) es"
    and "ts_scope s = All_matching q ex" "ex \<noteq> []" "set (ts_page s) \<subseteq> set xs"
    and "0 < k" "length xs \<le> MAX_BULK_CONTRACT_TARGETS"
    and "targets = filter (\<lambda>i. i \<notin> set ex) xs"
  shows "resolveBulkPayload (\<lambda>query. serve k xs) (ts_scope s) =
      (if targets = [] then Inl Nothing_selected else Inr (Contract_ids targets)) \<and>
    set (ts_checked s) = set targets \<inter> set (ts_page s)"
proof
  have "planBulkScope (ts_scope s) = Plan_resolve q ex"
    using assms(4,5) by (simp split: prod.split)
  then show "resolveBulkPayload (\<lambda>query. serve k xs) (ts_scope s) =
      (if targets = [] then Inl Nothing_selected else Inr (Contract_ids targets))"
    using resolved_payload assms(7,8,9) by simp
  have "ts_checked s = filter (\<lambda>i. i \<notin> set ex) (ts_page s)"
    using table_run_ok [OF assms(1,2), of ids] assms(3,4) by (simp add: selection_ok_def)
  with assms(6,9) show "set (ts_checked s) = set targets \<inter> set (ts_page s)" by auto
qed

theorem bulk_targets_are_checked_rows_witness:
  "resolveBulkPayload (\<lambda>query. serve 2 [''a'', ''b'', ''c''])
     (ts_scope (foldl table_step (table_mounted [''a'', ''b''] []) [Extend_selection, Check_row ''a'' False])) =
   Inr (Contract_ids [''b'', ''c''])"
  using bulk_targets_are_checked_rows [OF _ _ refl _ _ _ _ _ refl, of "[]" "[Extend_selection, Check_row ''a'' False]"
      "[''a'', ''b'']" "[]" "[''a'']" "[''a'', ''b'', ''c'']" 2]
  by (simp add: table_mounted_def EMPTY_SELECTION_SCOPE_def dispatch_scope_def sync_rows_def onRowSelectionChange_def
      check_ids_def mark_row_def js_uniq_def normalizeFilterQuery_def map_filter_def MAX_BULK_CONTRACT_TARGETS_def)

subsection \<open>The filter a bulk endpoint receives\<close>

definition kept_entry :: "(string \<times> string) list \<Rightarrow> string \<times> filter_value \<Rightarrow> bool" where
  "kept_entry f entry \<longleftrightarrow>
     fst entry \<in> set BULK_FILTER_IGNORED_KEYS \<or> nonblank_values (snd entry) = [] \<or>
     fst entry \<in> set BULK_FILTER_ALLOWED_KEYS \<and>
       (\<exists>v. nonblank_values (snd entry) = [v] \<and> map_of f (fst entry) = Some (js_trim v))"

lemma sanitize_entry_unsupported: "snd acc \<noteq> [] \<Longrightarrow> snd (sanitize_entry acc e) \<noteq> []"
  by (auto simp: sanitize_entry_def Let_def split: prod.splits)

lemma sanitize_keys: "fst ` set (fst (sanitize_entry acc e)) \<subseteq> insert (fst e) (fst ` set (fst acc))"
  by (auto simp: sanitize_entry_def Let_def update_conv' dom_update split: prod.splits)

lemma sanitize_entry_keeps:
  assumes "kept_entry (fst acc) e" "fst e \<noteq> fst e'"
  shows "kept_entry (fst (sanitize_entry acc e')) e"
  using assms by (auto simp: kept_entry_def sanitize_entry_def Let_def update_conv' split: prod.splits)

lemma sanitize_entry_adds:
  assumes "snd (sanitize_entry acc e) = []"
  shows "kept_entry (fst (sanitize_entry acc e)) e"
proof (cases "nonblank_values (snd e)")
  case Nil
  then show ?thesis by (simp add: kept_entry_def)
next
  case (Cons v vs)
  with assms show ?thesis
    by (cases vs) (auto simp: kept_entry_def sanitize_entry_def Let_def update_conv' split: prod.splits if_splits)
qed

lemma sanitize_run:
  assumes "snd (foldl sanitize_entry acc es) = []" "distinct (map fst es)" "\<And>e. e \<in> set done \<Longrightarrow> kept_entry (fst acc) e"
    "fst ` set done \<inter> fst ` set es = {}"
  shows "\<forall>e \<in> set done \<union> set es. kept_entry (fst (foldl sanitize_entry acc es)) e"
  using assms
proof (induction es arbitrary: acc "done")
  case Nil
  then show ?case by simp
next
  case (Cons e es)
  have "snd (sanitize_entry acc e) = []"
  proof (rule ccontr)
    assume n: "snd (sanitize_entry acc e) \<noteq> []"
    have "snd (foldl sanitize_entry a xs) \<noteq> []" if "snd a \<noteq> []" for a and xs :: "(string \<times> filter_value) list"
      using that sanitize_entry_unsupported by (induction xs arbitrary: a) auto
    from this [OF n] Cons.prems(1) show False by simp
  qed
  have "\<forall>x \<in> set (e # done) \<union> set es. kept_entry (fst (foldl sanitize_entry (sanitize_entry acc e) es)) x"
  proof (rule Cons.IH)
    show "kept_entry (fst (sanitize_entry acc e)) x" if "x \<in> set (e # done)" for x
    proof (cases "x = e")
      case True
      then show ?thesis using sanitize_entry_adds \<open>snd (sanitize_entry acc e) = []\<close> by simp
    next
      case False
      with that have "x \<in> set done" by simp
      moreover have "fst x \<noteq> fst e"
      proof -
        have "fst x \<in> fst ` set done" using \<open>x \<in> set done\<close> by (rule imageI)
        moreover have "fst e \<notin> fst ` set done" using Cons.prems(4) by auto
        ultimately show ?thesis by metis
      qed
      ultimately show ?thesis using Cons.prems(3) sanitize_entry_keeps by blast
    qed
  qed (use Cons.prems in auto)
  then show ?case by simp
qed

text \<open>C33. When an extended selection is sent as a filter, no condition is lost: nothing is excluded, and every key of
  the table's filter map that is not presentation only and says something is among the keys the endpoint accepts and is
  sent with its one value, trimmed.\<close>

theorem bulk_filter_never_broader:
  assumes "resolveBulkPayload list_contracts (All_matching q ex) = Inr (Bulk_filter f)" "distinct (map fst q)"
  shows "ex = [] \<and> list_all (kept_entry f) q"
proof -
  obtain g un where sn: "sanitizeBulkFilter q = (g, un)" by (cases "sanitizeBulkFilter q")
  with assms(1) have "un = []" "ex = []" "g = f"
    by (auto simp: resolveBulkPayload_def drop_excluded_def Let_def split: if_splits sum.splits)
  then show ?thesis
    using sanitize_run [of "([], [])" q "[]"] sn assms(2) by (simp add: sanitizeBulkFilter_def list_all_iff)
qed

theorem bulk_filter_never_broader_witness:
  "list_all (kept_entry [(''status'', ''active'')]) [(''status'', Many ['' active '']), (''page'', One ''2'')]"
proof -
  have "resolveBulkPayload (\<lambda>query n. None) (All_matching [(''status'', Many ['' active '']), (''page'', One ''2'')] []) =
      Inr (Bulk_filter [(''status'', ''active'')])"
    by code_simp
  from bulk_filter_never_broader [OF this] show ?thesis by simp
qed

subsection \<open>What the dialog sends\<close>

lemma page_mode_requests_legal:
  assumes "handleApply fetch scope contracts selectedIds target False = Bulk_request p t" "\<not> is_all_matching scope"
  shows "\<exists>ids. p = Contract_ids ids \<and> ids \<noteq> [] \<and>
    (\<forall>i \<in> set ids. i \<in> set selectedIds \<and>
       (\<exists>c \<in> set contracts. cr_id c = i \<and> isAllowedContractTransition (cr_status c) t))"
  using assms
  by (auto simp: handleApply_def resolveBulkPayload_def valid_rows_def selected_rows_def Let_def
      split: option.splits if_splits sum.splits)

text \<open>
  The dialog looks up the ticked ids among the rows it is given, which are those of the loaded page: rows ticked on
  another page are neither sent nor listed as skipped.
\<close>

lemma off_page_rows_silently_dropped:
  "handleApply fetch None [\<lparr>cr_id = ''b'', cr_status = Active\<rparr>] [''a'', ''b''] (Some Suspended) False =
     Bulk_request (Contract_ids [''b'']) Suspended \<and>
   skipped_rows [\<lparr>cr_id = ''b'', cr_status = Active\<rparr>] [''a'', ''b''] (Some Suspended) = []"
  by (simp add: handleApply_def valid_rows_def selected_rows_def skipped_rows_def Let_def resolveBulkPayload_def
      is_all_matching_def isAllowedContractTransition_def)

text \<open>Only the walk over the pages enforces the cap.\<close>

lemma cap_not_enforced_on_ids: "ids \<noteq> [] \<Longrightarrow> resolveBulkPayload fetch (Page_scope ids) = Inr (Contract_ids ids)"
  by (simp add: resolveBulkPayload_def)

lemma cap_not_enforced_on_filter: "resolveBulkPayload fetch (All_matching [] []) = Inr (Bulk_filter [])"
  by (simp add: resolveBulkPayload_def sanitizeBulkFilter_def)

end
