(* ===== verification/JsDate.thy ===== *)
theory JsDate
  imports Web
begin

section \<open>The UTC calendar of Date\<close>

text \<open>
  The part of \<open>Date\<close> the sources use: the UTC calendar date of epoch milliseconds, \<open>Date.UTC\<close> with its overflow
  of months and days, and the text of an instant at midnight. A month is numbered from January of the year 0.
\<close>

text \<open>The first day of a month, in days since 1970-01-01. The year counts from March, so a leap day is its last day.\<close>

definition month_start :: "int \<Rightarrow> int" where
  "month_start k =
     (let j = k - 2; y = j div 12; mp = j mod 12
      in 365 * y + y div 4 - y div 100 + y div 400 + (153 * mp + 2) div 5 - 719468)"

text \<open>The month of a day: the average length of a month gives it up to one.\<close>

definition month_of_day :: "int \<Rightarrow> int" where
  "month_of_day day =
     (let k = (day + 719468) * 4800 div 146097 + 2
      in if month_start (k + 1) \<le> day then k + 1 else if day < month_start k then k - 1 else k)"

definition epoch_day :: "rat \<Rightarrow> int" where
  "epoch_day ms = \<lfloor>ms / 86400000\<rfloor>"

definition civil_of_day :: "int \<Rightarrow> int \<times> int \<times> int" where
  "civil_of_day day =
     (let k = month_of_day day in (k div 12, k mod 12 + 1, day - month_start k + 1))"

definition civil_date :: "rat \<Rightarrow> int \<times> int \<times> int" where
  "civil_date ms = civil_of_day (epoch_day ms)"

text \<open>\<open>Date.UTC(year, month, day)\<close>, the month from 0.\<close>

definition date_UTC_day :: "int \<Rightarrow> int \<Rightarrow> int \<Rightarrow> int" where
  "date_UTC_day year month day = month_start (12 * year + month) + day - 1"

definition pad2 :: "int \<Rightarrow> string" where
  "pad2 n = (let t = int_text n in replicate (2 - length t) CHR ''0'' @ t)"

definition pad4 :: "int \<Rightarrow> string" where
  "pad4 n = (let t = int_text n in replicate (4 - length t) CHR ''0'' @ t)"

text \<open>\<open>toISOString\<close> at midnight, for the years 0 to 9999.\<close>

definition iso_midnight :: "int \<Rightarrow> string" where
  "iso_midnight day =
     (case civil_of_day day of (y, m, d) \<Rightarrow>
        pad4 y @ ''-'' @ pad2 m @ ''-'' @ pad2 d @ ''T00:00:00.000Z'')"

lemma civil_date_examples:
  "civil_date 0 = (1970, 1, 1)" "civil_date 951782400000 = (2000, 2, 29)" "civil_date (- 1) = (1969, 12, 31)"
  "iso_midnight (date_UTC_day 2026 1 31) = ''2026-03-03T00:00:00.000Z''"
  by code_simp+

subsection \<open>Months are 28 to 31 days long\<close>

lemma month_parts:
  fixes j :: int
  obtains y mp where "j = 12 * y + mp" "0 \<le> mp" "mp < 12" "j div 12 = y" "j mod 12 = mp"
  using mult_div_mod_eq [of 12 j] pos_mod_bound [of 12 j] pos_mod_sign [of 12 j] by (metis zero_less_numeral)

lemma parts_unique: "0 \<le> r \<Longrightarrow> r < 12 \<Longrightarrow> (12 * q + r) div 12 = q \<and> (12 * q + r) mod 12 = r" for q r :: int
  by simp

lemma div_bounds: "0 < m \<Longrightarrow> m * (x div m) \<le> x" "0 < m \<Longrightarrow> x \<le> m * (x div m) + (m - 1)" for x m :: int
  using mult_div_mod_eq [of m x] pos_mod_sign [of m x] pos_mod_bound [of m x] by linarith+

lemma div_succ:
  fixes m y :: int
  assumes "0 < m"
  shows "(y + 1) div m = y div m + (if m dvd y + 1 then 1 else 0)"
proof (cases "m dvd y + 1")
  case True
  then obtain q where q: "y + 1 = m * q" by (auto elim: dvdE)
  have "y div m = q - 1" by (rule int_div_pos_eq [where r = "m - 1"]) (use q assms in \<open>simp_all add: algebra_simps\<close>)
  with True q assms show ?thesis by simp
next
  case False
  let ?r = "y mod m"
  have y: "y = m * (y div m) + ?r" "0 \<le> ?r" "?r < m" using assms by simp_all
  have "?r \<noteq> m - 1"
  proof
    assume "?r = m - 1"
    with y(1) have "y + 1 = m * (y div m + 1)" by (simp add: algebra_simps)
    with False show False by (metis dvd_triv_left)
  qed
  then have "(y + 1) div m = y div m"
    by (intro int_div_pos_eq [where r = "?r + 1"]) (use y in linarith)+
  with False show ?thesis by simp
qed

lemma div5_bounds: "5 * (x div 5) \<le> x" "x \<le> 5 * (x div 5) + 4" for x :: int
  using div_bounds [of 5 x] by simp_all

lemma month_step_estimate:
  fixes a b mp :: int
  assumes "5 * a \<le> 153 * mp + 2" "153 * mp + 2 \<le> 5 * a + 4" "5 * b \<le> 153 * (mp + 1) + 2" "153 * (mp + 1) + 2 \<le> 5 * b + 4"
  shows "a + 28 \<le> b \<and> b \<le> a + 31"
proof
  show "a + 28 \<le> b" using assms(1,4) by (simp add: distrib_left)
  show "b \<le> a + 31" using assms(2,3) by (simp add: distrib_left)
qed

lemma month_start_step: "month_start k + 28 \<le> month_start (k + 1)" "month_start (k + 1) \<le> month_start k + 31"
proof -
  obtain y mp where j: "k - 2 = 12 * y + mp" "0 \<le> mp" "mp < 12" "(k - 2) div 12 = y" "(k - 2) mod 12 = mp"
    by (rule month_parts)
  have "month_start k + 28 \<le> month_start (k + 1) \<and> month_start (k + 1) \<le> month_start k + 31"
  proof (cases "mp < 11")
    case True
    have "k + 1 - 2 = 12 * y + (mp + 1)" using j(1) by simp
    with parts_unique [of "mp + 1" y] True j(2) have n: "(k + 1 - 2) div 12 = y" "(k + 1 - 2) mod 12 = mp + 1"
      by (simp_all only:)
    have "(153 * mp + 2) div 5 + 28 \<le> (153 * (mp + 1) + 2) div 5 \<and>
        (153 * (mp + 1) + 2) div 5 \<le> (153 * mp + 2) div 5 + 31"
      by (rule month_step_estimate) (rule div5_bounds)+
    then show ?thesis unfolding month_start_def Let_def j(4,5) n by (simp only: add.assoc) simp
  next
    case False
    with j(3) have mp: "mp = 11" by simp
    have "k + 1 - 2 = 12 * (y + 1)" using j(1) mp by simp
    then have n: "(k + 1 - 2) div 12 = y + 1" "(k + 1 - 2) mod 12 = 0" by simp_all
    have "(100::int) dvd y + 1 \<Longrightarrow> 4 dvd y + 1" "(400::int) dvd y + 1 \<Longrightarrow> 100 dvd y + 1"
      by (auto elim: dvd_trans [rotated])
    then have "y div 4 - y div 100 + y div 400 \<le> (y + 1) div 4 - (y + 1) div 100 + (y + 1) div 400"
      "(y + 1) div 4 - (y + 1) div 100 + (y + 1) div 400 \<le> (y div 4 - y div 100 + y div 400) + 1"
      by (auto simp: div_succ)
    then show ?thesis unfolding month_start_def Let_def j(4,5) n mp by simp
  qed
  then show "month_start k + 28 \<le> month_start (k + 1)" "month_start (k + 1) \<le> month_start k + 31" by simp_all
qed

lemma month_start_add: "month_start k + 28 * int n \<le> month_start (k + int n)"
  "month_start (k + int n) \<le> month_start k + 31 * int n"
proof (induction n)
  case (Suc n)
  have e: "k + int (Suc n) = k + int n + 1" by simp
  case 1 then show ?case using Suc month_start_step [of "k + int n"] unfolding e by simp
  case 2 then show ?case using Suc month_start_step [of "k + int n"] unfolding e by simp
qed simp_all

subsection \<open>The estimate is right up to one month\<close>

lemma day_estimate:
  fixes y :: int
  assumes "4 * q4 \<le> y" "y \<le> 4 * q4 + 3" "100 * q100 \<le> y" "y \<le> 100 * q100 + 99" "400 * q400 \<le> y"
    "y \<le> 400 * q400 + 399" "5 * q5 \<le> 153 * mp + 2" "153 * mp + 2 \<le> 5 * q5 + 4" "0 \<le> mp" "mp < 12"
  shows "146097 * (12 * y + mp) - 4800 * 3 \<le> 4800 * (365 * y + q4 - q100 + q400 + q5)"
    and "4800 * (365 * y + q4 - q100 + q400 + q5) \<le> 146097 * (12 * y + mp) + 4800 * 4"
proof -
  have "1200 * y - 3600 \<le> 4800 * q4" "4800 * q4 \<le> 1200 * y" "48 * y - 4752 \<le> 4800 * q100" "4800 * q100 \<le> 48 * y"
    "12 * y - 4788 \<le> 4800 * q400" "4800 * q400 \<le> 12 * y" "146880 * mp - 1920 \<le> 4800 * q5"
    "4800 * q5 \<le> 146880 * mp + 1920"
    using assms(1-8) by simp_all
  then show "146097 * (12 * y + mp) - 4800 * 3 \<le> 4800 * (365 * y + q4 - q100 + q400 + q5)"
    "4800 * (365 * y + q4 - q100 + q400 + q5) \<le> 146097 * (12 * y + mp) + 4800 * 4"
    using assms(9,10) by (simp_all add: algebra_simps)
qed

lemma month_start_near:
  "146097 * (k - 2) - 4800 * 3 \<le> 4800 * (month_start k + 719468)"
  "4800 * (month_start k + 719468) \<le> 146097 * (k - 2) + 4800 * 4"
proof -
  obtain y mp where j: "k - 2 = 12 * y + mp" "0 \<le> mp" "mp < 12" "(k - 2) div 12 = y" "(k - 2) mod 12 = mp"
    by (rule month_parts)
  have e: "month_start k + 719468 = 365 * y + y div 4 - y div 100 + y div 400 + (153 * mp + 2) div 5"
    unfolding month_start_def Let_def j(4,5) by simp
  note q = div_bounds
  note d = day_estimate [OF q(1) [of 4 y] _ q(1) [of 100 y] _ q(1) [of 400 y] _ q(1) [of 5 "153 * mp + 2"] _ j(2,3)]
  show "146097 * (k - 2) - 4800 * 3 \<le> 4800 * (month_start k + 719468)"
    unfolding e j(1) by (rule d(1)) (use q(2) [of 4 y] q(2) [of 100 y] q(2) [of 400 y] q(2) [of 5 "153 * mp + 2"] in simp_all)
  show "4800 * (month_start k + 719468) \<le> 146097 * (k - 2) + 4800 * 4"
    unfolding e j(1) by (rule d(2)) (use q(2) [of 4 y] q(2) [of 100 y] q(2) [of 400 y] q(2) [of 5 "153 * mp + 2"] in simp_all)
qed

lemma month_of_day_bounds: "month_start (month_of_day day) \<le> day" "day < month_start (month_of_day day + 1)"
proof -
  define j where "j = (day + 719468) * 4800 div 146097"
  have b: "146097 * j \<le> (day + 719468) * 4800" "(day + 719468) * 4800 < 146097 * j + 146097"
    using mult_div_mod_eq [of 146097 "(day + 719468) * 4800"] pos_mod_sign [of 146097 "(day + 719468) * 4800"]
      pos_mod_bound [of 146097 "(day + 719468) * 4800"]
    unfolding j_def by linarith+
  have m: "month_of_day day =
      (if month_start (j + 3) \<le> day then j + 3 else if day < month_start (j + 2) then j + 1 else j + 2)"
    unfolding month_of_day_def Let_def j_def [symmetric] by (simp add: ac_simps)
  have "month_start (j + 1) \<le> day"
    using b(1) month_start_near(2) [of "j + 1"] by simp
  moreover have "day < month_start (j + 4)"
    using b(2) month_start_near(1) [of "j + 4"] by simp
  ultimately show "month_start (month_of_day day) \<le> day" "day < month_start (month_of_day day + 1)"
    unfolding m by (auto simp: ac_simps)
qed

lemma civil_of_day_UTC:
  assumes "civil_of_day day = (y, m, d)"
  shows "date_UTC_day y (m - 1) d = day" "1 \<le> m" "m \<le> 12" "1 \<le> d" "d \<le> 31"
proof -
  from assms have e: "y = month_of_day day div 12" "m = month_of_day day mod 12 + 1"
    "d = day - month_start (month_of_day day) + 1" by (simp_all add: civil_of_day_def Let_def)
  then have "12 * y + (m - 1) = month_of_day day" by simp
  then show "date_UTC_day y (m - 1) d = day" unfolding date_UTC_day_def by (simp add: e(3))
  show "1 \<le> m" "m \<le> 12" using e(2) pos_mod_sign [of 12 "month_of_day day"] pos_mod_bound [of 12 "month_of_day day"]
    by simp_all
  show "1 \<le> d" "d \<le> 31" using e(3) month_of_day_bounds [of day] month_start_step [of "month_of_day day"] by simp_all
qed

text \<open>Adding months with \<open>Date.UTC\<close> moves the day by 28 to 31 days a month.\<close>

lemma add_months_bounds:
  assumes "civil_of_day day = (y, m, d)"
  shows "day + 28 * int n \<le> date_UTC_day y (m - 1 + int n) d" "date_UTC_day y (m - 1 + int n) d \<le> day + 31 * int n"
  using civil_of_day_UTC(1) [OF assms] month_start_add [of "12 * y + (m - 1)" n]
  by (simp_all add: date_UTC_day_def add.assoc)

end
