(* ===== verification/Recovery.thy ===== *)
theory Recovery
  imports JsDate "HOL-Library.Product_Lexorder"
begin

section \<open>Recovery clocks\<close>

text \<open>
  \<open>components/product/dashboard/recovery-utils.ts\<close> and \<open>app/(dashboard)/dr/_lib/rto.ts\<close>: the states of a
  failover run, the evaluation of its recovery time against the objective, the live countdown and its breach
  state. Seconds are exact rationals; \<open>Date.parse\<close> is an argument that gives epoch milliseconds, or \<open>None\<close>
  for a text that is no date.
\<close>

subsection \<open>Run states\<close>

definition js_upper_char :: "char \<Rightarrow> char" where
  "js_upper_char c =
     (if is_lower c \<or> 224 \<le> code_unit c \<and> code_unit c \<le> 254 \<and> code_unit c \<noteq> 247
      then char_of (code_unit c - 32) else c)"

definition js_toUpperCase :: "string \<Rightarrow> string" where
  "js_toUpperCase s = map js_upper_char s"

definition FAILOVER_RUN_STATES :: "string list" where
  "FAILOVER_RUN_STATES =
     [''INITIATED'', ''QUIESCING'', ''SYNC_CONFIRMED'', ''AWAITING_APPROVAL'', ''APPROVED'', ''EXECUTING'',
      ''VALIDATING'', ''ATTESTED'', ''COMPLETED'', ''FAILED'', ''CANCELLED'', ''ROLLED_BACK'']"

definition STATUS_TO_GATE_INDEX :: "(string \<times> nat) list" where
  "STATUS_TO_GATE_INDEX =
     [(''INITIATED'', 0), (''QUIESCING'', 0), (''SYNC_CONFIRMED'', 1), (''AWAITING_APPROVAL'', 1), (''APPROVED'', 2),
      (''EXECUTING'', 2), (''VALIDATING'', 2), (''ATTESTED'', 3), (''COMPLETED'', 4), (''FAILED'', 0),
      (''CANCELLED'', 0), (''ROLLED_BACK'', 0)]"

definition upper_status :: "string option \<Rightarrow> string" where
  "upper_status status = js_toUpperCase (case status of None \<Rightarrow> [] | Some s \<Rightarrow> s)"

definition gateIndexForStatus :: "string option \<Rightarrow> nat" where
  "gateIndexForStatus status =
     (if status = None \<or> status = Some [] then 0 else js_get_or 0 STATUS_TO_GATE_INDEX (upper_status status))"

definition TERMINAL_FAIL_STATES :: "string list" where
  "TERMINAL_FAIL_STATES = [''FAILED'', ''CANCELLED'', ''ROLLED_BACK'']"

definition TERMINAL_SUCCESS_STATES :: "string list" where
  "TERMINAL_SUCCESS_STATES = [''ATTESTED'', ''COMPLETED'']"

definition ACTIVE_STATES :: "string list" where
  "ACTIVE_STATES = [''INITIATED'', ''QUIESCING'', ''SYNC_CONFIRMED'', ''APPROVED'', ''EXECUTING'', ''VALIDATING'']"

definition isTerminalFailure :: "string option \<Rightarrow> bool" where
  "isTerminalFailure status \<longleftrightarrow>
     (status \<noteq> None \<and> status \<noteq> Some []) \<and> upper_status status \<in> set TERMINAL_FAIL_STATES"

definition isTerminalSuccess :: "string option \<Rightarrow> bool" where
  "isTerminalSuccess status \<longleftrightarrow>
     (status \<noteq> None \<and> status \<noteq> Some []) \<and> upper_status status \<in> set TERMINAL_SUCCESS_STATES"

definition isAwaitingApproval :: "string option \<Rightarrow> bool" where
  "isAwaitingApproval status \<longleftrightarrow> upper_status status = ''AWAITING_APPROVAL''"

definition isRunActive :: "string option \<Rightarrow> bool" where
  "isRunActive status \<longleftrightarrow>
     upper_status status \<in> set ACTIVE_STATES \<or> upper_status status = ''AWAITING_APPROVAL''"

datatype status_tone = Danger | Success | Warning | Info | Neutral

definition toneForRunStatus :: "string option \<Rightarrow> status_tone" where
  "toneForRunStatus status =
     (let upper = upper_status status
      in if upper \<in> set TERMINAL_FAIL_STATES then Danger
         else if upper = ''COMPLETED'' \<or> upper = ''ATTESTED'' then Success
         else if upper = ''AWAITING_APPROVAL'' then Warning
         else if upper \<in> set ACTIVE_STATES then Info
         else Neutral)"

definition toneForHealth :: "string option \<Rightarrow> status_tone" where
  "toneForHealth health =
     (let h = js_toLowerCase (case health of None \<Rightarrow> [] | Some s \<Rightarrow> s)
      in if h \<in> set [''healthy'', ''streaming'', ''completed'', ''passed''] then Success
         else if h \<in> set [''warning'', ''watch'', ''degraded'', ''seeding''] then Warning
         else if h \<in> set [''critical'', ''error'', ''failed''] then Danger
         else if h = ''paused'' then Neutral
         else Info)"

subsection \<open>Objective against actual\<close>

record rto_evaluation =
  re_objective :: rat
  re_actual :: "rat option"
  re_elapsed :: "rat option"
  re_effective :: "rat option"
  re_breached :: bool
  re_atRisk :: bool
  re_ratio :: rat
  re_remaining :: "rat option"
  re_tone :: status_tone

definition coalesce :: "'a option \<Rightarrow> 'a option \<Rightarrow> 'a option" where
  "coalesce x y = (case x of None \<Rightarrow> y | Some v \<Rightarrow> Some v)"

definition evaluateRto :: "rat \<Rightarrow> rat option \<Rightarrow> rat option \<Rightarrow> rto_evaluation" where
  "evaluateRto objectiveSeconds actualSeconds elapsed_s =
     (let objective = max 0 objectiveSeconds;
          actual = map_option (max 0) actualSeconds;
          elapsed = map_option (max 0) elapsed_s;
          effective = coalesce actual elapsed;
          breached = (actual \<noteq> None \<and> 0 < objective \<and> objective < the actual);
          atRisk = (\<not> breached \<and> effective \<noteq> None \<and> 0 < objective \<and> objective \<le> the effective);
          ratio = (if effective \<noteq> None \<and> 0 < objective then the effective / objective else 0);
          remaining = (if effective \<noteq> None \<and> 0 < objective then Some (objective - the effective) else None);
          tone = (if breached then Danger else if atRisk then Warning else if actual \<noteq> None then Success else Info)
      in \<lparr>re_objective = objective, re_actual = actual, re_elapsed = elapsed, re_effective = effective,
          re_breached = breached, re_atRisk = atRisk, re_ratio = ratio, re_remaining = remaining, re_tone = tone\<rparr>)"

record rpo_evaluation =
  pe_rpo :: "rat option"
  pe_objective :: rat
  pe_lag :: "rat option"
  pe_breached :: bool
  pe_ratio :: rat
  pe_tone :: status_tone

definition evaluateRpo :: "rat option \<Rightarrow> rat \<Rightarrow> rat option \<Rightarrow> bool option \<Rightarrow> rpo_evaluation" where
  "evaluateRpo rpoSeconds objectiveSeconds lagSeconds breachesRpo =
     (let rpo = map_option (max 0) rpoSeconds;
          objective = max 0 objectiveSeconds;
          lag = map_option (max 0) lagSeconds;
          breached = (case breachesRpo of
              None \<Rightarrow> rpo \<noteq> None \<and> 0 < objective \<and> objective < the rpo
            | Some b \<Rightarrow> b);
          ratio = (if rpo \<noteq> None \<and> 0 < objective then the rpo / objective else 0);
          tone = (if breached then Danger else if 4 / 5 \<le> ratio then Warning
                  else if rpo = None then Neutral else Success)
      in \<lparr>pe_rpo = rpo, pe_objective = objective, pe_lag = lag, pe_breached = breached, pe_ratio = ratio,
          pe_tone = tone\<rparr>)"

subsection \<open>Durations as text\<close>

definition js_floor :: "rat \<Rightarrow> int" where
  "js_floor x = \<lfloor>x\<rfloor>"

definition round_int :: "rat \<Rightarrow> int" where
  "round_int x = \<lfloor>x + 1 / 2\<rfloor>"

text \<open>\<open>value % 60\<close> of a number that is not negative.\<close>

definition rat_mod :: "rat \<Rightarrow> int \<Rightarrow> rat" where
  "rat_mod x m = x - of_int (m * \<lfloor>x / of_int m\<rfloor>)"

definition formatDuration :: "rat option \<Rightarrow> string \<Rightarrow> string" where
  "formatDuration seconds naLabel =
     (case seconds of
        None \<Rightarrow> naLabel
      | Some s \<Rightarrow>
          (let v = max 0 s
           in if v < 60 then int_text (round_int v) @ ''s''
              else (let mins = js_floor (v / 60);
                        remSec = round_int (rat_mod v 60)
                    in if mins < 60
                       then (if 0 < remSec then int_text mins @ ''m '' @ int_text remSec @ ''s''
                             else int_text mins @ ''m'')
                       else (let hours = mins div 60; remMin = mins mod 60
                             in if 0 < remMin then int_text hours @ ''h '' @ int_text remMin @ ''m''
                                else int_text hours @ ''h''))))"

definition formatCountdown :: "rat option \<Rightarrow> string \<Rightarrow> string" where
  "formatCountdown seconds naLabel =
     (case seconds of
        None \<Rightarrow> naLabel
      | Some s \<Rightarrow>
          (let sign = (if s < 0 then ''-'' else []);
               total = js_floor \<bar>s\<bar>;
               hours = total div 3600;
               minutes = (total mod 3600) div 60;
               secs = total mod 60
           in if 0 < hours then sign @ pad2 hours @ '':'' @ pad2 minutes @ '':'' @ pad2 secs
              else sign @ pad2 minutes @ '':'' @ pad2 secs))"

definition toPercent :: "rat \<Rightarrow> int" where
  "toPercent ratio = max 0 (min 100 (round_int (ratio * 100)))"

subsection \<open>Streams\<close>

record stream_summary =
  ss_key :: string
  ss_breaches_rpo :: bool
  ss_rpo_seconds :: "rat option"
  ss_lag_seconds :: "rat option"

definition stream_key :: "stream_summary \<Rightarrow> nat \<times> rat" where
  "stream_key s =
     (if ss_breaches_rpo s then 0 else 1, - (case ss_rpo_seconds s of None \<Rightarrow> 0 | Some r \<Rightarrow> r))"

definition worstStreamByRpo :: "stream_summary list option \<Rightarrow> stream_summary option" where
  "worstStreamByRpo streams =
     (case streams of
        None \<Rightarrow> None
      | Some ss \<Rightarrow> if ss = [] then None else Some (hd (sort_key stream_key ss)))"

definition evaluateStreamRpo :: "stream_summary \<Rightarrow> rat \<Rightarrow> rpo_evaluation" where
  "evaluateStreamRpo reading objectiveSeconds =
     evaluateRpo (ss_rpo_seconds reading) objectiveSeconds (ss_lag_seconds reading) None"

subsection \<open>The clock of a run\<close>

record rto_run =
  rr_status :: string
  rr_objective :: rat
  rr_initiated_at :: "string option"
  rr_completed_at :: "string option"
  rr_actual :: "rat option"

datatype breach = On_track | At_risk | Breached

definition toEpochMs :: "(string \<Rightarrow> rat option) \<Rightarrow> string option \<Rightarrow> rat option" where
  "toEpochMs parse v = (case v of None \<Rightarrow> None | Some s \<Rightarrow> if s = [] then None else parse s)"

definition objectiveOf :: "'a rto_run_scheme \<Rightarrow> rat" where
  "objectiveOf run = max 0 (rr_objective run)"

definition elapsedSeconds :: "(string \<Rightarrow> rat option) \<Rightarrow> 'a rto_run_scheme \<Rightarrow> rat \<Rightarrow> rat option" where
  "elapsedSeconds parse run now =
     (case toEpochMs parse (rr_initiated_at run) of
        None \<Rightarrow> None
      | Some startMs \<Rightarrow>
          (let live = Some (max 0 ((now - startMs) / 1000))
           in if isRunActive (Some (rr_status run)) then live
              else (case rr_actual run of
                      Some a \<Rightarrow> Some (max 0 a)
                    | None \<Rightarrow>
                        (case toEpochMs parse (rr_completed_at run) of
                           Some endMs \<Rightarrow> Some (max 0 ((endMs - startMs) / 1000))
                         | None \<Rightarrow> live))))"

definition remainingToObjective :: "(string \<Rightarrow> rat option) \<Rightarrow> 'a rto_run_scheme \<Rightarrow> rat \<Rightarrow> rat option" where
  "remainingToObjective parse run now =
     (if objectiveOf run \<le> 0 then None
      else map_option (\<lambda>e. objectiveOf run - e) (elapsedSeconds parse run now))"

definition RTO_AT_RISK_THRESHOLD :: rat where
  "RTO_AT_RISK_THRESHOLD = 4 / 5"

definition breachState ::
  "(string \<Rightarrow> rat option) \<Rightarrow> rat option \<Rightarrow> rat option \<Rightarrow> 'a rto_run_scheme \<Rightarrow> rat \<Rightarrow> breach" where
  "breachState parse projectedSeconds atRiskThreshold run now =
     (let objective = objectiveOf run; elapsed = elapsedSeconds parse run now
      in if objective \<le> 0 \<or> elapsed = None then On_track
         else if \<not> isRunActive (Some (rr_status run))
         then (if objective < the elapsed then Breached else On_track)
         else if objective < the elapsed then Breached
         else (let threshold = (case atRiskThreshold of None \<Rightarrow> RTO_AT_RISK_THRESHOLD | Some t \<Rightarrow> t);
                   projected = map_option (max 0) projectedSeconds
               in if projected \<noteq> None \<and> objective < the projected then Breached
                  else (let measure = (case projected of None \<Rightarrow> the elapsed | Some p \<Rightarrow> max (the elapsed) p)
                        in if objective * threshold \<le> measure then At_risk else On_track)))"

definition activeRuns :: "'a rto_run_scheme list option \<Rightarrow> 'a rto_run_scheme list" where
  "activeRuns runs = filter (\<lambda>r. isRunActive (Some (rr_status r))) (case runs of None \<Rightarrow> [] | Some rs \<Rightarrow> rs)"

subsection \<open>What the states and clocks keep\<close>

text \<open>The focus stream breaches its objective when any stream does, and has the largest lag among those like it.\<close>

lemma worst_stream_is_worst:
  assumes "worstStreamByRpo (Some ss) = Some w" "s \<in> set ss"
  shows "stream_key w \<le> stream_key s"
proof -
  from assms have "sort_key stream_key ss \<noteq> []" "w = hd (sort_key stream_key ss)"
    by (auto simp: worstStreamByRpo_def split: if_splits simp flip: length_greater_0_conv)
  then obtain rest where "sort_key stream_key ss = w # rest" by (cases "sort_key stream_key ss") auto
  moreover have "sorted (map stream_key (sort_key stream_key ss))" by simp
  ultimately have "\<forall>x \<in> set (w # rest). stream_key w \<le> stream_key x" by auto
  moreover have "s \<in> set (sort_key stream_key ss)" using assms(2) by simp
  ultimately show ?thesis using \<open>sort_key stream_key ss = w # rest\<close> by auto
qed

lemma worst_stream_breaches:
  assumes "worstStreamByRpo (Some ss) = Some w" "s \<in> set ss" "ss_breaches_rpo s"
  shows "ss_breaches_rpo w"
  using worst_stream_is_worst [OF assms(1,2)] assms(3) by (auto simp: stream_key_def split: if_splits)

text \<open>Every state of the failover machine is in exactly one of the three groups.\<close>

lemma states_partitioned:
  "list_all (\<lambda>s. (isRunActive (Some s) \<and> \<not> isTerminalSuccess (Some s) \<and> \<not> isTerminalFailure (Some s)) \<or>
     (\<not> isRunActive (Some s) \<and> isTerminalSuccess (Some s) \<and> \<not> isTerminalFailure (Some s)) \<or>
     (\<not> isRunActive (Some s) \<and> \<not> isTerminalSuccess (Some s) \<and> isTerminalFailure (Some s))) FAILOVER_RUN_STATES"
  by code_simp

lemma groups_disjoint:
  "isRunActive s \<Longrightarrow> \<not> isTerminalSuccess s" "isRunActive s \<Longrightarrow> \<not> isTerminalFailure s"
  "isTerminalSuccess s \<Longrightarrow> \<not> isTerminalFailure s"
  by (auto simp: isRunActive_def isTerminalSuccess_def isTerminalFailure_def ACTIVE_STATES_def
      TERMINAL_SUCCESS_STATES_def TERMINAL_FAIL_STATES_def)

lemma elapsed_nonneg: "elapsedSeconds parse run now = Some e \<Longrightarrow> 0 \<le> e"
  by (auto simp: elapsedSeconds_def Let_def split: option.splits if_splits)

lemma inactive_breach_iff:
  assumes "\<not> isRunActive (Some (rr_status run))"
  shows "breachState parse p t run now = Breached \<longleftrightarrow>
    0 < objectiveOf run \<and> (\<exists>e. elapsedSeconds parse run now = Some e \<and> objectiveOf run < e)"
  using assms by (auto simp: breachState_def Let_def)

text \<open>A breach is never taken back: time passing moves a run only towards it.\<close>

fun breach_rank :: "breach \<Rightarrow> nat" where
  "breach_rank On_track = 0"
| "breach_rank At_risk = 1"
| "breach_rank Breached = 2"

lemma elapsed_mono:
  assumes "now \<le> later" "elapsedSeconds parse run now = Some e"
  shows "\<exists>e'. elapsedSeconds parse run later = Some e' \<and> e \<le> e'"
proof -
  have "(now - s) / 1000 \<le> (later - s) / 1000" for s
    using assms(1) by (simp add: divide_right_mono)
  then have "max 0 ((now - s) / 1000) \<le> max 0 ((later - s) / 1000)" for s
    by (meson max.mono order_refl)
  with assms(2) show ?thesis
    by (auto simp: elapsedSeconds_def Let_def split: option.splits if_splits)
qed

lemma elapsed_None_iff: "elapsedSeconds parse run now = None \<longleftrightarrow> toEpochMs parse (rr_initiated_at run) = None"
  by (auto simp: elapsedSeconds_def Let_def split: option.splits)

text \<open>As time passes the breach state of a run against its recovery objective only worsens, from on track over at
  risk to breached, whatever its status, its forecast and the threshold.\<close>

theorem breach_state_only_worsens:
  assumes "now \<le> later"
  shows "breach_rank (breachState parse p t run now) \<le> breach_rank (breachState parse p t run later)"
proof (cases "elapsedSeconds parse run now")
  case None
  then show ?thesis by (simp add: breachState_def)
next
  case (Some e)
  with elapsed_mono [OF assms] obtain e' where "elapsedSeconds parse run later = Some e'" "e \<le> e'" by blast
  with Some show ?thesis
    by (auto simp: breachState_def Let_def split: option.splits)
qed

theorem breach_state_only_worsens_witness:
  "breach_rank (breachState (\<lambda>s. Some 0) None None
      \<lparr>rr_status = ''EXECUTING'', rr_objective = 60, rr_initiated_at = Some ''t'', rr_completed_at = None, rr_actual = None\<rparr> 1000)
   \<le> breach_rank (breachState (\<lambda>s. Some 0) None None
      \<lparr>rr_status = ''EXECUTING'', rr_objective = 60, rr_initiated_at = Some ''t'', rr_completed_at = None, rr_actual = None\<rparr> 90000)"
  by (rule breach_state_only_worsens) simp

text \<open>Rounding the seconds after splitting off the minutes prints sixty of them.\<close>

lemma duration_prints_sixty_seconds:
  "formatDuration (Some (597 / 10)) ''n/a'' = ''60s''" "formatDuration (Some (1197 / 10)) ''n/a'' = ''1m 60s''"
  by code_simp+

text \<open>An overrun of less than a second shows as minus zero.\<close>

lemma countdown_minus_zero: "formatCountdown (Some (- 1 / 2)) ''--:--'' = ''-00:00''"
  by code_simp

end
