(* ===== verification/Insights.thy ===== *)
theory Insights
  imports Recovery JsNumber "HOL-Library.Product_Lexorder" "HOL-Library.Multiset"
begin

section \<open>Operations insights\<close>

text \<open>
  \<open>app/(dashboard)/dr/insights/_lib/insights-aggregation.ts\<close>: percentiles, the recovery-time attainment of a
  set of failover runs, the series of their durations, the monthly drill trend and the breaches of the recovery
  point objective. Sorting is stable, as \<open>Array.prototype.sort\<close> is; numbers are exact rationals.
\<close>

subsection \<open>Percentiles\<close>

definition interpolate :: "rat list \<Rightarrow> rat \<Rightarrow> rat" where
  "interpolate sorted_s rank =
     (let lowerIndex = nat \<lfloor>rank\<rfloor>; upperIndex = nat \<lceil>rank\<rceil>
      in if lowerIndex = upperIndex then sorted_s ! lowerIndex
         else (let weight = rank - of_int \<lfloor>rank\<rfloor>
               in sorted_s ! lowerIndex * (1 - weight) + sorted_s ! upperIndex * weight))"

definition percentile :: "rat list \<Rightarrow> rat \<Rightarrow> rat option" where
  "percentile vals fraction =
     (if vals = [] then None
      else (let sorted_s = sort vals
            in if length sorted_s = 1 then Some (sorted_s ! 0)
               else (let clamped = min 1 (max 0 fraction);
                         rank = clamped * of_nat (length sorted_s - 1)
                     in Some (interpolate sorted_s rank))))"

definition median :: "rat list \<Rightarrow> rat option" where
  "median vals = percentile vals (1 / 2)"

subsection \<open>Runs\<close>

record failover_run = rto_run +
  fr_id :: string

definition newest_key :: "(string \<Rightarrow> rat option) \<Rightarrow> failover_run \<Rightarrow> nat \<times> rat" where
  "newest_key parse r = (case toEpochMs parse (rr_initiated_at r) of None \<Rightarrow> (1, 0) | Some ms \<Rightarrow> (0, - ms))"

definition mostRecentRuns ::
  "(string \<Rightarrow> rat option) \<Rightarrow> failover_run list \<Rightarrow> int option \<Rightarrow> failover_run list" where
  "mostRecentRuns parse runs limit =
     (let sorted_s = sort_key (newest_key parse) runs
      in case limit of None \<Rightarrow> sorted_s | Some n \<Rightarrow> if n \<le> 0 then sorted_s else take (nat n) sorted_s)"

record run_stats =
  st_totalRuns :: nat
  st_terminalRuns :: nat
  st_measuredRuns :: nat
  st_metRtoRuns :: nat
  st_attainmentRate :: "rat option"
  st_medianDuration :: "rat option"
  st_p90Duration :: "rat option"
  st_activeRuns :: nat
  st_failedRuns :: nat

record run_acc =
  ra_terminal :: nat
  ra_measured :: nat
  ra_met :: nat
  ra_active :: nat
  ra_failed :: nat
  ra_durations :: "rat list"

definition count_run :: "(string \<Rightarrow> rat option) \<Rightarrow> rat \<Rightarrow> run_acc \<Rightarrow> failover_run \<Rightarrow> run_acc" where
  "count_run parse now a run =
     (let status = Some (rr_status run)
      in if isRunActive status then a\<lparr>ra_active := ra_active a + 1\<rparr>
         else if \<not> isTerminalSuccess status \<and> \<not> isTerminalFailure status then a
         else (let a1 = a\<lparr>ra_terminal := ra_terminal a + 1,
                          ra_failed := (if isTerminalFailure status then ra_failed a + 1 else ra_failed a)\<rparr>;
                   elapsed = elapsedSeconds parse run now;
                   a2 = (case elapsed of None \<Rightarrow> a1 | Some e \<Rightarrow> a1\<lparr>ra_durations := ra_durations a1 @ [e]\<rparr>);
                   objective = max 0 (rr_objective run)
               in if 0 < objective \<and> elapsed \<noteq> None
                  then a2\<lparr>ra_measured := ra_measured a2 + 1,
                          ra_met := (if breachState parse None None run now \<noteq> Breached then ra_met a2 + 1 else ra_met a2)\<rparr>
                  else a2))"

definition no_runs :: run_acc where
  "no_runs = \<lparr>ra_terminal = 0, ra_measured = 0, ra_met = 0, ra_active = 0, ra_failed = 0, ra_durations = []\<rparr>"

definition rate :: "nat \<Rightarrow> nat \<Rightarrow> rat option" where
  "rate part tot = (if 0 < tot then Some (of_nat part / of_nat tot) else None)"

definition computeRunPerformance :: "(string \<Rightarrow> rat option) \<Rightarrow> failover_run list \<Rightarrow> rat \<Rightarrow> run_stats" where
  "computeRunPerformance parse runs now =
     (let a = foldl (count_run parse now) no_runs runs
      in \<lparr>st_totalRuns = length runs, st_terminalRuns = ra_terminal a, st_measuredRuns = ra_measured a,
          st_metRtoRuns = ra_met a, st_attainmentRate = rate (ra_met a) (ra_measured a),
          st_medianDuration = median (ra_durations a), st_p90Duration = percentile (ra_durations a) (9 / 10),
          st_activeRuns = ra_active a, st_failedRuns = ra_failed a\<rparr>)"

subsection \<open>Calendar\<close>

definition monthKey :: "rat \<Rightarrow> string" where
  "monthKey ms = (case civil_date ms of (year, month, day) \<Rightarrow> int_text year @ ''-'' @ pad2 month)"

definition MONTH_NAMES :: "string list" where
  "MONTH_NAMES =
     [''Jan'', ''Feb'', ''Mar'', ''Apr'', ''May'', ''Jun'', ''Jul'', ''Aug'', ''Sep'', ''Oct'', ''Nov'', ''Dec'']"

definition month_name :: "js_num \<Rightarrow> string option" where
  "month_name n =
     (case n of
        Fin q \<Rightarrow> if q = of_int \<lfloor>q\<rfloor> \<and> 1 \<le> q \<and> q \<le> 12 then Some (MONTH_NAMES ! nat (\<lfloor>q\<rfloor> - 1)) else None
      | _ \<Rightarrow> None)"

definition monthLabel :: "string \<Rightarrow> string" where
  "monthLabel periodKey =
     (case js_split CHR ''-'' periodKey of
        year # month # _ \<Rightarrow>
          (case month_name (js_Number month) of Some n \<Rightarrow> n | None \<Rightarrow> month) @ '' '' @ year
      | _ \<Rightarrow> ''undefined '' @ periodKey)"

definition formatDayLabel :: "(string \<Rightarrow> rat option) \<Rightarrow> string option \<Rightarrow> string option" where
  "formatDayLabel parse v =
     (case toEpochMs parse v of
        None \<Rightarrow> None
      | Some ms \<Rightarrow> (case civil_date ms of (year, month, day) \<Rightarrow>
          Some (MONTH_NAMES ! nat (month - 1) @ '' '' @ pad2 day)))"

lemma month_labels: "monthKey 1781481600000 = ''2026-06''" "monthLabel ''2026-06'' = ''Jun 2026''"
  by code_simp+

subsection \<open>The series of durations\<close>

record duration_point =
  dp_runId :: string
  dp_label :: string
  dp_initiatedAt :: "string option"
  dp_actualSeconds :: rat
  dp_objectiveSeconds :: rat
  dp_breached :: bool

definition run_point :: "(string \<Rightarrow> rat option) \<Rightarrow> rat \<Rightarrow> failover_run \<Rightarrow> duration_point option" where
  "run_point parse now run =
     (let status = Some (rr_status run)
      in if isRunActive status then None
         else if \<not> isTerminalSuccess status \<and> \<not> isTerminalFailure status then None
         else (case elapsedSeconds parse run now of
                 None \<Rightarrow> None
               | Some elapsed \<Rightarrow>
                   (let objective = max 0 (rr_objective run)
                    in Some \<lparr>dp_runId = fr_id run,
                         dp_label = (case formatDayLabel parse (rr_initiated_at run) of
                             Some l \<Rightarrow> l | None \<Rightarrow> take 8 (fr_id run)),
                         dp_initiatedAt = rr_initiated_at run, dp_actualSeconds = elapsed,
                         dp_objectiveSeconds = objective, dp_breached = (0 < objective \<and> objective < elapsed)\<rparr>)))"

definition oldest_key :: "(string \<Rightarrow> rat option) \<Rightarrow> duration_point \<Rightarrow> nat \<times> rat" where
  "oldest_key parse p = (case toEpochMs parse (dp_initiatedAt p) of None \<Rightarrow> (1, 0) | Some ms \<Rightarrow> (0, ms))"

definition buildRunDurationSeries ::
  "(string \<Rightarrow> rat option) \<Rightarrow> failover_run list \<Rightarrow> rat \<Rightarrow> duration_point list" where
  "buildRunDurationSeries parse runs now =
     sort_key (oldest_key parse) (List.map_filter (run_point parse now) runs)"

subsection \<open>Drills\<close>

record drill_result =
  dr_passed :: bool
  dr_observed_at :: "string option"

record drill_stats =
  ds_total :: nat
  ds_passed :: nat
  ds_failed :: nat
  ds_passRate :: "rat option"
  ds_lastDrillAt :: "string option"

text \<open>The loop keeps the latest instant and the text it came from.\<close>

definition later_drill ::
  "(string \<Rightarrow> rat option) \<Rightarrow> (rat \<times> string option) option \<Rightarrow> drill_result \<Rightarrow> (rat \<times> string option) option" where
  "later_drill parse last_s r =
     (case toEpochMs parse (dr_observed_at r) of
        None \<Rightarrow> last_s
      | Some ms \<Rightarrow> (case last_s of
            None \<Rightarrow> Some (ms, dr_observed_at r)
          | Some (lastMs, _) \<Rightarrow> if lastMs < ms then Some (ms, dr_observed_at r) else last_s))"

definition computeDrillOutcomes :: "(string \<Rightarrow> rat option) \<Rightarrow> drill_result list \<Rightarrow> drill_stats" where
  "computeDrillOutcomes parse results =
     (let passedDrills = length (filter dr_passed results); tot = length results
      in \<lparr>ds_total = tot, ds_passed = passedDrills, ds_failed = tot - passedDrills,
          ds_passRate = rate passedDrills tot,
          ds_lastDrillAt = (case foldl (later_drill parse) None results of None \<Rightarrow> None | Some (ms, iso_s) \<Rightarrow> iso_s)\<rparr>)"

record trend_bucket =
  tb_period :: string
  tb_label :: string
  tb_total :: nat
  tb_passed :: nat
  tb_failed :: nat
  tb_passRate :: "rat option"

definition add_drill ::
  "(string \<Rightarrow> rat option) \<Rightarrow> (string, nat \<times> nat) jsmap \<Rightarrow> drill_result \<Rightarrow> (string, nat \<times> nat) jsmap" where
  "add_drill parse buckets r =
     (case toEpochMs parse (dr_observed_at r) of
        None \<Rightarrow> buckets
      | Some ms \<Rightarrow>
          (let key = monthKey ms
           in case js_get_or (0, 0) buckets key of (tot, passed) \<Rightarrow>
                AList.update key (tot + 1, passed + (if dr_passed r then 1 else 0)) buckets))"

definition trend_of :: "string \<times> nat \<times> nat \<Rightarrow> trend_bucket" where
  "trend_of b =
     (case b of (period, tot, passed) \<Rightarrow>
        \<lparr>tb_period = period, tb_label = monthLabel period, tb_total = tot, tb_passed = passed,
         tb_failed = tot - passed, tb_passRate = rate passed tot\<rparr>)"

definition buildDrillTrend :: "(string \<Rightarrow> rat option) \<Rightarrow> drill_result list \<Rightarrow> trend_bucket list" where
  "buildDrillTrend parse results = map trend_of (sort_key fst (foldl (add_drill parse) [] results))"

subsection \<open>Recovery points\<close>

record 's posture =
  po_rpo_breaches :: "'s list option"
  po_total :: "nat option"
  po_by_status :: "(string \<times> nat) list option"

record 's rpo_stats =
  rs_breachingStreams :: nat
  rs_totalStreams :: nat
  rs_breachFraction :: "rat option"
  rs_breaches :: "'s list"

definition totalStreamsFromStatus :: "(string \<times> nat) list option \<Rightarrow> nat" where
  "totalStreamsFromStatus byStatus = (case byStatus of None \<Rightarrow> 0 | Some es \<Rightarrow> sum_list (map snd es))"

text \<open>
  \<open>posture\<close> and \<open>replication\<close> may be missing; \<open>po_total\<close> is \<open>stream_count\<close> of the one and \<open>total_streams\<close> of the
  other.
\<close>

definition computeRpoBreaches :: "'s posture option \<Rightarrow> 's posture option \<Rightarrow> 's rpo_stats" where
  "computeRpoBreaches posture_o replication =
     (let breaches = (case coalesce (Option.bind replication po_rpo_breaches) (Option.bind posture_o po_rpo_breaches) of
              None \<Rightarrow> [] | Some bs \<Rightarrow> bs);
          tot = (case coalesce (Option.bind replication po_total) (Option.bind posture_o po_total) of
              Some n \<Rightarrow> n
            | None \<Rightarrow> totalStreamsFromStatus
                (coalesce (Option.bind replication po_by_status) (Option.bind posture_o po_by_status)))
      in \<lparr>rs_breachingStreams = length breaches, rs_totalStreams = tot,
          rs_breachFraction = rate (length breaches) tot, rs_breaches = breaches\<rparr>)"

definition formatPercent :: "rat option \<Rightarrow> string \<Rightarrow> string" where
  "formatPercent fraction naLabel =
     (case fraction of
        None \<Rightarrow> naLabel
      | Some f \<Rightarrow> int_text (round_int (min 1 (max 0 f) * 100)) @ ''%'')"

subsection \<open>The roll-up\<close>

record 's ops_input =
  oi_runs :: "failover_run list"
  oi_drillResults :: "drill_result list"
  oi_posture :: "'s posture option"
  oi_replication :: "'s posture option"
  oi_runWindow :: "int option"

record 's ops_insights =
  op_runPerformance :: run_stats
  op_runDurationSeries :: "duration_point list"
  op_drillOutcomes :: drill_stats
  op_drillTrend :: "trend_bucket list"
  op_rpoBreaches :: "'s rpo_stats"

definition computeOpsInsights :: "(string \<Rightarrow> rat option) \<Rightarrow> 's ops_input \<Rightarrow> rat \<Rightarrow> 's ops_insights" where
  "computeOpsInsights parse input now =
     (let windowedRuns = mostRecentRuns parse (oi_runs input) (oi_runWindow input)
      in \<lparr>op_runPerformance = computeRunPerformance parse windowedRuns now,
          op_runDurationSeries = buildRunDurationSeries parse windowedRuns now,
          op_drillOutcomes = computeDrillOutcomes parse (oi_drillResults input),
          op_drillTrend = buildDrillTrend parse (oi_drillResults input),
          op_rpoBreaches = computeRpoBreaches (oi_posture input) (oi_replication input)\<rparr>)"

definition hasInsightsHistory :: "'s ops_input \<Rightarrow> bool" where
  "hasInsightsHistory input \<longleftrightarrow> 0 < length (oi_runs input) \<or> 0 < length (oi_drillResults input)"

subsection \<open>Percentiles lie in the sample and rise with the fraction\<close>

lemma floor_ceiling_bounds:
  fixes r :: rat
  assumes "0 \<le> r" "r \<le> of_nat n"
  shows "nat \<lfloor>r\<rfloor> \<le> nat \<lceil>r\<rceil>" "nat \<lceil>r\<rceil> \<le> n" "nat \<lceil>r\<rceil> \<le> Suc (nat \<lfloor>r\<rfloor>)"
    "nat \<lfloor>r\<rfloor> \<noteq> nat \<lceil>r\<rceil> \<Longrightarrow> nat \<lceil>r\<rceil> = Suc (nat \<lfloor>r\<rfloor>)"
proof -
  have "\<lfloor>r\<rfloor> \<le> \<lceil>r\<rceil>" "\<lceil>r\<rceil> \<le> \<lfloor>r\<rfloor> + 1" by (simp_all add: ceiling_altdef)
  moreover have "0 \<le> \<lfloor>r\<rfloor>" "\<lceil>r\<rceil> \<le> int n" using assms by (simp_all add: ceiling_le_iff)
  ultimately  show "nat \<lfloor>r\<rfloor> \<le> nat \<lceil>r\<rceil>" "nat \<lceil>r\<rceil> \<le> n" "nat \<lceil>r\<rceil> \<le> Suc (nat \<lfloor>r\<rfloor>)"
    "nat \<lfloor>r\<rfloor> \<noteq> nat \<lceil>r\<rceil> \<Longrightarrow> nat \<lceil>r\<rceil> = Suc (nat \<lfloor>r\<rfloor>)"
    by linarith+
qed

lemma interpolate_linear:
  assumes "sorted s" "0 \<le> r" "r \<le> of_nat (length s - 1)" "s \<noteq> []"
  shows "interpolate s r = s ! nat \<lfloor>r\<rfloor> + (s ! nat \<lceil>r\<rceil> - s ! nat \<lfloor>r\<rfloor>) * frac r"
  by (auto simp: interpolate_def Let_def frac_def algebra_simps)

lemma interpolate_between:
  assumes "sorted s" "0 \<le> r" "r \<le> of_nat (length s - 1)" "s \<noteq> []"
  shows "s ! nat \<lfloor>r\<rfloor> \<le> interpolate s r \<and> interpolate s r \<le> s ! nat \<lceil>r\<rceil>"
proof -
  note b = floor_ceiling_bounds [OF assms(2,3)]
  have "s ! nat \<lfloor>r\<rfloor> \<le> s ! nat \<lceil>r\<rceil>"
    by (rule sorted_nth_mono [OF assms(1) b(1)]) (use b(2) assms(4) in \<open>cases s; auto\<close>)
  then have d: "0 \<le> s ! nat \<lceil>r\<rceil> - s ! nat \<lfloor>r\<rfloor>" by simp
  have "(s ! nat \<lceil>r\<rceil> - s ! nat \<lfloor>r\<rfloor>) * frac r \<le> (s ! nat \<lceil>r\<rceil> - s ! nat \<lfloor>r\<rfloor>) * 1"
    by (rule mult_left_mono [OF _ d]) (simp add: frac_lt_1 less_imp_le)
  moreover have "0 \<le> (s ! nat \<lceil>r\<rceil> - s ! nat \<lfloor>r\<rfloor>) * frac r"
    using d by simp
  ultimately show ?thesis by (simp add: interpolate_linear [OF assms])
qed

lemma interpolate_mono:
  assumes "sorted s" "0 \<le> r" "r \<le> q" "q \<le> of_nat (length s - 1)" "s \<noteq> []"
  shows "interpolate s r \<le> interpolate s q"
proof -
  have rl: "r \<le> of_nat (length s - 1)" "0 \<le> q" using assms by linarith+
  note br = floor_ceiling_bounds [OF assms(2) rl(1)] and bq = floor_ceiling_bounds [OF rl(2) assms(4)]
  have len: "k < length s" if "k \<le> length s - 1" for k using that assms(5) by (cases s) auto
  have fl: "\<lfloor>r\<rfloor> \<le> \<lfloor>q\<rfloor>" "\<lceil>r\<rceil> \<le> \<lceil>q\<rceil>" using assms(3) by (simp_all add: floor_mono ceiling_mono)
  consider "\<lfloor>r\<rfloor> = \<lfloor>q\<rfloor>" "\<lceil>r\<rceil> = \<lceil>q\<rceil>" | "nat \<lceil>r\<rceil> \<le> nat \<lfloor>q\<rfloor>" | "\<lfloor>r\<rfloor> = \<lfloor>q\<rfloor>" "nat \<lceil>r\<rceil> = nat \<lfloor>r\<rfloor>"
    using fl br bq assms(2) by linarith
  then show ?thesis
  proof cases
    case 1
    have "0 \<le> s ! nat \<lceil>q\<rceil> - s ! nat \<lfloor>q\<rfloor>"
      using sorted_nth_mono [OF assms(1) bq(1) len [OF bq(2)]] by simp
    moreover have "frac r \<le> frac q" using assms(3) 1 by (simp add: frac_def)
    ultimately show ?thesis
      using 1 interpolate_linear [OF assms(1,2) rl(1) assms(5)] interpolate_linear [OF assms(1) rl(2) assms(4,5)]
      by (simp add: mult_left_mono)
  next
    case 2
    have "interpolate s r \<le> s ! nat \<lceil>r\<rceil>" using interpolate_between [OF assms(1,2) rl(1) assms(5)] by simp
    also have "\<dots> \<le> s ! nat \<lfloor>q\<rfloor>"
      using sorted_nth_mono [OF assms(1) 2] len bq by simp
    also have "\<dots> \<le> interpolate s q" using interpolate_between [OF assms(1) rl(2) assms(4,5)] by simp
    finally show ?thesis .
  next
    case 3
    have "interpolate s r \<le> s ! nat \<lfloor>q\<rfloor>"
      using interpolate_between [OF assms(1,2) rl(1) assms(5)] 3 by simp
    also have "\<dots> \<le> interpolate s q" using interpolate_between [OF assms(1) rl(2) assms(4,5)] by simp
    finally show ?thesis .
  qed
qed

definition rank_of :: "nat \<Rightarrow> rat \<Rightarrow> rat" where
  "rank_of n f = min 1 (max 0 f) * of_nat (n - 1)"

lemma rank_of_bounds: "0 \<le> rank_of n f" "rank_of n f \<le> of_nat (n - 1)"
  by (auto simp: rank_of_def mult_left_le_one_le)

lemma rank_of_mono: "f \<le> g \<Longrightarrow> rank_of n f \<le> rank_of n g"
  unfolding rank_of_def by (intro mult_right_mono) auto

lemma percentile_interpolate:
  assumes "vals \<noteq> []"
  shows "percentile vals f = Some (interpolate (sort vals) (rank_of (length vals) f))"
  using assms by (auto simp: percentile_def Let_def rank_of_def interpolate_def)

text \<open>The percentile of a sample that is not empty lies between its least and its greatest value, depends on the
  values and not on their order, and does not fall when the fraction grows.\<close>

theorem percentile_bounded_and_monotone:
  assumes "vals \<noteq> []" "f \<le> g"
  shows "\<exists>p q. percentile vals f = Some p \<and> percentile vals g = Some q \<and>
    Min (set vals) \<le> p \<and> p \<le> q \<and> q \<le> Max (set vals) \<and>
    (\<forall>other. mset other = mset vals \<longrightarrow> percentile other f = Some p)"
proof -
  let ?s = "sort vals" and ?r = "rank_of (length vals)"
  have s: "sorted ?s" "?s \<noteq> []" "set ?s = set vals"
    using assms(1) by (simp_all flip: length_greater_0_conv)
  have r: "0 \<le> ?r x" "?r x \<le> of_nat (length ?s - 1)" for x using rank_of_bounds by simp_all
  have pos: "0 < length vals" using assms(1) by simp
  have le: "nat \<lfloor>?r x\<rfloor> < length ?s" "nat \<lceil>?r x\<rceil> < length ?s" for x
    using floor_ceiling_bounds(1,2) [OF r, of x] pos unfolding length_sort by linarith+
  have mem: "?s ! nat \<lfloor>?r f\<rfloor> \<in> set vals" "?s ! nat \<lceil>?r g\<rceil> \<in> set vals"
    using nth_mem [OF le(1) [of f]] nth_mem [OF le(2) [of g]] by simp_all
  have "Min (set vals) \<le> interpolate ?s (?r f)"
    using interpolate_between [OF s(1) r s(2), of f] Min_le [OF _ mem(1)] by fastforce
  moreover have "interpolate ?s (?r f) \<le> interpolate ?s (?r g)"
    by (rule interpolate_mono [OF s(1) r(1) rank_of_mono [OF assms(2)] r(2) s(2)])
  moreover have "interpolate ?s (?r g) \<le> Max (set vals)"
    using interpolate_between [OF s(1) r s(2), of g] Max_ge [OF _ mem(2)] by fastforce
  moreover have "percentile other f = percentile vals f" if "mset other = mset vals" for other
    using that properties_for_sort [of "sort other" vals] unfolding percentile_def
    by (metis mset_sort mset_zero_iff sorted_sort)
  ultimately show ?thesis using percentile_interpolate [OF assms(1)] by simp
qed

theorem percentile_bounded_and_monotone_witness:
  "\<exists>p q. percentile [3, 1, 2] (1 / 2) = Some p \<and> percentile [3, 1, 2] 1 = Some q \<and> p \<le> q"
  using percentile_bounded_and_monotone [of "[3, 1, 2]" "1 / 2" 1] by auto

subsection \<open>The counters of the run statistics\<close>

definition terminal :: "failover_run \<Rightarrow> bool" where
  "terminal r \<longleftrightarrow> isTerminalSuccess (Some (rr_status r)) \<or> isTerminalFailure (Some (rr_status r))"

definition measured :: "(string \<Rightarrow> rat option) \<Rightarrow> rat \<Rightarrow> failover_run \<Rightarrow> bool" where
  "measured parse now r \<longleftrightarrow> terminal r \<and> 0 < objectiveOf r \<and> elapsedSeconds parse r now \<noteq> None"

lemma terminal_inactive: "terminal r \<Longrightarrow> \<not> isRunActive (Some (rr_status r))"
  using groups_disjoint by (auto simp: terminal_def)

lemma count_run_fields:
  "count_run parse now a r =
     \<lparr>ra_terminal = ra_terminal a + (if terminal r then 1 else 0),
      ra_measured = ra_measured a + (if measured parse now r then 1 else 0),
      ra_met = ra_met a + (if measured parse now r \<and> breachState parse None None r now \<noteq> Breached then 1 else 0),
      ra_active = ra_active a + (if isRunActive (Some (rr_status r)) then 1 else 0),
      ra_failed = ra_failed a + (if isTerminalFailure (Some (rr_status r)) then 1 else 0),
      ra_durations = ra_durations a @
        (case if terminal r then elapsedSeconds parse r now else None of None \<Rightarrow> [] | Some e \<Rightarrow> [e])\<rparr>"
proof -
  have t: "\<not> isTerminalSuccess (Some (rr_status r)) \<and> \<not> isTerminalFailure (Some (rr_status r)) \<longleftrightarrow> \<not> terminal r"
    by (simp add: terminal_def)
  have f: "isTerminalFailure (Some (rr_status r)) \<Longrightarrow> terminal r" by (simp add: terminal_def)
  show ?thesis
  proof (cases "terminal r")
    case True
    with terminal_inactive [OF True] show ?thesis
      unfolding count_run_def Let_def t
      by (cases "elapsedSeconds parse r now") (simp_all add: measured_def objectiveOf_def)
  next
    case False
    with f show ?thesis
      unfolding count_run_def Let_def t by (auto simp: measured_def)
  qed
qed

lemma length_filter_Cons: "length (filter P (x # xs)) = (if P x then 1 else 0) + length (filter P xs)"
  by simp

lemma map_filter_Cons:
  "List.map_filter f (x # xs) = (case f x of None \<Rightarrow> [] | Some y \<Rightarrow> [y]) @ List.map_filter f xs"
  by (simp add: map_filter_def split: option.split)

lemma count_runs:
  "foldl (count_run parse now) a runs =
     \<lparr>ra_terminal = ra_terminal a + length (filter terminal runs),
      ra_measured = ra_measured a + length (filter (measured parse now) runs),
      ra_met = ra_met a +
        length (filter (\<lambda>r. measured parse now r \<and> breachState parse None None r now \<noteq> Breached) runs),
      ra_active = ra_active a + length (filter (\<lambda>r. isRunActive (Some (rr_status r))) runs),
      ra_failed = ra_failed a + length (filter (\<lambda>r. isTerminalFailure (Some (rr_status r))) runs),
      ra_durations = ra_durations a @
        List.map_filter (\<lambda>r. if terminal r then elapsedSeconds parse r now else None) runs\<rparr>"
proof (induction runs arbitrary: a)
  case Nil
  then show ?case by (simp add: map_filter_def)
next
  case (Cons r runs)
  note e = count_run_fields [of parse now a r]
  show ?case
    by (simp only: foldl.simps Cons.IH e run_acc.simps length_filter_Cons map_filter_Cons add.assoc append_assoc)
qed

lemma length_map_filter: "length (List.map_filter f xs) = length (filter (\<lambda>x. f x \<noteq> None) xs)"
  by (induction xs) (auto simp: map_filter_def)

lemma run_point_Some:
  "run_point parse now r = Some p \<Longrightarrow> terminal r \<and> elapsedSeconds parse r now = Some (dp_actualSeconds p) \<and>
     dp_breached p = (measured parse now r \<and> breachState parse None None r now = Breached)"
  using inactive_breach_iff [of r parse None None now]
  by (auto simp: run_point_def Let_def terminal_def measured_def objectiveOf_def split: if_splits option.splits)

lemma run_point_None_iff:
  "run_point parse now r = None \<longleftrightarrow> \<not> terminal r \<or> elapsedSeconds parse r now = None"
  using terminal_inactive [of r]
  by (auto simp: run_point_def Let_def terminal_def split: option.splits)

lemma filter_breached_points:
  "length (filter dp_breached (List.map_filter (run_point parse now) runs)) =
   length (filter (\<lambda>r. measured parse now r \<and> breachState parse None None r now = Breached) runs)"
proof (induction runs)
  case Nil
  then show ?case by (simp add: map_filter_def)
next
  case (Cons r runs)
  show ?case
  proof (cases "run_point parse now r")
    case None
    then have "\<not> measured parse now r" by (auto simp: run_point_None_iff measured_def)
    with None Cons show ?thesis by (simp add: map_filter_def)
  next
    case (Some p)
    with run_point_Some [OF Some] Cons show ?thesis by (simp add: map_filter_def)
  qed
qed

lemma length_filter_sort_key: "length (filter P (sort_key f xs)) = length (filter P xs)"
  by (metis mset_filter mset_sort size_mset)

text \<open>The statistics of a set of runs and the chart of their durations tell the same story: the counts respect
  failed \<open>\<le>\<close> terminal, met \<open>\<le>\<close> measured \<open>\<le>\<close> terminal and active + terminal \<open>\<le>\<close> total, and the measured runs that
  missed their objective are exactly the points the chart marks as breached.\<close>

theorem run_statistics_agree_with_chart:
  "st_failedRuns (computeRunPerformance parse runs now) \<le> st_terminalRuns (computeRunPerformance parse runs now) \<and>
   st_measuredRuns (computeRunPerformance parse runs now) \<le> st_terminalRuns (computeRunPerformance parse runs now) \<and>
   st_activeRuns (computeRunPerformance parse runs now) + st_terminalRuns (computeRunPerformance parse runs now)
     \<le> st_totalRuns (computeRunPerformance parse runs now) \<and>
   st_metRtoRuns (computeRunPerformance parse runs now) +
     length (filter dp_breached (buildRunDurationSeries parse runs now)) =
     st_measuredRuns (computeRunPerformance parse runs now)"
proof -
  have sub: "length (filter P runs) \<le> length (filter Q runs)" if "\<And>r. P r \<Longrightarrow> Q r" for P Q
    using that by (induction runs) auto
  have "length (filter (\<lambda>r. isRunActive (Some (rr_status r))) runs) + length (filter terminal runs) \<le> length runs"
    using terminal_inactive by (induction runs) auto
  moreover have "length (filter (\<lambda>r. measured parse now r \<and> breachState parse None None r now \<noteq> Breached) runs) +
      length (filter (\<lambda>r. measured parse now r \<and> breachState parse None None r now = Breached) runs) =
      length (filter (measured parse now) runs)"
    by (induction runs) auto
  ultimately show ?thesis
    using sub [of "\<lambda>r. isTerminalFailure (Some (rr_status r))" terminal] sub [of "measured parse now" terminal]
    by (simp add: computeRunPerformance_def Let_def count_runs no_runs_def buildRunDurationSeries_def
        length_filter_sort_key filter_breached_points terminal_def measured_def)
qed

text \<open>
  A terminal run without a sealed actual and without an end keeps ageing: its measured time follows the clock of the
  page, and so does the attainment rate.
\<close>

lemma attainment_follows_the_clock:
  assumes "r = \<lparr>rr_status = ''FAILED'', rr_objective = 60, rr_initiated_at = Some ''t'', rr_completed_at = None,
      rr_actual = None, fr_id = ''r''\<rparr>" "parse ''t'' = Some 0"
  shows "st_metRtoRuns (computeRunPerformance parse [r] 60000) = 1"
    and "st_metRtoRuns (computeRunPerformance parse [r] 61000) = 0"
proof -
  have "isTerminalFailure (Some ''FAILED'')" "\<not> isRunActive (Some ''FAILED'')" by code_simp+
  with assms show "st_metRtoRuns (computeRunPerformance parse [r] 60000) = 1"
    "st_metRtoRuns (computeRunPerformance parse [r] 61000) = 0"
    by (simp_all add: computeRunPerformance_def no_runs_def count_run_def Let_def elapsedSeconds_def toEpochMs_def
        breachState_def objectiveOf_def)
qed

subsection \<open>The drill trend counts every drill once\<close>

definition dated :: "(string \<Rightarrow> rat option) \<Rightarrow> drill_result \<Rightarrow> bool" where
  "dated parse r \<longleftrightarrow> toEpochMs parse (dr_observed_at r) \<noteq> None"

definition in_month :: "(string \<Rightarrow> rat option) \<Rightarrow> string \<Rightarrow> drill_result \<Rightarrow> bool" where
  "in_month parse key r \<longleftrightarrow> (\<exists>ms. toEpochMs parse (dr_observed_at r) = Some ms \<and> monthKey ms = key)"

definition month_counts :: "(string \<Rightarrow> rat option) \<Rightarrow> drill_result list \<Rightarrow> string \<Rightarrow> nat \<times> nat" where
  "month_counts parse rs key =
     (length (filter (in_month parse key) rs), length (filter (\<lambda>r. in_month parse key r \<and> dr_passed r) rs))"

lemma add_drills:
  "map_of (foldl (add_drill parse) m rs) key =
     (if \<exists>r \<in> set rs. in_month parse key r
      then Some (case js_get_or (0, 0) m key of (t, p) \<Rightarrow>
             (case month_counts parse rs key of (t', p') \<Rightarrow> (t + t', p + p')))
      else map_of m key)"
proof (induction rs arbitrary: m)
  case Nil
  then show ?case by simp
next
  case (Cons r rs)
  show ?case
  proof (cases "in_month parse key r")
    case True
    then obtain ms where ms: "toEpochMs parse (dr_observed_at r) = Some ms" "monthKey ms = key"
      by (auto simp: in_month_def)
    have "map_of (add_drill parse m r) key =
        Some (case js_get_or (0, 0) m key of (t, p) \<Rightarrow> (t + 1, p + (if dr_passed r then 1 else 0)))"
      by (simp add: add_drill_def ms Let_def update_conv' split: prod.split)
    moreover have "filter (in_month parse key) rs = []" "filter (\<lambda>r. in_month parse key r \<and> dr_passed r) rs = []"
      if "\<not> (\<exists>r \<in> set rs. in_month parse key r)"
      using that by (auto simp: filter_empty_conv)
    ultimately show ?thesis
      using True unfolding foldl.simps Cons.IH
      by (auto simp: js_get_or_def month_counts_def split: prod.splits)
  next
    case False
    then have "map_of (add_drill parse m r) key = map_of m key"
      by (auto simp: add_drill_def in_month_def Let_def update_conv' split: option.splits prod.splits)
    with False show ?thesis
      by (auto simp: Cons.IH js_get_or_def month_counts_def)
  qed
qed

lemma add_drills_distinct: "distinct (map fst m) \<Longrightarrow> distinct (map fst (foldl (add_drill parse) m rs))"
  by (rule foldl_invariant) (auto simp: add_drill_def Let_def distinct_update split: option.splits prod.splits)

text \<open>The monthly drill trend has one bucket for every month with a dated drill, in ascending order of the keys, each
  with the number of drills of its month and of those that passed, and a pass rate between zero and one.\<close>

theorem drill_trend_counts_every_drill:
  "sorted_wrt (<) (map tb_period (buildDrillTrend parse results)) \<and>
   (\<forall>key. (\<exists>r \<in> set results. in_month parse key r) =
      (key \<in> tb_period ` set (buildDrillTrend parse results))) \<and>
   list_all (\<lambda>b. (tb_total b, tb_passed b) = month_counts parse results (tb_period b) \<and> 0 < tb_total b \<and>
      tb_passed b + tb_failed b = tb_total b) (buildDrillTrend parse results)"
proof -
  let ?m = "foldl (add_drill parse) [] results"
  have d: "distinct (map fst ?m)" using add_drills_distinct [of "[]"] by simp
  have periods: "map tb_period (buildDrillTrend parse results) = map fst (sort_key fst ?m)"
    by (auto simp: buildDrillTrend_def trend_of_def split: prod.splits)
  have "distinct (map fst (sort_key fst ?m))"
    using d by (metis distinct_map distinct_sort set_sort)
  then have "sorted_wrt (<) (map tb_period (buildDrillTrend parse results))"
    unfolding periods by (simp add: strict_sorted_iff)
  moreover have "(\<exists>r \<in> set results. in_month parse key r) = (key \<in> tb_period ` set (buildDrillTrend parse results))" for key
  proof -
    have "key \<in> tb_period ` set (buildDrillTrend parse results) \<longleftrightarrow> key \<in> fst ` set ?m"
      using periods by (metis list.set_map set_sort)
    also have "\<dots> \<longleftrightarrow> map_of ?m key \<noteq> None" by (simp add: map_of_eq_None_iff)
    finally show ?thesis by (simp add: add_drills)
  qed
  moreover have "list_all (\<lambda>b. (tb_total b, tb_passed b) = month_counts parse results (tb_period b) \<and> 0 < tb_total b \<and>
      tb_passed b + tb_failed b = tb_total b) (buildDrillTrend parse results)"
    unfolding list_all_iff
  proof
    fix b assume "b \<in> set (buildDrillTrend parse results)"
    then obtain key t p where k: "(key, t, p) \<in> set ?m" "b = trend_of (key, t, p)"
      by (auto simp: buildDrillTrend_def)
    then have "map_of ?m key = Some (t, p)" using d by simp
    then have c: "(t, p) = month_counts parse results key" "\<exists>r \<in> set results. in_month parse key r"
      by (auto simp: add_drills js_get_or_def split: if_splits prod.splits)
    then have "0 < t" by (auto simp: month_counts_def filter_empty_conv)
    moreover have "p \<le> t"
    proof -
      have "length (filter (\<lambda>r. in_month parse key r \<and> dr_passed r) results) \<le> length (filter (in_month parse key) results)"
        by (induction results) auto
      with c(1) show ?thesis by (simp add: month_counts_def)
    qed
    ultimately show "(tb_total b, tb_passed b) = month_counts parse results (tb_period b) \<and> 0 < tb_total b \<and>
      tb_passed b + tb_failed b = tb_total b"
      unfolding k(2) trend_of_def prod.case trend_bucket.simps using c(1) by simp
  qed
  ultimately show ?thesis by blast
qed

end
