(* ===== verification/RenewalQueue.thy ===== *)
theory RenewalQueue
  imports BulkScope Insights
begin

section \<open>The renewal decision queue\<close>

text \<open>
  \<open>lex/contracts/_lib/use-renewal-queue.ts\<close> and the handlers of \<open>renewal-decision-queue.tsx\<close>: the rows of
  expiring contracts joined with their renewal warnings, the decisions that are legal for them, and the run that
  applies the decisions one after the other. The answers of the server arrive as events; \<open>new Date()\<close> is the time
  of the event and \<open>Date\<close> of a text is an argument.
\<close>

subsection \<open>Rows and decisions\<close>

datatype renewal_decision = Renew | Terminate | Renegotiate

fun DECISION_TARGET_STATUS :: "renewal_decision \<Rightarrow> contract_status option" where
  "DECISION_TARGET_STATUS Terminate = Some Terminated"
| "DECISION_TARGET_STATUS Renegotiate = Some Suspended"
| "DECISION_TARGET_STATUS Renew = None"

definition DEFAULT_NOTICE_DAYS :: int where
  "DEFAULT_NOTICE_DAYS = 30"

record expiring_contract =
  ec_id :: string
  ec_title :: string
  ec_type :: string
  ec_status :: contract_status
  ec_party :: string
  ec_expiry :: string
  ec_days :: int
  ec_owner :: string

record renewal_warning =
  rw_contract_id :: string
  rw_auto_renew :: bool
  rw_notice_days :: int
  rw_severity :: string

record renewal_row =
  rq_id :: string
  rq_title :: string
  rq_type :: string
  rq_status :: contract_status
  rq_counterparty :: string
  rq_owner :: string
  rq_expiry :: string
  rq_days :: int
  rq_notice :: int
  rq_notice_known :: bool
  rq_auto_renew :: bool
  rq_severity :: "string option"

datatype countdown_tone = Overdue | Notice | Upcoming

definition countdownTone :: "int \<Rightarrow> int \<Rightarrow> countdown_tone" where
  "countdownTone daysUntilExpiry noticeDays =
     (if daysUntilExpiry \<le> 0 then Overdue else if daysUntilExpiry \<le> max 0 noticeDays then Notice else Upcoming)"

definition merge_row :: "(string, renewal_warning) jsmap \<Rightarrow> expiring_contract \<Rightarrow> renewal_row" where
  "merge_row byId item =
     (let warning = map_of byId (ec_id item)
      in \<lparr>rq_id = ec_id item, rq_title = ec_title item, rq_type = ec_type item, rq_status = ec_status item,
          rq_counterparty = ec_party item, rq_owner = ec_owner item, rq_expiry = ec_expiry item,
          rq_days = ec_days item,
          rq_notice = (case warning of Some w \<Rightarrow> max 0 (rw_notice_days w) | None \<Rightarrow> DEFAULT_NOTICE_DAYS),
          rq_notice_known = (warning \<noteq> None),
          rq_auto_renew = (case warning of Some w \<Rightarrow> rw_auto_renew w | None \<Rightarrow> False),
          rq_severity = map_option rw_severity warning\<rparr>)"

definition mergeQueueRows :: "expiring_contract list \<Rightarrow> renewal_warning list option \<Rightarrow> renewal_row list" where
  "mergeQueueRows expiring warnings =
     (let byId = foldl (\<lambda>m w. AList.update (rw_contract_id w) w m) [] (case warnings of None \<Rightarrow> [] | Some ws \<Rightarrow> ws)
      in map (merge_row byId) expiring)"

text \<open>\<open>Math.max(1, Math.round(termMonths))\<close>.\<close>

definition term_of :: "rat \<Rightarrow> int" where
  "term_of termMonths = max 1 (round_int termMonths)"

definition renewal_base :: "(string \<Rightarrow> rat option) \<Rightarrow> string \<Rightarrow> rat \<Rightarrow> rat" where
  "renewal_base parse expiryDate now =
     (case parse expiryDate of None \<Rightarrow> now | Some ms \<Rightarrow> if ms < now then now else ms)"

definition renewal_day :: "(string \<Rightarrow> rat option) \<Rightarrow> string \<Rightarrow> rat \<Rightarrow> rat \<Rightarrow> int" where
  "renewal_day parse expiryDate termMonths now =
     (case civil_date (renewal_base parse expiryDate now) of
        (y, m, d) \<Rightarrow> date_UTC_day y (m - 1 + term_of termMonths) d)"

definition renewalExpiryFrom :: "(string \<Rightarrow> rat option) \<Rightarrow> string \<Rightarrow> rat \<Rightarrow> rat \<Rightarrow> string" where
  "renewalExpiryFrom parse expiryDate termMonths now = iso_midnight (renewal_day parse expiryDate termMonths now)"

definition isDecisionAllowed :: "contract_status \<Rightarrow> renewal_decision \<Rightarrow> bool" where
  "isDecisionAllowed status decision =
     (case DECISION_TARGET_STATUS decision of
        None \<Rightarrow> status = Active \<or> status = Expired
      | Some target \<Rightarrow> isAllowedContractTransition status target)"

subsection \<open>Notice letters\<close>

record letter_request =
  lr_type :: string
  lr_arabic :: bool
  lr_hint :: string
  lr_kind :: string
  lr_row :: renewal_row

definition notice_kind :: "renewal_decision \<Rightarrow> string" where
  "notice_kind decision =
     (case decision of
        Renew \<Rightarrow> ''renewal_notice'' | Terminate \<Rightarrow> ''termination_notice'' | Renegotiate \<Rightarrow> ''renegotiation_notice'')"

definition buildNoticeLetterRequest :: "renewal_row \<Rightarrow> renewal_decision \<Rightarrow> bool \<Rightarrow> letter_request" where
  "buildNoticeLetterRequest row decision arabic =
     \<lparr>lr_type = rq_type row, lr_arabic = arabic,
      lr_hint = map (\<lambda>c. if c = CHR ''_'' then CHR '' '' else c) (notice_kind decision) @ '' letter'',
      lr_kind = notice_kind decision, lr_row = row\<rparr>"

record letter_draft =
  ld_title :: string
  ld_summary :: "string option"
  ld_sections :: "(string \<times> string) list"

definition NL :: string where
  "NL = [CHR 0x0A]"

definition noticeDraftToPlainText :: "letter_draft \<Rightarrow> string" where
  "noticeDraftToPlainText draft =
     js_join (NL @ NL)
       (filter (\<lambda>s. s \<noteq> [])
          (ld_title draft # (case ld_summary draft of None \<Rightarrow> [] | Some s \<Rightarrow> s) #
           map (\<lambda>sec. fst sec @ NL @ snd sec) (ld_sections draft)))"

subsection \<open>The run\<close>

record run_options =
  ro_generateNotice :: bool
  ro_termMonths :: rat
  ro_arabic :: bool

record renewal_result =
  rs_id :: string
  rs_title :: string
  rs_decision :: renewal_decision
  rs_ok :: bool
  rs_error :: "string option"
  rs_notice :: "letter_draft option"
  rs_noticeRunId :: "string option"
  rs_noticeError :: "string option"

datatype renewal_call =
    Call_renew string string string
  | Call_status string contract_status
  | Call_draft letter_request

text \<open>The request \<open>applyDecision\<close> sends.\<close>

definition applyDecision ::
  "(string \<Rightarrow> rat option) \<Rightarrow> run_options \<Rightarrow> rat \<Rightarrow> renewal_row \<times> renewal_decision \<Rightarrow> renewal_call" where
  "applyDecision parse opts now input =
     (case input of (row, decision) \<Rightarrow>
        (case DECISION_TARGET_STATUS decision of
           None \<Rightarrow> Call_renew (rq_id row) (renewalExpiryFrom parse (rq_expiry row) (ro_termMonths opts) now)
             (''Renewal decision queue: renewed for '' @ int_text (term_of (ro_termMonths opts)) @ '' months'')
         | Some target \<Rightarrow> Call_status (rq_id row) target))"

text \<open>
  A run under way: the item whose request is pending, whether the pending request is the decision itself or its
  letter, the items after it, and the results so far. \<open>rh_calls\<close> records the requests sent and \<open>rh_finished\<close> the runs that ended.
\<close>

record renewal_run =
  rn_item :: "renewal_row \<times> renewal_decision"
  rn_drafting :: bool
  rn_rest :: "(renewal_row \<times> renewal_decision) list"
  rn_opts :: run_options
  rn_results :: "renewal_result list"
  rn_items :: "(renewal_row \<times> renewal_decision) list"

record renewal_hook =
  rh_run :: "renewal_run option"
  rh_progress :: "(nat \<times> nat \<times> string option) option"
  rh_results :: "renewal_result list option"
  rh_calls :: "renewal_call list"
  rh_finished :: "((renewal_row \<times> renewal_decision) list \<times> renewal_result list) list"

definition plain_result :: "renewal_row \<times> renewal_decision \<Rightarrow> bool \<Rightarrow> string option \<Rightarrow> renewal_result" where
  "plain_result item ok err =
     \<lparr>rs_id = rq_id (fst item), rs_title = rq_title (fst item), rs_decision = snd item, rs_ok = ok, rs_error = err,
      rs_notice = None, rs_noticeRunId = None, rs_noticeError = None\<rparr>"

text \<open>The head of the loop: the next item is applied, or the \<open>finally\<close> block ends the run.\<close>

definition next_item ::
  "(string \<Rightarrow> rat option) \<Rightarrow> rat \<Rightarrow> (renewal_row \<times> renewal_decision) list \<Rightarrow> (renewal_row \<times> renewal_decision) list \<Rightarrow>
   run_options \<Rightarrow> renewal_result list \<Rightarrow> renewal_hook \<Rightarrow> renewal_hook" where
  "next_item parse now items rest opts results h =
     (case rest of
        [] \<Rightarrow> h\<lparr>rh_run := None, rh_progress := Some (length items, length results, None), rh_results := Some results,
              rh_finished := rh_finished h @ [(items, results)]\<rparr>
      | item # rest' \<Rightarrow>
          h\<lparr>rh_run := Some \<lparr>rn_item = item, rn_drafting = False, rn_rest = rest', rn_opts = opts, rn_results = results,
                          rn_items = items\<rparr>,
            rh_progress := Some (length items, length results, Some (rq_title (fst item))),
            rh_calls := rh_calls h @ [applyDecision parse opts now item]\<rparr>)"

definition execute_queue ::
  "(string \<Rightarrow> rat option) \<Rightarrow> rat \<Rightarrow> (renewal_row \<times> renewal_decision) list \<Rightarrow> run_options \<Rightarrow> renewal_hook \<Rightarrow> renewal_hook" where
  "execute_queue parse now items opts h =
     (if items = [] \<or> rh_run h \<noteq> None then h
      else next_item parse now items items opts []
             (h\<lparr>rh_results := None, rh_progress := Some (length items, 0, None)\<rparr>))"

datatype letter_answer = Letter_saved letter_draft string | Letter_unsaved letter_draft | Letter_failed string

definition letter_result :: "renewal_row \<times> renewal_decision \<Rightarrow> letter_answer \<Rightarrow> renewal_result" where
  "letter_result item answer =
     (let r = plain_result item True None
      in case answer of
           Letter_saved d rid \<Rightarrow> r\<lparr>rs_notice := Some d, rs_noticeRunId := Some rid\<rparr>
         | Letter_unsaved d \<Rightarrow> r\<lparr>rs_notice := Some d\<rparr>
         | Letter_failed e \<Rightarrow> r\<lparr>rs_noticeError := Some e\<rparr>)"

datatype renewal_event =
    Rq_execute "(renewal_row \<times> renewal_decision) list" run_options rat
  | Rq_applied "string option" rat
  | Rq_letter letter_answer rat
  | Rq_reset

fun renewal_step :: "(string \<Rightarrow> rat option) \<Rightarrow> renewal_hook \<Rightarrow> renewal_event \<Rightarrow> renewal_hook" where
  "renewal_step parse h (Rq_execute items opts now) = execute_queue parse now items opts h"
| "renewal_step parse h (Rq_applied err now) =
     (case rh_run h of
        None \<Rightarrow> h
      | Some r \<Rightarrow>
          if rn_drafting r then h
          else (case err of
                  None \<Rightarrow>
                    (if ro_generateNotice (rn_opts r)
                     then h\<lparr>rh_run := Some (r\<lparr>rn_drafting := True\<rparr>),
                            rh_calls := rh_calls h @ [Call_draft (buildNoticeLetterRequest (fst (rn_item r)) (snd (rn_item r))
                              (ro_arabic (rn_opts r)))]\<rparr>
                     else next_item parse now (rn_items r) (rn_rest r) (rn_opts r)
                            (rn_results r @ [plain_result (rn_item r) True None]) h)
                | Some e \<Rightarrow> next_item parse now (rn_items r) (rn_rest r) (rn_opts r)
                              (rn_results r @ [plain_result (rn_item r) False (Some e)]) h))"
| "renewal_step parse h (Rq_letter answer now) =
     (case rh_run h of
        None \<Rightarrow> h
      | Some r \<Rightarrow>
          if rn_drafting r
          then next_item parse now (rn_items r) (rn_rest r) (rn_opts r)
                 (rn_results r @ [letter_result (rn_item r) answer]) h
          else h)"
| "renewal_step parse h Rq_reset = h\<lparr>rh_results := None, rh_progress := None\<rparr>"

definition renewal_idle :: renewal_hook where
  "renewal_idle = \<lparr>rh_run = None, rh_progress = None, rh_results = None, rh_calls = [], rh_finished = []\<rparr>"

subsection \<open>The panel\<close>

type_synonym decision_map = "(string, renewal_decision) jsmap"

definition pending_decisions :: "renewal_row list \<Rightarrow> decision_map \<Rightarrow> (renewal_row \<times> renewal_decision) list" where
  "pending_decisions rows decisions =
     List.map_filter
       (\<lambda>row. case map_of decisions (rq_id row) of
                None \<Rightarrow> None
              | Some d \<Rightarrow> if isDecisionAllowed (rq_status row) d then Some (row, d) else None) rows"

definition tally :: "(renewal_row \<times> renewal_decision) list \<Rightarrow> renewal_decision \<Rightarrow> nat" where
  "tally pending d = length (filter (\<lambda>item. snd item = d) pending)"

definition setRowDecision :: "string \<Rightarrow> renewal_decision option \<Rightarrow> decision_map \<Rightarrow> decision_map" where
  "setRowDecision rowId v prev =
     (case v of None \<Rightarrow> AList.delete rowId prev | Some d \<Rightarrow> AList.update rowId d prev)"

definition applyBulkDecision :: "renewal_row list \<Rightarrow> string list \<Rightarrow> renewal_decision \<Rightarrow> decision_map \<Rightarrow> decision_map" where
  "applyBulkDecision rows checked decision prev =
     foldl (\<lambda>m row. if rq_id row \<in> set checked \<and> isDecisionAllowed (rq_status row) decision
                    then AList.update (rq_id row) decision m else m) prev rows"

text \<open>\<open>handleExecute\<close>, up to the run it starts, and what it clears when the run has ended.\<close>

definition handleExecute ::
  "(string \<Rightarrow> rat option) \<Rightarrow> rat \<Rightarrow> bool \<Rightarrow> renewal_row list \<Rightarrow> decision_map \<Rightarrow> run_options \<Rightarrow> renewal_hook \<Rightarrow> renewal_hook" where
  "handleExecute parse now canWrite rows decisions opts h =
     (let pending = pending_decisions rows decisions
      in if \<not> canWrite \<or> pending = [] \<or> rh_run h \<noteq> None then h else execute_queue parse now pending opts h)"

definition decisions_after :: "renewal_result list \<Rightarrow> decision_map \<Rightarrow> decision_map" where
  "decisions_after results decisions = (if 0 < length (filter rs_ok results) then [] else decisions)"

subsection \<open>The renewed term\<close>

lemma term_pos: "1 \<le> term_of t"
  by (simp add: term_of_def)

lemma epoch_day_bounds: "of_int (epoch_day b) * 86400000 \<le> b \<and> b < (of_int (epoch_day b) + 1) * 86400000"
proof -
  have "of_int (epoch_day b) \<le> b / 86400000" "b / 86400000 < of_int (epoch_day b) + 1"
    unfolding epoch_day_def by linarith+
  then show ?thesis
    by (simp add: pos_le_divide_eq pos_divide_less_eq)
qed

text \<open>The expiry date of a renewal is computed from the later of the current expiry and now, and lies more than
  \<open>28 n - 1\<close> and at most \<open>31 n\<close> days after it, for a term of \<open>n\<close> months; so it is always in the future.\<close>

theorem renewed_term_bounds:
  "now \<le> renewal_base parse e now \<and>
   renewal_base parse e now + of_int (28 * term_of t - 1) * 86400000 < of_int (renewal_day parse e t now) * 86400000 \<and>
   of_int (renewal_day parse e t now) * 86400000 \<le> renewal_base parse e now + of_int (31 * term_of t) * 86400000"
proof -
  let ?b = "renewal_base parse e now"
  obtain y m d where c: "civil_of_day (epoch_day ?b) = (y, m, d)" by (cases "civil_of_day (epoch_day ?b)")
  obtain n where n: "term_of t = int n" using term_pos [of t] zero_le_imp_eq_int [of "term_of t"] by fastforce
  have "renewal_day parse e t now = date_UTC_day y (m - 1 + int n) d"
    by (simp add: renewal_day_def civil_date_def c n)
  with add_months_bounds [OF c, of n]
  have r: "epoch_day ?b + 28 * term_of t \<le> renewal_day parse e t now"
    "renewal_day parse e t now \<le> epoch_day ?b + 31 * term_of t" by (simp_all add: n)
  have day: "of_int (epoch_day ?b) * 86400000 \<le> ?b" "?b < (of_int (epoch_day ?b) + 1) * 86400000"
    using epoch_day_bounds by auto
  have "(of_int (epoch_day ?b + 28 * term_of t) :: rat) \<le> of_int (renewal_day parse e t now)"
    "(of_int (renewal_day parse e t now) :: rat) \<le> of_int (epoch_day ?b + 31 * term_of t)"
    using r by (simp_all only: of_int_le_iff)
  with day have "?b + of_int (28 * term_of t - 1) * 86400000 < of_int (renewal_day parse e t now) * 86400000"
    "of_int (renewal_day parse e t now) * 86400000 \<le> ?b + of_int (31 * term_of t) * 86400000"
    by (simp_all add: algebra_simps)
  moreover have "now \<le> ?b" by (auto simp: renewal_base_def split: option.split)
  ultimately show ?thesis by blast
qed

text \<open>A month that lacks the day runs over into the next one, and the time of the day is cut off.\<close>

lemma month_end_renewal_overflows:
  "renewalExpiryFrom (\<lambda>s. Some 1769817600000) ''2026-01-31T00:00:00Z'' 1 0 = ''2026-03-03T00:00:00.000Z''"
  by code_simp

lemma lapsed_renewal_shorter_than_term:
  "renewalExpiryFrom (\<lambda>s. None) ''lapsed'' 1 1768478400000 = ''2026-02-15T00:00:00.000Z'' \<and>
   civil_date 1768478400000 = (2026, 1, 15) \<and> epoch_day 1768478400000 * 86400000 < 1768478400000"
  by code_simp

subsection \<open>The run reports every decision\<close>

definition reports :: "renewal_row \<times> renewal_decision \<Rightarrow> renewal_result \<Rightarrow> bool" where
  "reports item r \<longleftrightarrow>
     rs_id r = rq_id (fst item) \<and> rs_title r = rq_title (fst item) \<and> rs_decision r = snd item \<and>
     (if rs_ok r then rs_error r = None \<and> (rs_notice r = None \<or> rs_noticeError r = None)
      else rs_error r \<noteq> None \<and> rs_notice r = None \<and> rs_noticeError r = None \<and> rs_noticeRunId r = None)"

lemma plain_reports: "reports item (plain_result item True None)" "reports item (plain_result item False (Some e))"
  by (simp_all add: reports_def plain_result_def)

lemma letter_reports: "reports item (letter_result item a)"
  by (cases a) (simp_all add: reports_def letter_result_def plain_result_def Let_def)

definition is_decision_call :: "renewal_call \<Rightarrow> bool" where
  "is_decision_call c = (case c of Call_draft r \<Rightarrow> False | _ \<Rightarrow> True)"

definition run_in_order :: "renewal_run \<Rightarrow> bool" where
  "run_in_order r \<longleftrightarrow>
     (\<exists>handled. rn_items r = handled @ rn_item r # rn_rest r \<and> list_all2 reports handled (rn_results r))"

definition decisions_sent :: "renewal_hook \<Rightarrow> nat" where
  "decisions_sent h =
     sum_list (map (\<lambda>f. length (fst f)) (rh_finished h)) +
     (case rh_run h of None \<Rightarrow> 0 | Some r \<Rightarrow> Suc (length (rn_results r)))"

definition queue_ok :: "renewal_hook \<Rightarrow> bool" where
  "queue_ok h \<longleftrightarrow>
     list_all (\<lambda>f. list_all2 reports (fst f) (snd f)) (rh_finished h) \<and>
     (case rh_run h of None \<Rightarrow> True | Some r \<Rightarrow> run_in_order r) \<and>
     length (filter is_decision_call (rh_calls h)) = decisions_sent h"

lemma apply_is_decision [simp]: "is_decision_call (applyDecision parse opts now item)"
  by (auto simp: is_decision_call_def applyDecision_def split: prod.split option.split)

text \<open>The loop goes on from a state whose books are in order but for the items handled so far.\<close>

lemma next_item_ok:
  assumes "list_all (\<lambda>f. list_all2 reports (fst f) (snd f)) (rh_finished h)"
    and "items = handled @ rest" "list_all2 reports handled results"
    and "length (filter is_decision_call (rh_calls h)) =
      sum_list (map (\<lambda>f. length (fst f)) (rh_finished h)) + length results"
  shows "queue_ok (next_item parse now items rest opts results h)"
  using assms list_all2_lengthD [OF assms(3)]
  by (cases rest) (auto simp: queue_ok_def next_item_def decisions_sent_def run_in_order_def)

lemma run_goes_on:
  assumes "queue_ok h" "rh_run h = Some r" "reports (rn_item r) res"
  shows "queue_ok (next_item parse now (rn_items r) (rn_rest r) (rn_opts r) (rn_results r @ [res]) h)"
proof -
  from assms(1,2) obtain handled where hd: "rn_items r = handled @ rn_item r # rn_rest r"
    "list_all2 reports handled (rn_results r)"
    by (auto simp: queue_ok_def run_in_order_def)
  show ?thesis
  proof (rule next_item_ok [where handled = "handled @ [rn_item r]"])
    show "list_all2 reports (handled @ [rn_item r]) (rn_results r @ [res])"
      using hd(2) assms(3) by (simp add: list_all2_appendI)
  qed (use assms(1,2) hd(1) in \<open>simp_all add: queue_ok_def decisions_sent_def\<close>)
qed

lemma execute_queue_ok:
  assumes "queue_ok h"
  shows "queue_ok (execute_queue parse now items opts h)"
proof (cases "items = [] \<or> rh_run h \<noteq> None")
  case True
  with assms show ?thesis by (auto simp: execute_queue_def)
next
  case False
  with assms show ?thesis
    unfolding execute_queue_def
    by (simp, intro next_item_ok [where handled = "[]"]) (auto simp: queue_ok_def decisions_sent_def)
qed

lemma renewal_step_ok:
  assumes "queue_ok h"
  shows "queue_ok (renewal_step parse h e)"
proof (cases e)
  case (Rq_execute items opts now)
  with assms show ?thesis by (simp add: execute_queue_ok)
next
  case (Rq_applied err now)
  show ?thesis
  proof (cases "rh_run h")
    case None
    with Rq_applied assms show ?thesis by simp
  next
    case (Some r)
    note go = run_goes_on [OF assms Some]
    have "queue_ok (h\<lparr>rh_run := Some (r\<lparr>rn_drafting := True\<rparr>), rh_calls := rh_calls h @ [Call_draft l]\<rparr>)" for l
      using assms Some by (simp add: queue_ok_def decisions_sent_def run_in_order_def is_decision_call_def)
    with Rq_applied Some assms show ?thesis
      by (simp add: go [OF plain_reports(1)] go [OF plain_reports(2)] split: option.split)
  qed
next
  case (Rq_letter answer now)
  with assms run_goes_on [OF assms] letter_reports show ?thesis
    by (simp split: option.split)
next
  case Rq_reset
  with assms show ?thesis by (simp add: queue_ok_def decisions_sent_def)
qed

text \<open>Whatever the server answers and whenever the user resets the panel: a run that ends has one result for every
  decision it was given, in their order, a failed decision has its error and no letter, a successful one no error; and
  every decision is sent exactly once, so that at any moment the decisions sent are those of the ended runs and, of a
  run under way, the handled ones and the pending one.\<close>

theorem renewal_run_reports_every_decision:
  assumes "h = foldl (renewal_step parse) renewal_idle es"
  shows "list_all (\<lambda>f. list_all2 reports (fst f) (snd f)) (rh_finished h) \<and>
    length (filter is_decision_call (rh_calls h)) =
      sum_list (map (\<lambda>f. length (fst f)) (rh_finished h)) +
      (case rh_run h of None \<Rightarrow> 0 | Some r \<Rightarrow> Suc (length (rn_results r)))"
proof -
  have "queue_ok renewal_idle" by (simp add: queue_ok_def renewal_idle_def decisions_sent_def)
  then have "queue_ok h"
    unfolding assms by (induction es rule: rev_induct) (simp_all add: renewal_step_ok)
  then show ?thesis by (simp add: queue_ok_def decisions_sent_def)
qed

definition sample_row :: renewal_row where
  "sample_row = \<lparr>rq_id = ''a'', rq_title = ''A'', rq_type = ''nda'', rq_status = Expired, rq_counterparty = ''x'',
     rq_owner = ''y'', rq_expiry = ''2026'', rq_days = 0, rq_notice = 30, rq_notice_known = False, rq_auto_renew = False,
     rq_severity = None\<rparr>"

theorem renewal_run_reports_every_decision_witness:
  "list_all (\<lambda>f. list_all2 reports (fst f) (snd f))
     (rh_finished (foldl (renewal_step (\<lambda>s. None)) renewal_idle
        [Rq_execute [(sample_row, Terminate)] \<lparr>ro_generateNotice = True, ro_termMonths = 12, ro_arabic = False\<rparr> 0,
         Rq_applied None 1, Rq_letter (Letter_failed ''busy'') 2]))"
  using renewal_run_reports_every_decision [OF refl] by blast

subsection \<open>Only legal decisions are sent\<close>

definition legal_item :: "renewal_row list \<Rightarrow> renewal_row \<times> renewal_decision \<Rightarrow> bool" where
  "legal_item universe item \<longleftrightarrow> fst item \<in> set universe \<and> isDecisionAllowed (rq_status (fst item)) (snd item)"

fun legal_call :: "renewal_row list \<Rightarrow> renewal_call \<Rightarrow> bool" where
  "legal_call universe (Call_renew i e t) \<longleftrightarrow>
     (\<exists>row \<in> set universe. rq_id row = i \<and> (rq_status row = Active \<or> rq_status row = Expired))"
| "legal_call universe (Call_status i t) \<longleftrightarrow>
     (\<exists>row \<in> set universe. rq_id row = i \<and> isAllowedContractTransition (rq_status row) t)"
| "legal_call universe (Call_draft l) \<longleftrightarrow> True"

lemma pending_legal: "set rows \<subseteq> set universe \<Longrightarrow> list_all (legal_item universe) (pending_decisions rows ds)"
  by (auto simp: pending_decisions_def legal_item_def list_all_iff map_filter_def split: option.splits if_splits)

lemma apply_legal: "legal_item universe item \<Longrightarrow> legal_call universe (applyDecision parse opts now item)"
  by (cases item; cases "snd item") (auto simp: legal_item_def applyDecision_def isDecisionAllowed_def)

definition calls_legal :: "renewal_row list \<Rightarrow> renewal_hook \<Rightarrow> bool" where
  "calls_legal universe h \<longleftrightarrow>
     list_all (legal_call universe) (rh_calls h) \<and>
     (case rh_run h of None \<Rightarrow> True | Some r \<Rightarrow> list_all (legal_item universe) (rn_rest r))"

lemma next_item_legal:
  "list_all (legal_call universe) (rh_calls h) \<Longrightarrow> list_all (legal_item universe) rest \<Longrightarrow>
   calls_legal universe (next_item parse now items rest opts results h)"
  by (cases rest) (auto simp: calls_legal_def next_item_def apply_legal)

fun panel_event :: "renewal_row list \<Rightarrow> renewal_event \<Rightarrow> bool" where
  "panel_event universe (Rq_execute items opts now) \<longleftrightarrow>
     (\<exists>rows ds. items = pending_decisions rows ds \<and> set rows \<subseteq> set universe)"
| "panel_event universe e \<longleftrightarrow> True"

lemma renewal_step_legal:
  assumes "calls_legal universe h" "panel_event universe e"
  shows "calls_legal universe (renewal_step parse h e)"
proof (cases e)
  case (Rq_execute items opts now)
  with assms(2) have "list_all (legal_item universe) items" using pending_legal by auto
  with assms(1) Rq_execute show ?thesis
    by (auto simp: execute_queue_def calls_legal_def [of _ h] intro!: next_item_legal)
next
  case (Rq_applied err now)
  with assms(1) show ?thesis
    by (auto simp: calls_legal_def [of _ h] intro!: next_item_legal split: option.split)
      (simp_all add: calls_legal_def)
next
  case (Rq_letter answer now)
  with assms(1) show ?thesis
    by (auto simp: calls_legal_def [of _ h] intro!: next_item_legal split: option.split)
next
  case Rq_reset
  with assms show ?thesis by (simp add: calls_legal_def)
qed

text \<open>The panel never sends an illegal decision: every status it sets is a transition the lifecycle map allows for a
  contract of the queue, and it renews only contracts that are active or expired.\<close>

theorem only_legal_decisions_sent:
  assumes "list_all (panel_event universe) es"
  shows "list_all (legal_call universe) (rh_calls (foldl (renewal_step parse) renewal_idle es))"
proof -
  have "calls_legal universe renewal_idle" by (simp add: calls_legal_def renewal_idle_def)
  then have "calls_legal universe (foldl (renewal_step parse) renewal_idle es)"
    using assms by (induction es rule: rev_induct) (simp_all add: renewal_step_legal)
  then show ?thesis by (simp add: calls_legal_def)
qed

theorem only_legal_decisions_sent_witness:
  "list_all (legal_call [sample_row]) (rh_calls (foldl (renewal_step (\<lambda>s. None)) renewal_idle
     [Rq_execute (pending_decisions [sample_row] [(''a'', Renew)])
        \<lparr>ro_generateNotice = False, ro_termMonths = 12, ro_arabic = False\<rparr> 0]))"
  by (rule only_legal_decisions_sent) auto

text \<open>An expired contract can be renewed but neither terminated nor renegotiated.\<close>

lemma expired_only_renewed:
  "map (isDecisionAllowed Expired) [Renew, Terminate, Renegotiate] = [True, False, False]"
  by code_simp

text \<open>When some decisions of a run fail and one succeeds, the panel forgets all of them, the failed ones too.\<close>

lemma failed_decisions_forgotten:
  "decisions_after [plain_result i True None, plain_result j False (Some e)] decisions = []"
  by (simp add: decisions_after_def plain_result_def)

end
