(* ===== verification/WorkerPool.thy ===== *)
theory WorkerPool
  imports Prelude "HOL-Library.Multiset"
begin

section \<open>A pool of lanes\<close>

text \<open>
  \<open>runWithConcurrency\<close> of \<open>lex/contracts/_lib/use-bulk-ai.ts\<close>: a fixed number of lanes share a cursor over the
  items. A lane takes the index under the cursor, awaits the worker on it and loops; it ends when the cursor has
  passed the last item. The lanes are created one after the other and each runs up to its first \<open>await\<close>; from then
  on the program moves only when the worker of a busy lane settles, in any order. \<open>pl_started\<close> and \<open>pl_settled\<close>
  record the indexes in the order their workers were called and settled.
\<close>

datatype lane = Lane_busy nat | Lane_done | Lane_failed

record pool =
  pl_cursor :: nat
  pl_lanes :: "lane list"
  pl_started :: "nat list"
  pl_settled :: "nat list"

text \<open>One turn of the loop of a lane over \<open>n\<close> items, up to the next \<open>await\<close> or the end of the loop.\<close>

definition lane_turn :: "nat \<Rightarrow> pool \<Rightarrow> lane \<times> pool" where
  "lane_turn n p =
     (if pl_cursor p < n
      then (Lane_busy (pl_cursor p), p\<lparr>pl_cursor := pl_cursor p + 1, pl_started := pl_started p @ [pl_cursor p]\<rparr>)
      else (Lane_done, p))"

definition start_lane :: "nat \<Rightarrow> pool \<Rightarrow> pool" where
  "start_lane n p = (case lane_turn n p of (l, p') \<Rightarrow> p'\<lparr>pl_lanes := pl_lanes p' @ [l]\<rparr>)"

definition lane_count :: "nat \<Rightarrow> nat \<Rightarrow> nat" where
  "lane_count limit n = max 1 (min limit n)"

definition start_pool :: "nat \<Rightarrow> nat \<Rightarrow> pool" where
  "start_pool limit n =
     (start_lane n ^^ lane_count limit n) \<lparr>pl_cursor = 0, pl_lanes = [], pl_started = [], pl_settled = []\<rparr>"

text \<open>The worker of lane \<open>l\<close> settles: it returns, or it throws and takes the lane with it.\<close>

definition settle_lane :: "nat \<Rightarrow> pool \<Rightarrow> nat \<Rightarrow> bool \<Rightarrow> pool" where
  "settle_lane n p l ok =
     (if l < length (pl_lanes p)
      then (case pl_lanes p ! l of
              Lane_busy i \<Rightarrow>
                (let p1 = p\<lparr>pl_settled := pl_settled p @ [i]\<rparr>
                 in if ok then (case lane_turn n p1 of (t, p2) \<Rightarrow> p2\<lparr>pl_lanes := (pl_lanes p2)[l := t]\<rparr>)
                    else p1\<lparr>pl_lanes := (pl_lanes p1)[l := Lane_failed]\<rparr>)
            | _ \<Rightarrow> p)
      else p)"

text \<open>\<open>Promise.all\<close> of the lanes.\<close>

definition pool_resolved :: "pool \<Rightarrow> bool" where
  "pool_resolved p \<longleftrightarrow> list_all (\<lambda>l. l = Lane_done) (pl_lanes p)"

definition pool_rejected :: "pool \<Rightarrow> bool" where
  "pool_rejected p \<longleftrightarrow> Lane_failed \<in> set (pl_lanes p)"

fun busy_index :: "lane \<Rightarrow> nat list" where
  "busy_index (Lane_busy i) = [i]"
| "busy_index Lane_done = []"
| "busy_index Lane_failed = []"

definition in_flight :: "pool \<Rightarrow> nat list" where
  "in_flight p = concat (map busy_index (pl_lanes p))"

definition pool_run :: "nat \<Rightarrow> nat \<Rightarrow> (nat \<times> bool) list \<Rightarrow> pool" where
  "pool_run limit n es = foldl (\<lambda>p e. settle_lane n p (fst e) (snd e)) (start_pool limit n) es"

subsection \<open>The invariant of the pool\<close>

text \<open>
  The indexes below the cursor were started in order; each of them is in flight or settled, once; a lane ends only
  when no item is left.
\<close>

definition pool_ok :: "nat \<Rightarrow> pool \<Rightarrow> bool" where
  "pool_ok n p \<longleftrightarrow>
     pl_cursor p \<le> n \<and> pl_started p = [0..<pl_cursor p] \<and>
     mset (in_flight p) + mset (pl_settled p) = mset (pl_started p) \<and>
     (Lane_done \<in> set (pl_lanes p) \<longrightarrow> pl_cursor p = n)"

lemma in_flight_append [simp]: "in_flight (p\<lparr>pl_lanes := ls @ [l]\<rparr>) = in_flight (p\<lparr>pl_lanes := ls\<rparr>) @ busy_index l"
  by (simp add: in_flight_def)

lemma mset_concat_update:
  assumes "l < length ls"
  shows "mset (concat (map f (ls[l := t]))) + mset (f (ls ! l)) = mset (concat (map f ls)) + mset (f t)"
  using assms
proof (induction ls arbitrary: l)
  case (Cons a ls)
  then show ?case
  proof (cases l)
    case (Suc m)
    then have "mset (concat (map f (ls[m := t]))) + mset (f (ls ! m)) = mset (concat (map f ls)) + mset (f t)"
      using Cons by simp
    with Suc show ?thesis by (simp add: ac_simps)
  qed (simp add: ac_simps)
qed simp

lemma start_lane_ok: "pool_ok n p \<Longrightarrow> pool_ok n (start_lane n p)"
  by (auto simp: pool_ok_def start_lane_def lane_turn_def in_flight_def add.commute split: if_splits)

lemma start_lane_length: "length (pl_lanes (start_lane n p)) = Suc (length (pl_lanes p))"
  by (auto simp: start_lane_def lane_turn_def)

lemma start_pool_ok: "pool_ok n (start_pool limit n)" "length (pl_lanes (start_pool limit n)) = lane_count limit n"
proof -
  let ?p = "\<lparr>pl_cursor = 0, pl_lanes = [], pl_started = [], pl_settled = []\<rparr>"
  have "pool_ok n ?p" by (simp add: pool_ok_def in_flight_def)
  then have "pool_ok n ((start_lane n ^^ k) ?p) \<and> length (pl_lanes ((start_lane n ^^ k) ?p)) = k" for k
    by (induction k) (simp_all add: start_lane_ok start_lane_length)
  then show "pool_ok n (start_pool limit n)" "length (pl_lanes (start_pool limit n)) = lane_count limit n"
    by (simp_all add: start_pool_def)
qed

lemma settle_lane_length [simp]: "length (pl_lanes (settle_lane n p l ok)) = length (pl_lanes p)"
  by (auto simp: settle_lane_def lane_turn_def Let_def split: lane.split)

lemma settle_lane_idle: "\<not> (l < length (pl_lanes p) \<and> (\<exists>i. pl_lanes p ! l = Lane_busy i)) \<Longrightarrow> settle_lane n p l ok = p"
  by (auto simp: settle_lane_def split: lane.split)

lemma settled_count:
  assumes "x + {#i#} = a + c" "a + s = st"
  shows "x + (s + {#i#}) = st + (c :: nat multiset)"
proof -
  have "x + (s + {#i#}) = (x + {#i#}) + s" by (simp only: ac_simps)
  also have "\<dots> = (a + s) + c" unfolding assms(1) by (simp only: ac_simps)
  finally show ?thesis using assms(2) by simp
qed

lemma settle_lane_ok:
  assumes "pool_ok n p"
  shows "pool_ok n (settle_lane n p l ok)"
proof (cases "l < length (pl_lanes p) \<and> (\<exists>i. pl_lanes p ! l = Lane_busy i)")
  case False
  with assms show ?thesis by (simp add: settle_lane_idle)
next
  case True
  then obtain i where l: "l < length (pl_lanes p)" "pl_lanes p ! l = Lane_busy i" by blast
  have u: "mset (concat (map busy_index ((pl_lanes p)[l := t]))) + {#i#} =
      mset (in_flight p) + mset (busy_index t)" for t
    using mset_concat_update [OF l(1), of busy_index t] l(2) by (simp add: in_flight_def)
  have i: "mset (in_flight p) + mset (pl_settled p) = mset (pl_started p)" using assms by (simp add: pool_ok_def)
  have done_s: "Lane_done \<in> set ((pl_lanes p)[l := t]) \<Longrightarrow> t = Lane_done \<or> Lane_done \<in> set (pl_lanes p)" for t
    using set_update_subset_insert by fastforce
  show ?thesis
  proof (cases "ok \<and> pl_cursor p < n")
    case True
    with l have e: "settle_lane n p l ok = p\<lparr>pl_cursor := pl_cursor p + 1, pl_started := pl_started p @ [pl_cursor p],
        pl_settled := pl_settled p @ [i], pl_lanes := (pl_lanes p)[l := Lane_busy (pl_cursor p)]\<rparr>"
      by (simp add: settle_lane_def lane_turn_def Let_def)
    have "mset (in_flight (settle_lane n p l ok)) + {#i#} = mset (in_flight p) + {#pl_cursor p#}"
      unfolding e using u [of "Lane_busy (pl_cursor p)"] by (simp add: in_flight_def)
    from settled_count [OF this i]
    have "mset (in_flight (settle_lane n p l ok)) + mset (pl_settled p @ [i]) = mset (pl_started p @ [pl_cursor p])"
      by simp
    moreover have "Lane_done \<notin> set ((pl_lanes p)[l := Lane_busy (pl_cursor p)])"
      using assms True done_s [of "Lane_busy (pl_cursor p)"] by (auto simp: pool_ok_def)
    ultimately show ?thesis
      using assms True unfolding pool_ok_def e by (simp del: mset_append mset_upt)
  next
    case False
    define t where "t = (if ok then Lane_done else Lane_failed)"
    from False l have e: "settle_lane n p l ok = p\<lparr>pl_settled := pl_settled p @ [i], pl_lanes := (pl_lanes p)[l := t]\<rparr>"
      by (auto simp: settle_lane_def lane_turn_def Let_def t_def)
    have "mset (in_flight (settle_lane n p l ok)) + {#i#} = mset (in_flight p) + {#}"
      unfolding e using u [of t] by (simp add: in_flight_def t_def split: if_splits)
    from settled_count [OF this i]
    have "mset (in_flight (settle_lane n p l ok)) + mset (pl_settled p @ [i]) = mset (pl_started p)"
      by simp
    moreover have "t = Lane_done \<Longrightarrow> pl_cursor p = n"
      using False assms by (auto simp: t_def pool_ok_def split: if_splits)
    then have "Lane_done \<in> set ((pl_lanes p)[l := t]) \<longrightarrow> pl_cursor p = n"
      using done_s [of t] assms by (auto simp: pool_ok_def)
    ultimately show ?thesis
      using assms unfolding pool_ok_def e by (simp del: mset_append mset_upt)
  qed
qed

lemma pool_run_ok: "pool_ok n (pool_run limit n es) \<and> length (pl_lanes (pool_run limit n es)) = lane_count limit n"
  unfolding pool_run_def
  by (induction es rule: rev_induct) (simp_all add: start_pool_ok settle_lane_ok)

lemma length_in_flight: "length (in_flight p) \<le> length (pl_lanes p)"
proof -
  have "length (busy_index l) \<le> 1" for l by (cases l) auto
  then have "length (concat (map busy_index ls)) \<le> length ls" for ls
    by (induction ls) (auto intro: le_trans [OF add_le_mono])
  then show ?thesis by (simp add: in_flight_def)
qed

lemma pool_ok_resolved:
  assumes "pool_ok n p" "pool_resolved p" "pl_lanes p \<noteq> []"
  shows "mset (pl_settled p) = mset [0..<n]" "in_flight p = []"
proof -
  have all_s: "\<forall>l \<in> set (pl_lanes p). l = Lane_done" using assms(2) by (simp add: pool_resolved_def list_all_iff)
  then show f: "in_flight p = []" by (auto simp: in_flight_def)
  have "Lane_done \<in> set (pl_lanes p)" using all_s assms(3) by (cases "pl_lanes p") auto
  with assms(1) f show "mset (pl_settled p) = mset [0..<n]" by (simp add: pool_ok_def del: mset_upt)
qed

lemma no_failed_lane:
  assumes "list_all snd es"
  shows "Lane_failed \<notin> set (pl_lanes (pool_run limit n es))"
proof -
  have st: "Lane_failed \<notin> set (pl_lanes ((start_lane n ^^ k) p))" if "Lane_failed \<notin> set (pl_lanes p)" for k p
    using that by (induction k) (auto simp: start_lane_def lane_turn_def)
  have se: "Lane_failed \<notin> set (pl_lanes (settle_lane n p l True))" if "Lane_failed \<notin> set (pl_lanes p)" for p l
    using that set_update_subset_insert [of "pl_lanes p" l]
    by (auto simp: settle_lane_def lane_turn_def Let_def split: lane.split)
  show ?thesis
    using assms unfolding pool_run_def
    by (induction es rule: rev_induct) (simp_all add: start_pool_def st se)
qed

lemma lane_idle_cases: "busy_index l = [] \<longleftrightarrow> l = Lane_done \<or> l = Lane_failed"
  by (cases l) auto

text \<open>With workers that never throw, the pool calls the worker on the items in order, each once, has at most
  \<open>limit\<close> of them in flight at any moment (one, for a limit of zero), never stalls (while an item is unsettled some
  worker is in flight) and resolves exactly when every item has settled once, in whatever order the workers settle.\<close>

theorem pool_processes_each_item_once:
  assumes "list_all snd es" "p = pool_run limit n es"
  shows "pl_started p = [0..<pl_cursor p] \<and> length (in_flight p) \<le> max 1 limit \<and>
    (pool_resolved p \<longleftrightarrow> mset (pl_settled p) = mset [0..<n]) \<and>
    (in_flight p = [] \<longrightarrow> pool_resolved p)"
proof -
  have ok: "pool_ok n p" "length (pl_lanes p) = lane_count limit n" using pool_run_ok assms(2) by auto
  have nf: "Lane_failed \<notin> set (pl_lanes p)" using no_failed_lane [OF assms(1)] assms(2) by simp
  have ne: "pl_lanes p \<noteq> []" using ok(2) by (auto simp: lane_count_def)
  have idle: "pool_resolved p" if "in_flight p = []"
  proof -
    have "l = Lane_done" if "l \<in> set (pl_lanes p)" for l
      using that nf \<open>in_flight p = []\<close> by (auto simp: in_flight_def lane_idle_cases)
    then show ?thesis by (simp add: pool_resolved_def list_all_iff)
  qed
  moreover have "pool_resolved p \<longleftrightarrow> mset (pl_settled p) = mset [0..<n]"
  proof
    assume m: "mset (pl_settled p) = mset [0..<n]"
    have "mset (in_flight p) + mset (pl_settled p) = mset [0..<pl_cursor p]" using ok(1) by (simp only: pool_ok_def)
    then have "size (mset (in_flight p) + mset (pl_settled p)) = pl_cursor p" by simp
    with m have "length (in_flight p) + n = pl_cursor p" by (metis diff_zero length_upt size_mset size_union)
    moreover have "pl_cursor p \<le> n" using ok(1) by (simp add: pool_ok_def)
    ultimately have "length (in_flight p) = 0" by linarith
    then have "in_flight p = []" by simp
    then show "pool_resolved p" by (rule idle)
  qed (use pool_ok_resolved ok(1) ne in blast)
  moreover have "length (in_flight p) \<le> max 1 limit"
    using length_in_flight [of p] ok(2) by (auto simp: lane_count_def)
  ultimately show ?thesis using ok(1) by (simp add: pool_ok_def)
qed

theorem pool_processes_each_item_once_witness:
  "pool_resolved (pool_run 2 3 [(1, True), (0, True), (1, True)]) \<longleftrightarrow>
   mset (pl_settled (pool_run 2 3 [(1, True), (0, True), (1, True)])) = mset [0..<3]"
  using pool_processes_each_item_once [OF _ refl, of "[(1, True), (0, True), (1, True)]" 2 3] by simp

text \<open>Every settlement of a busy lane settles one more item, so \<open>n\<close> of them end the run.\<close>

lemma settle_busy_counts:
  assumes "l < length (pl_lanes p)" "pl_lanes p ! l = Lane_busy i"
  shows "length (pl_settled (settle_lane n p l ok)) = Suc (length (pl_settled p))"
  using assms by (auto simp: settle_lane_def lane_turn_def Let_def)

text \<open>A worker that throws takes its lane with it: with one lane, no later item is ever started.\<close>

lemma throwing_worker_stops_lane:
  "pl_started (pool_run 1 3 [(0, False), (0, True), (0, True)]) = [0]" "pool_rejected (pool_run 1 3 [(0, False)])"
  by code_simp+

end
