(* ===== verification/BulkAi.thy ===== *)
theory BulkAi
  imports WorkerPool Web
begin

section \<open>Bulk AI actions\<close>

text \<open>
  \<open>useBulkAi\<close> of \<open>lex/contracts/_lib/use-bulk-ai.ts\<close>: one run at a time over the selected contracts, either one
  request for all of them or a pool of three lanes. The answers of the server arrive as events, in any order; between
  two events the table may load other rows. Labels and toasts are left out, and a failure is its id and reason.
\<close>

datatype ai_kind = Compliance | Analyze | Extract_obligations | Auto_categorize

datatype ai_reason = No_category_match | Missing_owner | Api_error string

record ai_category =
  ac_name :: string
  ac_slug :: string

record ai_contract =
  ak_id :: string
  ak_type :: "string option"

record ai_user =
  au_id :: string
  au_full_name :: string
  au_first_name :: string
  au_last_name :: string
  au_email :: string

definition BULK_AI_CONCURRENCY :: nat where
  "BULK_AI_CONCURRENCY = 3"

subsection \<open>Categories\<close>

text \<open>\<open>replace(/[\s-]+/g, '_')\<close>: a run of white space and hyphens becomes one underscore.\<close>

fun collapse_runs :: "bool \<Rightarrow> string \<Rightarrow> string" where
  "collapse_runs inside [] = []"
| "collapse_runs inside (c # s) =
     (if js_is_space c \<or> c = CHR ''-''
      then (if inside then collapse_runs True s else CHR ''_'' # collapse_runs True s)
      else c # collapse_runs False s)"

definition normalizeCategoryToken :: "string \<Rightarrow> string" where
  "normalizeCategoryToken v = collapse_runs False (js_toLowerCase (js_trim v))"

definition deriveCategorySlugs :: "string option \<Rightarrow> ai_category list \<Rightarrow> string list" where
  "deriveCategorySlugs type_o catalog =
     (let candidate = normalizeCategoryToken (case type_o of None \<Rightarrow> [] | Some t \<Rightarrow> t)
      in if candidate = [] then []
         else map ac_slug (filter (\<lambda>c. normalizeCategoryToken (ac_slug c) = candidate \<or>
                normalizeCategoryToken (ac_name c) = candidate) catalog))"

subsection \<open>A run\<close>

record ai_run =
  ar_kind :: ai_kind
  ar_ids :: "string list"
  ar_catalog :: "ai_category list"
  ar_pool :: pool
  ar_local :: "nat list"
  ar_requests :: "nat list"
  ar_done :: nat
  ar_failures :: "(string \<times> ai_reason) list"
  ar_created :: nat
  ar_log :: "(nat \<times> ai_reason option) list"

datatype ai_answer = Ai_ok nat | Ai_error string

definition new_run :: "ai_kind \<Rightarrow> string list \<Rightarrow> ai_run" where
  "new_run kind ids =
     \<lparr>ar_kind = kind, ar_ids = ids, ar_catalog = [],
      ar_pool = \<lparr>pl_cursor = 0, pl_lanes = [], pl_started = [], pl_settled = []\<rparr>,
      ar_local = [], ar_requests = [], ar_done = 0, ar_failures = [], ar_created = 0, ar_log = []\<rparr>"

definition item_slugs :: "ai_contract list \<Rightarrow> ai_run \<Rightarrow> nat \<Rightarrow> string list" where
  "item_slugs rows run i =
     (case find (\<lambda>r. ak_id r = ar_ids run ! i) rows of
        None \<Rightarrow> []
      | Some row \<Rightarrow> deriveCategorySlugs (ak_type row) (ar_catalog run))"

text \<open>
  The worker is called on index \<open>i\<close>: it sends its request, or records the missing category at once; such an item
  settles with no request.
\<close>

definition call_worker :: "ai_contract list \<Rightarrow> ai_run \<Rightarrow> nat \<Rightarrow> ai_run" where
  "call_worker rows run i =
     (if ar_kind run = Auto_categorize \<and> item_slugs rows run i = []
      then run\<lparr>ar_failures := ar_failures run @ [(ar_ids run ! i, No_category_match)], ar_local := ar_local run @ [i]\<rparr>
      else run\<lparr>ar_requests := ar_requests run @ [i]\<rparr>)"

definition enter_pool :: "ai_contract list \<Rightarrow> pool \<Rightarrow> ai_run \<Rightarrow> ai_run" where
  "enter_pool rows p run =
     foldl (call_worker rows) (run\<lparr>ar_pool := p\<rparr>) (drop (length (pl_started (ar_pool run))) (pl_started p))"

text \<open>The worker of index \<open>i\<close> goes on after its \<open>await\<close>.\<close>

definition finish_item :: "nat \<Rightarrow> ai_answer \<Rightarrow> ai_run \<Rightarrow> ai_run" where
  "finish_item i answer run =
     (let run1 = (if i \<in> set (ar_local run) then run\<lparr>ar_log := ar_log run @ [(i, Some No_category_match)]\<rparr>
                  else (case answer of
                          Ai_ok n \<Rightarrow> run\<lparr>ar_created := (if ar_kind run = Extract_obligations then ar_created run + n else ar_created run),
                                        ar_log := ar_log run @ [(i, None)]\<rparr>
                        | Ai_error e \<Rightarrow> run\<lparr>ar_failures := ar_failures run @ [(ar_ids run ! i, Api_error e)],
                                           ar_log := ar_log run @ [(i, Some (Api_error e))]\<rparr>))
      in run1\<lparr>ar_done := ar_done run1 + 1\<rparr>)"

definition settle_item :: "ai_contract list \<Rightarrow> nat \<Rightarrow> ai_answer \<Rightarrow> ai_run \<Rightarrow> ai_run" where
  "settle_item rows l answer run =
     (if l < length (pl_lanes (ar_pool run))
      then (case pl_lanes (ar_pool run) ! l of
              Lane_busy i \<Rightarrow>
                (let run1 = finish_item i answer run
                 in enter_pool rows (settle_lane (length (ar_ids run)) (ar_pool run) l True) run1)
            | _ \<Rightarrow> run)
      else run)"

definition fail_all :: "ai_reason \<Rightarrow> ai_run \<Rightarrow> ai_run" where
  "fail_all reason run =
     run\<lparr>ar_failures := ar_failures run @ map (\<lambda>i. (i, reason)) (ar_ids run), ar_done := length (ar_ids run)\<rparr>"

subsection \<open>The hook\<close>

datatype ai_phase = One_request | Catalog_request | In_pool

record ai_summary =
  as_kind :: ai_kind
  as_total :: nat
  as_succeeded :: nat
  as_failures :: "(string \<times> ai_reason) list"

record ai_hook =
  ah_canWrite :: bool
  ah_user :: "ai_user option"
  ah_rows :: "ai_contract list"
  ah_run :: "(ai_phase \<times> ai_run) option"
  ah_summary :: "ai_summary option"
  ah_dialog :: bool
  ah_completed :: nat
  ah_finished :: "ai_run list"

definition owner_name :: "ai_user \<Rightarrow> string" where
  "owner_name u =
     (if au_full_name u \<noteq> [] then au_full_name u
      else (let both = js_join '' '' (filter (\<lambda>s. s \<noteq> []) [au_first_name u, au_last_name u])
            in if both \<noteq> [] then both else au_email u))"

definition owner_known :: "ai_user option \<Rightarrow> bool" where
  "owner_known user = (case user of None \<Rightarrow> False | Some u \<Rightarrow> au_id u \<noteq> [] \<and> owner_name u \<noteq> [])"

text \<open>The end of \<open>runBulkAi\<close>, from the \<open>finally\<close> on.\<close>

definition finish_run :: "ai_run \<Rightarrow> ai_hook \<Rightarrow> ai_hook" where
  "finish_run run h =
     (let tot = length (ar_ids run); succeeded = tot - length (ar_failures run);
          h1 = h\<lparr>ah_run := None, ah_finished := ah_finished h @ [run]\<rparr>;
          h2 = (if ar_failures run = [] then h1
                else h1\<lparr>ah_summary := Some \<lparr>as_kind = ar_kind run, as_total = tot, as_succeeded = succeeded,
                         as_failures = ar_failures run\<rparr>, ah_dialog := True\<rparr>)
      in if 0 < succeeded then h2\<lparr>ah_completed := ah_completed h2 + 1\<rparr> else h2)"

text \<open>The promise of the lanes is awaited: the run ends when it resolves.\<close>

definition await_pool :: "ai_run \<Rightarrow> ai_hook \<Rightarrow> ai_hook" where
  "await_pool run h = (if pool_resolved (ar_pool run) then finish_run run h else h\<lparr>ah_run := Some (In_pool, run)\<rparr>)"

definition launch_pool :: "ai_run \<Rightarrow> ai_hook \<Rightarrow> ai_hook" where
  "launch_pool run h =
     await_pool (enter_pool (ah_rows h) (start_pool BULK_AI_CONCURRENCY (length (ar_ids run))) run) h"

definition runBulkAi :: "ai_kind \<Rightarrow> string list \<Rightarrow> ai_hook \<Rightarrow> ai_hook" where
  "runBulkAi kind ids h =
     (if \<not> ah_canWrite h \<or> ah_run h \<noteq> None then h
      else if ids = [] then h
      else (let run = new_run kind ids
            in case kind of
                 Compliance \<Rightarrow> h\<lparr>ah_run := Some (One_request, run)\<rparr>
               | Analyze \<Rightarrow> launch_pool run h
               | Extract_obligations \<Rightarrow>
                   (if owner_known (ah_user h) then launch_pool run h else finish_run (fail_all Missing_owner run) h)
               | Auto_categorize \<Rightarrow> h\<lparr>ah_run := Some (Catalog_request, run)\<rparr>))"

datatype ai_event =
    Ai_start ai_kind "string list"
  | Ai_all ai_answer
  | Ai_catalog "string + ai_category list"
  | Ai_lane nat ai_answer
  | Ai_rows "ai_contract list"

fun ai_step :: "ai_hook \<Rightarrow> ai_event \<Rightarrow> ai_hook" where
  "ai_step h (Ai_start kind ids) = runBulkAi kind ids h"
| "ai_step h (Ai_all answer) =
     (case ah_run h of
        Some (One_request, run) \<Rightarrow>
          (case answer of
             Ai_ok n \<Rightarrow> finish_run (run\<lparr>ar_done := length (ar_ids run)\<rparr>) h
           | Ai_error e \<Rightarrow> finish_run (fail_all (Api_error e) run) h)
      | _ \<Rightarrow> h)"
| "ai_step h (Ai_catalog answer) =
     (case ah_run h of
        Some (Catalog_request, run) \<Rightarrow>
          (case answer of
             Inl e \<Rightarrow> if e = [] then launch_pool run h else finish_run (fail_all (Api_error e) run) h
           | Inr catalog \<Rightarrow> launch_pool (run\<lparr>ar_catalog := catalog\<rparr>) h)
      | _ \<Rightarrow> h)"
| "ai_step h (Ai_lane l answer) =
     (case ah_run h of
        Some (In_pool, run) \<Rightarrow> await_pool (settle_item (ah_rows h) l answer run) h
      | _ \<Rightarrow> h)"
| "ai_step h (Ai_rows rows) = h\<lparr>ah_rows := rows\<rparr>"

definition ai_mounted :: "bool \<Rightarrow> ai_user option \<Rightarrow> ai_contract list \<Rightarrow> ai_hook" where
  "ai_mounted canWrite user rows =
     \<lparr>ah_canWrite = canWrite, ah_user = user, ah_rows = rows, ah_run = None, ah_summary = None, ah_dialog = False,
      ah_completed = 0, ah_finished = []\<rparr>"

subsection \<open>The books of a run\<close>

definition log_failures :: "string list \<Rightarrow> (nat \<times> ai_reason option) list \<Rightarrow> (string \<times> ai_reason) list" where
  "log_failures ids entries = List.map_filter (\<lambda>e. map_option (Pair (ids ! fst e)) (snd e)) entries"

lemma log_failures_append [simp]:
  "log_failures ids (es @ [(i, r)]) = log_failures ids es @ (case r of None \<Rightarrow> [] | Some x \<Rightarrow> [(ids ! i, x)])"
  by (simp add: log_failures_def map_filter_def split: option.split)

lemma log_failures_Nil [simp]: "log_failures ids [] = []"
  by (simp add: log_failures_def map_filter_def)

text \<open>
  \<open>F\<close> are the indexes in flight, \<open>S\<close> the started ones: each started item sent a request or failed at once, and the
  failures are those of the settled items and of the items in flight that have no category.
\<close>

definition without_category :: "ai_run \<Rightarrow> nat multiset \<Rightarrow> (string \<times> ai_reason) multiset" where
  "without_category run F =
     image_mset (\<lambda>i. (ar_ids run ! i, No_category_match)) (filter_mset (\<lambda>i. i \<in> set (ar_local run)) F)"

definition books :: "ai_run \<Rightarrow> nat multiset \<Rightarrow> nat list \<Rightarrow> bool" where
  "books run F S \<longleftrightarrow>
     mset (ar_requests run) + mset (ar_local run) = mset S \<and>
     mset (ar_failures run) = mset (log_failures (ar_ids run) (ar_log run)) + without_category run F \<and>
     ar_done run = length (ar_log run)"

lemma call_worker_books:
  assumes "books run F S" "i \<notin># F" "i \<notin> set S"
  shows "books (call_worker rows run i) (F + {#i#}) (S @ [i])"
proof -
  have l: "i \<notin> set (ar_local run)"
    using assms(1,3) unfolding books_def by (metis Un_iff set_mset_mset set_mset_union)
  have "filter_mset (\<lambda>j. j = i \<or> j \<in> set (ar_local run)) F = filter_mset (\<lambda>j. j \<in> set (ar_local run)) F"
    using assms(2) by (intro filter_mset_cong refl) auto
  with assms l show ?thesis
    unfolding books_def call_worker_def without_category_def by auto
qed

lemma finish_item_books:
  assumes "books run (F + {#i#}) S" 
  shows "books (finish_item i answer run) F S"
  using assms unfolding books_def finish_item_def without_category_def
  by (cases answer) (auto simp: Let_def)

lemma call_worker_keeps [simp]:
  "ar_pool (call_worker rows run i) = ar_pool run" "ar_ids (call_worker rows run i) = ar_ids run"
  "ar_log (call_worker rows run i) = ar_log run"
  by (simp_all add: call_worker_def)

lemma call_workers_keep [simp]:
  "ar_pool (foldl (call_worker rows) run xs) = ar_pool run" "ar_ids (foldl (call_worker rows) run xs) = ar_ids run"
  "ar_log (foldl (call_worker rows) run xs) = ar_log run"
  by (induction xs arbitrary: run) simp_all

lemma call_workers_books:
  assumes "books run F S" "distinct new_s" "set new_s \<inter> (set_mset F \<union> set S) = {}"
  shows "books (foldl (call_worker rows) run new_s) (F + mset new_s) (S @ new_s)"
  using assms
proof (induction new_s arbitrary: run F S)
  case Nil
  then show ?case by simp
next
  case (Cons i xs)
  have "books (foldl (call_worker rows) (call_worker rows run i) xs) ((F + {#i#}) + mset xs) ((S @ [i]) @ xs)"
  proof (rule Cons.IH)
    show "books (call_worker rows run i) (F + {#i#}) (S @ [i])"
      by (rule call_worker_books) (use Cons.prems in auto)
  qed (use Cons.prems in auto)
  then show ?case by (simp add: ac_simps)
qed

lemma books_pool [simp]: "books (run\<lparr>ar_pool := p\<rparr>) F S = books run F S"
  by (simp add: books_def without_category_def)

lemma finish_item_keeps [simp]:
  "ar_pool (finish_item i answer run) = ar_pool run" "ar_ids (finish_item i answer run) = ar_ids run"
  "map fst (ar_log (finish_item i answer run)) = map fst (ar_log run) @ [i]"
  by (auto simp: finish_item_def Let_def split: ai_answer.split)

definition run_ok :: "ai_run \<Rightarrow> bool" where
  "run_ok run \<longleftrightarrow>
     pool_ok (length (ar_ids run)) (ar_pool run) \<and>
     length (pl_lanes (ar_pool run)) = lane_count BULK_AI_CONCURRENCY (length (ar_ids run)) \<and>
     Lane_failed \<notin> set (pl_lanes (ar_pool run)) \<and>
     map fst (ar_log run) = pl_settled (ar_pool run) \<and>
     books run (mset (in_flight (ar_pool run))) (pl_started (ar_pool run))"

lemma enter_pool_ok:
  assumes "books run F (pl_started (ar_pool run))" "pl_started p = pl_started (ar_pool run) @ new_s"
    and "mset (in_flight p) = F + mset new_s" "set_mset F \<subseteq> set (pl_started (ar_pool run))"
    and "pool_ok (length (ar_ids run)) p" "length (pl_lanes p) = lane_count BULK_AI_CONCURRENCY (length (ar_ids run))"
    and "Lane_failed \<notin> set (pl_lanes p)" "map fst (ar_log run) = pl_settled p"
  shows "run_ok (enter_pool rows p run)"
proof -
  have "distinct (pl_started p)" using assms(5) by (simp add: pool_ok_def)
  then have "books (foldl (call_worker rows) (run\<lparr>ar_pool := p\<rparr>) new_s) (F + mset new_s)
      (pl_started (ar_pool run) @ new_s)"
    using assms(1,2,4) by (intro call_workers_books) auto
  with assms show ?thesis unfolding run_ok_def enter_pool_def by simp
qed

lemma settle_lane_grows:
  assumes "l < length (pl_lanes p)" "pl_lanes p ! l = Lane_busy i"
  shows "\<exists>new_s. pl_started (settle_lane n p l ok) = pl_started p @ new_s"
    and "pl_settled (settle_lane n p l ok) = pl_settled p @ [i]"
  using assms by (auto simp: settle_lane_def lane_turn_def Let_def)

lemma settle_lane_not_failed:
  "Lane_failed \<notin> set (pl_lanes p) \<Longrightarrow> Lane_failed \<notin> set (pl_lanes (settle_lane n p l True))"
  using set_update_subset_insert [of "pl_lanes p" l]
  by (auto simp: settle_lane_def lane_turn_def Let_def split: lane.split)

lemma settle_item_ok:
  assumes "run_ok run"
  shows "run_ok (settle_item rows l answer run)"
proof (cases "l < length (pl_lanes (ar_pool run)) \<and> (\<exists>i. pl_lanes (ar_pool run) ! l = Lane_busy i)")
  case False
  with assms show ?thesis by (auto simp: settle_item_def split: lane.split)
next
  case True
  then obtain i where l: "l < length (pl_lanes (ar_pool run))" "pl_lanes (ar_pool run) ! l = Lane_busy i" by blast
  let ?p = "ar_pool run" and ?n = "length (ar_ids run)"
  let ?q = "settle_lane ?n ?p l True"
  obtain new_s where q: "pl_started ?q = pl_started ?p @ new_s" "pl_settled ?q = pl_settled ?p @ [i]"
    using settle_lane_grows [OF l] by blast
  have ok: "pool_ok ?n ?p" "pool_ok ?n ?q" using assms settle_lane_ok by (auto simp: run_ok_def)
  have "i \<in> set (in_flight ?p)"
    using nth_mem [OF l(1)] unfolding l(2) by (force simp: in_flight_def)
  then obtain F where F: "mset (in_flight ?p) = F + {#i#}"
    by (metis add_mset_add_single insert_DiffM set_mset_mset)
  have "mset (in_flight ?q) + (mset (pl_settled ?p) + {#i#}) = (mset (in_flight ?p) + mset (pl_settled ?p)) + mset new_s"
    using ok q by (simp add: pool_ok_def del: mset_upt)
  then have "mset (in_flight ?q) = F + mset new_s" unfolding F by (simp add: ac_simps)
  moreover have "set_mset F \<subseteq> set (pl_started ?p)"
  proof -
    have "mset (pl_started ?p) = F + {#i#} + mset (pl_settled ?p)" using ok(1) F by (simp add: pool_ok_def del: mset_upt)
    then show ?thesis by (metis mset_subset_eqD mset_subset_eq_add_left set_mset_mset subsetI union_assoc)
  qed
  moreover have "books (finish_item i answer run) F (pl_started ?p)"
    using assms F by (intro finish_item_books) (simp add: run_ok_def)
  ultimately have "run_ok (enter_pool rows ?q (finish_item i answer run))"
    using assms q ok(2) settle_lane_not_failed by (intro enter_pool_ok) (auto simp: run_ok_def)
  with l show ?thesis by (simp add: settle_item_def Let_def)
qed

lemma start_lane_settled: "pl_settled (start_lane n p) = pl_settled p"
  by (auto simp: start_lane_def lane_turn_def)

lemma start_pool_settled: "pl_settled (start_pool limit n) = []"
proof -
  have "pl_settled ((start_lane n ^^ k) p) = pl_settled p" for k p
    by (induction k) (simp_all add: start_lane_settled)
  then show ?thesis by (simp add: start_pool_def)
qed

definition fresh_run :: "ai_run \<Rightarrow> bool" where
  "fresh_run run \<longleftrightarrow>
     pl_started (ar_pool run) = [] \<and> in_flight (ar_pool run) = [] \<and> ar_local run = [] \<and> ar_requests run = [] \<and>
     ar_done run = 0 \<and> ar_failures run = [] \<and> ar_log run = []"

lemma new_run_fresh [simp]: "fresh_run (new_run kind ids)" "fresh_run (new_run kind ids\<lparr>ar_catalog := c\<rparr>)"
  by (simp_all add: fresh_run_def new_run_def in_flight_def)

lemma launch_ok:
  assumes "fresh_run run"
  shows "run_ok (enter_pool rows (start_pool BULK_AI_CONCURRENCY (length (ar_ids run))) run)"
proof -
  let ?p = "start_pool BULK_AI_CONCURRENCY (length (ar_ids run))"
  have "mset (in_flight ?p) = mset (pl_started ?p)"
    using start_pool_ok(1) [of "length (ar_ids run)" BULK_AI_CONCURRENCY] by (simp add: pool_ok_def start_pool_settled del: mset_upt)
  moreover have "Lane_failed \<notin> set (pl_lanes ?p)"
    using no_failed_lane [of "[]" BULK_AI_CONCURRENCY "length (ar_ids run)"] by (simp add: pool_run_def)
  ultimately show ?thesis
    using assms start_pool_ok
    by (intro enter_pool_ok [where F = "{#}" and new_s = "pl_started ?p"])
      (auto simp: fresh_run_def books_def without_category_def start_pool_settled)
qed

text \<open>
  A finished run accounts for every contract: without a pool it failed nowhere or everywhere for one reason; with a
  pool every index was requested or failed at once, once, and settled once, and the failures are those that settled
  as failed.
\<close>

definition accounted :: "ai_run \<Rightarrow> bool" where
  "accounted run \<longleftrightarrow>
     ar_done run = length (ar_ids run) \<and> length (ar_failures run) \<le> length (ar_ids run) \<and>
     (ar_requests run = [] \<and>
        (ar_failures run = [] \<or> (\<exists>reason. ar_failures run = map (\<lambda>i. (i, reason)) (ar_ids run))) \<or>
      mset (ar_requests run) + mset (ar_local run) = mset [0..<length (ar_ids run)] \<and>
      mset (map fst (ar_log run)) = mset [0..<length (ar_ids run)] \<and>
      mset (ar_failures run) = mset (log_failures (ar_ids run) (ar_log run)))"

lemma length_log_failures: "length (log_failures ids es) \<le> length es"
  by (simp add: log_failures_def map_filter_def)

lemma resolved_accounted:
  assumes "run_ok run" "pool_resolved (ar_pool run)"
  shows "accounted run"
proof -
  let ?n = "length (ar_ids run)"
  have "pl_lanes (ar_pool run) \<noteq> []" using assms(1) by (auto simp: run_ok_def lane_count_def)
  with assms pool_ok_resolved [of ?n "ar_pool run"]
  have s: "mset (pl_settled (ar_pool run)) = mset [0..<?n]" "in_flight (ar_pool run) = []"
    by (simp_all add: run_ok_def)
  have b: "books run {#} (pl_started (ar_pool run))" "map fst (ar_log run) = pl_settled (ar_pool run)"
    using assms(1) s(2) by (simp_all add: run_ok_def)
  have "mset (pl_started (ar_pool run)) = mset [0..<?n]"
    using assms(1) s by (simp add: run_ok_def pool_ok_def del: mset_upt)
  moreover have "length (ar_log run) = ?n"
    using s(1) b(2) by (metis diff_zero length_map length_upt size_mset)
  moreover have "mset (ar_failures run) = mset (log_failures (ar_ids run) (ar_log run))"
    using b(1) by (simp add: books_def without_category_def)
  moreover from this have "length (ar_failures run) \<le> length (ar_log run)"
    using length_log_failures by (metis size_mset)
  ultimately show ?thesis
    using b s(1) unfolding accounted_def by (simp add: books_def del: mset_upt)
qed

lemma fail_all_accounted: "fresh_run run \<Longrightarrow> accounted (fail_all reason run)"
  by (auto simp: accounted_def fail_all_def fresh_run_def)

lemma all_done_accounted: "fresh_run run \<Longrightarrow> accounted (run\<lparr>ar_done := length (ar_ids run)\<rparr>)"
  by (auto simp: accounted_def fresh_run_def)

subsection \<open>The hook keeps the books\<close>

definition hook_ok :: "ai_hook \<Rightarrow> bool" where
  "hook_ok h \<longleftrightarrow>
     list_all accounted (ah_finished h) \<and>
     (case ah_run h of
        None \<Rightarrow> True
      | Some (In_pool, run) \<Rightarrow> run_ok run \<and> \<not> pool_resolved (ar_pool run)
      | Some (ph, run) \<Rightarrow> fresh_run run)"

lemma finish_run_fields [simp]:
  "ah_run (finish_run run h) = None" "ah_finished (finish_run run h) = ah_finished h @ [run]"
  by (simp_all add: finish_run_def Let_def)

lemma finish_run_ok: "hook_ok h \<Longrightarrow> accounted run \<Longrightarrow> hook_ok (finish_run run h)"
  by (simp add: hook_ok_def)

lemma await_pool_ok: "hook_ok h \<Longrightarrow> run_ok run \<Longrightarrow> hook_ok (await_pool run h)"
  using resolved_accounted finish_run_ok by (auto simp: await_pool_def) (simp add: hook_ok_def)

lemma launch_pool_ok: "hook_ok h \<Longrightarrow> fresh_run run \<Longrightarrow> hook_ok (launch_pool run h)"
  by (simp add: launch_pool_def await_pool_ok launch_ok)

lemma runBulkAi_ok: "hook_ok h \<Longrightarrow> hook_ok (runBulkAi kind ids h)"
  by (cases kind)
    (auto simp: runBulkAi_def Let_def launch_pool_ok finish_run_ok fail_all_accounted, auto simp: hook_ok_def)

lemma ai_step_ok: "hook_ok h \<Longrightarrow> hook_ok (ai_step h e)"
proof (cases e)
  case (Ai_start kind ids)
  moreover assume "hook_ok h"
  ultimately show ?thesis by (simp add: runBulkAi_ok)
next
  case (Ai_all answer)
  moreover assume "hook_ok h"
  moreover from this have "fresh_run run" if "ah_run h = Some (One_request, run)" for run
    using that by (simp add: hook_ok_def)
  ultimately show ?thesis
    by (auto simp: finish_run_ok fail_all_accounted all_done_accounted split: option.split ai_phase.split ai_answer.split)
next
  case (Ai_catalog answer)
  moreover assume "hook_ok h"
  moreover from this have "fresh_run run" if "ah_run h = Some (Catalog_request, run)" for run
    using that by (simp add: hook_ok_def)
  moreover from this have "fresh_run (run\<lparr>ar_catalog := c\<rparr>)" if "ah_run h = Some (Catalog_request, run)" for run c
    using that by (simp add: fresh_run_def)
  ultimately show ?thesis
    by (auto simp: finish_run_ok fail_all_accounted launch_pool_ok split: option.split ai_phase.split sum.split)
next
  case (Ai_lane l answer)
  moreover assume "hook_ok h"
  moreover from this have "run_ok run" if "ah_run h = Some (In_pool, run)" for run
    using that by (simp add: hook_ok_def)
  ultimately show ?thesis
    by (auto simp: await_pool_ok settle_item_ok split: option.split ai_phase.split)
next
  case (Ai_rows rows)
  moreover assume "hook_ok h"
  ultimately show ?thesis by (simp add: hook_ok_def)
qed

lemma ai_run_ok: "hook_ok (foldl ai_step (ai_mounted c u rows) es)"
proof -
  have "hook_ok (ai_mounted c u rows)" by (simp add: hook_ok_def ai_mounted_def)
  then show ?thesis by (induction es rule: rev_induct) (simp_all add: ai_step_ok)
qed



text \<open>A run under way is not disturbed, and a reader starts none.\<close>

lemma no_overlapping_runs: "ah_run h \<noteq> None \<Longrightarrow> ai_step h (Ai_start kind ids) = h"
  by (simp add: runBulkAi_def)

lemma readers_start_nothing:
  "ah_run (foldl ai_step (ai_mounted False u rows) es) = None \<and>
   ah_finished (foldl ai_step (ai_mounted False u rows) es) = []"
proof -
  have w: "ah_canWrite (finish_run run h) = ah_canWrite h" for run h by (simp add: finish_run_def Let_def)
  have "\<not> ah_canWrite h \<and> ah_run h = None \<and> ah_finished h = [] \<Longrightarrow>
      \<not> ah_canWrite (ai_step h e) \<and> ah_run (ai_step h e) = None \<and> ah_finished (ai_step h e) = []" for h e
    by (cases e) (auto simp: runBulkAi_def)
  then have "\<not> ah_canWrite (foldl ai_step (ai_mounted False u rows) es) \<and>
      ah_run (foldl ai_step (ai_mounted False u rows) es) = None \<and>
      ah_finished (foldl ai_step (ai_mounted False u rows) es) = []"
    by (induction es rule: rev_induct) (simp_all add: ai_mounted_def)
  then show ?thesis by blast
qed

text \<open>A catalog request that fails with an empty message counts as an empty catalog: every contract is then reported
  as having no category.\<close>

lemma empty_error_blames_categories:
  "map ar_failures (ah_finished (foldl ai_step (ai_mounted True None [\<lparr>ak_id = ''a'', ak_type = Some ''nda''\<rparr>])
     [Ai_start Auto_categorize [''a''], Ai_catalog (Inl []), Ai_lane 0 (Ai_ok 0)])) = [[(''a'', No_category_match)]]"
  by code_simp

end
