(* ===== verification/LexLifecycle.thy ===== *)
theory LexLifecycle
  imports Web
begin

section \<open>Lifecycles of the legal workspace\<close>

text \<open>
  \<open>lib/lex/investigation-lifecycle.ts\<close> (the next action and the cancellation of an investigation with their four-eyes
  guard), the transition maps of investigations, settlements and cases (\<open>lib/lex/investigations.ts\<close>,
  \<open>lib/lex/settlements.ts\<close>, \<open>lib/lex/cases.ts\<close>), the drag gates of the two boards, the settlement stepper and
  the bulk status dialog of the case list.
\<close>

subsection \<open>Investigations\<close>

datatype investigation_status =
    Registered | Inv_in_progress | Results_recorded | Inv_pending_approval | Inv_approved | Inv_rejected | Inv_closed
  | Inv_cancelled

fun INVESTIGATION_STATUS_TRANSITIONS :: "investigation_status \<Rightarrow> investigation_status list" where
  "INVESTIGATION_STATUS_TRANSITIONS Registered = [Inv_in_progress, Inv_cancelled]"
| "INVESTIGATION_STATUS_TRANSITIONS Inv_in_progress = [Inv_cancelled]"
| "INVESTIGATION_STATUS_TRANSITIONS Results_recorded = [Inv_in_progress, Inv_cancelled]"
| "INVESTIGATION_STATUS_TRANSITIONS Inv_pending_approval = []"
| "INVESTIGATION_STATUS_TRANSITIONS Inv_approved = [Inv_closed]"
| "INVESTIGATION_STATUS_TRANSITIONS Inv_rejected = [Inv_in_progress, Inv_cancelled]"
| "INVESTIGATION_STATUS_TRANSITIONS Inv_closed = []"
| "INVESTIGATION_STATUS_TRANSITIONS Inv_cancelled = []"

datatype inv_action_kind =
    Start_investigation | Record_findings | Send_for_approval | Decide_approval | Close_investigation
  | Reopen_for_rework | Terminal_state | Cancel_investigation

datatype inv_block =
    Edit_permission_required | Approve_permission_required | Close_permission_required | Findings_required
  | Recommendations_required | Four_eyes_required | Approval_task_loading | Approval_task_required

record inv_context =
  ic_status :: investigation_status
  ic_createdBy :: "string option"
  ic_currentUserId :: "string option"
  ic_canEdit :: bool
  ic_canApprove :: bool
  ic_canClose :: bool
  ic_hasFindings :: bool
  ic_hasRecommendations :: bool
  ic_approvalTasksLoading :: bool
  ic_hasActionableApprovalTask :: bool

record inv_action =
  ia_kind :: inv_action_kind
  ia_enabled :: bool
  ia_blocked :: "inv_block option"
  ia_target :: "investigation_status option"

definition action_enabled :: "inv_action_kind \<Rightarrow> investigation_status option \<Rightarrow> inv_action" where
  "action_enabled k t = \<lparr>ia_kind = k, ia_enabled = True, ia_blocked = None, ia_target = t\<rparr>"

definition action_blocked :: "inv_action_kind \<Rightarrow> inv_block \<Rightarrow> investigation_status option \<Rightarrow> inv_action" where
  "action_blocked k b t = \<lparr>ia_kind = k, ia_enabled = False, ia_blocked = Some b, ia_target = t\<rparr>"

definition requireEdit :: "inv_action_kind \<Rightarrow> investigation_status option \<Rightarrow> inv_context \<Rightarrow> inv_action" where
  "requireEdit k t c = (if ic_canEdit c then action_enabled k t else action_blocked k Edit_permission_required t)"

definition violatesFourEyes :: "inv_context \<Rightarrow> bool" where
  "violatesFourEyes c =
     (case (map_option js_trim (ic_createdBy c), map_option js_trim (ic_currentUserId c)) of
        (Some creator, Some actor) \<Rightarrow> creator \<noteq> [] \<and> actor \<noteq> [] \<and> creator = actor
      | _ \<Rightarrow> False)"

definition nextAction :: "inv_context \<Rightarrow> inv_action" where
  "nextAction c =
     (case ic_status c of
        Registered \<Rightarrow> requireEdit Start_investigation (Some Inv_in_progress) c
      | Inv_in_progress \<Rightarrow> requireEdit Record_findings None c
      | Results_recorded \<Rightarrow>
          (if \<not> ic_canEdit c then action_blocked Send_for_approval Edit_permission_required None
           else if \<not> ic_hasFindings c then action_blocked Send_for_approval Findings_required None
           else if \<not> ic_hasRecommendations c then action_blocked Send_for_approval Recommendations_required None
           else action_enabled Send_for_approval None)
      | Inv_pending_approval \<Rightarrow>
          (if \<not> ic_canApprove c then action_blocked Decide_approval Approve_permission_required None
           else if violatesFourEyes c then action_blocked Decide_approval Four_eyes_required None
           else if ic_approvalTasksLoading c then action_blocked Decide_approval Approval_task_loading None
           else if \<not> ic_hasActionableApprovalTask c then action_blocked Decide_approval Approval_task_required None
           else action_enabled Decide_approval None)
      | Inv_approved \<Rightarrow>
          (if \<not> ic_canClose c then action_blocked Close_investigation Close_permission_required None
           else if violatesFourEyes c then action_blocked Close_investigation Four_eyes_required None
           else action_enabled Close_investigation (Some Inv_closed))
      | Inv_rejected \<Rightarrow> requireEdit Reopen_for_rework (Some Inv_in_progress) c
      | Inv_closed \<Rightarrow> \<lparr>ia_kind = Terminal_state, ia_enabled = False, ia_blocked = None, ia_target = None\<rparr>
      | Inv_cancelled \<Rightarrow> \<lparr>ia_kind = Terminal_state, ia_enabled = False, ia_blocked = None, ia_target = None\<rparr>)"

definition cancelAction :: "inv_context \<Rightarrow> inv_action option" where
  "cancelAction c =
     (if ic_status c \<notin> set [Registered, Inv_in_progress, Results_recorded, Inv_rejected] then None
      else if \<not> ic_canClose c then Some (action_blocked Cancel_investigation Close_permission_required (Some Inv_cancelled))
      else if violatesFourEyes c then Some (action_blocked Cancel_investigation Four_eyes_required (Some Inv_cancelled))
      else Some (action_enabled Cancel_investigation (Some Inv_cancelled)))"

fun INV_DRAG_ELIGIBLE_TRANSITIONS :: "investigation_status \<Rightarrow> investigation_status list" where
  "INV_DRAG_ELIGIBLE_TRANSITIONS Registered = [Inv_in_progress]"
| "INV_DRAG_ELIGIBLE_TRANSITIONS Results_recorded = [Inv_in_progress]"
| "INV_DRAG_ELIGIBLE_TRANSITIONS Inv_rejected = [Inv_in_progress]"
| "INV_DRAG_ELIGIBLE_TRANSITIONS Inv_in_progress = []"
| "INV_DRAG_ELIGIBLE_TRANSITIONS Inv_pending_approval = []"
| "INV_DRAG_ELIGIBLE_TRANSITIONS Inv_approved = []"
| "INV_DRAG_ELIGIBLE_TRANSITIONS Inv_closed = []"
| "INV_DRAG_ELIGIBLE_TRANSITIONS Inv_cancelled = []"

text \<open>A dropped card: nothing happens, it advances, or one of the two warnings is shown.\<close>

datatype 'c drop_result = Drop_ignored | Drop_advances 'c | Drop_needs_approval | Drop_invalid

definition inv_handleMove ::
  "bool \<Rightarrow> (string \<times> investigation_status) list \<Rightarrow> string \<Rightarrow> investigation_status \<Rightarrow>
   (string \<times> investigation_status) drop_result" where
  "inv_handleMove hasAdvance board dragged to_s =
     (if \<not> hasAdvance then Drop_ignored
      else (case map_of (rev board) dragged of
              None \<Rightarrow> Drop_ignored
            | Some from_s \<Rightarrow>
                if to_s \<in> set (INV_DRAG_ELIGIBLE_TRANSITIONS from_s) then Drop_advances (dragged, to_s)
                else if to_s \<in> set (INVESTIGATION_STATUS_TRANSITIONS from_s) then Drop_needs_approval
                else Drop_invalid))"

subsection \<open>Settlements\<close>

datatype settlement_status = Proposed | Negotiating | Set_pending_approval | Set_approved | Executed | Set_rejected | Abandoned

fun SETTLEMENT_STATUS_TRANSITIONS :: "settlement_status \<Rightarrow> settlement_status list" where
  "SETTLEMENT_STATUS_TRANSITIONS Proposed = [Negotiating, Set_pending_approval]"
| "SETTLEMENT_STATUS_TRANSITIONS Negotiating = [Set_pending_approval]"
| "SETTLEMENT_STATUS_TRANSITIONS Set_pending_approval = [Set_approved, Set_rejected]"
| "SETTLEMENT_STATUS_TRANSITIONS Set_approved = [Executed]"
| "SETTLEMENT_STATUS_TRANSITIONS Executed = []"
| "SETTLEMENT_STATUS_TRANSITIONS Set_rejected = [Negotiating]"
| "SETTLEMENT_STATUS_TRANSITIONS Abandoned = []"

fun SET_DRAG_ELIGIBLE_TRANSITIONS :: "settlement_status \<Rightarrow> settlement_status list" where
  "SET_DRAG_ELIGIBLE_TRANSITIONS Proposed = [Negotiating, Set_pending_approval]"
| "SET_DRAG_ELIGIBLE_TRANSITIONS Negotiating = [Set_pending_approval]"
| "SET_DRAG_ELIGIBLE_TRANSITIONS Set_rejected = [Negotiating]"
| "SET_DRAG_ELIGIBLE_TRANSITIONS Set_pending_approval = []"
| "SET_DRAG_ELIGIBLE_TRANSITIONS Set_approved = []"
| "SET_DRAG_ELIGIBLE_TRANSITIONS Executed = []"
| "SET_DRAG_ELIGIBLE_TRANSITIONS Abandoned = []"

definition set_handleMove ::
  "bool \<Rightarrow> (string \<times> settlement_status) list \<Rightarrow> string \<Rightarrow> settlement_status \<Rightarrow>
   (string \<times> settlement_status) drop_result" where
  "set_handleMove hasAdvance board dragged to_s =
     (if \<not> hasAdvance then Drop_ignored
      else (case map_of (rev board) dragged of
              None \<Rightarrow> Drop_ignored
            | Some from_s \<Rightarrow>
                if to_s \<in> set (SET_DRAG_ELIGIBLE_TRANSITIONS from_s) then Drop_advances (dragged, to_s)
                else if to_s \<in> set (SETTLEMENT_STATUS_TRANSITIONS from_s) then Drop_needs_approval
                else Drop_invalid))"

definition nextHappyTransition :: "settlement_status \<Rightarrow> settlement_status option" where
  "nextHappyTransition status =
     (if status = Set_rejected \<or> status = Abandoned then None
      else find (\<lambda>n. n \<noteq> Abandoned \<and> n \<noteq> Set_rejected) (SETTLEMENT_STATUS_TRANSITIONS status))"

subsection \<open>Cases\<close>

datatype case_status = Case_intake | Phase1 | Phase2 | Case_open | Under_procedure | On_hold | Case_closed | Case_cancelled

fun CASE_STATUS_TRANSITIONS :: "case_status \<Rightarrow> case_status list" where
  "CASE_STATUS_TRANSITIONS Case_intake = [Case_cancelled]"
| "CASE_STATUS_TRANSITIONS Phase1 = [Case_cancelled]"
| "CASE_STATUS_TRANSITIONS Phase2 = [Case_cancelled]"
| "CASE_STATUS_TRANSITIONS Case_open = [Under_procedure, On_hold, Case_closed, Case_cancelled]"
| "CASE_STATUS_TRANSITIONS Under_procedure = [Case_open, On_hold, Case_closed, Case_cancelled]"
| "CASE_STATUS_TRANSITIONS On_hold = [Case_open, Under_procedure, Case_closed, Case_cancelled]"
| "CASE_STATUS_TRANSITIONS Case_closed = []"
| "CASE_STATUS_TRANSITIONS Case_cancelled = []"

record case_row =
  ca_id :: string
  ca_status :: case_status
  ca_due_at :: "string option"

record bulk_status_state =
  bs_ids :: "string list"
  bs_status :: case_status
  bs_reason :: string
  bs_justification :: "string option"

definition row_of :: "case_row list \<Rightarrow> string \<Rightarrow> case_row option" where
  "row_of rows i = find (\<lambda>r. ca_id r = i) rows"

definition bulk_targets :: "case_status \<Rightarrow> case_status list" where
  "bulk_targets current = filter (\<lambda>t. t \<noteq> On_hold) (CASE_STATUS_TRANSITIONS current)"

definition common_targets :: "case_status list option \<Rightarrow> case_status \<Rightarrow> case_status list option" where
  "common_targets common current =
     (case common of
        None \<Rightarrow> Some (bulk_targets current)
      | Some c \<Rightarrow> Some (filter (\<lambda>t. t \<in> set (bulk_targets current)) c))"

definition availableStatuses :: "case_row list \<Rightarrow> bulk_status_state option \<Rightarrow> case_status list" where
  "availableStatuses rows state =
     (let ids = (case state of None \<Rightarrow> [] | Some s \<Rightarrow> bs_ids s);
          currentStatuses = List.map_filter (\<lambda>i. map_option ca_status (row_of rows i)) ids
      in case foldl common_targets None currentStatuses of None \<Rightarrow> [] | Some c \<Rightarrow> c)"

definition requiresLateJustification ::
  "(string \<Rightarrow> rat option) \<Rightarrow> rat \<Rightarrow> case_row list \<Rightarrow> bulk_status_state option \<Rightarrow> bool" where
  "requiresLateJustification parse now rows state =
     (case state of
        None \<Rightarrow> False
      | Some s \<Rightarrow>
          (bs_status s = Case_closed \<or> bs_status s = Case_cancelled) \<and>
          list_ex (\<lambda>i. case Option.bind (row_of rows i) ca_due_at of
                         None \<Rightarrow> False
                       | Some deadline \<Rightarrow> deadline \<noteq> [] \<and>
                           (case parse deadline of None \<Rightarrow> False | Some ms \<Rightarrow> ms < now)) (bs_ids s))"

text \<open>The effect that keeps the selected target among the common ones.\<close>

definition keep_target_valid :: "case_row list \<Rightarrow> bulk_status_state option \<Rightarrow> bulk_status_state option" where
  "keep_target_valid rows state =
     (case state of
        None \<Rightarrow> None
      | Some s \<Rightarrow>
          (let available = availableStatuses rows state
           in if available = [] \<or> bs_status s \<in> set available then Some s
              else Some (s\<lparr>bs_status := hd available\<rparr>)))"

definition confirm_enabled ::
  "(string \<Rightarrow> rat option) \<Rightarrow> rat \<Rightarrow> case_row list \<Rightarrow> bulk_status_state option \<Rightarrow> bool \<Rightarrow> bool" where
  "confirm_enabled parse now rows state loading =
     (case state of
        None \<Rightarrow> False
      | Some s \<Rightarrow>
          js_trim (bs_reason s) \<noteq> [] \<and>
          \<not> (requiresLateJustification parse now rows state \<and>
              (case bs_justification s of None \<Rightarrow> True | Some j \<Rightarrow> js_trim j = [])) \<and>
          \<not> loading \<and> availableStatuses rows state \<noteq> [] \<and> bs_status s \<in> set (availableStatuses rows state))"

subsection \<open>The author of an investigation\<close>

text \<open>Whoever registered an investigation is never offered to decide its approval, to close or to cancel it; and
  whatever action is offered needs the permission of its kind and leads, where it names a target, along the transition
  map.\<close>

theorem author_never_decides:
  assumes "ic_createdBy c = Some who" "ic_currentUserId c = Some who" "js_trim who \<noteq> []"
  shows "\<not> (ia_enabled (nextAction c) \<and> ia_kind (nextAction c) \<in> {Decide_approval, Close_investigation}) \<and>
    (case cancelAction c of None \<Rightarrow> True | Some a \<Rightarrow> \<not> ia_enabled a)"
proof -
  have v: "violatesFourEyes c" using assms by (simp add: violatesFourEyes_def)
  show ?thesis
    by (cases "ic_status c")
      (simp_all add: nextAction_def cancelAction_def requireEdit_def action_enabled_def action_blocked_def v)
qed

theorem author_never_decides_witness:
  "\<not> ia_enabled (nextAction \<lparr>ic_status = Inv_approved, ic_createdBy = Some ''u'', ic_currentUserId = Some ''u'',
      ic_canEdit = True, ic_canApprove = True, ic_canClose = True, ic_hasFindings = True, ic_hasRecommendations = True,
      ic_approvalTasksLoading = False, ic_hasActionableApprovalTask = True\<rparr>)"
proof -
  have t: "js_trim ''u'' \<noteq> []" by code_simp
  show ?thesis
    using author_never_decides [OF _ _ t, of "\<lparr>ic_status = Inv_approved, ic_createdBy = Some ''u'', ic_currentUserId = Some ''u'',
      ic_canEdit = True, ic_canApprove = True, ic_canClose = True, ic_hasFindings = True, ic_hasRecommendations = True,
      ic_approvalTasksLoading = False, ic_hasActionableApprovalTask = True\<rparr>"]
    by (simp add: nextAction_def action_enabled_def action_blocked_def split: if_splits)
qed

lemma offered_action_permitted:
  assumes "ia_enabled (nextAction c)"
  shows "(case ia_kind (nextAction c) of
      Decide_approval \<Rightarrow> ic_canApprove c \<and> ic_hasActionableApprovalTask c
    | Close_investigation \<Rightarrow> ic_canClose c
    | Send_for_approval \<Rightarrow> ic_canEdit c \<and> ic_hasFindings c \<and> ic_hasRecommendations c
    | _ \<Rightarrow> ic_canEdit c) \<and>
    (case ia_target (nextAction c) of None \<Rightarrow> True
      | Some t \<Rightarrow> t \<in> set (INVESTIGATION_STATUS_TRANSITIONS (ic_status c)))"
  using assms
  by (cases "ic_status c")
    (auto simp: nextAction_def requireEdit_def action_enabled_def action_blocked_def split: if_splits)

text \<open>The guard is open when the author or the user is not known.\<close>

lemma four_eyes_open_without_author: "ic_createdBy c = None \<Longrightarrow> \<not> violatesFourEyes c"
  by (simp add: violatesFourEyes_def)

subsection \<open>Boards\<close>

lemma inv_drag_sub: "t \<in> set (INV_DRAG_ELIGIBLE_TRANSITIONS f) \<Longrightarrow> t \<in> set (INVESTIGATION_STATUS_TRANSITIONS f) \<and> t = Inv_in_progress"
  by (cases f) auto

lemma set_drag_sub:
  "t \<in> set (SET_DRAG_ELIGIBLE_TRANSITIONS f) \<Longrightarrow>
   t \<in> set (SETTLEMENT_STATUS_TRANSITIONS f) \<and> t \<in> {Negotiating, Set_pending_approval}"
  by (cases f) auto

text \<open>A dragged card follows the transition map, and never into an approval decision, an end or a cancellation.\<close>

lemma inv_drag_within_map:
  "inv_handleMove a board dragged t = Drop_advances (c, t') \<Longrightarrow>
   \<exists>f. map_of (rev board) dragged = Some f \<and> c = dragged \<and> t' = t \<and> t \<in> set (INVESTIGATION_STATUS_TRANSITIONS f) \<and>
     t = Inv_in_progress"
  using inv_drag_sub by (auto simp: inv_handleMove_def split: option.splits if_splits)

lemma set_drag_within_map:
  "set_handleMove a board dragged t = Drop_advances (c, t') \<Longrightarrow>
   \<exists>f. map_of (rev board) dragged = Some f \<and> c = dragged \<and> t' = t \<and> t \<in> set (SETTLEMENT_STATUS_TRANSITIONS f) \<and>
     t \<in> {Negotiating, Set_pending_approval}"
  using set_drag_sub by (fastforce simp: set_handleMove_def split: option.splits if_splits)

text \<open>The stepper offers no next step for a rejected settlement, although it can return to negotiation.\<close>

lemma rejected_has_no_next_step:
  "nextHappyTransition Set_rejected = None \<and> SETTLEMENT_STATUS_TRANSITIONS Set_rejected = [Negotiating]"
  by (simp add: nextHappyTransition_def)

subsection \<open>Bulk status changes of cases\<close>

lemma common_targets_fold:
  "set (the (foldl common_targets (Some c) xs)) = {t \<in> set c. \<forall>x \<in> set xs. t \<in> set (bulk_targets x)} \<and>
   foldl common_targets (Some c) xs \<noteq> None"
  by (induction xs arbitrary: c) (auto simp: common_targets_def)

lemma availableStatuses_iff:
  assumes "List.map_filter (\<lambda>i. map_option ca_status (row_of rows i)) (bs_ids s) = x # xs"
  shows "t \<in> set (availableStatuses rows (Some s)) \<longleftrightarrow> (\<forall>y \<in> set (x # xs). t \<in> set (bulk_targets y))"
proof -
  note f = common_targets_fold [of "bulk_targets x" xs]
  obtain c where c: "foldl common_targets (Some (bulk_targets x)) xs = Some c" using f by blast
  have "availableStatuses rows (Some s) = c"
    by (simp add: availableStatuses_def assms common_targets_def c)
  with f c show ?thesis by simp
qed

text \<open>The confirm button of the bulk status dialog is enabled only when the reason is given, the target is not on
  hold and a legal next status of every selected case that is loaded, and, for a closing target, the justification is
  given whenever a selected case is past its deadline.\<close>

theorem bulk_confirm_only_common_target:
  assumes "confirm_enabled parse now rows (Some s) loading"
  shows "js_trim (bs_reason s) \<noteq> [] \<and> bs_status s \<noteq> On_hold \<and>
    (\<forall>i \<in> set (bs_ids s). \<forall>r. row_of rows i = Some r \<longrightarrow> bs_status s \<in> set (CASE_STATUS_TRANSITIONS (ca_status r))) \<and>
    (requiresLateJustification parse now rows (Some s) \<longrightarrow>
      (\<exists>j. bs_justification s = Some j \<and> js_trim j \<noteq> []))"
proof -
  have a: "bs_status s \<in> set (availableStatuses rows (Some s))" "js_trim (bs_reason s) \<noteq> []"
    "requiresLateJustification parse now rows (Some s) \<longrightarrow> (\<exists>j. bs_justification s = Some j \<and> js_trim j \<noteq> [])"
    using assms by (auto simp: confirm_enabled_def split: option.splits)
  obtain x xs where m: "List.map_filter (\<lambda>i. map_option ca_status (row_of rows i)) (bs_ids s) = x # xs"
    using a(1) by (cases "List.map_filter (\<lambda>i. map_option ca_status (row_of rows i)) (bs_ids s)")
      (auto simp: availableStatuses_def)
  have every_s: "\<forall>y \<in> set (x # xs). bs_status s \<in> set (bulk_targets y)"
    using a(1) availableStatuses_iff [OF m] by simp
  have "ca_status r \<in> set (x # xs)" if "i \<in> set (bs_ids s)" "row_of rows i = Some r" for i r
    unfolding m [symmetric] using that by (force simp: map_filter_def)
  with every_s have "\<forall>i \<in> set (bs_ids s). \<forall>r. row_of rows i = Some r \<longrightarrow> bs_status s \<in> set (CASE_STATUS_TRANSITIONS (ca_status r))"
    unfolding bulk_targets_def by fastforce
  moreover have "bs_status s \<noteq> On_hold" using every_s by (simp add: bulk_targets_def)
  ultimately show ?thesis using a by blast
qed

theorem bulk_confirm_only_common_target_witness:
  "Case_closed \<in> set (CASE_STATUS_TRANSITIONS On_hold) \<and> Case_closed \<noteq> On_hold"
proof -
  have c: "confirm_enabled (\<lambda>s. None) 0 [\<lparr>ca_id = ''a'', ca_status = On_hold, ca_due_at = None\<rparr>]
      (Some \<lparr>bs_ids = [''a''], bs_status = Case_closed, bs_reason = ''done'', bs_justification = None\<rparr>) False"
    by code_simp
  from bulk_confirm_only_common_target [OF c] show ?thesis
    by (simp add: row_of_def)
qed

text \<open>Selected cases that are not loaded do not restrict the target.\<close>

lemma unloaded_cases_unchecked:
  "availableStatuses [\<lparr>ca_id = ''a'', ca_status = Case_open, ca_due_at = None\<rparr>]
     (Some \<lparr>bs_ids = [''a'', ''far''], bs_status = Case_closed, bs_reason = [], bs_justification = None\<rparr>) =
   [Under_procedure, Case_closed, Case_cancelled]"
  by code_simp

text \<open>The effect settles on a common target whenever there is one.\<close>

lemma availableStatuses_status [simp]:
  "availableStatuses rows (Some (s\<lparr>bs_status := x\<rparr>)) = availableStatuses rows (Some s)"
  by (simp add: availableStatuses_def)

lemma keep_target_valid_ok:
  assumes "keep_target_valid rows (Some s) = Some s'" "availableStatuses rows (Some s) \<noteq> []"
  shows "bs_status s' \<in> set (availableStatuses rows (Some s'))"
  using assms by (auto simp: keep_target_valid_def Let_def split: if_splits)

end
