(* ===== verification/TableQuery.thy ===== *)
theory TableQuery
  imports SelectionScope RealtimeStore JsNumber
begin

section \<open>The query of a table in the URL\<close>

text \<open>
  \<open>hooks/use-data-table.ts\<close>: page, size, ordering, search and filters of a table are read from the query of the
  URL, and every handler pushes a new URL. \<open>hooks/use-debounce.ts\<close> delays the search, and
  \<open>lib/suite-api.ts\<close> turns what is read into the parameters of a request. The parameters of a URL are the list of
  its pairs; \<open>get\<close> reads the first pair of a key. An object of filters is the association list of its entries,
  whose keys are assumed not to be names of \<open>Object.prototype\<close>. \<open>useSearchParams\<close> always has a \<open>forEach\<close>, so
  \<open>cloneSearchParams\<close> is the identity on it; the other branches of it serve test doubles.
\<close>

subsection \<open>Parameters of a URL\<close>

type_synonym search_params = "(string \<times> string) list"

text \<open>\<open>params.set(k, v)\<close>: the first pair of the key takes the value, the others go; a new key is appended.\<close>

fun sp_set :: "string \<Rightarrow> string \<Rightarrow> search_params \<Rightarrow> search_params" where
  "sp_set k v [] = [(k, v)]"
| "sp_set k v ((k', w) # ps) = (if k' = k then (k, v) # AList.delete k ps else (k', w) # sp_set k v ps)"

text \<open>\<open>params.getAll(k)\<close>\<close>

definition values_of :: "string \<Rightarrow> search_params \<Rightarrow> string list" where
  "values_of k ps = map snd (filter (\<lambda>p. fst p = k) ps)"

text \<open>\<open>new URLSearchParams(text)\<close> and the query of a URL; None where a value leaves the modelled code units.\<close>

definition read_pair :: "string \<Rightarrow> (string \<times> string) option" where
  "read_pair s =
     (case (url_param_read (takeWhile (\<lambda>c. c \<noteq> CHR ''='') s),
            url_param_read (drop 1 (dropWhile (\<lambda>c. c \<noteq> CHR ''='') s))) of
        (Some k, Some v) \<Rightarrow> Some (k, v)
      | _ \<Rightarrow> None)"

definition parse_query :: "string \<Rightarrow> search_params option" where
  "parse_query t = those (map read_pair (filter (\<lambda>s. s \<noteq> []) (js_split (CHR ''&'') t)))"

definition read_url :: "string \<Rightarrow> search_params option" where
  "read_url u = parse_query (drop 1 (dropWhile (\<lambda>c. c \<noteq> CHR ''?'') u))"

text \<open>\<open>parseInt(s, 10)\<close>: a sign and the digits at the start of the text.\<close>

definition js_parseInt :: "string \<Rightarrow> js_num" where
  "js_parseInt s =
     (let t = dropWhile js_is_space s;
          neg = (t \<noteq> [] \<and> hd t = CHR ''-'');
          u = (if t \<noteq> [] \<and> (hd t = CHR ''-'' \<or> hd t = CHR ''+'') then tl t else t);
          ds = takeWhile is_digit u
      in if ds = [] then NaN
         else Fin (if neg then - of_nat (radix_value 10 ds) else of_nat (radix_value 10 ds)))"

subsection \<open>Reading the query\<close>

definition RESERVED_SEARCH_PARAMS :: "string list" where
  "RESERVED_SEARCH_PARAMS = [''page'', ''per_page'', ''sort'', ''order'', ''search'']"

abbreviation reserved :: "string \<Rightarrow> bool" where
  "reserved k \<equiv> k \<in> set RESERVED_SEARCH_PARAMS"

definition add_filter :: "filter_query \<Rightarrow> string \<times> string \<Rightarrow> filter_query" where
  "add_filter filters p =
     (let (key, v) = p
      in if reserved key then filters
         else (case map_of filters key of
                 Some (Many vs) \<Rightarrow> AList.update key (Many (vs @ [v])) filters
               | Some (One w) \<Rightarrow> AList.update key (if w \<noteq> [] then Many [w, v] else One v) filters
               | None \<Rightarrow> AList.update key (One v) filters))"

definition activeFilters :: "search_params \<Rightarrow> filter_query" where
  "activeFilters ps = foldl add_filter [] ps"

record table_options =
  to_defaultPageSize :: int
  to_defaultSort :: "(string \<times> string) option"

record table_view =
  tv_page :: js_num
  tv_pageSize :: js_num
  tv_sortColumn :: "string option"
  tv_sortDirection :: string
  tv_search :: string

definition or_fallback :: "'a option \<Rightarrow> 'a option \<Rightarrow> 'a option" where
  "or_fallback v d = (case v of None \<Rightarrow> d | Some x \<Rightarrow> Some x)"

definition read_view :: "table_options \<Rightarrow> search_params \<Rightarrow> table_view" where
  "read_view opts ps =
     \<lparr>tv_page = js_parseInt (js_get_or ''1'' ps ''page''),
      tv_pageSize = js_parseInt (js_get_or (int_text (to_defaultPageSize opts)) ps ''per_page''),
      tv_sortColumn = or_fallback (map_of ps ''sort'') (map_option fst (to_defaultSort opts)),
      tv_sortDirection = the (or_fallback (or_fallback (map_of ps ''order'') (map_option snd (to_defaultSort opts))) (Some ''desc'')),
      tv_search = js_get_or [] ps ''search''\<rparr>"

subsection \<open>The handlers\<close>

definition apply_update :: "search_params \<Rightarrow> string \<times> filter_value option \<Rightarrow> search_params" where
  "apply_update ps u =
     (case snd u of
        None \<Rightarrow> AList.delete (fst u) ps
      | Some (One v) \<Rightarrow> if v = [] then AList.delete (fst u) ps else sp_set (fst u) v ps
      | Some (Many vs) \<Rightarrow> AList.delete (fst u) ps @ map (Pair (fst u)) vs)"

definition updateParams :: "(string \<times> filter_value option) list \<Rightarrow> search_params \<Rightarrow> search_params" where
  "updateParams updates ps = foldl apply_update ps updates"

text \<open>The argument of \<open>replaceQuery\<close>: an omitted field is None.\<close>

record replace_input =
  rq_filters :: "(string \<times> filter_value option) list"
  rq_sort :: "(string \<times> string) option option"
  rq_search :: "string option option"

definition set_if :: "string \<Rightarrow> string option \<Rightarrow> search_params \<Rightarrow> search_params" where
  "set_if k v ps = (case v of None \<Rightarrow> ps | Some x \<Rightarrow> if x \<noteq> [] then sp_set k x ps else ps)"

definition replace_filter :: "search_params \<Rightarrow> string \<times> filter_value option \<Rightarrow> search_params" where
  "replace_filter ps u =
     (case snd u of
        None \<Rightarrow> ps
      | Some (One v) \<Rightarrow> if v = [] then ps else sp_set (fst u) v ps
      | Some (Many vs) \<Rightarrow> ps @ map (Pair (fst u)) vs)"

definition replaceQuery :: "replace_input \<Rightarrow> search_params \<Rightarrow> search_params" where
  "replaceQuery r ps =
     (let sortColumn = (case rq_sort r of None \<Rightarrow> map_of ps ''sort'' | Some s \<Rightarrow> map_option fst s);
          sortOrder = (case rq_sort r of None \<Rightarrow> map_of ps ''order'' | Some s \<Rightarrow> map_option snd s);
          nextSearch = (case rq_search r of None \<Rightarrow> map_of ps ''search'' | Some s \<Rightarrow> s);
          p1 = set_if ''per_page'' (map_of ps ''per_page'') [];
          p2 = set_if ''order'' sortOrder (set_if ''sort'' sortColumn p1);
          p3 = set_if ''search'' nextSearch p2
      in sp_set ''page'' ''1'' (foldl replace_filter p3 (rq_filters r)))"

definition clearFilters :: "search_params \<Rightarrow> search_params" where
  "clearFilters ps =
     sp_set ''page'' ''1'' (foldl (\<lambda>q k. set_if k (map_of ps k) q) [] RESERVED_SEARCH_PARAMS)"

datatype table_op =
    Set_page int
  | Set_page_size int
  | Set_sort string string
  | Set_search string
  | Set_filter string "filter_value option"
  | Replace_query replace_input
  | Clear_filters

abbreviation some_text :: "string \<Rightarrow> filter_value option" where
  "some_text v \<equiv> Some (One v)"

text \<open>The updates of \<open>setFilter\<close> are one object, in which \<open>page\<close> comes second and wins over a filter of that name.\<close>

fun table_params :: "table_op \<Rightarrow> search_params \<Rightarrow> search_params" where
  "table_params (Set_page p) = updateParams [(''page'', some_text (int_text p))]"
| "table_params (Set_page_size s) = updateParams [(''per_page'', some_text (int_text s)), (''page'', some_text ''1'')]"
| "table_params (Set_sort column direction) =
     updateParams [(''sort'', some_text column), (''order'', some_text direction), (''page'', some_text ''1'')]"
| "table_params (Set_search v) =
     updateParams [(''search'', if v = [] then None else some_text v), (''page'', some_text ''1'')]"
| "table_params (Set_filter key v) = updateParams (AList.update ''page'' (some_text ''1'') [(key, v)])"
| "table_params (Replace_query r) = replaceQuery r"
| "table_params Clear_filters = clearFilters"

definition push_url :: "string \<Rightarrow> table_op \<Rightarrow> search_params \<Rightarrow> string" where
  "push_url path op ps =
     (let query = url_params (table_params op ps) in if query \<noteq> [] then path @ ''?'' @ query else path)"

subsection \<open>What is read depends on the values of the keys\<close>

lemma map_of_values: "map_of ps k = (case values_of k ps of [] \<Rightarrow> None | v # vs \<Rightarrow> Some v)"
  by (induction ps) (auto simp: values_of_def)

lemma values_of_append [simp]: "values_of k (ps @ qs) = values_of k ps @ values_of k qs"
  by (simp add: values_of_def)

lemma values_of_Nil [simp]: "values_of k [] = []"
  by (simp add: values_of_def)

lemma values_of_map_Pair [simp]: "values_of k (map (Pair k') vs) = (if k = k' then vs else [])"
  by (auto simp: values_of_def comp_def filter_map)

lemma values_of_delete [simp]: "values_of k (AList.delete k' ps) = (if k = k' then [] else values_of k ps)"
  by (induction ps) (auto simp: values_of_def)

lemma values_of_set [simp]: "values_of k (sp_set k' v ps) = (if k = k' then [v] else values_of k ps)"
proof (induction ps)
  case (Cons p ps)
  have *: "values_of k (p # ps) = (if k = fst p then [snd p] else []) @ values_of k ps"
    by (auto simp: values_of_def)
  show ?case
  proof (cases "fst p = k'")
    case True
    then have "values_of k (sp_set k' v (p # ps)) = (if k = k' then [v] else []) @ values_of k (AList.delete k' (p # ps))"
      by (cases p) (auto simp: values_of_def)
    with True * show ?thesis by auto
  next
    case False
    then have "values_of k (sp_set k' v (p # ps)) = (if k = fst p then [snd p] else []) @ values_of k (sp_set k' v ps)"
      by (cases p) (auto simp: values_of_def)
    with False * Cons.IH show ?thesis by auto
  qed
qed (simp add: values_of_def)

text \<open>A run of values of one key, as \<open>activeFilters\<close> gathers it.\<close>

definition read_more :: "filter_value option \<Rightarrow> string \<Rightarrow> filter_value option" where
  "read_more acc v =
     (case acc of
        None \<Rightarrow> Some (One v)
      | Some (One w) \<Rightarrow> Some (if w \<noteq> [] then Many [w, v] else One v)
      | Some (Many vs) \<Rightarrow> Some (Many (vs @ [v])))"

definition read_values :: "string list \<Rightarrow> filter_value option" where
  "read_values vs = foldl read_more None vs"

lemma map_of_add_filter:
  "map_of (add_filter fs (key, v)) k =
     (if k = key \<and> \<not> reserved key then read_more (map_of fs key) v else map_of fs k)"
  by (auto simp: add_filter_def read_more_def update_conv' split: option.splits filter_value.splits)

lemma map_of_foldl_add_filter:
  "map_of (foldl add_filter fs ps) k =
     (if reserved k then map_of fs k else foldl read_more (map_of fs k) (values_of k ps))"
proof (induction ps arbitrary: fs)
  case (Cons p ps)
  then show ?case by (cases p) (auto simp: map_of_add_filter values_of_def)
qed simp

lemma map_of_activeFilters:
  "map_of (activeFilters ps) k = (if reserved k then None else read_values (values_of k ps))"
  by (simp add: activeFilters_def map_of_foldl_add_filter read_values_def)

lemma read_values_simps [simp]: "read_values [] = None" "read_values [v] = Some (One v)"
  by (simp_all add: read_values_def read_more_def)

lemma read_values_list:
  assumes "[] \<notin> set vs" "1 < length vs"
  shows "read_values vs = Some (Many vs)"
proof -
  obtain v w ws where vs: "vs = v # w # ws"
    using assms(2) by (cases vs; cases "tl vs") auto
  have "foldl read_more (Some (Many us)) ws = Some (Many (us @ ws))" for us
    by (induction ws arbitrary: us) (auto simp: read_more_def)
  from this [of "[v, w]"] assms(1) vs show ?thesis by (auto simp: read_values_def read_more_def)
qed

subsection \<open>The contract of the hook\<close>

text \<open>The state a table shows, and what every handler promises to make of it.\<close>

type_synonym shown_state = "table_view \<times> (string \<Rightarrow> filter_value option)"

definition table_state :: "table_options \<Rightarrow> search_params \<Rightarrow> shown_state" where
  "table_state opts ps = (read_view opts ps, map_of (activeFilters ps))"

definition nonempty :: "string option \<Rightarrow> string option" where
  "nonempty v = (case v of None \<Rightarrow> None | Some t \<Rightarrow> if t = [] then None else Some t)"

text \<open>How a filter comes back: an empty one is gone, and a list of one value is that value.\<close>

definition read_back :: "filter_value option \<Rightarrow> filter_value option" where
  "read_back v =
     (case v of
        None \<Rightarrow> None
      | Some (One t) \<Rightarrow> if t = [] then None else Some (One t)
      | Some (Many vs) \<Rightarrow> read_values vs)"

definition with_sort :: "table_options \<Rightarrow> string option \<Rightarrow> string option \<Rightarrow> table_view \<Rightarrow> table_view" where
  "with_sort opts column direction v =
     v\<lparr>tv_sortColumn := or_fallback (nonempty column) (map_option fst (to_defaultSort opts)),
       tv_sortDirection := the (or_fallback (or_fallback (nonempty direction) (map_option snd (to_defaultSort opts))) (Some ''desc''))\<rparr>"

definition text_or_empty :: "string option \<Rightarrow> string" where
  "text_or_empty v = (case v of None \<Rightarrow> [] | Some t \<Rightarrow> t)"

fun spec_step :: "table_options \<Rightarrow> table_op \<Rightarrow> shown_state \<Rightarrow> shown_state" where
  "spec_step opts (Set_page p) (v, f) = (v\<lparr>tv_page := Fin (of_int p)\<rparr>, f)"
| "spec_step opts (Set_page_size n) (v, f) = (v\<lparr>tv_pageSize := Fin (of_int n), tv_page := Fin 1\<rparr>, f)"
| "spec_step opts (Set_sort column direction) (v, f) =
     ((with_sort opts (Some column) (Some direction) v)\<lparr>tv_page := Fin 1\<rparr>, f)"
| "spec_step opts (Set_search s) (v, f) = (v\<lparr>tv_search := s, tv_page := Fin 1\<rparr>, f)"
| "spec_step opts (Set_filter k x) (v, f) = (v\<lparr>tv_page := Fin 1\<rparr>, f(k := read_back x))"
| "spec_step opts (Replace_query r) (v, f) =
     ((case rq_search r of None \<Rightarrow> \<lambda>v. v | Some s \<Rightarrow> tv_search_update (\<lambda>_. text_or_empty s))
       ((case rq_sort r of None \<Rightarrow> \<lambda>v. v | Some s \<Rightarrow> with_sort opts (map_option fst s) (map_option snd s))
         (v\<lparr>tv_page := Fin 1\<rparr>)),
      \<lambda>k. Option.bind (map_of (rq_filters r) k) read_back)"
| "spec_step opts Clear_filters (v, f) = (v\<lparr>tv_page := Fin 1\<rparr>, \<lambda>k. None)"

fun op_ok :: "table_op \<Rightarrow> bool" where
  "op_ok (Set_filter k v) \<longleftrightarrow> \<not> reserved k"
| "op_ok (Replace_query r) \<longleftrightarrow>
     distinct (map fst (rq_filters r)) \<and> list_all (\<lambda>p. \<not> reserved (fst p)) (rq_filters r)"
| "op_ok _ \<longleftrightarrow> True"

definition reserved_ok :: "search_params \<Rightarrow> bool" where
  "reserved_ok ps \<longleftrightarrow> list_all (\<lambda>k. map_of ps k \<noteq> Some []) RESERVED_SEARCH_PARAMS"

subsection \<open>What the handlers make of the values\<close>

lemma int_text_nonempty [simp]: "int_text i \<noteq> []"
  by (simp add: int_text_def) (subst nat_text.simps, simp)

definition text_values :: "string option \<Rightarrow> string list" where
  "text_values v = (case v of None \<Rightarrow> [] | Some x \<Rightarrow> if x \<noteq> [] then [x] else [])"

lemma values_of_set_if:
  "values_of k (set_if k' v ps) = (if k = k' \<and> text_values v \<noteq> [] then text_values v else values_of k ps)"
  by (auto simp: set_if_def text_values_def split: option.splits)

lemma values_of_apply_update:
  "values_of k (apply_update ps (k', u)) =
     (if k = k'
      then (case u of None \<Rightarrow> [] | Some (One v) \<Rightarrow> if v = [] then [] else [v] | Some (Many vs) \<Rightarrow> vs)
      else values_of k ps)"
  by (auto simp: apply_update_def split: option.splits filter_value.splits)

definition update_values :: "filter_value option \<Rightarrow> string list" where
  "update_values u = (case u of None \<Rightarrow> [] | Some (One v) \<Rightarrow> if v = [] then [] else [v] | Some (Many vs) \<Rightarrow> vs)"

lemma read_update_values: "read_values (update_values u) = read_back u"
  by (auto simp: update_values_def read_back_def split: option.splits filter_value.splits)

lemma values_of_replace_filters:
  assumes "distinct (map fst fs)" "\<forall>u \<in> set fs. values_of (fst u) ps = []"
  shows "values_of k (foldl replace_filter ps fs) =
    (case map_of fs k of None \<Rightarrow> values_of k ps | Some u \<Rightarrow> update_values u)"
  using assms
proof (induction fs arbitrary: ps)
  case (Cons u fs)
  obtain k' x where u: "u = (k', x)" by (cases u)
  have step: "values_of j (replace_filter ps u) = (if j = k' then update_values x else values_of j ps)" for j
    using Cons.prems(2) u
    by (auto simp: replace_filter_def update_values_def split: option.splits filter_value.splits)
  have "\<forall>w \<in> set fs. values_of (fst w) (replace_filter ps u) = []"
    using Cons.prems u unfolding step by (auto simp: image_iff)
  with Cons.IH [of "replace_filter ps u"] Cons.prems(1)
  have "values_of k (foldl replace_filter ps (u # fs)) =
      (case map_of fs k of None \<Rightarrow> values_of k (replace_filter ps u) | Some u \<Rightarrow> update_values u)"
    by simp
  moreover have "map_of fs k' = None" using Cons.prems(1) u by (simp add: map_of_eq_None_iff)
  ultimately show ?case using u by (auto simp: step [unfolded u] split: option.splits)
qed simp

lemma reserved_iff:
  "reserved k \<longleftrightarrow> k = ''page'' \<or> k = ''per_page'' \<or> k = ''sort'' \<or> k = ''order'' \<or> k = ''search''"
  by (simp add: RESERVED_SEARCH_PARAMS_def)


lemma values_of_clear:
  "values_of k (clearFilters ps) =
     (if k = ''page'' then [''1'']
      else if reserved k then text_values (map_of ps k) else [])"
  by (simp add: clearFilters_def RESERVED_SEARCH_PARAMS_def values_of_set_if)

definition replaced :: "replace_input \<Rightarrow> search_params \<Rightarrow> string \<Rightarrow> string option" where
  "replaced r ps k =
     (if k = ''page'' then Some ''1''
      else if k = ''per_page'' then map_of ps ''per_page''
      else if k = ''sort'' then (case rq_sort r of None \<Rightarrow> map_of ps ''sort'' | Some s \<Rightarrow> map_option fst s)
      else if k = ''order'' then (case rq_sort r of None \<Rightarrow> map_of ps ''order'' | Some s \<Rightarrow> map_option snd s)
      else (case rq_search r of None \<Rightarrow> map_of ps ''search'' | Some s \<Rightarrow> s))"

lemma values_of_replace:
  assumes "op_ok (Replace_query r)"
  shows "values_of k (replaceQuery r ps) =
     (if reserved k then text_values (replaced r ps k)
      else case map_of (rq_filters r) k of None \<Rightarrow> [] | Some u \<Rightarrow> update_values u)"
proof -
  define base where "base =
    set_if ''search'' (replaced r ps ''search'') (set_if ''order'' (replaced r ps ''order'')
      (set_if ''sort'' (replaced r ps ''sort'') (set_if ''per_page'' (map_of ps ''per_page'') [])))"
  have base: "values_of j base =
      (if reserved j \<and> j \<noteq> ''page'' then text_values (replaced r ps j) else [])" for j
    by (cases "j = ''search''") (simp_all add: base_def values_of_set_if replaced_def RESERVED_SEARCH_PARAMS_def)
  have free: "\<not> reserved (fst u)" if "u \<in> set (rq_filters r)" for u
    using assms that by (auto simp: list_all_iff)
  have "values_of k (foldl replace_filter base (rq_filters r)) =
      (case map_of (rq_filters r) k of None \<Rightarrow> values_of k base | Some u \<Rightarrow> update_values u)"
    by (rule values_of_replace_filters) (use assms free in \<open>auto simp: base\<close>)
  moreover have "map_of (rq_filters r) k = None" if "reserved k"
    using free that by (auto simp: map_of_eq_None_iff)
  moreover have "replaceQuery r ps = sp_set ''page'' ''1'' (foldl replace_filter base (rq_filters r))"
    by (simp add: replaceQuery_def base_def replaced_def Let_def)
  moreover have "replaced r ps ''page'' = Some ''1''" by (simp add: replaced_def)
  ultimately show ?thesis
    by (cases "k = ''page''"; cases "reserved k") (simp_all add: base text_values_def RESERVED_SEARCH_PARAMS_def split: option.split)
qed

lemma values_of_set_filter:
  assumes "\<not> reserved k'"
  shows "values_of k (table_params (Set_filter k' v) ps) =
    (if k = ''page'' then [''1''] else if k = k' then update_values v else values_of k ps)"
  using assms
  by (auto simp: updateParams_def values_of_apply_update reserved_iff update_values_def
      split: option.splits filter_value.splits)

text \<open>No handler leaves an empty value on a reserved key.\<close>

lemma reserved_ok_values: "reserved_ok ps \<longleftrightarrow> (\<forall>k. reserved k \<longrightarrow> (\<forall>vs. values_of k ps \<noteq> [] # vs))"
  unfolding reserved_ok_def list_all_iff map_of_values by (auto split: list.splits)

lemma table_params_reserved_ok:
  assumes "reserved_ok ps" "op_ok op"
  shows "reserved_ok (table_params op ps)"
proof (cases op)
  case (Set_filter k v)
  with assms show ?thesis
    by (auto simp: reserved_ok_values values_of_set_filter simp del: table_params.simps)
next
  case (Replace_query r)
  with assms have "op_ok (Replace_query r)" by simp
  then show ?thesis
    unfolding reserved_ok_values Replace_query table_params.simps values_of_replace [OF \<open>op_ok (Replace_query r)\<close>]
    by (auto simp: text_values_def split: option.splits if_splits)
next
  case Clear_filters
  then show ?thesis
    by (auto simp: reserved_ok_values values_of_clear text_values_def split: option.splits if_splits)
qed (use assms in \<open>auto simp: reserved_ok_values updateParams_def values_of_apply_update split: if_splits\<close>)

subsection \<open>Numbers in the URL\<close>

lemma nat_text_digits: "list_all is_digit (nat_text n) \<and> nat_text n \<noteq> []"
proof (induction n rule: nat_text.induct)
  case (1 n)
  have *: "is_digit (char_of (48 + m))" if "m < 10" for m :: nat
    using that by (simp add: is_digit_def)
  show ?case
    using 1 by (subst nat_text.simps, subst (2) nat_text.simps) (auto simp: *)
qed

lemma radix_nat_text: "radix_value 10 (nat_text n) = n"
proof (induction n rule: nat_text.induct)
  case (1 n)
  have d: "digit_value (char_of (48 + m)) = m" if "m < 10" for m :: nat
    using that by (simp add: digit_value_def is_digit_def Let_def)
  show ?case
  proof (cases "n < 10")
    case True
    then show ?thesis by (subst nat_text.simps) (simp add: radix_value_def d)
  next
    case False
    then have "radix_value 10 (nat_text n) = radix_value 10 (nat_text (n div 10)) * 10 + n mod 10"
      by (subst nat_text.simps) (simp add: radix_value_def d)
    with False 1 show ?thesis by simp
  qed
qed

lemma digits_not_space: "list_all is_digit ds \<Longrightarrow> dropWhile js_is_space ds = ds"
  by (cases ds) (auto simp: is_digit_def js_is_space_def)

lemma parseInt_int_text [simp]: "js_parseInt (int_text i) = Fin (of_int i)"
proof -
  have w: "takeWhile is_digit (nat_text n) = nat_text n" "dropWhile js_is_space (nat_text n) = nat_text n"
    "nat_text n \<noteq> []" for n
    using nat_text_digits [of n] by (simp_all add: digits_not_space list_all_iff)
  have h: "hd (nat_text n) \<noteq> CHR ''-''" "hd (nat_text n) \<noteq> CHR ''+''" for n
  proof -
    have "is_digit (hd (nat_text n))" using nat_text_digits [of n] by (cases "nat_text n") auto
    then show "hd (nat_text n) \<noteq> CHR ''-''" "hd (nat_text n) \<noteq> CHR ''+''"
      by (auto simp: is_digit_def)
  qed
  have s: "dropWhile js_is_space (CHR ''-'' # cs) = CHR ''-'' # cs" for cs
    by (simp add: js_is_space_def)
  have "js_parseInt (CHR ''-'' # nat_text n) = Fin (- of_nat n)" for n
    by (simp add: js_parseInt_def s w radix_nat_text Let_def del: dropWhile.simps)
  moreover have "js_parseInt (nat_text n) = Fin (of_nat n)" for n
    by (simp add: js_parseInt_def w h radix_nat_text)
  ultimately show ?thesis by (simp add: int_text_def)
qed

lemma parseInt_1 [simp]: "js_parseInt ''1'' = Fin 1"
proof -
  have "int_text 1 = ''1''" by code_simp
  with parseInt_int_text [of 1] show ?thesis by simp
qed


subsection \<open>Every handler keeps its contract\<close>

lemma table_state_values:
  "table_state opts ps =
     (\<lparr>tv_page = (case values_of ''page'' ps of [] \<Rightarrow> js_parseInt ''1'' | v # vs \<Rightarrow> js_parseInt v),
       tv_pageSize = (case values_of ''per_page'' ps of [] \<Rightarrow> js_parseInt (int_text (to_defaultPageSize opts)) | v # vs \<Rightarrow> js_parseInt v),
       tv_sortColumn = or_fallback (case values_of ''sort'' ps of [] \<Rightarrow> None | v # vs \<Rightarrow> Some v) (map_option fst (to_defaultSort opts)),
       tv_sortDirection = the (or_fallback (or_fallback (case values_of ''order'' ps of [] \<Rightarrow> None | v # vs \<Rightarrow> Some v)
          (map_option snd (to_defaultSort opts))) (Some ''desc'')),
       tv_search = (case values_of ''search'' ps of [] \<Rightarrow> [] | v # vs \<Rightarrow> v)\<rparr>,
      \<lambda>k. if reserved k then None else read_values (values_of k ps))"
  by (auto simp: table_state_def read_view_def js_get_or_def map_of_values map_of_activeFilters fun_eq_iff
      split: list.splits)

lemma values_of_map_of: "reserved_ok ps \<Longrightarrow> reserved k \<Longrightarrow> text_values (map_of ps k) = take 1 (values_of k ps)"
  by (auto simp: text_values_def map_of_values reserved_ok_values split: list.splits)

lemma refines_update:
  assumes "op_ok op" "reserved_ok ps" "op \<noteq> Clear_filters" "\<And>r. op \<noteq> Replace_query r"
  shows "table_state opts (table_params op ps) = spec_step opts op (table_state opts ps)"
proof (cases op)
  case (Set_filter k v)
  with assms have "\<not> reserved k" by simp
  then show ?thesis
    unfolding Set_filter table_state_values values_of_set_filter [OF \<open>\<not> reserved k\<close>]
    by (auto simp: fun_eq_iff read_update_values reserved_iff)
qed (use assms in \<open>auto simp: table_state_values updateParams_def values_of_apply_update with_sort_def or_fallback_def
  nonempty_def fun_eq_iff reserved_iff split: option.splits\<close>)

lemma refines_clear:
  assumes "reserved_ok ps"
  shows "table_state opts (table_params Clear_filters ps) = spec_step opts Clear_filters (table_state opts ps)"
proof -
  have "reserved k \<Longrightarrow> text_values (map_of ps k) = take 1 (values_of k ps)" for k
    by (rule values_of_map_of [OF assms])
  then have "text_values (map_of ps ''per_page'') = take 1 (values_of ''per_page'' ps)"
    "text_values (map_of ps ''sort'') = take 1 (values_of ''sort'' ps)"
    "text_values (map_of ps ''order'') = take 1 (values_of ''order'' ps)"
    "text_values (map_of ps ''search'') = take 1 (values_of ''search'' ps)"
    by (simp_all add: RESERVED_SEARCH_PARAMS_def)
  then show ?thesis
    by (simp add: table_state_values values_of_clear reserved_iff fun_eq_iff split: list.splits)
qed

lemma case_take1: "(case take (Suc 0) xs of [] \<Rightarrow> a | x # ys \<Rightarrow> g x) = (case xs of [] \<Rightarrow> a | x # ys \<Rightarrow> g x)"
  by (cases xs) auto

lemma case_text_values:
  "(case text_values v of [] \<Rightarrow> a | x # xs \<Rightarrow> g x) = (case nonempty v of None \<Rightarrow> a | Some x \<Rightarrow> g x)"
  by (auto simp: text_values_def nonempty_def split: option.splits)

lemma nonempty_one: "nonempty (Some ''1'') = Some ''1''"
  by (simp add: nonempty_def)

lemma or_nonempty: "(case nonempty v of None \<Rightarrow> None | Some x \<Rightarrow> Some x) = nonempty v"
  by (simp split: option.splits)

lemma text_or_empty_nonempty: "(case nonempty v of None \<Rightarrow> [] | Some x \<Rightarrow> x) = text_or_empty v"
  by (auto simp: nonempty_def text_or_empty_def split: option.splits)

lemma refines_replace:
  assumes "op_ok (Replace_query r)" "reserved_ok ps"
  shows "table_state opts (table_params (Replace_query r) ps) = spec_step opts (Replace_query r) (table_state opts ps)"
proof -
  have keep: "text_values (map_of ps k) = take 1 (values_of k ps)" if "reserved k" for k
    by (rule values_of_map_of [OF assms(2) that])
  note keep4 = keep [of "''per_page''"] keep [of "''sort''"] keep [of "''order''"] keep [of "''search''"]
  have filters: "read_values (case map_of (rq_filters r) k of None \<Rightarrow> [] | Some u \<Rightarrow> update_values u) =
      Option.bind (map_of (rq_filters r) k) read_back" for k
    by (auto simp: read_update_values split: option.splits)
  have free: "Option.bind (map_of (rq_filters r) k) read_back = None" if "reserved k" for k
    using assms(1) that by (auto simp: map_of_eq_None_iff list_all_iff bind_eq_None_conv)
  have rs: "reserved ''page''" "reserved ''per_page''" "reserved ''sort''" "reserved ''order''" "reserved ''search''"
    by (simp_all add: RESERVED_SEARCH_PARAMS_def)
  have vals: "replaced r ps ''page'' = Some ''1''" "replaced r ps ''per_page'' = map_of ps ''per_page''"
    "replaced r ps ''sort'' = (case rq_sort r of None \<Rightarrow> map_of ps ''sort'' | Some s \<Rightarrow> map_option fst s)"
    "replaced r ps ''order'' = (case rq_sort r of None \<Rightarrow> map_of ps ''order'' | Some s \<Rightarrow> map_option snd s)"
    "replaced r ps ''search'' = (case rq_search r of None \<Rightarrow> map_of ps ''search'' | Some s \<Rightarrow> s)"
    by (simp_all add: replaced_def)
  have funs: "(\<lambda>k. if reserved k then None else Option.bind (map_of (rq_filters r) k) read_back) =
      (\<lambda>k. Option.bind (map_of (rq_filters r) k) read_back)"
    using free by (auto simp: fun_eq_iff)
  have if_read: "(if b then None else read_values (if b then xs else ys)) = (if b then None else read_values ys)" for b xs ys
    by simp
  show ?thesis
    unfolding table_state_values table_params.simps values_of_replace [OF assms(1)] if_read filters funs
    by (cases "rq_sort r"; cases "rq_search r")
      (simp_all add: rs vals keep4 case_text_values nonempty_one case_take1 with_sort_def or_nonempty text_or_empty_nonempty)
qed

lemma handler_refines:
  "op_ok op \<Longrightarrow> reserved_ok ps \<Longrightarrow> table_state opts (table_params op ps) = spec_step opts op (table_state opts ps)"
  by (cases "op = Clear_filters"; cases "\<exists>r. op = Replace_query r")
    (use refines_update refines_clear refines_replace in \<open>blast+\<close>)

subsection \<open>The URL carries the parameters\<close>

lemma url_param_value_no_eq: "CHR ''='' \<notin> set (url_param_value s)" "CHR ''&'' \<notin> set (url_param_value s)"
  using url_param_value_no_delimiter [of "CHR ''=''" s] url_param_value_no_delimiter [of "CHR ''&''" s] by auto

lemma read_pair_text: "read_pair (url_param_value k @ ''='' @ url_param_value v) = Some (k, v)"
proof -
  have t: "takeWhile (\<lambda>c. c \<noteq> CHR ''='') (url_param_value k @ CHR ''='' # r) = url_param_value k"
    and d: "dropWhile (\<lambda>c. c \<noteq> CHR ''='') (url_param_value k @ CHR ''='' # r) = CHR ''='' # r" for r
    using url_param_value_no_eq(1) [of k] by (auto simp: takeWhile_append dropWhile_append)
  show ?thesis by (simp add: read_pair_def t d js_simps)
qed

lemmas read_pair_Cons = read_pair_text [simplified]

lemma parse_url_params: "parse_query (url_params ps) = Some ps"
proof (cases "ps = []")
  case True
  then show ?thesis by (simp add: parse_query_def url_params_def)
next
  case False
  define ss where "ss = map (\<lambda>(k, v). url_param_value k @ ''='' @ url_param_value v) ps"
  have "js_split (CHR ''&'') (url_params ps) = ss"
    unfolding url_params_def ss_def [symmetric]
    by (rule js_split_join) (use False url_param_value_no_eq in \<open>auto simp: ss_def\<close>)
  moreover have "filter (\<lambda>s. s \<noteq> []) ss = ss"
    by (auto simp: ss_def filter_id_conv)
  moreover have "map read_pair ss = map Some ps"
    by (auto simp: ss_def read_pair_Cons)
  moreover have "those (map Some xs) = Some xs" for xs :: search_params
    by (induction xs) auto
  ultimately show ?thesis by (simp add: parse_query_def)
qed

lemma read_push_url: "CHR ''?'' \<notin> set path \<Longrightarrow> read_url (push_url path op ps) = Some (table_params op ps)"
proof -
  assume p: "CHR ''?'' \<notin> set path"
  have d: "dropWhile (\<lambda>c. c \<noteq> CHR ''?'') path = []" "dropWhile (\<lambda>c. c \<noteq> CHR ''?'') (path @ CHR ''?'' # q) = CHR ''?'' # q" for q
    using p by (auto simp: dropWhile_eq_Nil_conv dropWhile_append)
  show ?thesis
  proof (cases "url_params (table_params op ps) = []")
    case True
    then show ?thesis using parse_url_params [of "table_params op ps"] by (simp add: push_url_def read_url_def d)
  next
    case False
    then show ?thesis by (simp add: push_url_def read_url_def d parse_url_params)
  qed
qed


definition navigate :: "string \<Rightarrow> search_params \<Rightarrow> table_op \<Rightarrow> search_params" where
  "navigate path ps op = (case read_url (push_url path op ps) of None \<Rightarrow> ps | Some ps' \<Rightarrow> ps')"

text \<open>Handlers called from one render all start from its parameters: the last push is the URL that stays.\<close>

definition same_render :: "string \<Rightarrow> search_params \<Rightarrow> table_op list \<Rightarrow> search_params" where
  "same_render path ps ops = (if ops = [] then ps else navigate path ps (last ops))"

lemma navigate_params: "CHR ''?'' \<notin> set path \<Longrightarrow> navigate path ps op = table_params op ps"
  by (simp add: navigate_def read_push_url)

lemma navigate_run:
  assumes "CHR ''?'' \<notin> set path" "list_all op_ok ops" "reserved_ok ps"
  shows "table_state opts (foldl (navigate path) ps ops) = foldl (\<lambda>s op. spec_step opts op s) (table_state opts ps) ops
    \<and> reserved_ok (foldl (navigate path) ps ops)"
  using assms
proof (induction ops arbitrary: ps)
  case (Cons op ops)
  then have "reserved_ok (navigate path ps op)"
    by (simp add: navigate_params table_params_reserved_ok)
  with Cons show ?case
    by (simp add: navigate_params handler_refines del: table_params.simps)
qed simp

text \<open>C26. The handlers of a table implement their contract through the URL: whatever sequence of page, size, sort, search,
  filter, replace and clear calls is made, one per render, the state read back from the pushed URLs is the one
  the abstract operations compute, with the page back to 1 after everything but a page change, the other parts
  kept, an empty filter gone and a list of one value read back as that value.\<close>

theorem table_handlers_refine:
  assumes "CHR ''?'' \<notin> set path" "list_all op_ok ops" "reserved_ok ps"
  shows "table_state opts (foldl (navigate path) ps ops) =
    foldl (\<lambda>s op. spec_step opts op s) (table_state opts ps) ops"
  using navigate_run [OF assms] by blast

theorem table_handlers_refine_witness:
  "snd (table_state \<lparr>to_defaultPageSize = 25, to_defaultSort = None\<rparr>
     (foldl (navigate ''/lex'') [(''page'', ''3'')] [Set_filter ''status'' (Some (Many [''a b'', ''c&d''])), Set_search ''x''])) ''status'' =
   Some (Many [''a b'', ''c&d''])"
  by (subst table_handlers_refine) (simp_all add: reserved_ok_def RESERVED_SEARCH_PARAMS_def table_state_def
    read_back_def read_values_list)

subsection \<open>Swapping a view\<close>

lemma spec_filters:
  assumes "distinct (map fst fs)"
  shows "foldl (\<lambda>s op. spec_step opts op s) (v, f) (map (\<lambda>(k, x). Set_filter k x) fs) =
    (if fs = [] then v else v\<lparr>tv_page := Fin 1\<rparr>,
     \<lambda>k. case map_of fs k of None \<Rightarrow> f k | Some x \<Rightarrow> read_back x)"
  using assms
proof (induction fs arbitrary: v f)
  case (Cons p fs)
  obtain k x where p: "p = (k, x)" by (cases p)
  with Cons.prems have "map_of fs k = None" by (simp add: map_of_eq_None_iff)
  with p Cons show ?case by (auto simp: fun_eq_iff split: option.splits)
qed simp

text \<open>C27. Swapping a view takes one \<open>replaceQuery\<close>: in successive renders clearing the filters and setting the new ones
  one by one reaches the same state as the single call, but made from one render the clear is undone, and every
  other filter that was active stays.\<close>

theorem swap_takes_one_navigation:
  assumes "CHR ''?'' \<notin> set path" "reserved_ok ps" "distinct (map fst fs)"
    "list_all (\<lambda>p. \<not> reserved (fst p)) fs" "fs \<noteq> []"
    and "ops = Clear_filters # map (\<lambda>(k, x). Set_filter k x) fs"
    and "k \<noteq> fst (last fs)"
  shows "table_state opts (foldl (navigate path) ps ops) =
      table_state opts (navigate path ps (Replace_query \<lparr>rq_filters = fs, rq_sort = None, rq_search = None\<rparr>)) \<and>
    map_of (activeFilters (same_render path ps ops)) k = map_of (activeFilters ps) k"
proof (rule conjI)
  have ok: "list_all op_ok ops" using assms(4,6) by (auto simp: list_all_iff)
  have ok': "op_ok (Replace_query \<lparr>rq_filters = fs, rq_sort = None, rq_search = None\<rparr>)"
    using assms(3,4) by simp
  obtain v f where vf: "table_state opts ps = (v, f)" by (cases "table_state opts ps")
  have "table_state opts (foldl (navigate path) ps ops) =
      foldl (\<lambda>s op. spec_step opts op s) (v, f) ops"
    using navigate_run [OF assms(1) ok assms(2), of opts] vf by simp
  also have "\<dots> = (v\<lparr>tv_page := Fin 1\<rparr>, \<lambda>k. Option.bind (map_of fs k) read_back)"
    using spec_filters [OF assms(3)] assms(6) by (auto simp: fun_eq_iff split: option.splits)
  also have "\<dots> = table_state opts (navigate path ps (Replace_query \<lparr>rq_filters = fs, rq_sort = None, rq_search = None\<rparr>))"
    unfolding navigate_params [OF assms(1)] handler_refines [OF ok' assms(2)] vf by simp
  finally show "table_state opts (foldl (navigate path) ps ops) =
      table_state opts (navigate path ps (Replace_query \<lparr>rq_filters = fs, rq_sort = None, rq_search = None\<rparr>))" .
  obtain k' x where l: "last fs = (k', x)" by (cases "last fs")
  then have "\<not> reserved k'" using assms(4,5) last_in_set [OF assms(5)] by (auto simp: list_all_iff)
  moreover have "same_render path ps ops = table_params (Set_filter k' x) ps"
    using assms(1,5,6) l by (simp add: same_render_def navigate_params last_map del: table_params.simps)
  ultimately show "map_of (activeFilters (same_render path ps ops)) k = map_of (activeFilters ps) k"
    using assms(7) l by (auto simp: map_of_activeFilters values_of_set_filter reserved_iff simp del: table_params.simps)
qed

theorem swap_takes_one_navigation_witness:
  "map_of (activeFilters (same_render ''/lex'' [(''status'', ''open'')] [Clear_filters, Set_filter ''owner'' (some_text ''me'')])) ''status'' =
   Some (One ''open'')"
  using swap_takes_one_navigation [where fs = "[(''owner'', some_text ''me'')]" and path = "''/lex''"
      and ps = "[(''status'', ''open'')]" and k = "''status''", OF _ _ _ _ _ refl]
  by (simp add: reserved_ok_def RESERVED_SEARCH_PARAMS_def map_of_activeFilters read_values_def read_more_def values_of_def)


subsection \<open>What is fetched, and what it listens to\<close>

record fetch_params =
  fp_page :: js_num
  fp_per_page :: js_num
  fp_sort :: "string option"
  fp_order :: "string option"
  fp_search :: "string option"
  fp_filters :: "filter_query option"

text \<open>The search is debounced: the value in force, and the value of the armed timer.\<close>

record data_table =
  dt_params :: search_params
  dt_debounced :: string
  dt_timer :: "string option"

definition rawSearch :: "search_params \<Rightarrow> string" where
  "rawSearch ps = js_get_or [] ps ''search''"

definition fetchParams :: "table_options \<Rightarrow> data_table \<Rightarrow> fetch_params" where
  "fetchParams opts d =
     (let v = read_view opts (dt_params d); filters = activeFilters (dt_params d)
      in \<lparr>fp_page = tv_page v, fp_per_page = tv_pageSize v, fp_sort = tv_sortColumn v, fp_order = Some (tv_sortDirection v),
          fp_search = (if dt_debounced d = [] then None else Some (dt_debounced d)),
          fp_filters = (if filters = [] then None else Some filters)\<rparr>)"

text \<open>\<open>useDebounce\<close>: a changed value clears the timer and arms it anew; the timer sets the value in force.\<close>

definition debounce_effect :: "search_params \<Rightarrow> data_table \<Rightarrow> data_table" where
  "debounce_effect ps d =
     d\<lparr>dt_params := ps, dt_timer := (if rawSearch ps = rawSearch (dt_params d) then dt_timer d else Some (rawSearch ps))\<rparr>"

definition debounced_fires :: "data_table \<Rightarrow> data_table" where
  "debounced_fires d = (case dt_timer d of None \<Rightarrow> d | Some v \<Rightarrow> d\<lparr>dt_debounced := v, dt_timer := None\<rparr>)"

definition stableTopics :: "string list \<Rightarrow> string list" where
  "stableTopics wsTopics =
     (let signature = js_join ''|'' wsTopics in if signature \<noteq> [] then js_split (CHR ''|'') signature else [])"

text \<open>A mounted table and the registry it shares with the page. \<open>keyOf\<close> is the text of the query key.\<close>

record live_table =
  lt_table :: data_table
  lt_store :: realtime_store

datatype url_event = Handler table_op | History search_params | Search_settles

definition realtimeQueryKey :: "(fetch_params \<Rightarrow> string) \<Rightarrow> table_options \<Rightarrow> data_table \<Rightarrow> string" where
  "realtimeQueryKey keyOf opts d = keyOf (fetchParams opts d)"

definition registration :: "string list \<Rightarrow> string \<Rightarrow> consumer" where
  "registration wsTopics key = \<lparr>cs_topics = stableTopics wsTopics, cs_key = key\<rparr>"

definition register_effect ::
  "string list \<Rightarrow> string \<Rightarrow> string \<Rightarrow> realtime_store \<Rightarrow> realtime_store" where
  "register_effect wsTopics old_key key s =
     (if key = old_key then s
      else mount_effect (registration wsTopics key) (unmount_effect (registration wsTopics old_key) s))"

fun table_change :: "string \<Rightarrow> url_event \<Rightarrow> data_table \<Rightarrow> data_table" where
  "table_change path (Handler op) d = debounce_effect (navigate path (dt_params d) op) d"
| "table_change path (History ps) d = debounce_effect ps d"
| "table_change path Search_settles d = debounced_fires d"

definition live_step ::
  "(fetch_params \<Rightarrow> string) \<Rightarrow> table_options \<Rightarrow> string list \<Rightarrow> string \<Rightarrow> live_table \<Rightarrow> url_event \<Rightarrow> live_table" where
  "live_step keyOf opts wsTopics path t e =
     (let d = table_change path e (lt_table t)
      in \<lparr>lt_table = d,
          lt_store = register_effect wsTopics (realtimeQueryKey keyOf opts (lt_table t)) (realtimeQueryKey keyOf opts d) (lt_store t)\<rparr>)"

definition table_mounts ::
  "(fetch_params \<Rightarrow> string) \<Rightarrow> table_options \<Rightarrow> string list \<Rightarrow> search_params \<Rightarrow> realtime_store \<Rightarrow> live_table" where
  "table_mounts keyOf opts wsTopics ps s =
     (let d = \<lparr>dt_params = ps, dt_debounced = rawSearch ps, dt_timer = None\<rparr>
      in \<lparr>lt_table = d, lt_store = mount_effect (registration wsTopics (realtimeQueryKey keyOf opts d)) s\<rparr>)"

lemma stableTopics_id:
  assumes "\<forall>t \<in> set wsTopics. CHR ''|'' \<notin> set t" "wsTopics \<noteq> [[]]"
  shows "stableTopics wsTopics = wsTopics"
proof (cases "wsTopics = []")
  case False
  then have "js_split (CHR ''|'') (js_join ''|'' wsTopics) = wsTopics"
    using assms(1) by (intro js_split_join) auto
  moreover from this have "js_join ''|'' wsTopics \<noteq> []"
    using assms(2) by (cases "js_join ''|'' wsTopics") auto
  ultimately show ?thesis by (simp add: stableTopics_def)
qed (simp add: stableTopics_def)

lemma register_effect_listens:
  assumes "\<forall>t k. listens s t k \<longleftrightarrow> (t \<in> set ts \<and> k = old_key) \<or> listens s0 t k"
    and "stableTopics wsTopics = ts" "\<And>t. \<not> listens s0 t old_key"
  shows "listens (register_effect wsTopics old_key key s) t k \<longleftrightarrow> (t \<in> set ts \<and> k = key) \<or> listens s0 t k"
proof (cases "key = old_key")
  case True
  then show ?thesis using assms(1) by (simp add: register_effect_def)
next
  case False
  then show ?thesis
    using assms
    by (auto simp: register_effect_def registration_def mount_effect_def unmount_effect_def
        rt.registered_all rt.unregistered_all)
qed

definition search_ok :: "data_table \<Rightarrow> bool" where
  "search_ok d \<longleftrightarrow> (case dt_timer d of None \<Rightarrow> dt_debounced d | Some v \<Rightarrow> v) = rawSearch (dt_params d)"

lemma table_change_search_ok: "search_ok d \<Longrightarrow> search_ok (table_change path e d)"
  by (cases e) (auto simp: search_ok_def debounce_effect_def debounced_fires_def split: option.splits)

lemma live_run_table:
  "lt_table (foldl (live_step keyOf opts wsTopics path) t es) = foldl (\<lambda>d e. table_change path e d) (lt_table t) es"
  by (induction es arbitrary: t) (auto simp: live_step_def Let_def)



text \<open>Once the search settles, what is fetched is what the URL says; until then the new filters go out with the old search.\<close>

lemma settled_fetch_matches_url:
  assumes "d = foldl (\<lambda>d e. table_change path e d) \<lparr>dt_params = ps, dt_debounced = rawSearch ps, dt_timer = None\<rparr> es"
  shows "fetchParams opts (debounced_fires d) =
    fetchParams opts \<lparr>dt_params = dt_params d, dt_debounced = rawSearch (dt_params d), dt_timer = None\<rparr>"
proof -
  have "search_ok d"
    unfolding assms by (rule foldl_invariant [where P = search_ok]) (simp add: search_ok_def, rule table_change_search_ok)
  then show ?thesis
    by (auto simp: search_ok_def debounced_fires_def fetchParams_def Let_def split: option.splits)
qed

lemma swapped_view_fetches_old_search:
  "fetchParams opts (debounce_effect ps (\<lparr>dt_params = qs, dt_debounced = rawSearch qs, dt_timer = None\<rparr>)) =
     (fetchParams opts \<lparr>dt_params = ps, dt_debounced = rawSearch ps, dt_timer = None\<rparr>)
       \<lparr>fp_search := (if rawSearch qs = [] then None else Some (rawSearch qs))\<rparr>"
  by (simp add: debounce_effect_def fetchParams_def Let_def)

text \<open>A page that is not a number is fetched as such.\<close>

lemma page_text_fetches_NaN:
  "fp_page (fetchParams opts \<lparr>dt_params = [(''page'', ''abc'')], dt_debounced = [], dt_timer = None\<rparr>) = NaN"
  by (simp add: fetchParams_def Let_def read_view_def js_get_or_def js_parseInt_def js_is_space_def is_digit_def)

subsection \<open>The parameters of a request\<close>

text \<open>The query object in insertion order, an undefined value as None; \<open>extra\<close> is spread after the table's own.\<close>

definition filter_param :: "(string, json option) jsmap \<Rightarrow> string \<times> filter_value \<Rightarrow> (string, json option) jsmap" where
  "filter_param query u =
     (case snd u of
        One v \<Rightarrow> if v = [] then query else AList.update (fst u) (Some (JStr v)) query
      | Many vs \<Rightarrow> if vs = [] then query else AList.update (fst u) (Some (JStr (js_join '','' vs))) query)"

definition buildSuiteQueryParams ::
  "fetch_params \<Rightarrow> (string \<times> json option) list \<Rightarrow> (string, json option) jsmap" where
  "buildSuiteQueryParams fp extra =
     (let base = [(''page'', Some (JNum (fp_page fp))), (''per_page'', Some (JNum (fp_per_page fp))),
                  (''sort'', map_option JStr (fp_sort fp)), (''order'', map_option JStr (fp_order fp)),
                  (''search'', map_option JStr (fp_search fp))];
          query = foldl (\<lambda>q (k, v). AList.update k v q) base extra
      in foldl filter_param query (case fp_filters fp of None \<Rightarrow> [] | Some fs \<Rightarrow> fs))"

text \<open>\<open>lib/lex/settlements.ts\<close> listDelayEvents: the fields of its own argument, absent ones as undefined.\<close>

record delay_params =
  dl_category :: "string option"
  dl_open :: bool
  dl_q :: "string option"
  dl_sort :: "string option"
  dl_sort_dir :: "string option"

definition listDelayEvents :: "fetch_params \<Rightarrow> delay_params option \<Rightarrow> (string, json option) jsmap" where
  "listDelayEvents fp extra =
     buildSuiteQueryParams fp
       [(''open'', if map_option dl_open extra = Some True then Some (JStr ''true'') else None),
        (''category'', map_option JStr (Option.bind extra dl_category)),
        (''q'', map_option JStr (Option.bind extra dl_q)),
        (''sort'', map_option JStr (Option.bind extra dl_sort)),
        (''sort_dir'', map_option JStr (or_fallback (Option.bind extra dl_sort_dir) (fp_order fp)))]"

lemma filter_params_other:
  "k \<notin> fst ` set fs \<Longrightarrow> map_of (foldl filter_param q fs) k = map_of q k"
  by (induction fs arbitrary: q) (auto simp: filter_param_def update_conv' split: filter_value.splits)

lemma map_of_extra:
  "distinct (map fst extra) \<Longrightarrow>
   map_of (foldl (\<lambda>q (k, v). AList.update k v q) base extra) k =
     (case map_of extra k of None \<Rightarrow> map_of base k | Some v \<Rightarrow> Some v)"
proof (induction extra arbitrary: base)
  case (Cons p extra)
  obtain k' v where p: "p = (k', v)" by (cases p)
  with Cons.prems have "map_of extra k' = None" by (simp add: map_of_eq_None_iff)
  with Cons p show ?case by (auto simp: update_conv' split: option.splits)
qed simp

text \<open>What a caller pins stays pinned as long as the URL does not name it as a filter.\<close>

lemma pinned_param_kept:
  assumes "distinct (map fst extra)" "map_of extra k = Some v"
    "\<And>fs. fp_filters fp = Some fs \<Longrightarrow> k \<notin> fst ` set fs"
  shows "map_of (buildSuiteQueryParams fp extra) k = Some v"
  using assms(2,3)
  by (cases "fp_filters fp")
    (simp_all add: buildSuiteQueryParams_def map_of_extra [OF assms(1)] filter_params_other)

lemma url_filter_overrides_pin:
  "map_of (buildSuiteQueryParams
      (fetchParams opts \<lparr>dt_params = [(''mine'', ''false'')], dt_debounced = [], dt_timer = None\<rparr>)
      [(''mine'', Some (JBool True))]) ''mine'' = Some (Some (JStr ''false''))"
  by (simp add: buildSuiteQueryParams_def fetchParams_def Let_def activeFilters_def add_filter_def
      RESERVED_SEARCH_PARAMS_def filter_param_def update_conv')

lemma delay_sort_is_dropped:
  assumes "fp_filters fp = None"
  shows "map_of (listDelayEvents fp None) ''sort'' = Some None"
  using assms by (simp add: listDelayEvents_def buildSuiteQueryParams_def Let_def update_conv')

end
