(* ===== verification/OrgChart.thy ===== *)
theory OrgChart
  imports OrgTree "HOL-Library.Multiset"
begin

section \<open>The organisation chart\<close>

text \<open>
  \<open>app/(dashboard)/lex/admin/org-entities/_lib/org-chart-layout.ts\<close>: escalation coverage, the guard of
  drag-to-reparent, the tree that is built from the flat registry, and its layout. The index of children of the guard
  is the one of OrgTree. A locale comparison of codes is the order of \<open>collate\<close>, its collation key. The tidy tree of
  d3 is outside the sources: \<open>order\<close> is the order in which it lists the nodes of a hierarchy and \<open>place\<close> the
  centre it gives each.
\<close>

subsection \<open>Escalation coverage\<close>

definition VIRTUAL_ROOT_ID :: string where
  "VIRTUAL_ROOT_ID = ''__org_root__''"

definition chart_escalation_roles :: "org_role_key list" where
  "chart_escalation_roles = [Section_supervisor, Department_manager, Shared_services_manager]"

record escalation_coverage =
  ec_ready :: bool
  ec_missing :: "org_role_key list"

definition coverage_chain :: "org_entity \<Rightarrow> (string, org_entity) jsmap \<Rightarrow> org_entity list" where
  "coverage_chain entity byId =
     entity # List.map_filter (\<lambda>a. if a = oe_id entity then None else map_of byId a) (oe_path entity)"

definition computeCoverage :: "org_entity \<Rightarrow> (string, org_entity) jsmap \<Rightarrow> escalation_coverage" where
  "computeCoverage entity byId =
     (let chain = coverage_chain entity byId;
          covered = filter (\<lambda>role. list_ex (\<lambda>node. hasRole node role) chain) chart_escalation_roles;
          missing = filter (\<lambda>role. role \<notin> set covered) chart_escalation_roles
      in \<lparr>ec_ready = (missing = []), ec_missing = missing\<rparr>)"

subsection \<open>Descendants and the drag guard\<close>

lemma js_get_or_absent: "k \<notin> fst ` set m \<Longrightarrow> js_get_or d m k = d"
  by (simp add: js_get_or_def map_of_eq_None_iff [THEN iffD2])

lemma walk_progress:
  fixes m :: "(string, org_entity list) jsmap"
  assumes "i \<notin> set out"
  shows "card (fst ` set m - insert i (set out)) < card (fst ` set m - set out) \<or>
    fst ` set m - insert i (set out) = fst ` set m - set out \<and> js_get_or [] m i = []"
proof (cases "i \<in> fst ` set m")
  case True
  then have "card (fst ` set m - insert i (set out)) < card (fst ` set m - set out)"
    using assms by (intro psubset_card_mono) auto
  then show ?thesis ..
next
  case False
  then have "fst ` set m - insert i (set out) = fst ` set m - set out" by auto
  with False show ?thesis by (simp add: js_get_or_absent)
qed

text \<open>The stack of the loop with its top in front; ids that were visited are skipped.\<close>

function chart_walk :: "(string, org_entity list) jsmap \<Rightarrow> org_entity list \<Rightarrow> string list \<Rightarrow> string list" where
  "chart_walk childrenOf [] out = out"
| "chart_walk childrenOf (node # stack) out =
     (if oe_id node \<in> set out then chart_walk childrenOf stack out
      else chart_walk childrenOf (rev (js_get_or [] childrenOf (oe_id node)) @ stack) (out @ [oe_id node]))"
  by pat_completeness auto

termination
proof (relation "inv_image (less_than <*lex*> less_than) (\<lambda>(m, stack, out). (card (fst ` set m - set out), length stack))",
    goal_cases)
  case (3 m node stack out)
  from walk_progress [OF 3, of m] show ?case by auto
qed (auto intro: wf_inv_image)

definition collectDescendantIds :: "string \<Rightarrow> org_entity list \<Rightarrow> string list" where
  "collectDescendantIds rootId entities =
     (let childrenOf = indexChildren entities;
          out = chart_walk childrenOf (rev (js_get_or [] childrenOf rootId)) []
      in foldl (\<lambda>out e. if oe_id e \<noteq> rootId \<and> rootId \<in> set (oe_path e) \<and> oe_id e \<notin> set out
                        then out @ [oe_id e] else out) out entities)"

definition isReparentForbidden :: "string \<Rightarrow> string \<Rightarrow> org_entity list \<Rightarrow> bool" where
  "isReparentForbidden draggedId targetId entities =
     (if draggedId = targetId then True
      else if (case find (\<lambda>e. oe_id e = draggedId) entities of
                 None \<Rightarrow> False | Some dragged \<Rightarrow> oe_parent_id dragged = Some targetId) then True
      else if draggedId \<in> set (case find (\<lambda>e. oe_id e = targetId) entities of None \<Rightarrow> [] | Some e \<Rightarrow> oe_path e)
      then True
      else targetId \<in> set (collectDescendantIds draggedId entities))"

subsection \<open>The tree\<close>

text \<open>An absent list of children is empty.\<close>

datatype org_datum =
  Datum (od_id: string) (od_entity: "org_entity option") (od_virtual: bool)
    (od_coverage: "escalation_coverage option") (od_children: "org_datum list")

definition shown_parent :: "(string, org_entity) jsmap \<Rightarrow> org_entity \<Rightarrow> string option" where
  "shown_parent byId e = (case parent_of e of None \<Rightarrow> None | Some p \<Rightarrow> if js_has byId p then Some p else None)"

definition split_roots ::
  "(string, org_entity) jsmap \<Rightarrow> org_entity list \<Rightarrow> (string, org_entity list) jsmap \<times> org_entity list" where
  "split_roots byId entities =
     foldl (\<lambda>(childrenOf, roots) e. case shown_parent byId e of
         Some p \<Rightarrow> (AList.update p (js_get_or [] childrenOf p @ [e]) childrenOf, roots)
       | None \<Rightarrow> (childrenOf, roots @ [e])) ([], []) entities"

text \<open>The recursion marks what it has seen; the fuel bounds its depth.\<close>

fun toDatum :: "(string \<Rightarrow> nat) \<Rightarrow> (string, org_entity) jsmap \<Rightarrow> (string, org_entity list) jsmap \<Rightarrow> nat \<Rightarrow>
    org_entity \<Rightarrow> string list \<Rightarrow> (org_datum \<times> string list) option"
  and toData :: "(string \<Rightarrow> nat) \<Rightarrow> (string, org_entity) jsmap \<Rightarrow> (string, org_entity list) jsmap \<Rightarrow> nat \<Rightarrow>
    org_entity list \<Rightarrow> string list \<Rightarrow> (org_datum list \<times> string list) option" where
  "toDatum collate byId childrenOf 0 entity seen = None"
| "toDatum collate byId childrenOf (Suc n) entity seen =
     (let seen1 = oe_id entity # seen;
          kids = sort_key (\<lambda>c. collate (oe_code c))
                   (filter (\<lambda>c. oe_id c \<notin> set seen1) (js_get_or [] childrenOf (oe_id entity)))
      in map_option (\<lambda>(ds, seen2).
             (Datum (oe_id entity) (Some entity) False (Some (computeCoverage entity byId)) ds, seen2))
           (toData collate byId childrenOf n kids seen1))"
| "toData collate byId childrenOf n [] seen = Some ([], seen)"
| "toData collate byId childrenOf n (c # cs) seen =
     (case toDatum collate byId childrenOf n c seen of
        None \<Rightarrow> None
      | Some (d, seen1) \<Rightarrow> map_option (\<lambda>(ds, seen2). (d # ds, seen2)) (toData collate byId childrenOf n cs seen1))"

record built_chart =
  bc_root :: org_datum
  bc_hasVirtualRoot :: bool

definition buildDatum ::
  "(string \<Rightarrow> nat) \<Rightarrow> org_entity list \<Rightarrow> (string, org_entity) jsmap \<Rightarrow> built_chart option" where
  "buildDatum collate entities byId =
     (let (childrenOf, roots) = split_roots byId entities
      in map_option (\<lambda>(rootData, seen).
           if length rootData = 1 then \<lparr>bc_root = hd rootData, bc_hasVirtualRoot = False\<rparr>
           else \<lparr>bc_root = Datum VIRTUAL_ROOT_ID None True None rootData, bc_hasVirtualRoot = True\<rparr>)
         (toData collate byId childrenOf (Suc (length entities)) (sort_key (\<lambda>e. collate (oe_code e)) roots) []))"

subsection \<open>The layout\<close>

definition NODE_WIDTH :: rat where "NODE_WIDTH = 220"
definition NODE_HEIGHT :: rat where "NODE_HEIGHT = 96"
definition chart_pad :: rat where "chart_pad = 48"

record positioned_node =
  pn_id :: string
  pn_entity :: "org_entity option"
  pn_virtual :: bool
  pn_x :: rat
  pn_y :: rat
  pn_depth :: nat
  pn_parentId :: "string option"
  pn_hasChildren :: bool
  pn_collapsed :: bool
  pn_totalChildren :: nat
  pn_coverage :: "escalation_coverage option"

record positioned_edge =
  pe_sourceId :: string
  pe_targetId :: string
  pe_sx :: rat
  pe_sy :: rat
  pe_tx :: rat
  pe_ty :: rat

record chart_bounds =
  cb_minX :: rat
  cb_minY :: rat
  cb_width :: rat
  cb_height :: rat

record org_layout =
  ol_nodes :: "positioned_node list"
  ol_edges :: "positioned_edge list"
  ol_bounds :: chart_bounds
  ol_hasVirtualRoot :: bool

text \<open>All data of a tree, and the hierarchy d3 makes of it when the children of a collapsed node are undefined.\<close>

fun flat :: "org_datum \<Rightarrow> org_datum list" where
  "flat (Datum i e v c ds) = Datum i e v c ds # concat (map flat ds)"

definition totalChildCount :: "org_datum \<Rightarrow> (string, nat) jsmap" where
  "totalChildCount d = js_map_of_entries (map (\<lambda>x. (od_id x, length (od_children x))) (flat d))"

record hierarchy_node =
  hn_data :: org_datum
  hn_depth :: nat
  hn_parent :: "string option"
  hn_children :: nat

fun hierarchy :: "string list \<Rightarrow> nat \<Rightarrow> string option \<Rightarrow> org_datum \<Rightarrow> hierarchy_node list" where
  "hierarchy collapsedIds depth parent (Datum i e v c ds) =
     (if i \<in> set collapsedIds then [\<lparr>hn_data = Datum i e v c ds, hn_depth = depth, hn_parent = parent, hn_children = 0\<rparr>]
      else \<lparr>hn_data = Datum i e v c ds, hn_depth = depth, hn_parent = parent, hn_children = length ds\<rparr>
             # concat (map (hierarchy collapsedIds (Suc depth) (Some i)) ds))"

abbreviation hn_id :: "hierarchy_node \<Rightarrow> string" where
  "hn_id n \<equiv> od_id (hn_data n)"

definition widen :: "rat \<times> rat \<times> rat \<times> rat \<Rightarrow> positioned_node \<Rightarrow> rat \<times> rat \<times> rat \<times> rat" where
  "widen b n =
     (let (minX, maxX, minY, maxY) = b
      in (min minX (pn_x n - NODE_WIDTH / 2), max maxX (pn_x n + NODE_WIDTH / 2),
          min minY (pn_y n - NODE_HEIGHT / 2), max maxY (pn_y n + NODE_HEIGHT / 2)))"

text \<open>The infinities the extremes start from give way to the first card.\<close>

definition chart_extent :: "positioned_node list \<Rightarrow> rat \<times> rat \<times> rat \<times> rat" where
  "chart_extent nodes =
     (case nodes of
        [] \<Rightarrow> (0, NODE_WIDTH, 0, NODE_HEIGHT)
      | n # ns \<Rightarrow> foldl widen (pn_x n - NODE_WIDTH / 2, pn_x n + NODE_WIDTH / 2,
                                pn_y n - NODE_HEIGHT / 2, pn_y n + NODE_HEIGHT / 2) ns)"

definition computeLayout ::
  "(hierarchy_node list \<Rightarrow> hierarchy_node list) \<Rightarrow> (hierarchy_node list \<Rightarrow> string \<Rightarrow> rat \<times> rat) \<Rightarrow>
   org_datum \<Rightarrow> string list \<Rightarrow> bool \<Rightarrow> org_layout" where
  "computeLayout order place rootDatum collapsedIds hasVirtualRoot =
     (let counts = totalChildCount rootDatum;
          h = hierarchy collapsedIds 0 None rootDatum;
          pos = place h;
          visible = filter (\<lambda>n. \<not> (hasVirtualRoot \<and> hn_id n = VIRTUAL_ROOT_ID)) (order h);
          nodes = map (\<lambda>n.
            \<lparr>pn_id = hn_id n, pn_entity = od_entity (hn_data n), pn_virtual = od_virtual (hn_data n),
             pn_x = fst (pos (hn_id n)), pn_y = snd (pos (hn_id n)), pn_depth = hn_depth n,
             pn_parentId = (if hasVirtualRoot \<and> hn_parent n = Some VIRTUAL_ROOT_ID then None else hn_parent n),
             pn_hasChildren = (0 < hn_children n),
             pn_collapsed = (hn_id n \<in> set collapsedIds \<and> 0 < js_get_or 0 counts (hn_id n)),
             pn_totalChildren = js_get_or 0 counts (hn_id n), pn_coverage = od_coverage (hn_data n)\<rparr>) visible;
          links = List.map_filter (\<lambda>n. map_option (\<lambda>p. (p, hn_id n)) (hn_parent n)) (order h);
          edges = map (\<lambda>(s, t).
            \<lparr>pe_sourceId = s, pe_targetId = t, pe_sx = fst (pos s), pe_sy = snd (pos s) + NODE_HEIGHT / 2,
             pe_tx = fst (pos t), pe_ty = snd (pos t) - NODE_HEIGHT / 2\<rparr>)
            (filter (\<lambda>(s, t). \<not> (hasVirtualRoot \<and> s = VIRTUAL_ROOT_ID)) links);
          (minX, maxX, minY, maxY) = chart_extent nodes
      in \<lparr>ol_nodes = nodes, ol_edges = edges,
          ol_bounds = \<lparr>cb_minX = minX - chart_pad, cb_minY = minY - chart_pad,
                       cb_width = maxX - minX + chart_pad * 2, cb_height = maxY - minY + chart_pad * 2\<rparr>,
          ol_hasVirtualRoot = hasVirtualRoot\<rparr>)"

definition collapsibleIds :: "org_entity list \<Rightarrow> string list" where
  "collapsibleIds entities =
     (let hasChild = List.map_filter parent_of entities
      in map oe_id (filter (\<lambda>e. oe_id e \<in> set hasChild) entities))"

text \<open>\<open>numText\<close> is the text of a coordinate in a template literal.\<close>

definition orthogonalConnector :: "(rat \<Rightarrow> string) \<Rightarrow> positioned_edge \<Rightarrow> string" where
  "orthogonalConnector numText e =
     (let midY = (pe_sy e + pe_ty e) / 2
      in ''M'' @ numText (pe_sx e) @ '','' @ numText (pe_sy e) @ '' V'' @ numText midY @ '' H'' @ numText (pe_tx e)
         @ '' V'' @ numText (pe_ty e))"

subsection \<open>Descendants\<close>

lemma walk_sound:
  "set (chart_walk (indexChildren all) stack out) \<subseteq>
     set out \<union> (parent_rel all)\<^sup>* `` (oe_id ` set stack)"
proof (induction "indexChildren all" stack out rule: chart_walk.induct)
  case (2 node stack out)
  show ?case
  proof (cases "oe_id node \<in> set out")
    case True
    with 2(1) show ?thesis by auto
  next
    case False
    have "oe_id ` set (rev (js_get_or [] (indexChildren all) (oe_id node))) \<subseteq> parent_rel all `` {oe_id node}"
      by (auto simp: children_get parent_rel_def)
    then have "(parent_rel all)\<^sup>* `` (oe_id ` set (rev (js_get_or [] (indexChildren all) (oe_id node)))) \<subseteq>
        (parent_rel all)\<^sup>* `` {oe_id node}"
      by (auto intro: converse_rtrancl_into_rtrancl)
    with 2(2) [OF False] False show ?thesis by (auto simp: Image_iff) blast+
  qed
qed simp

lemma walk_visits: "set out \<union> oe_id ` set stack \<subseteq> set (chart_walk m stack out)"
proof (induction m stack out rule: chart_walk.induct)
  case (2 m node stack out)
  then show ?case by (cases "oe_id node \<in> set out") auto
qed simp

lemma walk_closed:
  "parent_rel all `` set out \<subseteq> set out \<union> oe_id ` set stack \<Longrightarrow>
   parent_rel all `` set (chart_walk (indexChildren all) stack out) \<subseteq> set (chart_walk (indexChildren all) stack out)"
proof (induction "indexChildren all" stack out rule: chart_walk.induct)
  case (2 node stack out)
  show ?case
  proof (cases "oe_id node \<in> set out")
    case True
    with 2 show ?thesis by auto
  next
    case False
    have "parent_rel all `` {oe_id node} \<subseteq> oe_id ` set (js_get_or [] (indexChildren all) (oe_id node))"
      by (auto simp: children_get parent_rel_def)
    with 2(3) have "parent_rel all `` set (out @ [oe_id node]) \<subseteq> set (out @ [oe_id node]) \<union>
        oe_id ` set (rev (js_get_or [] (indexChildren all) (oe_id node)) @ stack)"
      by auto
    from 2(2) [OF False this] False show ?thesis by simp
  qed
qed simp

lemma walk_below:
  "set (chart_walk (indexChildren all) (rev (js_get_or [] (indexChildren all) i)) []) = (parent_rel all)\<^sup>+ `` {i}"
    (is "set ?w = _")
proof
  let ?c = "oe_id ` set (js_get_or [] (indexChildren all) i)"
  have c: "?c = parent_rel all `` {i}" by (auto simp: children_get parent_rel_def)
  have star: "(parent_rel all)\<^sup>* `` ?c = (parent_rel all)\<^sup>+ `` {i}"
    unfolding c by (auto intro: rtrancl_into_trancl2 dest: tranclD)
  then show "set ?w \<subseteq> (parent_rel all)\<^sup>+ `` {i}" using walk_sound [of all "rev (js_get_or [] (indexChildren all) i)" "[]"] by simp
  have "parent_rel all `` set ?w \<subseteq> set ?w" by (rule walk_closed) simp
  moreover have "?c \<subseteq> set ?w" using walk_visits [of "[]" "rev (js_get_or [] (indexChildren all) i)"] by simp
  ultimately have "(parent_rel all)\<^sup>* `` ?c \<subseteq> set ?w"
    using Image_closed_trancl [of "parent_rel all" "set ?w"] by blast
  then show "(parent_rel all)\<^sup>+ `` {i} \<subseteq> set ?w" using star by simp
qed

lemma collectDescendantIds_set:
  "set (collectDescendantIds rootId all) =
     (parent_rel all)\<^sup>+ `` {rootId} \<union> {oe_id e |e. e \<in> set all \<and> oe_id e \<noteq> rootId \<and> rootId \<in> set (oe_path e)}"
proof -
  have f: "set (foldl (\<lambda>out e. if oe_id e \<noteq> rootId \<and> rootId \<in> set (oe_path e) \<and> oe_id e \<notin> set out
      then out @ [oe_id e] else out) out es) =
    set out \<union> {oe_id e |e. e \<in> set es \<and> oe_id e \<noteq> rootId \<and> rootId \<in> set (oe_path e)}" for out es
    by (induction es arbitrary: out) auto
  show ?thesis unfolding collectDescendantIds_def Let_def f walk_below ..
qed

lemma find_by_id:
  assumes "distinct (map oe_id all)" "e \<in> set all"
  shows "find (\<lambda>x. oe_id x = oe_id e) all = Some e"
  using assms by (induction all) auto

text \<open>Paths that name only proper ancestors, as the registry keeps them.\<close>

definition paths_sound :: "org_entity list \<Rightarrow> bool" where
  "paths_sound all \<longleftrightarrow> (\<forall>e \<in> set all. \<forall>a \<in> set (oe_path e). a \<noteq> oe_id e \<longrightarrow> (a, oe_id e) \<in> (parent_rel all)\<^sup>+)"

lemma forbidden_iff:
  assumes "distinct (map oe_id all)" "moved \<in> set all" "np \<in> set all"
  shows "isReparentForbidden (oe_id moved) (oe_id np) all \<longleftrightarrow>
    oe_id moved = oe_id np \<or> oe_parent_id moved = Some (oe_id np) \<or> oe_id moved \<in> set (oe_path np) \<or>
    (oe_id moved, oe_id np) \<in> (parent_rel all)\<^sup>+"
  using assms inj_onD [of oe_id "set all" np]
  by (auto simp: isReparentForbidden_def find_by_id [OF assms(1)] collectDescendantIds_set distinct_map)

text \<open>C39. In a registry without cycles of parents whose paths name only ancestors, dragging an entity onto another is
  forbidden exactly when the move would close a cycle or leave it where it is; what the guard lets pass never
  closes a cycle, whatever the paths say.\<close>

theorem drag_guard_exact:
  assumes "acyclic (parent_rel all)" "distinct (map oe_id all)" "moved \<in> set all" "np \<in> set all" "[] \<notin> oe_id ` set all"
  shows "(isReparentForbidden (oe_id moved) (oe_id np) all \<or>
      acyclic (parent_rel (reparented moved (Some (oe_id np)) all))) \<and>
    (if paths_sound all
     then isReparentForbidden (oe_id moved) (oe_id np) all =
       (oe_parent_id moved = Some (oe_id np) \<or> \<not> acyclic (parent_rel (reparented moved (Some (oe_id np)) all)))
     else True)"
proof -
  have "oe_id np \<noteq> []" using assms(4,5) by (metis imageI)
  have move: "acyclic (parent_rel (reparented moved (Some (oe_id np)) all)) \<longleftrightarrow> (oe_id moved, oe_id np) \<notin> (parent_rel all)\<^sup>*"
    using reparented_rel [OF assms(3) \<open>oe_id np \<noteq> []\<close>] acyclic_move_iff [OF assms(1)] by simp
  have "oe_id moved \<in> set (oe_path np) \<Longrightarrow> paths_sound all \<Longrightarrow> oe_id moved \<noteq> oe_id np \<Longrightarrow>
      (oe_id moved, oe_id np) \<in> (parent_rel all)\<^sup>+"
    using assms(4) by (auto simp: paths_sound_def)
  then show ?thesis
    unfolding forbidden_iff [OF assms(2-4)] move rtrancl_eq_or_trancl by auto
qed

subsection \<open>What the tree holds\<close>

definition shown_rel :: "org_entity list \<Rightarrow> (string \<times> string) set" where
  "shown_rel all = {(p, c). \<exists>e \<in> set all. shown_parent (indexById all) e = Some p \<and> oe_id e = c}"

definition chart_roots :: "org_entity list \<Rightarrow> org_entity list" where
  "chart_roots all = filter (\<lambda>e. shown_parent (indexById all) e = None) all"

lemma split_roots_spec:
  "js_get_or [] (fst (split_roots byId es)) i = filter (\<lambda>e. shown_parent byId e = Some i) es"
  "snd (split_roots byId es) = filter (\<lambda>e. shown_parent byId e = None) es"
proof -
  have "js_get_or [] (fst (foldl (\<lambda>(childrenOf, roots) e. case shown_parent byId e of
         Some p \<Rightarrow> (AList.update p (js_get_or [] childrenOf p @ [e]) childrenOf, roots)
       | None \<Rightarrow> (childrenOf, roots @ [e])) (m, rs) es)) i =
      js_get_or [] m i @ filter (\<lambda>e. shown_parent byId e = Some i) es \<and>
    snd (foldl (\<lambda>(childrenOf, roots) e. case shown_parent byId e of
         Some p \<Rightarrow> (AList.update p (js_get_or [] childrenOf p @ [e]) childrenOf, roots)
       | None \<Rightarrow> (childrenOf, roots @ [e])) (m, rs) es) =
      rs @ filter (\<lambda>e. shown_parent byId e = None) es" for m rs
    by (induction es arbitrary: m rs) (auto simp: js_get_or_update split: option.split)
  from this [of "[]" "[]"] show "js_get_or [] (fst (split_roots byId es)) i = filter (\<lambda>e. shown_parent byId e = Some i) es"
    "snd (split_roots byId es) = filter (\<lambda>e. shown_parent byId e = None) es"
    by (simp_all add: split_roots_def js_get_or_def)
qed

text \<open>The recursion always has fuel enough: ids along a branch are all different.\<close>

lemma toData_total:
  assumes "\<And>c seen. c \<in> set cs \<Longrightarrow> card (U - insert (oe_id c) (set seen)) < n \<Longrightarrow>
      \<exists>d seen'. toDatum collate byId m n c seen = Some (d, seen') \<and> set seen \<subseteq> set seen'"
    and "\<And>c. c \<in> set cs \<Longrightarrow> card (U - insert (oe_id c) (set seen)) < n" "finite U"
  shows "\<exists>ds seen'. toData collate byId m n cs seen = Some (ds, seen') \<and> set seen \<subseteq> set seen'"
  using assms
proof (induction cs arbitrary: seen)
  case (Cons c cs)
  obtain d seen1 where d: "toDatum collate byId m n c seen = Some (d, seen1)" "set seen \<subseteq> set seen1"
    using Cons.prems(1) [of c seen] Cons.prems(2) [of c] by auto
  have less: "card (U - insert (oe_id x) (set seen1)) < n" if "x \<in> set cs" for x
  proof -
    have "card (U - insert (oe_id x) (set seen1)) \<le> card (U - insert (oe_id x) (set seen))"
      using d(2) Cons.prems(3) by (intro card_mono) auto
    also have "\<dots> < n" using Cons.prems(2) that by simp
    finally show ?thesis .
  qed
  have "\<exists>ds seen'. toData collate byId m n cs seen1 = Some (ds, seen') \<and> set seen1 \<subseteq> set seen'"
    by (rule Cons.IH) (use Cons.prems less in auto)
  with d show ?case by fastforce
qed simp

lemma toDatum_total:
  assumes "finite U" "\<And>i c. c \<in> set (js_get_or [] m i) \<Longrightarrow> oe_id c \<in> U"
  shows "card (U - insert (oe_id e) (set seen)) < n \<Longrightarrow>
    \<exists>d seen'. toDatum collate byId m n e seen = Some (d, seen') \<and> set seen \<subseteq> set seen'"
proof (induction n arbitrary: e seen)
  case (Suc n)
  let ?seen1 = "oe_id e # seen"
  let ?kids = "sort_key (\<lambda>c. collate (oe_code c)) (filter (\<lambda>c. oe_id c \<notin> set ?seen1) (js_get_or [] m (oe_id e)))"
  have "card (U - insert (oe_id c) (set ?seen1)) < n" if "c \<in> set ?kids" for c
  proof -
    have "oe_id c \<in> U - set ?seen1" using that assms(2) by auto
    then have "card (U - insert (oe_id c) (set ?seen1)) < card (U - set ?seen1)"
      using assms(1) by (intro psubset_card_mono) auto
    with Suc.prems show ?thesis by simp
  qed
  then have "\<exists>ds seen'. toData collate byId m n ?kids ?seen1 = Some (ds, seen') \<and> set ?seen1 \<subseteq> set seen'"
    by (intro toData_total [OF Suc.IH _ assms(1)]) auto
  then show ?case by (auto simp: Let_def)
qed simp

lemma buildDatum_total: "\<exists>bc. buildDatum collate all byId = Some bc"
proof -
  let ?m = "fst (split_roots byId all)"
  let ?U = "oe_id ` set all"
  have "oe_id c \<in> ?U" if "c \<in> set (js_get_or [] ?m i)" for c i
    using that by (auto simp: split_roots_spec)
  note total = toDatum_total [of ?U ?m, OF _ this]
  have less: "card (?U - insert i (set seen)) < Suc (length all)" for i and seen :: "string list"
  proof -
    have "card (?U - insert i (set seen)) \<le> card ?U" by (intro card_mono) auto
    also have "\<dots> \<le> card (set all)" by (rule card_image_le) simp
    also have "\<dots> \<le> length all" by (rule card_length)
    finally show ?thesis by simp
  qed
  have "\<exists>ds seen'. toData collate byId ?m (Suc (length all)) cs [] = Some (ds, seen') \<and> set [] \<subseteq> set seen'" for cs
    by (intro toData_total [where U = ?U] total) (use less [of _ "[]"] in auto)
  then obtain ds seen' where "toData collate byId ?m (Suc (length all)) (sort_key (\<lambda>e. collate (oe_code e)) (snd (split_roots byId all))) []
      = Some (ds, seen')" by blast
  then show ?thesis by (auto simp: buildDatum_def Let_def split: prod.split)
qed

text \<open>With one entity per id every entity has at most one parent that is shown.\<close>

lemma shown_rel_unique:
  assumes "distinct (map oe_id all)" "(p, c) \<in> shown_rel all" "(p', c) \<in> shown_rel all"
  shows "p = p'"
proof -
  obtain e where e: "e \<in> set all" "shown_parent (indexById all) e = Some p" "oe_id e = c"
    using assms(2) by (auto simp: shown_rel_def)
  obtain e' where e': "e' \<in> set all" "shown_parent (indexById all) e' = Some p'" "oe_id e' = c"
    using assms(3) by (auto simp: shown_rel_def)
  note e e'
  moreover have "e = e'" using calculation assms(1) by (metis distinct_map inj_onD)
  ultimately show ?thesis by simp
qed

lemma shown_rel_comparable:
  assumes "distinct (map oe_id all)" "(a, x) \<in> (shown_rel all)\<^sup>*" "(b, x) \<in> (shown_rel all)\<^sup>*"
  shows "(a, b) \<in> (shown_rel all)\<^sup>* \<or> (b, a) \<in> (shown_rel all)\<^sup>*"
proof -
  have "single_valued ((shown_rel all)\<inverse>)"
  proof (rule single_valuedI)
    fix x y z
    assume "(x, y) \<in> (shown_rel all)\<inverse>" "(x, z) \<in> (shown_rel all)\<inverse>"
    then show "y = z" using shown_rel_unique [OF assms(1), of y x z] by simp
  qed
  from single_valued_confluent [OF this, of x a b] assms(2,3) show ?thesis
    unfolding rtrancl_converse converse_iff by blast
qed

lemma cycle_above:
  assumes "distinct (map oe_id all)" "(a, b) \<in> (shown_rel all)\<^sup>*" "(b, b) \<in> (shown_rel all)\<^sup>+"
  shows "(a, a) \<in> (shown_rel all)\<^sup>+"
  using assms(2,3)
proof (induction rule: converse_rtrancl_induct)
  case (step y z)
  from step obtain w where w: "(z, w) \<in> (shown_rel all)\<^sup>*" "(w, z) \<in> shown_rel all" by (meson tranclD2)
  then have "w = y" using shown_rel_unique [OF assms(1)] step(1) by blast
  with w step(1) show ?case by (meson r_into_trancl rtrancl_trancl_trancl trancl_rtrancl_trancl)
qed

definition kids_of :: "(string \<Rightarrow> nat) \<Rightarrow> org_entity list \<Rightarrow> string \<Rightarrow> org_entity list" where
  "kids_of collate all i = sort_key (\<lambda>c. collate (oe_code c)) (filter (\<lambda>e. shown_parent (indexById all) e = Some i) all)"

definition faithful :: "(string \<Rightarrow> nat) \<Rightarrow> org_entity list \<Rightarrow> org_datum \<Rightarrow> bool" where
  "faithful collate all d \<longleftrightarrow> (\<forall>x \<in> set (flat d). \<exists>e \<in> set all. od_id x = oe_id e \<and> od_entity x = Some e \<and>
     \<not> od_virtual x \<and> map od_entity (od_children x) = map Some (kids_of collate all (oe_id e)))"

lemma kids_of_set: "e \<in> set (kids_of collate all i) \<longleftrightarrow> e \<in> set all \<and> shown_parent (indexById all) e = Some i"
  by (auto simp: kids_of_def)

lemma kids_ids: "oe_id ` set (kids_of collate all i) = shown_rel all `` {i}"
  by (auto simp: kids_of_set shown_rel_def)

lemma distinct_kids: "distinct (map oe_id all) \<Longrightarrow> distinct (map oe_id (kids_of collate all i))"
  by (auto simp: kids_of_def distinct_map intro: inj_on_subset)

lemma kids_disjoint:
  assumes "distinct (map oe_id all)" "(i, i) \<notin> (shown_rel all)\<^sup>+" "c \<in> set (kids_of collate all i)"
    "c' \<in> set (kids_of collate all i)" "oe_id c \<noteq> oe_id c'"
  shows "(shown_rel all)\<^sup>* `` {oe_id c} \<inter> (shown_rel all)\<^sup>* `` {oe_id c'} = {}"
proof -
  have no: "(oe_id a, oe_id b) \<notin> (shown_rel all)\<^sup>*"
    if "a \<in> set (kids_of collate all i)" "b \<in> set (kids_of collate all i)" "oe_id a \<noteq> oe_id b" for a b
  proof
    assume "(oe_id a, oe_id b) \<in> (shown_rel all)\<^sup>*"
    with that(3) obtain w where w: "(oe_id a, w) \<in> (shown_rel all)\<^sup>*" "(w, oe_id b) \<in> shown_rel all"
      by (meson rtranclE)
    have "(i, oe_id a) \<in> shown_rel all" "(i, oe_id b) \<in> shown_rel all"
      using that by (auto simp: kids_of_set shown_rel_def)
    with w shown_rel_unique [OF assms(1)] have "(i, i) \<in> (shown_rel all)\<^sup>+"
      by (metis rtrancl_into_trancl2)
    with assms(2) show False ..
  qed
  have "oe_id c' \<noteq> oe_id c" using assms(5) by simp
  with shown_rel_comparable [OF assms(1), of "oe_id c" _ "oe_id c'"] no [OF assms(3,4,5)] no [OF assms(4,3)]
  show ?thesis unfolding disjoint_iff Image_singleton_iff by meson
qed

lemma toData_structure:
  assumes "\<And>c d seen seen'. c \<in> set cs \<Longrightarrow> toDatum collate byId m n c seen = Some (d, seen') \<Longrightarrow>
      set seen \<inter> B c = {} \<Longrightarrow>
      od_entity d = Some c \<and> faithful collate all d \<and> distinct (map od_id (flat d)) \<and>
      set (map od_id (flat d)) = B c \<and> set seen' = set seen \<union> B c"
    and "toData collate byId m n cs seen = Some (ds, seen')"
    and "distinct (map oe_id cs)" "\<And>c c'. c \<in> set cs \<Longrightarrow> c' \<in> set cs \<Longrightarrow> oe_id c \<noteq> oe_id c' \<Longrightarrow> B c \<inter> B c' = {}"
    and "\<And>c. c \<in> set cs \<Longrightarrow> set seen \<inter> B c = {}"
  shows "map od_entity ds = map Some cs \<and> (\<forall>d \<in> set ds. faithful collate all d) \<and>
    distinct (map od_id (concat (map flat ds))) \<and> set (map od_id (concat (map flat ds))) = (\<Union>c \<in> set cs. B c) \<and>
    set seen' = set seen \<union> (\<Union>c \<in> set cs. B c)"
  using assms
proof (induction cs arbitrary: seen ds)
  case (Cons c cs)
  from Cons.prems(2) obtain d seen1 ds' where d: "toDatum collate byId m n c seen = Some (d, seen1)"
    and ds': "toData collate byId m n cs seen1 = Some (ds', seen')" "ds = d # ds'"
    by (auto split: option.splits)
  have head: "od_entity d = Some c \<and> faithful collate all d \<and> distinct (map od_id (flat d)) \<and>
      set (map od_id (flat d)) = B c \<and> set seen1 = set seen \<union> B c"
    by (rule Cons.prems(1) [OF _ d]) (use Cons.prems(5) in simp_all)
  have s1: "set seen1 = set seen \<union> B c" using head by simp
  have "set seen1 \<inter> B x = {}" if "x \<in> set cs" for x
  proof -
    have "oe_id x \<noteq> oe_id c" using that Cons.prems(3) by (metis distinct.simps(2) image_eqI list.set_map list.simps(9))
    with that have "B x \<inter> B c = {}" using Cons.prems(4) [of x c] by simp
    with that Cons.prems(5) [of x] show ?thesis by (auto simp: s1)
  qed
  note unseen = this
  have rest: "map od_entity ds' = map Some cs \<and> (\<forall>d \<in> set ds'. faithful collate all d) \<and>
    distinct (map od_id (concat (map flat ds'))) \<and> set (map od_id (concat (map flat ds'))) = (\<Union>c \<in> set cs. B c) \<and>
    set seen' = set seen1 \<union> (\<Union>c \<in> set cs. B c)"
  proof (rule Cons.IH [OF _ ds'(1)])
    show "distinct (map oe_id cs)" using Cons.prems(3) by simp
    show "od_entity x = Some y \<and> faithful collate all x \<and> distinct (map od_id (flat x)) \<and>
        set (map od_id (flat x)) = B y \<and> set sn' = set sn \<union> B y"
      if "y \<in> set cs" "toDatum collate byId m n y sn = Some (x, sn')" "set sn \<inter> B y = {}" for x y and sn sn' :: "string list"
      by (rule Cons.prems(1) [OF _ that(2,3)]) (use that(1) in simp)
  qed (use Cons.prems(4) unseen in simp_all)
  have "B c \<inter> (\<Union>x \<in> set cs. B x) = {}"
  proof -
    have "B c \<inter> B x = {}" if "x \<in> set cs" for x
    proof -
      have "oe_id c \<noteq> oe_id x" using that Cons.prems(3) by (metis distinct.simps(2) image_eqI list.set_map list.simps(9))
      with that show ?thesis using Cons.prems(4) [of c x] by simp
    qed
    then show ?thesis by blast
  qed
  moreover have "set (map od_id (flat d)) \<inter> set (map od_id (concat (map flat ds'))) = {}"
    using calculation head rest by blast
  ultimately show ?case
    using head rest unfolding ds'(2) s1 by (simp add: Un_assoc)
qed simp

lemma toDatum_structure:
  assumes "distinct (map oe_id all)" "\<And>i. js_get_or [] m i = filter (\<lambda>e. shown_parent (indexById all) e = Some i) all"
  shows "toDatum collate (indexById all) m n e seen = Some (d, seen') \<Longrightarrow> e \<in> set all \<Longrightarrow>
    (\<And>j. (oe_id e, j) \<in> (shown_rel all)\<^sup>* \<Longrightarrow> (j, j) \<notin> (shown_rel all)\<^sup>+) \<Longrightarrow>
    set seen \<inter> (shown_rel all)\<^sup>* `` {oe_id e} = {} \<Longrightarrow>
    od_entity d = Some e \<and> faithful collate all d \<and> distinct (map od_id (flat d)) \<and>
    set (map od_id (flat d)) = (shown_rel all)\<^sup>* `` {oe_id e} \<and>
    set seen' = set seen \<union> (shown_rel all)\<^sup>* `` {oe_id e}"
proof (induction n arbitrary: e seen d seen')
  case (Suc n)
  let ?R = "shown_rel all"
  let ?kids = "kids_of collate all (oe_id e)"
  let ?B = "\<lambda>c. ?R\<^sup>* `` {oe_id c}"
  have sub: "(oe_id e, oe_id c) \<in> ?R" if "c \<in> set ?kids" for c
    using that by (auto simp: kids_of_set shown_rel_def)
  have acyc: "(oe_id e, oe_id e) \<notin> ?R\<^sup>+" using Suc.prems(3) by blast
  have off: "oe_id e \<notin> ?B c" if "c \<in> set ?kids" for c
    using sub [OF that] acyc by (meson Image_singleton_iff rtrancl_into_trancl2)
  have unseen: "set (oe_id e # seen) \<inter> ?B c = {}" if "c \<in> set ?kids" for c
  proof -
    have "?B c \<subseteq> ?B e" using sub [OF that] by (auto intro: converse_rtrancl_into_rtrancl)
    with Suc.prems(4) off [OF that] show ?thesis by auto
  qed
  have noop: "filter (\<lambda>c. oe_id c \<notin> set (oe_id e # seen)) (js_get_or [] m (oe_id e)) =
      filter (\<lambda>c. shown_parent (indexById all) c = Some (oe_id e)) all"
  proof -
    have "oe_id c \<notin> set (oe_id e # seen)" if "c \<in> set all" "shown_parent (indexById all) c = Some (oe_id e)" for c
      using unseen [of c] that by (auto simp: kids_of_set)
    then show ?thesis unfolding assms(2) filter_filter by (intro filter_cong) auto
  qed
  from Suc.prems(1) obtain ds where ds: "toData collate (indexById all) m n ?kids (oe_id e # seen) = Some (ds, seen')"
    and d: "d = Datum (oe_id e) (Some e) False (Some (computeCoverage e (indexById all))) ds"
    by (auto simp: Let_def noop [simplified] kids_of_def)
  have step: "map od_entity ds = map Some ?kids \<and> (\<forall>d \<in> set ds. faithful collate all d) \<and>
    distinct (map od_id (concat (map flat ds))) \<and> set (map od_id (concat (map flat ds))) = (\<Union>c \<in> set ?kids. ?B c) \<and>
    set seen' = set (oe_id e # seen) \<union> (\<Union>c \<in> set ?kids. ?B c)"
  proof (rule toData_structure [OF _ ds distinct_kids [OF assms(1)] kids_disjoint [OF assms(1) acyc] unseen])
    fix c x and sn sn' :: "string list"
    assume c: "c \<in> set ?kids" "toDatum collate (indexById all) m n c sn = Some (x, sn')" "set sn \<inter> ?B c = {}"
    have "c \<in> set all" using c(1) by (simp add: kids_of_set)
    moreover have "(j, j) \<notin> ?R\<^sup>+" if "(oe_id c, j) \<in> ?R\<^sup>*" for j
      using Suc.prems(3) converse_rtrancl_into_rtrancl [OF sub [OF c(1)] that] by blast
    ultimately show "od_entity x = Some c \<and> faithful collate all x \<and> distinct (map od_id (flat x)) \<and>
        set (map od_id (flat x)) = ?B c \<and> set sn' = set sn \<union> ?B c"
      using Suc.IH [OF c(2) _ _ c(3)] by blast
  qed
  have below: "?B e = insert (oe_id e) (\<Union>c \<in> set ?kids. ?B c)"
  proof -
    have "?R\<^sup>* `` {oe_id e} = insert (oe_id e) (?R\<^sup>* `` (?R `` {oe_id e}))"
      by (auto elim: converse_rtranclE intro: converse_rtrancl_into_rtrancl)
    also have "?R\<^sup>* `` (?R `` {oe_id e}) = (\<Union>c \<in> set ?kids. ?B c)"
      unfolding kids_ids [of collate all "oe_id e", symmetric] by auto
    finally show ?thesis .
  qed
  have "faithful collate all d"
    using step Suc.prems(2) unfolding faithful_def d by auto
  with step below off show ?case
    unfolding d by auto
qed simp

lemma roots_sorted:
  "set (sort_key f (chart_roots all)) = set (chart_roots all)"
  "distinct (map oe_id all) \<Longrightarrow> distinct (map oe_id (sort_key f (chart_roots all)))"
  by (auto simp: chart_roots_def distinct_map intro: inj_on_subset)

lemma root_below_acyclic:
  assumes "distinct (map oe_id all)" "r \<in> set (chart_roots all)" "(oe_id r, j) \<in> (shown_rel all)\<^sup>*"
  shows "(j, j) \<notin> (shown_rel all)\<^sup>+"
proof
  assume "(j, j) \<in> (shown_rel all)\<^sup>+"
  from cycle_above [OF assms(1,3) this] obtain w where "(w, oe_id r) \<in> shown_rel all" by (meson tranclD2)
  then obtain e where "e \<in> set all" "shown_parent (indexById all) e = Some w" "oe_id e = oe_id r"
    by (auto simp: shown_rel_def)
  moreover from this assms(1,2) have "e = r" by (auto simp: chart_roots_def distinct_map dest: inj_onD)
  ultimately show False using assms(2) by (simp add: chart_roots_def)
qed

lemma no_parent_of_root:
  assumes "distinct (map oe_id all)" "r \<in> set (chart_roots all)"
  shows "(a, oe_id r) \<in> (shown_rel all)\<^sup>* \<longleftrightarrow> a = oe_id r"
proof
  assume "(a, oe_id r) \<in> (shown_rel all)\<^sup>*"
  then show "a = oe_id r"
  proof (cases rule: rtranclE)
    case (step w)
    then obtain e where "e \<in> set all" "shown_parent (indexById all) e = Some w" "oe_id e = oe_id r"
      by (auto simp: shown_rel_def)
    moreover from this assms have "e = r" by (auto simp: chart_roots_def distinct_map dest: inj_onD)
    ultimately show ?thesis using assms(2) by (simp add: chart_roots_def)
  qed simp
qed simp

text \<open>The entities that hang below a root, each with the data of the tree.\<close>

definition rooted :: "org_entity list \<Rightarrow> org_entity \<Rightarrow> bool" where
  "rooted all e \<longleftrightarrow> (\<exists>r \<in> set (chart_roots all). (oe_id r, oe_id e) \<in> (shown_rel all)\<^sup>*)"

lemma buildDatum_data:
  assumes "distinct (map oe_id all)" "buildDatum collate all (indexById all) = Some bc"
  shows "\<exists>ds. bc = (if length ds = 1 then \<lparr>bc_root = hd ds, bc_hasVirtualRoot = False\<rparr>
      else \<lparr>bc_root = Datum VIRTUAL_ROOT_ID None True None ds, bc_hasVirtualRoot = True\<rparr>) \<and>
    map od_entity ds = map Some (sort_key (\<lambda>e. collate (oe_code e)) (chart_roots all)) \<and>
    (\<forall>d \<in> set ds. faithful collate all d) \<and> distinct (map od_id (concat (map flat ds))) \<and>
    set (map od_id (concat (map flat ds))) = {oe_id e |e. e \<in> set all \<and> rooted all e}"
proof -
  let ?m = "fst (split_roots (indexById all) all)"
  let ?roots = "sort_key (\<lambda>e. collate (oe_code e)) (chart_roots all)"
  let ?R = "shown_rel all"
  have sp: "split_roots (indexById all) all = (?m, chart_roots all)"
    by (simp add: prod_eq_iff split_roots_spec chart_roots_def)
  obtain ds seen' where ds: "toData collate (indexById all) ?m (Suc (length all)) ?roots [] = Some (ds, seen')"
    and bc: "bc = (if length ds = 1 then \<lparr>bc_root = hd ds, bc_hasVirtualRoot = False\<rparr>
      else \<lparr>bc_root = Datum VIRTUAL_ROOT_ID None True None ds, bc_hasVirtualRoot = True\<rparr>)"
    using assms(2) unfolding buildDatum_def by (subst (asm) sp) (auto simp: Let_def)
  have st: "map od_entity ds = map Some ?roots \<and> (\<forall>d \<in> set ds. faithful collate all d) \<and>
    distinct (map od_id (concat (map flat ds))) \<and>
    set (map od_id (concat (map flat ds))) = (\<Union>r \<in> set ?roots. ?R\<^sup>* `` {oe_id r}) \<and>
    set seen' = set [] \<union> (\<Union>r \<in> set ?roots. ?R\<^sup>* `` {oe_id r})"
  proof (rule toData_structure [OF _ ds])
    show "distinct (map oe_id ?roots)" by (rule roots_sorted(2) [OF assms(1)])
    show "?R\<^sup>* `` {oe_id c} \<inter> ?R\<^sup>* `` {oe_id c'} = {}"
      if "c \<in> set ?roots" "c' \<in> set ?roots" "oe_id c \<noteq> oe_id c'" for c c'
      using that shown_rel_comparable [OF assms(1), of "oe_id c" _ "oe_id c'"]
        no_parent_of_root [OF assms(1), of c] no_parent_of_root [OF assms(1), of c']
      unfolding roots_sorted disjoint_iff Image_singleton_iff by metis
    fix c d and sn sn' :: "string list"
    assume c: "c \<in> set ?roots" "toDatum collate (indexById all) ?m (Suc (length all)) c sn = Some (d, sn')"
      "set sn \<inter> ?R\<^sup>* `` {oe_id c} = {}"
    then have "c \<in> set (chart_roots all)" "c \<in> set all" by (auto simp: chart_roots_def)
    with c root_below_acyclic [OF assms(1)] show "od_entity d = Some c \<and> faithful collate all d \<and>
        distinct (map od_id (flat d)) \<and> set (map od_id (flat d)) = ?R\<^sup>* `` {oe_id c} \<and>
        set sn' = set sn \<union> ?R\<^sup>* `` {oe_id c}"
      using toDatum_structure [OF assms(1) split_roots_spec(1) c(2)] by blast
  qed simp
  have un: "(\<Union>r \<in> set ?roots. ?R\<^sup>* `` {oe_id r}) = {oe_id e |e. e \<in> set all \<and> rooted all e}"
  proof -
    have "\<exists>e. e \<in> set all \<and> j = oe_id e" if "r \<in> set (chart_roots all)" "(oe_id r, j) \<in> ?R\<^sup>*" for r j
      using that(2,1) by (cases rule: rtranclE) (auto simp: chart_roots_def shown_rel_def)
    note below = this
    show ?thesis
    proof (intro equalityI subsetI)
      fix j
      assume "j \<in> (\<Union>r \<in> set ?roots. ?R\<^sup>* `` {oe_id r})"
      then obtain r where r: "r \<in> set (chart_roots all)" "(oe_id r, j) \<in> ?R\<^sup>*" by auto
      from below [OF this] obtain e where "e \<in> set all" "j = oe_id e" by auto
      with r show "j \<in> {oe_id e |e. e \<in> set all \<and> rooted all e}" by (auto simp: rooted_def)
    qed (auto simp: rooted_def)
  qed
  from st [unfolded un] bc show ?thesis by (elim conjE) (intro exI [of _ ds] conjI)
qed

lemma faithful_children:
  assumes "faithful collate all d" "x \<in> set (flat d)"
  shows "od_id ` set (od_children x) = shown_rel all `` {od_id x}"
proof -
  obtain e :: org_entity where e: "od_id x = oe_id e" "map od_entity (od_children x) = map Some (kids_of collate all (oe_id e))"
    using bspec [OF assms(1) [unfolded faithful_def] assms(2)] by blast
  have kid: "y \<in> set (flat d)" if "y \<in> set (od_children x)" for y
    using assms(2) that
  proof (induction d rule: flat.induct)
    case (1 i e v c ds)
    have self: "y \<in> set (flat y)" for y by (cases y) auto
    from 1 show ?case by (auto intro: self)
  qed
  have "od_id y = oe_id c" if "y \<in> set (od_children x)" "od_entity y = Some c" for y c
    using assms(1) kid [OF that(1)] that(2) unfolding faithful_def by fastforce
  moreover have "od_entity ` set (od_children x) = Some ` set (kids_of collate all (oe_id e))"
    using arg_cong [OF e(2), of set] by simp
  ultimately have "od_id ` set (od_children x) = oe_id ` set (kids_of collate all (oe_id e))"
    by (auto simp: set_eq_iff image_iff) (metis image_iff option.inject)+
  then show ?thesis by (simp add: kids_ids e(1))
qed

text \<open>The hierarchy unfolds the relation of children where nodes are open.\<close>

definition open_rel :: "(string \<times> string) set \<Rightarrow> string list \<Rightarrow> (string \<times> string) set" where
  "open_rel R collapsedIds = {(a, b) \<in> R. a \<notin> set collapsedIds}"

lemma open_below:
  "(open_rel R col)\<^sup>* `` {i} = insert i (if i \<in> set col then {} else \<Union>c \<in> R `` {i}. (open_rel R col)\<^sup>* `` {c})"
  by (auto simp: open_rel_def elim: converse_rtranclE intro: converse_rtrancl_into_rtrancl)

lemma hierarchy_ids:
  "(\<And>x. x \<in> set (flat d) \<Longrightarrow> od_id ` set (od_children x) = R `` {od_id x}) \<Longrightarrow>
     hn_id ` set (hierarchy col k p d) = (open_rel R col)\<^sup>* `` {od_id d}"
proof (induction col k p d rule: hierarchy.induct)
  case (1 col k p i e v c ds)
  have kids: "od_id ` set ds = R `` {i}" using 1(2) [of "Datum i e v c ds"] by simp
  have "hn_id ` set (hierarchy col (Suc k) (Some i) d) = (open_rel R col)\<^sup>* `` {od_id d}"
    if "d \<in> set ds" "i \<notin> set col" for d
    using 1(1) [OF that(2,1)] 1(2) that(1) by auto
  then have "(\<Union>d \<in> set ds. hn_id ` set (hierarchy col (Suc k) (Some i) d)) = (\<Union>c \<in> R `` {i}. (open_rel R col)\<^sup>* `` {c})"
    if "i \<notin> set col"
    using that unfolding kids [symmetric] by auto
  then show ?case by (subst open_below) (simp add: image_UN)
qed

lemma hierarchy_links:
  "(\<And>x. x \<in> set (flat d) \<Longrightarrow> od_id ` set (od_children x) = R `` {od_id x}) \<Longrightarrow>
     (\<Union>n \<in> set (hierarchy col k p d). {(q, hn_id n) |q. hn_parent n = Some q}) =
       {(a, b) \<in> open_rel R col. a \<in> (open_rel R col)\<^sup>* `` {od_id d}} \<union> {(q, od_id d) |q. p = Some q}"
proof (induction col k p d rule: hierarchy.induct)
  case (1 col k p i e v c ds)
  let ?O = "open_rel R col"
  have kids: "od_id ` set ds = R `` {i}" using 1(2) [of "Datum i e v c ds"] by simp
  show ?case
  proof (cases "i \<in> set col")
    case True
    then have "?O\<^sup>* `` {i} = {i}" by (subst open_below) simp
    with True show ?thesis by (auto simp: open_rel_def)
  next
    case False
    have IH: "(\<Union>n \<in> set (hierarchy col (Suc k) (Some i) d). {(q, hn_id n) |q. hn_parent n = Some q}) =
       {(a, b) \<in> ?O. a \<in> ?O\<^sup>* `` {od_id d}} \<union> {(i, od_id d)}" if "d \<in> set ds" for d
    proof -
      have "(\<Union>n \<in> set (hierarchy col (Suc k) (Some i) d). {(q, hn_id n) |q. hn_parent n = Some q}) =
        {(a, b) \<in> ?O. a \<in> ?O\<^sup>* `` {od_id d}} \<union> {(q, od_id d) |q. Some i = Some q}"
        by (rule 1(1) [OF False that]) (use 1(2) that in auto)
      then show ?thesis by simp
    qed
    have "(\<Union>n \<in> set (hierarchy col k p (Datum i e v c ds)). {(q, hn_id n) |q. hn_parent n = Some q}) =
      {(q, i) |q. p = Some q} \<union> (\<Union>d \<in> set ds. (\<Union>n \<in> set (hierarchy col (Suc k) (Some i) d). {(q, hn_id n) |q. hn_parent n = Some q}))"
      using False by auto
    also have "\<dots> = {(q, i) |q. p = Some q} \<union> (\<Union>d \<in> set ds. {(a, b) \<in> ?O. a \<in> ?O\<^sup>* `` {od_id d}} \<union> {(i, od_id d)})"
      using IH by simp
    also have "\<dots> = {(q, i) |q. p = Some q} \<union> {(i, b) |b. b \<in> R `` {i}} \<union>
        {(a, b) \<in> ?O. a \<in> (\<Union>c \<in> R `` {i}. ?O\<^sup>* `` {c})}"
      unfolding kids [symmetric] by auto
    also have "\<dots> = {(a, b) \<in> ?O. a \<in> ?O\<^sup>* `` {i}} \<union> {(q, i) |q. p = Some q}"
      using False by (subst open_below) (auto simp: open_rel_def)
    finally show ?thesis by simp
  qed
qed

lemma hierarchy_sub: "mset (map hn_id (hierarchy col k p d)) \<subseteq># mset (map od_id (flat d))"
proof (induction col k p d rule: hierarchy.induct)
  case (1 col k p i e v c ds)
  show ?case
  proof (cases "i \<in> set col")
    case False
    have "mset (map hn_id (concat (map (hierarchy col (Suc k) (Some i)) xs))) \<subseteq># mset (map od_id (concat (map flat xs)))"
      if "set xs \<subseteq> set ds" for xs
      using that
    proof (induction xs)
      case (Cons x xs)
      then have "mset (map hn_id (hierarchy col (Suc k) (Some i) x)) \<subseteq># mset (map od_id (flat x))"
        using 1 [OF False] by simp
      with Cons show ?case by (auto intro: subset_mset.add_mono)
    qed simp
    from this [of ds] False show ?thesis by simp
  qed simp
qed

lemma distinct_count_le: "distinct xs \<longleftrightarrow> (\<forall>a. count (mset xs) a \<le> 1)"
proof (induction xs)
  case (Cons x xs)
  have "x \<in> set xs \<longleftrightarrow> 0 < count (mset xs) x" by simp
  with Cons show ?case by (auto split: if_splits simp: le_Suc_eq)
qed simp

lemma hierarchy_distinct:
  assumes "distinct (map od_id (flat d))"
  shows "distinct (map hn_id (hierarchy col k p d))"
  unfolding distinct_count_le
proof
  fix a
  have "count (mset (map hn_id (hierarchy col k p d))) a \<le> count (mset (map od_id (flat d))) a"
    by (rule mset_subset_eq_count [OF hierarchy_sub])
  also have "\<dots> \<le> 1" using assms unfolding distinct_count_le by blast
  finally show "count (mset (map hn_id (hierarchy col k p d))) a \<le> 1" .
qed

lemma flat_self: "d \<in> set (flat d)"
  by (cases d) auto

lemma faithful_entity:
  assumes "\<forall>d \<in> set ds. faithful collate all d" "x \<in> set (concat (map flat ds))"
  shows "\<exists>e \<in> set all. od_entity x = Some e \<and> od_id x = oe_id e \<and> \<not> od_virtual x"
  using assms by (fastforce simp: faithful_def)

lemma js_has_indexById: "js_has (indexById all) p \<longleftrightarrow> p \<in> oe_id ` set all"
  by (auto simp: indexById_def js_simps map_of_eq_None_iff image_image)

lemma acyclic_rooted:
  assumes "acyclic (parent_rel all)" "e \<in> set all"
  shows "rooted all e"
proof -
  let ?R = "shown_rel all"
  have sub: "?R \<subseteq> parent_rel all"
    by (auto simp: shown_rel_def parent_rel_def shown_parent_def split: option.splits if_splits)
  have "?R \<subseteq> (oe_id ` set all) \<times> (oe_id ` set all)"
  proof
    fix pc
    assume "pc \<in> ?R"
    then obtain e p where e: "e \<in> set all" "shown_parent (indexById all) e = Some p" "pc = (p, oe_id e)"
      by (auto simp: shown_rel_def)
    then have "js_has (indexById all) p" by (auto simp: shown_parent_def split: option.splits if_splits)
    with e show "pc \<in> (oe_id ` set all) \<times> (oe_id ` set all)" by (simp only: js_has_indexById) auto
  qed
  then have "finite ?R" by (rule finite_subset) simp
  then have "wf ?R" using acyclic_subset [OF assms(1) sub] by (rule finite_acyclic_wf)
  then show ?thesis using assms(2)
  proof (induction "oe_id e" arbitrary: e rule: wf_induct_rule)
    case less
    show ?case
    proof (cases "shown_parent (indexById all) e")
      case None
      with less.prems show ?thesis by (auto simp: rooted_def chart_roots_def)
    next
      case (Some p)
      then have edge: "(p, oe_id e) \<in> ?R" using less.prems by (auto simp: shown_rel_def)
      have "js_has (indexById all) p" using Some by (auto simp: shown_parent_def split: option.splits if_splits)
      then obtain e' where e': "e' \<in> set all" "p = oe_id e'" by (simp only: js_has_indexById) auto
      with less.hyps edge have "rooted all e'" by blast
      with edge e'(2) show ?thesis unfolding rooted_def by (meson rtrancl.rtrancl_into_rtrancl)
    qed
  qed
qed




subsection \<open>What the layout shows\<close>

lemma chart_hierarchy:
  assumes "distinct (map oe_id all)" "VIRTUAL_ROOT_ID \<notin> oe_id ` set all" "VIRTUAL_ROOT_ID \<notin> set col"
    and "buildDatum collate all (indexById all) = Some bc"
    and "h = hierarchy col 0 None (bc_root bc)" "hidden = (\<lambda>i. bc_hasVirtualRoot bc \<and> i = VIRTUAL_ROOT_ID)"
    and "open_ids = (open_rel (shown_rel all) col)\<^sup>* `` (oe_id ` set (chart_roots all))"
  shows "hn_id ` {n \<in> set h. \<not> hidden (hn_id n)} = open_ids \<and>
    {(q, i) \<in> (\<Union>n \<in> set h. {(q, hn_id n) |q. hn_parent n = Some q}). \<not> hidden q} =
      {(a, b) \<in> open_rel (shown_rel all) col. a \<in> open_ids} \<and>
    distinct (map hn_id h)"
proof -
  let ?O = "open_rel (shown_rel all) col"
  from buildDatum_data [OF assms(1,4)] obtain ds where
    ds: "bc = (if length ds = 1 then \<lparr>bc_root = hd ds, bc_hasVirtualRoot = False\<rparr>
      else \<lparr>bc_root = Datum VIRTUAL_ROOT_ID None True None ds, bc_hasVirtualRoot = True\<rparr>)"
    and ents: "map od_entity ds = map Some (sort_key (\<lambda>e. collate (oe_code e)) (chart_roots all))"
    and fa: "\<forall>d \<in> set ds. faithful collate all d" and di: "distinct (map od_id (concat (map flat ds)))"
    and ids: "set (map od_id (concat (map flat ds))) = {oe_id e |e. e \<in> set all \<and> rooted all e}"
    by (elim exE conjE)
  have kids: "od_id ` set (od_children x) = shown_rel all `` {od_id x}" if "d \<in> set ds" "x \<in> set (flat d)" for d x
    by (rule faithful_children [OF _ that(2)]) (use fa that(1) in blast)
  have tops: "od_id ` set ds = oe_id ` set (chart_roots all)"
  proof -
    have one: "od_id d = oe_id (the (od_entity d))" if "d \<in> set ds" for d
    proof -
      have "d \<in> set (concat (map flat ds))" using that flat_self by auto
      from faithful_entity [OF fa this] show ?thesis by auto
    qed
    have "od_id ` set ds = (\<lambda>d. oe_id (the (od_entity d))) ` set ds"
      by (rule image_cong [OF refl one])
    also have "\<dots> = oe_id ` the ` set (map od_entity ds)" by (simp add: image_image)
    also have "\<dots> = oe_id ` set (chart_roots all)" by (simp only: ents set_map roots_sorted image_image option.sel)
    finally show ?thesis .
  qed
  have hid: "hn_id ` set (hierarchy col k p d) = ?O\<^sup>* `` {od_id d}" if "d \<in> set ds" for d k p
    by (rule hierarchy_ids [OF kids [OF that]])
  have hli: "(\<Union>n \<in> set (hierarchy col k p d). {(q, hn_id n) |q. hn_parent n = Some q}) =
      {(a, b) \<in> ?O. a \<in> ?O\<^sup>* `` {od_id d}} \<union> {(q, od_id d) |q. p = Some q}" if "d \<in> set ds" for d k p
    by (rule hierarchy_links [OF kids [OF that]])
  have opens: "open_ids = (\<Union>d \<in> set ds. ?O\<^sup>* `` {od_id d})"
    unfolding assms(7) tops [symmetric] by auto
  have novr: "VIRTUAL_ROOT_ID \<notin> set (map od_id (concat (map flat ds)))" unfolding ids using assms(2) by auto
  have below: "open_ids \<subseteq> set (map od_id (concat (map flat ds)))"
  proof -
    have "hn_id ` set (hierarchy col 0 None d) \<subseteq> set (map od_id (flat d))" for d
      using set_mset_mono [OF hierarchy_sub [of col 0 None d]] by simp
    note sub = this
    have "?O\<^sup>* `` {od_id d} \<subseteq> set (map od_id (concat (map flat ds)))" if "d \<in> set ds" for d
    proof -
      have "?O\<^sup>* `` {od_id d} \<subseteq> set (map od_id (flat d))" using hid [OF that] sub [of d] by simp
      also have "\<dots> \<subseteq> set (map od_id (concat (map flat ds)))" using that by auto
      finally show ?thesis .
    qed
    then show ?thesis unfolding opens by (rule UN_least)
  qed
  have dist: "distinct (map hn_id h)"
    unfolding assms(5)
  proof (rule hierarchy_distinct)
    show "distinct (map od_id (flat (bc_root bc)))"
      using di novr unfolding ds by (cases ds) auto
  qed
  show ?thesis
  proof (cases "length ds = 1")
    case True
    then obtain d where d: "ds = [d]" by (cases ds) auto
    have h: "h = hierarchy col 0 None d" "hidden = (\<lambda>i. False)" by (simp_all add: assms(5,6) ds d)
    show ?thesis using hid [of d 0 None] hli [of d 0 None] dist unfolding h opens by (simp add: d)
  next
    case False
    have h: "set h = insert \<lparr>hn_data = Datum VIRTUAL_ROOT_ID None True None ds, hn_depth = 0, hn_parent = None, hn_children = length ds\<rparr>
        (\<Union>d \<in> set ds. set (hierarchy col 1 (Some VIRTUAL_ROOT_ID) d))" "hidden = (\<lambda>i. i = VIRTUAL_ROOT_ID)"
      using False assms(3) by (auto simp: assms(5,6) ds fun_eq_iff)
    have sub: "hn_id ` (\<Union>d \<in> set ds. set (hierarchy col 1 (Some VIRTUAL_ROOT_ID) d)) = open_ids"
      using hid unfolding opens by (simp add: image_UN)
    have "VIRTUAL_ROOT_ID \<notin> open_ids" using below novr by blast
    have "hn_id ` {n \<in> A. hn_id n \<noteq> VIRTUAL_ROOT_ID} = hn_id ` A - {VIRTUAL_ROOT_ID}" for A by auto
    with sub \<open>VIRTUAL_ROOT_ID \<notin> open_ids\<close> have "hn_id ` {n \<in> set h. \<not> hidden (hn_id n)} = open_ids"
      unfolding h by (simp only: image_insert) simp
    moreover have "(\<Union>n \<in> set h. {(q, hn_id n) |q. hn_parent n = Some q}) =
        (\<Union>d \<in> set ds. {(a, b) \<in> ?O. a \<in> ?O\<^sup>* `` {od_id d}} \<union> {(VIRTUAL_ROOT_ID, od_id d)})"
    proof -
      have "(\<Union>n \<in> set h. {(q, hn_id n) |q. hn_parent n = Some q}) =
        (\<Union>d \<in> set ds. \<Union>n \<in> set (hierarchy col 1 (Some VIRTUAL_ROOT_ID) d). {(q, hn_id n) |q. hn_parent n = Some q})"
        unfolding h by simp
      also have "\<dots> = (\<Union>d \<in> set ds. {(a, b) \<in> ?O. a \<in> ?O\<^sup>* `` {od_id d}} \<union> {(q, od_id d) |q. Some VIRTUAL_ROOT_ID = Some q})"
        by (intro SUP_cong refl hli)
      finally show ?thesis by simp
    qed
    then have "{(q, i) \<in> (\<Union>n \<in> set h. {(q, hn_id n) |q. hn_parent n = Some q}). \<not> hidden q} =
        {(a, b) \<in> ?O. a \<in> open_ids}"
      using \<open>VIRTUAL_ROOT_ID \<notin> open_ids\<close> unfolding h opens by auto
    ultimately show ?thesis using dist by blast
  qed
qed


definition in_bounds :: "chart_bounds \<Rightarrow> positioned_node \<Rightarrow> bool" where
  "in_bounds b n \<longleftrightarrow>
     cb_minX b \<le> pn_x n - NODE_WIDTH / 2 \<and> pn_x n + NODE_WIDTH / 2 \<le> cb_minX b + cb_width b \<and>
     cb_minY b \<le> pn_y n - NODE_HEIGHT / 2 \<and> pn_y n + NODE_HEIGHT / 2 \<le> cb_minY b + cb_height b"

definition covers :: "rat \<times> rat \<times> rat \<times> rat \<Rightarrow> positioned_node \<Rightarrow> bool" where
  "covers b n \<longleftrightarrow> (case b of (minX, maxX, minY, maxY) \<Rightarrow>
     minX \<le> pn_x n - NODE_WIDTH / 2 \<and> pn_x n + NODE_WIDTH / 2 \<le> maxX \<and>
     minY \<le> pn_y n - NODE_HEIGHT / 2 \<and> pn_y n + NODE_HEIGHT / 2 \<le> maxY)"

lemma widen_covers: "covers (widen b n) n" "covers b m \<Longrightarrow> covers (widen b n) m"
  by (auto simp: covers_def widen_def Let_def split: prod.splits)

lemma extent_covers: "n \<in> set nodes \<Longrightarrow> covers (chart_extent nodes) n"
proof -
  have keep: "covers b m \<Longrightarrow> covers (foldl widen b ns) m" for b m and ns :: "positioned_node list"
    by (induction ns arbitrary: b) (simp_all add: widen_covers(2))
  have "n \<in> set ns \<Longrightarrow> covers (foldl widen b ns) n" for b and ns :: "positioned_node list"
  proof (induction ns arbitrary: b)
    case (Cons m ns)
    show ?case using Cons.IH [of "widen b m"] Cons.prems keep [OF widen_covers(1)] by (simp del: split_paired_All) blast
  qed simp
  note rest = this
  assume n: "n \<in> set nodes"
  then obtain m ns where nodes: "nodes = m # ns" by (cases nodes) auto
  define b where "b = (pn_x m - NODE_WIDTH / 2, pn_x m + NODE_WIDTH / 2, pn_y m - NODE_HEIGHT / 2, pn_y m + NODE_HEIGHT / 2)"
  have "covers b m" by (simp add: covers_def b_def)
  with n nodes have "covers (foldl widen b ns) n" using keep [of b m ns] rest [of ns b] by (cases "n = m") simp_all
  then show ?thesis by (simp add: chart_extent_def nodes b_def)
qed

text \<open>C38. Whatever tidy tree places the cards, the layout shows exactly the entities all of whose ancestors are open, each
  once, with one connector for each of them that has a parent on the chart, and every card lies in the bounds.\<close>

theorem layout_shows_open_entities:
  assumes "distinct (map oe_id all)" "VIRTUAL_ROOT_ID \<notin> oe_id ` set all" "VIRTUAL_ROOT_ID \<notin> set col"
    and "\<And>h. mset (order h) = mset h" "buildDatum collate all (indexById all) = Some bc"
    and "layout = computeLayout order place (bc_root bc) col (bc_hasVirtualRoot bc)"
    and "open_ids = (open_rel (shown_rel all) col)\<^sup>* `` (oe_id ` set (chart_roots all))"
  shows "distinct (map pn_id (ol_nodes layout)) \<and> set (map pn_id (ol_nodes layout)) = open_ids \<and>
    set (map (\<lambda>e. (pe_sourceId e, pe_targetId e)) (ol_edges layout)) = {(a, b) \<in> open_rel (shown_rel all) col. a \<in> open_ids} \<and>
    list_all (in_bounds (ol_bounds layout)) (ol_nodes layout)"
proof -
  define h where "h = hierarchy col 0 None (bc_root bc)"
  define hidden where "hidden = (\<lambda>i. bc_hasVirtualRoot bc \<and> i = VIRTUAL_ROOT_ID)"
  note shape = chart_hierarchy [OF assms(1-3,5) h_def hidden_def assms(7)]
  have set_order: "set (order h) = set h" using assms(4) [of h] by (metis set_mset_mset)
  have ids: "map pn_id (ol_nodes layout) = map hn_id (filter (\<lambda>n. \<not> hidden (hn_id n)) (order h))"
    by (simp add: assms(6) computeLayout_def Let_def h_def hidden_def split: prod.split)
  have "distinct (map hn_id (order h))"
    using shape unfolding distinct_count_le mset_map assms(4) by blast
  then have "distinct (map pn_id (ol_nodes layout))" unfolding ids by (auto simp: distinct_map intro: inj_on_subset)
  moreover have "set (map pn_id (ol_nodes layout)) = open_ids"
    unfolding ids using shape set_order by simp
  moreover have "map (\<lambda>e. (pe_sourceId e, pe_targetId e)) (ol_edges layout) =
      filter (\<lambda>(s, t). \<not> hidden s) (List.map_filter (\<lambda>n. map_option (\<lambda>p. (p, hn_id n)) (hn_parent n)) (order h))"
    by (simp add: assms(6) computeLayout_def Let_def h_def hidden_def comp_def case_prod_unfold)
  moreover have "set (List.map_filter (\<lambda>n. map_option (\<lambda>p. (p, hn_id n)) (hn_parent n)) (order h)) =
      (\<Union>n \<in> set h. {(q, hn_id n) |q. hn_parent n = Some q})"
    by (force simp: List.map_filter_def set_order image_iff)
  ultimately have nodes: "distinct (map pn_id (ol_nodes layout))" "set (map pn_id (ol_nodes layout)) = open_ids"
    and pairs: "map (\<lambda>e. (pe_sourceId e, pe_targetId e)) (ol_edges layout) =
      filter (\<lambda>(s, t). \<not> hidden s) (List.map_filter (\<lambda>n. map_option (\<lambda>p. (p, hn_id n)) (hn_parent n)) (order h))"
    and links: "set (List.map_filter (\<lambda>n. map_option (\<lambda>p. (p, hn_id n)) (hn_parent n)) (order h)) =
      (\<Union>n \<in> set h. {(q, hn_id n) |q. hn_parent n = Some q})"
    by (simp_all only: simp_thms)
  have "{x \<in> A. (\<lambda>(s, t). \<not> hidden s) x} = {(q, i) \<in> A. \<not> hidden q}" for A :: "(string \<times> string) set"
    by auto
  then have "set (map (\<lambda>e. (pe_sourceId e, pe_targetId e)) (ol_edges layout)) =
      {(a, b) \<in> open_rel (shown_rel all) col. a \<in> open_ids}"
    unfolding pairs set_filter links using shape by (simp only: simp_thms)
  note edges = this
  have "list_all (in_bounds (ol_bounds layout)) (ol_nodes layout)"
  proof -
    obtain minX maxX minY maxY where ext: "chart_extent (ol_nodes layout) = (minX, maxX, minY, maxY)"
      by (cases "chart_extent (ol_nodes layout)") auto
    have "ol_bounds layout = \<lparr>cb_minX = minX - chart_pad, cb_minY = minY - chart_pad,
        cb_width = maxX - minX + chart_pad * 2, cb_height = maxY - minY + chart_pad * 2\<rparr>"
      using ext by (simp add: assms(6) computeLayout_def Let_def split: prod.splits)
    moreover have "covers (minX, maxX, minY, maxY) n" if "n \<in> set (ol_nodes layout)" for n
      using extent_covers [OF that] ext by simp
    moreover have "in_bounds \<lparr>cb_minX = minX - chart_pad, cb_minY = minY - chart_pad,
        cb_width = maxX - minX + chart_pad * 2, cb_height = maxY - minY + chart_pad * 2\<rparr> n"
      if "covers (minX, maxX, minY, maxY) n" for n
      using that by (simp add: in_bounds_def covers_def chart_pad_def)
    ultimately show ?thesis by (simp add: list_all_iff)
  qed
  with nodes edges show ?thesis by (intro conjI)
qed


theorem drag_guard_exact_witness:
  fixes a b :: org_entity
  defines "a \<equiv> \<lparr>oe_id = ''a'', oe_tenant_id = [], oe_parent_id = None, oe_entity_type = [], oe_code = [], oe_name = \<lparr>lt_en = [], lt_ar = []\<rparr>,
      oe_platform_org_unit_id = None, oe_path = [''a''], oe_active = True, oe_metadata = [], oe_created_at = [], oe_updated_at = [], oe_roles = None\<rparr>"
    and "b \<equiv> a\<lparr>oe_id := ''b'', oe_parent_id := Some ''a'', oe_path := [''a'', ''b'']\<rparr>"
  shows "isReparentForbidden ''a'' ''b'' [a, b] \<and> \<not> acyclic (parent_rel (reparented a (Some ''b'') [a, b]))"
proof -
  have ids: "oe_id a = ''a''" "oe_id b = ''b''" "parent_of a = None" "parent_of b = Some ''a''"
    by (simp_all add: a_def b_def parent_of_def)
  have rel: "parent_rel [a, b] = {(''a'', ''b'')}" using ids by (auto simp: parent_rel_def)
  have "acyclic (parent_rel [a, b])" unfolding rel by (simp add: acyclic_insert) (simp add: acyclic_def)
  moreover have "paths_sound [a, b]" unfolding paths_sound_def rel by (auto simp: a_def b_def)
  moreover have "isReparentForbidden ''a'' ''b'' [a, b]"
    by (simp add: isReparentForbidden_def a_def b_def)
  moreover have "oe_parent_id a \<noteq> Some ''b''" by (simp add: a_def)
  ultimately show ?thesis
    using drag_guard_exact [of "[a, b]" a b] ids by auto
qed

theorem layout_shows_open_entities_witness:
  fixes e :: org_entity
  defines "e \<equiv> \<lparr>oe_id = ''a'', oe_tenant_id = [], oe_parent_id = None, oe_entity_type = [], oe_code = [], oe_name = \<lparr>lt_en = [], lt_ar = []\<rparr>,
      oe_platform_org_unit_id = None, oe_path = [], oe_active = True, oe_metadata = [], oe_created_at = [], oe_updated_at = [], oe_roles = None\<rparr>"
  shows "\<exists>bc. buildDatum length [e] (indexById [e]) = Some bc \<and>
    set (map pn_id (ol_nodes (computeLayout rev (\<lambda>h i. (5, 7)) (bc_root bc) [] (bc_hasVirtualRoot bc)))) = {''a''}"
proof -
  obtain bc where bc: "buildDatum length [e] (indexById [e]) = Some bc" using buildDatum_total by blast
  have par: "shown_parent (indexById [e]) e = None" by (simp add: e_def shown_parent_def parent_of_def)
  then have "chart_roots [e] = [e]" "shown_rel [e] = {}" by (simp_all add: chart_roots_def shown_rel_def)
  moreover have "oe_id e = ''a''" by (simp add: e_def)
  ultimately show ?thesis
    using bc layout_shows_open_entities [of "[e]" "[]" rev length bc _ "\<lambda>h i. (5, 7)", OF _ _ _ _ bc refl refl]
    by (auto simp: VIRTUAL_ROOT_ID_def open_rel_def)
qed

text \<open>Two entities that are each other's parent are on no chart.\<close>

lemma parent_cycle_vanishes:
  fixes a b :: org_entity
  assumes "oe_id a = ''a''" "oe_id b = ''b''" "oe_parent_id a = Some ''b''" "oe_parent_id b = Some ''a''"
  shows "buildDatum collate [a, b] (indexById [a, b]) =
    Some \<lparr>bc_root = Datum VIRTUAL_ROOT_ID None True None [], bc_hasVirtualRoot = True\<rparr>"
proof -
  have "js_has (indexById [a, b]) ''a''" "js_has (indexById [a, b]) ''b''"
    using assms by (simp_all only: js_has_indexById) simp_all
  with assms have "shown_parent (indexById [a, b]) a = Some ''b''" "shown_parent (indexById [a, b]) b = Some ''a''"
    by (auto simp: shown_parent_def parent_of_def)
  then have "snd (split_roots (indexById [a, b]) [a, b]) = []" by (simp add: split_roots_spec)
  then show ?thesis by (simp add: buildDatum_def case_prod_unfold Let_def)
qed

end
