(* ===== verification/RequestHeaders.thy ===== *)
theory RequestHeaders
  imports ApiClient JsNumber
begin

section \<open>What a request carries\<close>

text \<open>
  The request interceptor of \<open>lib/api.ts\<close> with what it reads: the CSRF cookie (\<open>lib/csrf.ts\<close>), the locale
  cookie, the impersonation grant (\<open>stores/impersonation-store.ts\<close>) and the access token; the replay of a request after a
  refresh, which passes the interceptor again; and the names and progress of transfers. \<open>Date.parse\<close> is an argument.
  A decoded text that leaves the modelled code units is told apart from an error.
\<close>

subsection \<open>decodeURIComponent\<close>

datatype uri_unit = Plain char | Octet nat

datatype uri_text = Decoded string | Outside_latin | URI_error

fun uri_units :: "string \<Rightarrow> uri_unit list option" where
  "uri_units [] = Some []"
| "uri_units (c # r) =
     (if c = CHR ''%'' then
        (case r of
           a # b # r' \<Rightarrow>
             (case (hex_value a, hex_value b) of
                (Some h, Some l) \<Rightarrow> map_option (\<lambda>us. Octet (h * 16 + l) # us) (uri_units (drop 2 r))
              | _ \<Rightarrow> None)
         | _ \<Rightarrow> None)
      else map_option (\<lambda>us. Plain c # us) (uri_units r))"

fun uri_cons :: "nat \<Rightarrow> uri_text \<Rightarrow> uri_text" where
  "uri_cons v (Decoded s) = (if v < 256 then Decoded (char_of v # s) else Outside_latin)"
| "uri_cons v Outside_latin = Outside_latin"
| "uri_cons v URI_error = URI_error"

text \<open>The next octets are continuation bytes, the first of them within the bounds the lead byte sets.\<close>

fun continuation :: "nat \<Rightarrow> nat \<Rightarrow> nat \<Rightarrow> uri_unit list \<Rightarrow> bool" where
  "continuation 0 lo hi us \<longleftrightarrow> True"
| "continuation (Suc n) lo hi (Octet b # us) \<longleftrightarrow> lo \<le> b \<and> b < hi \<and> continuation n 128 192 us"
| "continuation (Suc n) lo hi us \<longleftrightarrow> False"

fun octet :: "uri_unit \<Rightarrow> nat" where
  "octet (Octet b) = b"
| "octet (Plain c) = 0"

fun uri_decode :: "uri_unit list \<Rightarrow> uri_text" where
  "uri_decode [] = Decoded []"
| "uri_decode (Plain c # us) = uri_cons (code_unit c) (uri_decode us)"
| "uri_decode (Octet b # us) =
     (if b < 128 then uri_cons b (uri_decode us)
      else if 194 \<le> b \<and> b < 224 then
        (if continuation 1 128 192 us then uri_cons ((b - 192) * 64 + (octet (hd us) - 128)) (uri_decode (drop 1 us)) else URI_error)
      else if 224 \<le> b \<and> b < 240 then
        (if continuation 2 (if b = 224 then 160 else 128) (if b = 237 then 160 else 192) us
         then uri_cons 256 (uri_decode (drop 2 us)) else URI_error)
      else if 240 \<le> b \<and> b < 245 then
        (if continuation 3 (if b = 240 then 144 else 128) (if b = 244 then 144 else 192) us
         then uri_cons 256 (uri_decode (drop 3 us)) else URI_error)
      else URI_error)"

definition js_decodeURIComponent :: "string \<Rightarrow> uri_text" where
  "js_decodeURIComponent s = (case uri_units s of None \<Rightarrow> URI_error | Some us \<Rightarrow> uri_decode us)"

subsection \<open>Cookies\<close>

definition CSRF_COOKIE_NAME :: string where "CSRF_COOKIE_NAME = ''clario360_csrf''"
definition CSRF_HEADER_NAME :: string where "CSRF_HEADER_NAME = ''X-CSRF-Token''"
definition LOCALE_COOKIE_NAME :: string where "LOCALE_COOKIE_NAME = ''clario360_locale''"

fun csrf_scan :: "string list \<Rightarrow> uri_text option" where
  "csrf_scan [] = None"
| "csrf_scan (cookie # cookies) =
     (let parts = js_split (CHR ''='') (js_trim cookie)
      in if hd parts = CSRF_COOKIE_NAME then Some (js_decodeURIComponent (js_join ''='' (tl parts)))
         else csrf_scan cookies)"

text \<open>\<open>document.cookie\<close>; None on the server.\<close>

definition getCSRFToken :: "string option \<Rightarrow> uri_text option" where
  "getCSRFToken doc = (case doc of None \<Rightarrow> None | Some cookie \<Rightarrow> csrf_scan (js_split (CHR '';'') cookie))"

definition requiresCSRF :: "string \<Rightarrow> bool" where
  "requiresCSRF verb \<longleftrightarrow> js_toLowerCase verb \<notin> {''get'', ''head'', ''options''}"

text \<open>\<open>s.split('; ')\<close>\<close>

fun split_cookies :: "string \<Rightarrow> string list" where
  "split_cookies [] = [[]]"
| "split_cookies (c # r) =
     (if c = CHR '';'' \<and> r \<noteq> [] \<and> hd r = CHR '' '' then [] # split_cookies (drop 1 r)
      else (c # hd (split_cookies r)) # tl (split_cookies r))"

definition readLocaleCookie :: "string option \<Rightarrow> uri_text option" where
  "readLocaleCookie doc =
     (case doc of
        None \<Rightarrow> None
      | Some cookie \<Rightarrow>
          (case find (\<lambda>row. js_startsWith row (LOCALE_COOKIE_NAME @ ''='')) (split_cookies cookie) of
             None \<Rightarrow> None
           | Some row \<Rightarrow>
               (case js_decodeURIComponent (drop (length LOCALE_COOKIE_NAME + 1) row) of
                  Decoded v \<Rightarrow> if js_trim v = [] then None else Some (Decoded (js_trim v))
                | other \<Rightarrow> Some other)))"

subsection \<open>Impersonation\<close>

record impersonation =
  im_token :: "string option"
  im_tenantId :: "string option"
  im_tenantName :: "string option"
  im_userId :: "string option"
  im_expiresAt :: "string option"
  im_active :: bool

record impersonation_grant =
  ig_token :: string
  ig_tenantId :: string
  ig_tenantName :: "string option"
  ig_userId :: "string option"
  ig_expiresAt :: string

definition no_impersonation :: impersonation where
  "no_impersonation = \<lparr>im_token = None, im_tenantId = None, im_tenantName = None, im_userId = None,
     im_expiresAt = None, im_active = False\<rparr>"

definition start_impersonation :: "impersonation_grant \<Rightarrow> impersonation \<Rightarrow> impersonation" where
  "start_impersonation g s =
     \<lparr>im_token = Some (ig_token g), im_tenantId = Some (ig_tenantId g), im_tenantName = ig_tenantName g,
      im_userId = ig_userId g, im_expiresAt = Some (ig_expiresAt g), im_active = True\<rparr>"

definition stop_impersonation :: "impersonation \<Rightarrow> impersonation" where
  "stop_impersonation s = no_impersonation"

definition getActiveImpersonationToken :: "(string \<Rightarrow> js_num) \<Rightarrow> js_num \<Rightarrow> impersonation \<Rightarrow> string option" where
  "getActiveImpersonationToken dateParse now s =
     (if \<not> im_active s \<or> im_token s = None \<or> im_token s = Some [] then None
      else if (case im_expiresAt s of None \<Rightarrow> False | Some t \<Rightarrow> t \<noteq> [] \<and> js_le (dateParse t) now) then None
      else im_token s)"

subsection \<open>The request interceptor\<close>

datatype request_body = No_body | Form_data | Other_body

record api_request =
  rq_method :: "string option"
  rq_body :: request_body
  rq_headers :: headers

record request_env =
  en_dateParse :: "string \<Rightarrow> js_num"
  en_now :: js_num
  en_impersonation :: impersonation
  en_accessToken :: "string option"
  en_cookie :: "string option"
  en_requestId :: string

text \<open>The interceptor sets the headers, or throws; \<open>Unmodelled\<close> stands for a header text beyond the modelled code units.\<close>

datatype prepared = Prepared headers | Throws_URIError | Unmodelled

definition bearer :: "string \<Rightarrow> string" where
  "bearer token = ''Bearer '' @ token"

definition authorise :: "request_env \<Rightarrow> headers \<Rightarrow> headers" where
  "authorise env hs =
     (let imp = getActiveImpersonationToken (en_dateParse env) (en_now env) (en_impersonation env);
          token = (case imp of None \<Rightarrow> en_accessToken env | Some t \<Rightarrow> Some t)
      in case token of None \<Rightarrow> hs | Some t \<Rightarrow> if t = [] then hs else header_set ''Authorization'' (bearer t) hs)"

definition set_text_header :: "string \<Rightarrow> uri_text option \<Rightarrow> headers \<Rightarrow> prepared" where
  "set_text_header name v hs =
     (case v of
        None \<Rightarrow> Prepared hs
      | Some (Decoded t) \<Rightarrow> if t = [] then Prepared hs else Prepared (header_set name t hs)
      | Some Outside_latin \<Rightarrow> Unmodelled
      | Some URI_error \<Rightarrow> Throws_URIError)"

fun and_then :: "prepared \<Rightarrow> (headers \<Rightarrow> prepared) \<Rightarrow> prepared" where
  "and_then (Prepared hs) f = f hs"
| "and_then Throws_URIError f = Throws_URIError"
| "and_then Unmodelled f = Unmodelled"

definition request_interceptor :: "request_env \<Rightarrow> api_request \<Rightarrow> prepared" where
  "request_interceptor env rq =
     (let hs1 = header_set ''X-Request-ID'' (en_requestId env) (authorise env (rq_headers rq));
          hs2 = (if rq_body rq = Other_body then header_set ''Content-Type'' ''application/json'' hs1 else hs1);
          needs = (case rq_method rq of None \<Rightarrow> False | Some m \<Rightarrow> m \<noteq> [] \<and> requiresCSRF m);
          p3 = (if needs then set_text_header CSRF_HEADER_NAME (getCSRFToken (en_cookie env)) hs2 else Prepared hs2)
      in and_then p3 (set_text_header ''X-Locale'' (readLocaleCookie (en_cookie env))))"

text \<open>The replay: the response interceptor sets the new token, then the request passes the interceptor again.\<close>

definition replay :: "string \<Rightarrow> request_env \<Rightarrow> api_request \<Rightarrow> prepared" where
  "replay newToken env rq =
     request_interceptor env (rq\<lparr>rq_headers := header_set ''Authorization'' (bearer newToken) (rq_headers rq)\<rparr>)"

subsection \<open>Transfers\<close>

text \<open>The expression \<open>filename="?([^"]+)"?\<close>: the first place where it matches.\<close>

fun blob_filename :: "string \<Rightarrow> string option" where
  "blob_filename [] = None"
| "blob_filename (c # s) =
     (if js_startsWith (c # s) ''filename='' then
        (let r = drop 9 (c # s);
             name = takeWhile (\<lambda>x. x \<noteq> CHR 0x22) (if r \<noteq> [] \<and> hd r = CHR 0x22 then tl r else r)
         in if name \<noteq> [] then Some name else blob_filename s)
      else blob_filename s)"

definition apiGetBlob_filename :: "string option \<Rightarrow> string option" where
  "apiGetBlob_filename disposition =
     (case disposition of None \<Rightarrow> None | Some d \<Rightarrow> if d = [] then None else blob_filename d)"

definition upload_percent :: "rat \<Rightarrow> rat \<Rightarrow> rat option" where
  "upload_percent loaded size_total = (if size_total = 0 then None else Some (js_round (loaded * 100 / size_total)))"

subsection \<open>Encoding and decoding\<close>

lemma uri_units_pct_byte: "b < 256 \<Longrightarrow> uri_units (pct_byte b @ r) = map_option (\<lambda>us. Octet b # us) (uri_units r)"
  by (simp add: pct_byte_def hex_value_digit less_mult_imp_div_less)

lemma uri_units_pct_bytes:
  "list_all (\<lambda>b. b < 256) bs \<Longrightarrow>
   uri_units (concat (map pct_byte bs) @ r) = map_option (\<lambda>us. map Octet bs @ us) (uri_units r)"
proof (induction bs)
  case Nil
  show ?case by (cases "uri_units r") auto
next
  case (Cons b bs)
  then show ?case by (simp add: uri_units_pct_byte option.map_comp comp_def)
qed

lemma uri_units_pct_char: "uri_units (pct_char c @ r) = map_option (\<lambda>us. map Octet (utf8_bytes c) @ us) (uri_units r)"
  unfolding pct_char_def
  by (rule uri_units_pct_bytes) (auto simp: list_all_iff dest: utf8_bytes_bound)

lemma uri_decode_bytes: "uri_decode (map Octet (utf8_bytes c) @ us) = uri_cons (code_unit c) (uri_decode us)"
proof (cases "code_unit c < 128")
  case True
  then show ?thesis by (simp add: utf8_bytes_def)
next
  case False
  let ?n = "code_unit c"
  have "?n < 256" by simp
  with False have "2 \<le> ?n div 64" "?n div 64 < 4" by linarith+
  then have lead: "\<not> 192 + ?n div 64 < 128" "194 \<le> 192 + ?n div 64" "192 + ?n div 64 < 224" by simp_all
  have "?n mod 64 < 64" by simp
  then have "continuation 1 128 192 (Octet (128 + ?n mod 64) # us)" by (simp add: One_nat_def)
  moreover have "(192 + ?n div 64 - 192) * 64 + (octet (hd (Octet (128 + ?n mod 64) # us)) - 128) = ?n" by simp
  ultimately have "uri_decode (Octet (192 + ?n div 64) # Octet (128 + ?n mod 64) # us) = uri_cons ?n (uri_decode us)"
    using lead by (simp only: uri_decode.simps if_True if_False simp_thms) simp
  with False show ?thesis unfolding utf8_bytes_def Let_def by (simp only: if_False list.map append.simps)
qed

lemma decode_encode: "js_decodeURIComponent (js_encodeURIComponent s) = Decoded s"
proof (induction s)
  case Nil
  then show ?case by (simp add: js_encodeURIComponent_def js_decodeURIComponent_def)
next
  case (Cons c s)
  let ?plain = "is_alnum c \<or> c \<in> set ''-_.!~*()'' \<or> code_unit c = 39"
  have split: "js_encodeURIComponent (c # s) = (if ?plain then [c] else pct_char c) @ js_encodeURIComponent s"
    by (simp add: js_encodeURIComponent_def)
  obtain us where us: "uri_units (js_encodeURIComponent s) = Some us" "uri_decode us = Decoded s"
    using Cons.IH by (auto simp: js_decodeURIComponent_def split: option.splits)
  have "?plain \<Longrightarrow> c \<noteq> CHR ''%''" by (auto simp: is_alnum_cases)
  then show ?case
    unfolding split js_decodeURIComponent_def
    by (cases ?plain) (auto simp: uri_units_pct_char us uri_decode_bytes)
qed

subsection \<open>The cookie text\<close>

definition cookie_text :: "(string \<times> string) list \<Rightarrow> string" where
  "cookie_text ps = js_join ''; '' (map (\<lambda>(n, v). n @ ''='' @ v) ps)"

definition cookie_ok :: "string \<times> string \<Rightarrow> bool" where
  "cookie_ok p \<longleftrightarrow> fst p \<noteq> [] \<and> list_all (\<lambda>c. c \<noteq> CHR '';'' \<and> c \<noteq> CHR ''='' \<and> \<not> js_is_space c) (fst p) \<and>
     list_all (\<lambda>c. c \<noteq> CHR '';'' \<and> \<not> js_is_space c) (snd p)"

lemma split_joined:
  "ss \<noteq> [] \<Longrightarrow> list_all (\<lambda>s. CHR '';'' \<notin> set s) ss \<Longrightarrow>
   js_split (CHR '';'') (js_join ''; '' ss) = hd ss # map (\<lambda>s. CHR '' '' # s) (tl ss)"
proof (induction ss)
  case (Cons s ss)
  show ?case
  proof (cases "ss = []")
    case True
    with Cons.prems show ?thesis by (simp add: js_split_no_sep)
  next
    case False
    with Cons have IH: "js_split (CHR '';'') (js_join ''; '' ss) = hd ss # map (\<lambda>s. CHR '' '' # s) (tl ss)" by simp
    have "js_join ''; '' (s # ss) = s @ CHR '';'' # (CHR '' '' # js_join ''; '' ss)"
      using False by (simp add: js_join_Cons)
    then have "js_split (CHR '';'') (js_join ''; '' (s # ss)) = [s] @ js_split (CHR '';'') (CHR '' '' # js_join ''; '' ss)"
      using Cons.prems by (simp only: js_split_append) (simp add: js_split_no_sep)
    with False IH show ?thesis by (cases ss) auto
  qed
qed simp

lemma trim_cookie:
  assumes "cookie_ok (n, v)"
  shows "js_trim (n @ ''='' @ v) = n @ ''='' @ v" "js_trim (CHR '' '' # n @ ''='' @ v) = n @ ''='' @ v"
proof -
  have sp: "\<not> js_is_space CHR ''=''" "js_is_space CHR '' ''" by (simp_all add: js_is_space_def)
  have first: "dropWhile js_is_space (n @ ''='' @ v) = n @ ''='' @ v"
    using assms by (cases n) (auto simp: cookie_ok_def)
  have "list_all (\<lambda>c. \<not> js_is_space c) (n @ ''='' @ v)"
    using assms sp by (auto simp: cookie_ok_def list_all_iff)
  then have last: "dropWhile js_is_space (rev (n @ ''='' @ v)) = rev (n @ ''='' @ v)"
    by (intro dropWhile_none) (simp only: list_all_iff set_rev)
  show "js_trim (n @ ''='' @ v) = n @ ''='' @ v" "js_trim (CHR '' '' # n @ ''='' @ v) = n @ ''='' @ v"
    unfolding js_trim_def using first last sp by simp_all
qed

lemma scan_cookie:
  assumes "cookie_ok (n, v)" "js_trim cookie = n @ ''='' @ v"
  shows "csrf_scan (cookie # cookies) =
    (if n = CSRF_COOKIE_NAME then Some (js_decodeURIComponent v) else csrf_scan cookies)"
proof -
  have "CHR ''='' \<notin> set n" using assms(1) by (auto simp: cookie_ok_def list_all_iff)
  then have "js_split (CHR ''='') (js_trim cookie) = n # js_split (CHR ''='') v"
    by (simp add: assms(2) js_split_append js_split_no_sep)
  then show ?thesis by (simp add: js_join_split)
qed

lemma getCSRFToken_cookies:
  assumes "list_all cookie_ok ps"
  shows "getCSRFToken (Some (cookie_text ps)) = map_option js_decodeURIComponent (map_of ps CSRF_COOKIE_NAME)"
proof (cases "ps = []")
  case True
  then show ?thesis by (simp add: getCSRFToken_def cookie_text_def js_trim_def CSRF_COOKIE_NAME_def)
next
  case False
  have rest: "csrf_scan (map (\<lambda>s. CHR '' '' # s) (map (\<lambda>(n, v). n @ ''='' @ v) qs)) =
      map_option js_decodeURIComponent (map_of qs CSRF_COOKIE_NAME)" if "list_all cookie_ok qs" for qs
    using that
  proof (induction qs)
    case (Cons q qs)
    obtain n v where q: "q = (n, v)" by (cases q)
    with Cons.prems have ok: "cookie_ok (n, v)" by simp
    from scan_cookie [OF ok trim_cookie(2) [OF ok]] Cons q show ?case
      by (simp del: csrf_scan.simps)
  qed simp
  have "list_all (\<lambda>s. CHR '';'' \<notin> set s) (map (\<lambda>(n, v). n @ ''='' @ v) ps)"
    using assms by (fastforce simp: list_all_iff cookie_ok_def)
  with False have split: "js_split (CHR '';'') (cookie_text ps) =
      hd (map (\<lambda>(n, v). n @ ''='' @ v) ps) # map (\<lambda>s. CHR '' '' # s) (tl (map (\<lambda>(n, v). n @ ''='' @ v) ps))"
    unfolding cookie_text_def by (intro split_joined) auto
  obtain n v qs where ps: "ps = (n, v) # qs" using False by (cases ps) auto
  with assms have ok: "cookie_ok (n, v)" "list_all cookie_ok qs" by simp_all
  show ?thesis
    using scan_cookie [OF ok(1) trim_cookie(1) [OF ok(1)]] rest [OF ok(2)]
    by (simp add: getCSRFToken_def split [unfolded ps] ps del: csrf_scan.simps)
qed

subsection \<open>What the interceptor sets\<close>

definition carries_csrf :: "api_request \<Rightarrow> bool" where
  "carries_csrf rq \<longleftrightarrow> (case rq_method rq of None \<Rightarrow> False | Some m \<Rightarrow> m \<noteq> [] \<and> requiresCSRF m)"

lemma lower_names:
  "js_toLowerCase ''Authorization'' = ''authorization''" "js_toLowerCase ''X-Request-ID'' = ''x-request-id''"
  "js_toLowerCase ''Content-Type'' = ''content-type''" "js_toLowerCase CSRF_HEADER_NAME = ''x-csrf-token''"
  "js_toLowerCase ''X-Locale'' = ''x-locale''"
  by code_simp+

lemma set_text_header_get:
  "set_text_header name v hs = Prepared hs' \<Longrightarrow>
   header_get hs' n = (case v of Some (Decoded t) \<Rightarrow> if t \<noteq> [] \<and> js_toLowerCase n = js_toLowerCase name then Some t else header_get hs n
                       | _ \<Rightarrow> header_get hs n)"
  by (auto simp: set_text_header_def js_simps split: option.splits uri_text.splits if_splits)

lemma and_then_Prepared: "and_then p f = Prepared hs \<longleftrightarrow> (\<exists>h. p = Prepared h \<and> f h = Prepared hs)"
  by (cases p) auto

lemma authorise_get:
  "header_get (authorise env hs) n =
     (case (case getActiveImpersonationToken (en_dateParse env) (en_now env) (en_impersonation env) of
              None \<Rightarrow> en_accessToken env | Some t \<Rightarrow> Some t) of
        None \<Rightarrow> header_get hs n
      | Some t \<Rightarrow> if t \<noteq> [] \<and> js_toLowerCase n = ''authorization'' then Some (bearer t) else header_get hs n)"
  by (auto simp: authorise_def js_simps lower_names Let_def split: option.splits)

lemma interceptor_steps:
  assumes "request_interceptor env rq = Prepared hs"
  shows "\<exists>h1 h2. h1 = (let h = header_set ''X-Request-ID'' (en_requestId env) (authorise env (rq_headers rq))
      in if rq_body rq = Other_body then header_set ''Content-Type'' ''application/json'' h else h) \<and>
    (if carries_csrf rq then set_text_header CSRF_HEADER_NAME (getCSRFToken (en_cookie env)) h1 else Prepared h1) = Prepared h2 \<and>
    set_text_header ''X-Locale'' (readLocaleCookie (en_cookie env)) h2 = Prepared hs"
  using assms unfolding request_interceptor_def Let_def and_then_Prepared carries_csrf_def by blast

lemma other_headers:
  assumes "request_interceptor env rq = Prepared hs" "js_toLowerCase n = ''authorization''"
  shows "header_get hs n = header_get (authorise env (rq_headers rq)) n"
proof -
  obtain h1 h2 where h1: "h1 = (let h = header_set ''X-Request-ID'' (en_requestId env) (authorise env (rq_headers rq))
      in if rq_body rq = Other_body then header_set ''Content-Type'' ''application/json'' h else h)"
    and h2: "(if carries_csrf rq then set_text_header CSRF_HEADER_NAME (getCSRFToken (en_cookie env)) h1 else Prepared h1) = Prepared h2"
    and h3: "set_text_header ''X-Locale'' (readLocaleCookie (en_cookie env)) h2 = Prepared hs"
    using interceptor_steps [OF assms(1)] by (elim exE conjE)
  have "header_get hs n = header_get h2 n"
    using set_text_header_get [OF h3, of n] assms(2) by (simp add: lower_names split: option.splits uri_text.splits)
  moreover have "header_get h2 n = header_get h1 n"
  proof (cases "carries_csrf rq")
    case True
    with h2 have "set_text_header CSRF_HEADER_NAME (getCSRFToken (en_cookie env)) h1 = Prepared h2" by simp
    from set_text_header_get [OF this, of n] assms(2) show ?thesis
      by (simp add: lower_names split: option.splits uri_text.splits)
  qed (use h2 in simp)
  moreover have "header_get h1 n = header_get (authorise env (rq_headers rq)) n"
    by (simp add: h1 Let_def js_simps lower_names assms(2))
  ultimately show ?thesis by simp
qed


lemma split_cookies_one: "CHR '';'' \<notin> set s \<Longrightarrow> split_cookies s = [s]"
  by (induction s) auto

lemma interceptor_prepares:
  assumes "getCSRFToken (en_cookie env) \<in> {None, Some (Decoded t)}" "readLocaleCookie (en_cookie env) = None"
  shows "\<exists>hs. request_interceptor env rq = Prepared hs"
  using assms by (auto simp: request_interceptor_def Let_def set_text_header_def)

definition sample_env :: "string \<Rightarrow> request_env" where
  "sample_env cookie = \<lparr>en_dateParse = (\<lambda>t. Fin 90), en_now = Fin 10,
     en_impersonation = start_impersonation \<lparr>ig_token = ''imp'', ig_tenantId = ''t'', ig_tenantName = None, ig_userId = None, ig_expiresAt = ''e''\<rparr> no_impersonation,
     en_accessToken = Some ''tok'', en_cookie = Some cookie, en_requestId = ''r''\<rparr>"

definition sample_request :: api_request where
  "sample_request = \<lparr>rq_method = Some ''post'', rq_body = Other_body, rq_headers = []\<rparr>"






text \<open>A grant whose expiry cannot be parsed never expires; a grant that expires gives way to the operator's own token.\<close>

lemma unparsable_expiry_never_expires:
  assumes "dateParse (ig_expiresAt g) = NaN" "ig_token g \<noteq> []"
  shows "getActiveImpersonationToken dateParse now (start_impersonation g s) = Some (ig_token g)"
  using assms by (simp add: getActiveImpersonationToken_def start_impersonation_def js_le_def js_ge_def js_num_eq_def)

lemma unquoted_filename_takes_parameters:
  "apiGetBlob_filename (Some ''attachment; filename=report.csv; size=10'') = Some ''report.csv; size=10''"
  by code_simp

lemma quoted_filename:
  assumes "name \<noteq> []" "CHR 0x22 \<notin> set name"
  shows "apiGetBlob_filename (Some (''attachment; filename='' @ [CHR 0x22] @ name @ CHR 0x22 # r)) = Some name"
proof -
  have "takeWhile (\<lambda>x. x \<noteq> CHR 0x22) (name @ CHR 0x22 # r) = name"
    using assms(2) by (induction name) auto
  with assms(1) show ?thesis by (simp add: apiGetBlob_filename_def js_startsWith_def)
qed

lemma upload_percent_bounds:
  assumes "0 \<le> loaded" "loaded \<le> size_total" "upload_percent loaded size_total = Some p"
  shows "0 \<le> p \<and> p \<le> 100"
proof -
  have "0 < size_total" using assms by (auto simp: upload_percent_def split: if_splits)
  with assms have q: "0 \<le> loaded * 100 / size_total" "loaded * 100 / size_total \<le> 100"
    by (simp_all add: field_simps)
  then have "0 \<le> \<lfloor>loaded * 100 / size_total + 1 / 2\<rfloor>" "\<lfloor>loaded * 100 / size_total + 1 / 2\<rfloor> \<le> 100"
    by linarith+
  moreover have "p = of_int \<lfloor>loaded * 100 / size_total + 1 / 2\<rfloor>"
    using assms(3) by (auto simp: upload_percent_def js_round_def split: if_splits)
  ultimately show ?thesis by simp
qed

end
