(* ===== verification/SavedViews.thy ===== *)
theory SavedViews
  imports TableQuery
begin

section \<open>Saved views of a list\<close>

text \<open>
  \<open>hooks/use-saved-views.ts\<close> with its data, its persistence on the device and the applier to the URL, and the
  comparison of \<open>components/shared/saved-views-bar.tsx\<close>. A storage entry is absent, a text that is not JSON, or a
  value; writing stores the value of the views. \<open>Object.entries\<close> of a parsed object are its entries, the last value
  of a key counting. The views kept on the server are the theory ServerViews.
\<close>

subsection \<open>Views\<close>

datatype view_scope = Personal | Team | Org
datatype view_density = Comfortable | Compact

record view_state =
  vs_filters :: filter_query
  vs_sort :: "(string \<times> string) option"
  vs_hiddenColumns :: "string list option"
  vs_density :: "view_density option"

text \<open>Fields of the server that a view on the device does not have are None or False.\<close>

record saved_view = view_state +
  sv_id :: string
  sv_name :: string
  sv_isDefault :: bool
  sv_scope :: "view_scope option"
  sv_roleSlug :: "string option"
  sv_ownerUserId :: "string option"
  sv_ownedByMe :: bool
  sv_canEdit :: bool
  sv_pending :: bool

definition device_view :: "string \<Rightarrow> string \<Rightarrow> bool \<Rightarrow> view_state \<Rightarrow> saved_view" where
  "device_view i name is_default st =
     \<lparr>vs_filters = vs_filters st, vs_sort = vs_sort st, vs_hiddenColumns = vs_hiddenColumns st, vs_density = vs_density st,
      sv_id = i, sv_name = name, sv_isDefault = is_default, sv_scope = None, sv_roleSlug = None, sv_ownerUserId = None,
      sv_ownedByMe = False, sv_canEdit = False, sv_pending = False\<rparr>"

subsection \<open>Reading untrusted values\<close>

fun filter_of_json :: "json \<Rightarrow> filter_value option" where
  "filter_of_json (JStr s) = Some (One s)"
| "filter_of_json (JArr vs) =
     (if list_all (\<lambda>v. case v of JStr s \<Rightarrow> True | _ \<Rightarrow> False) vs
      then Some (Many (List.map_filter (\<lambda>v. case v of JStr s \<Rightarrow> Some s | _ \<Rightarrow> None) vs)) else None)"
| "filter_of_json v = None"

definition normalizeFilters :: "json option \<Rightarrow> filter_query" where
  "normalizeFilters raw =
     (case raw of
        Some (JObj es) \<Rightarrow> List.map_filter (\<lambda>(k, v). map_option (Pair k) (filter_of_json v)) (js_map_of_entries es)
      | _ \<Rightarrow> [])"

definition normalizeSort :: "json option \<Rightarrow> (string \<times> string) option" where
  "normalizeSort raw =
     (case raw of
        Some v \<Rightarrow>
          (case (json_get v ''column'', json_get v ''direction'') of
             (Some (JStr c), Some (JStr d)) \<Rightarrow> if c \<noteq> [] \<and> d \<in> {''asc'', ''desc''} then Some (c, d) else None
           | _ \<Rightarrow> None)
      | None \<Rightarrow> None)"

definition density_of :: "json option \<Rightarrow> view_density option" where
  "density_of v =
     (case v of
        Some (JStr s) \<Rightarrow> if s = ''comfortable'' then Some Comfortable else if s = ''compact'' then Some Compact else None
      | _ \<Rightarrow> None)"

definition normalizeView :: "json \<Rightarrow> saved_view option" where
  "normalizeView raw =
     (case (json_get raw ''id'', json_get raw ''name'') of
        (Some (JStr i), Some (JStr name)) \<Rightarrow>
          if i = [] \<or> name = [] then None
          else Some (device_view i name (json_get raw ''isDefault'' = Some (JBool True))
            \<lparr>vs_filters = normalizeFilters (case json_get raw ''filters'' of None \<Rightarrow> json_get raw ''params'' | Some f \<Rightarrow> Some f),
             vs_sort = normalizeSort (json_get raw ''sort''),
             vs_hiddenColumns = (case json_get raw ''hiddenColumns'' of
                 Some (JArr cs) \<Rightarrow> Some (List.map_filter (\<lambda>c. case c of JStr s \<Rightarrow> Some s | _ \<Rightarrow> None) cs)
               | _ \<Rightarrow> None),
             vs_density = density_of (json_get raw ''density'')\<rparr>)
      | _ \<Rightarrow> None)"

subsection \<open>Storage\<close>

datatype stored = Absent | Not_json | Json json

type_synonym view_storage = "string \<Rightarrow> stored"

definition storageKey :: "string \<Rightarrow> string" where
  "storageKey routeKey = ''views:'' @ routeKey"

definition legacyKey :: "string \<Rightarrow> string" where
  "legacyKey routeKey = ''clario360.savedViews.'' @ routeKey"

definition parseViews :: "stored \<Rightarrow> saved_view list option" where
  "parseViews raw = (case raw of Json (JArr vs) \<Rightarrow> Some (List.map_filter normalizeView vs) | _ \<Rightarrow> None)"

definition filter_json :: "filter_value \<Rightarrow> json" where
  "filter_json f = (case f of One s \<Rightarrow> JStr s | Many vs \<Rightarrow> JArr (map JStr vs))"

definition density_text :: "view_density \<Rightarrow> string" where
  "density_text d = (case d of Comfortable \<Rightarrow> ''comfortable'' | Compact \<Rightarrow> ''compact'')"

text \<open>\<open>JSON.stringify\<close> of a view on the device: its own fields, undefined ones left out.\<close>

definition view_json :: "saved_view \<Rightarrow> json" where
  "view_json v = JObj
     ([(''id'', JStr (sv_id v)), (''name'', JStr (sv_name v)),
       (''filters'', JObj (map (\<lambda>(k, f). (k, filter_json f)) (vs_filters v)))]
      @ (case vs_sort v of None \<Rightarrow> [] | Some (c, d) \<Rightarrow> [(''sort'', JObj [(''column'', JStr c), (''direction'', JStr d)])])
      @ (case vs_hiddenColumns v of None \<Rightarrow> [] | Some cs \<Rightarrow> [(''hiddenColumns'', JArr (map JStr cs))])
      @ (case vs_density v of None \<Rightarrow> [] | Some d \<Rightarrow> [(''density'', JStr (density_text d))])
      @ (if sv_isDefault v then [(''isDefault'', JBool True)] else []))"

text \<open>A write may fail: the quota is exceeded and the entry stays.\<close>

definition writeViews :: "bool \<Rightarrow> string \<Rightarrow> saved_view list \<Rightarrow> view_storage \<Rightarrow> view_storage" where
  "writeViews quota_ok routeKey views st =
     (if quota_ok then st(storageKey routeKey := Json (JArr (map view_json views))) else st)"

definition readViews :: "bool \<Rightarrow> string \<Rightarrow> view_storage \<Rightarrow> saved_view list \<times> view_storage" where
  "readViews quota_ok routeKey st =
     (case parseViews (st (storageKey routeKey)) of
        Some current \<Rightarrow> (current, st)
      | None \<Rightarrow>
          (case parseViews (st (legacyKey routeKey)) of
             None \<Rightarrow> ([], st)
           | Some legacy \<Rightarrow> if legacy \<noteq> [] then (legacy, writeViews quota_ok routeKey legacy st) else ([], st)))"

subsection \<open>Ids\<close>

text \<open>\<open>replace(/[^a-z0-9]+/g, '-')\<close> and \<open>replace(/^-+|-+$/g, '')\<close>.\<close>

fun dash_runs :: "bool \<Rightarrow> string \<Rightarrow> string" where
  "dash_runs inside [] = []"
| "dash_runs inside (c # s) =
     (if is_lower c \<or> is_digit c then c # dash_runs False s
      else if inside then dash_runs True s else CHR ''-'' # dash_runs True s)"

definition strip_dashes :: "string \<Rightarrow> string" where
  "strip_dashes s = rev (dropWhile (\<lambda>c. c = CHR ''-'') (rev (dropWhile (\<lambda>c. c = CHR ''-'') s)))"

definition name_slug :: "string \<Rightarrow> string" where
  "name_slug name =
     (let s = take 48 (strip_dashes (dash_runs False (js_trim (js_toLowerCase name))))
      in if s = [] then ''view'' else s)"

text \<open>The loop tries the slug, then the slug with \<open>-2\<close>, \<open>-3\<close> and so on; the fuel bounds the attempts.\<close>

definition id_candidate :: "string \<Rightarrow> nat \<Rightarrow> string" where
  "id_candidate slug_s counter = (if counter \<le> 1 then slug_s else slug_s @ ''-'' @ int_text (int counter))"

fun pick_id :: "nat \<Rightarrow> string list \<Rightarrow> string \<Rightarrow> nat \<Rightarrow> string option" where
  "pick_id 0 taken slug_s counter = None"
| "pick_id (Suc fuel) taken slug_s counter =
     (if id_candidate slug_s counter \<in> set taken then pick_id fuel taken slug_s (counter + 1)
      else Some (id_candidate slug_s counter))"

definition makeId :: "string \<Rightarrow> saved_view list \<Rightarrow> string option" where
  "makeId name existing = pick_id (Suc (length existing)) (map sv_id existing) (name_slug name) 1"

subsection \<open>The views of a device\<close>

text \<open>The state a page captures keeps its filters, which the types make well-formed.\<close>

definition same_name :: "string \<Rightarrow> saved_view \<Rightarrow> bool" where
  "same_name name v \<longleftrightarrow> js_toLowerCase (sv_name v) = js_toLowerCase name"

definition overwrite_first :: "(saved_view \<Rightarrow> bool) \<Rightarrow> (saved_view \<Rightarrow> saved_view) \<Rightarrow> saved_view list \<Rightarrow> saved_view list" where
  "overwrite_first P f vs = (let i = length (takeWhile (\<lambda>v. \<not> P v) vs) in vs[i := f (vs ! i)])"

definition save_local :: "string \<Rightarrow> view_state \<Rightarrow> saved_view list \<Rightarrow> saved_view list" where
  "save_local trimmed st prev =
     (if list_ex (same_name trimmed) prev
      then overwrite_first (same_name trimmed) (\<lambda>v. device_view (sv_id v) (sv_name v) (sv_isDefault v) st) prev
      else (case makeId trimmed prev of None \<Rightarrow> prev | Some i \<Rightarrow> prev @ [device_view i trimmed False st]))"

definition rename_local :: "string \<Rightarrow> string \<Rightarrow> saved_view list \<Rightarrow> saved_view list" where
  "rename_local i trimmed prev = map (\<lambda>v. if sv_id v = i then v\<lparr>sv_name := trimmed\<rparr> else v) prev"

definition delete_local :: "string \<Rightarrow> saved_view list \<Rightarrow> saved_view list" where
  "delete_local i prev = filter (\<lambda>v. sv_id v \<noteq> i) prev"

definition default_local :: "string option \<Rightarrow> saved_view list \<Rightarrow> saved_view list" where
  "default_local i prev = map (\<lambda>v. v\<lparr>sv_isDefault := (i = Some (sv_id v))\<rparr>) prev"

datatype view_op =
    Save_view string view_state
  | Rename_view string string
  | Delete_view string
  | Set_default_view "string option"

fun local_update :: "view_op \<Rightarrow> (saved_view list \<Rightarrow> saved_view list) option" where
  "local_update (Save_view name st) = (if js_trim name = [] then None else Some (save_local (js_trim name) st))"
| "local_update (Rename_view i name) = (if js_trim name = [] then None else Some (rename_local i (js_trim name)))"
| "local_update (Delete_view i) = Some (delete_local i)"
| "local_update (Set_default_view i) = Some (default_local i)"

text \<open>The tab: its views and the storage of the device. Every update is persisted as it is made.\<close>

record view_tab =
  vt_views :: "saved_view list"
  vt_storage :: view_storage

definition persist_views :: "bool \<Rightarrow> string \<Rightarrow> (saved_view list \<Rightarrow> saved_view list) \<Rightarrow> view_tab \<Rightarrow> view_tab" where
  "persist_views quota_ok routeKey updater t =
     (let next_views = updater (vt_views t)
      in \<lparr>vt_views = next_views, vt_storage = writeViews quota_ok routeKey next_views (vt_storage t)\<rparr>)"

definition view_op_step :: "bool \<Rightarrow> string \<Rightarrow> view_tab \<Rightarrow> view_op \<Rightarrow> view_tab" where
  "view_op_step quota_ok routeKey t op =
     (case local_update op of None \<Rightarrow> t | Some f \<Rightarrow> persist_views quota_ok routeKey f t)"

definition hydrate_local :: "bool \<Rightarrow> string \<Rightarrow> view_storage \<Rightarrow> view_tab" where
  "hydrate_local quota_ok routeKey st =
     (let (views, st') = readViews quota_ok routeKey st in \<lparr>vt_views = views, vt_storage = st'\<rparr>)"

subsection \<open>Applying a view to the URL\<close>

definition preserve :: "search_params \<Rightarrow> string \<Rightarrow> search_params \<Rightarrow> search_params" where
  "preserve old key ps = set_if key (map_of old key) ps"

definition apply_filter :: "search_params \<Rightarrow> string \<times> filter_value \<Rightarrow> search_params" where
  "apply_filter ps f =
     (if reserved (fst f) then ps
      else case snd f of
        Many vs \<Rightarrow> ps @ map (Pair (fst f)) (filter (\<lambda>v. v \<noteq> []) vs)
      | One v \<Rightarrow> if v \<noteq> [] then sp_set (fst f) v ps else ps)"

definition applySavedViewState :: "filter_query \<Rightarrow> (string \<times> string) option \<Rightarrow> search_params \<Rightarrow> search_params" where
  "applySavedViewState filters sort_o old =
     (let p1 = foldl apply_filter (preserve old ''search'' (preserve old ''per_page'' [])) filters;
          p2 = (case sort_o of
                  Some (c, d) \<Rightarrow> sp_set ''order'' d (sp_set ''sort'' c p1)
                | None \<Rightarrow> preserve old ''order'' (preserve old ''sort'' p1))
      in sp_set ''page'' ''1'' p2)"

text \<open>The comparison of the bar: empty entries do not count, and a list is compared up to its order.\<close>

definition normalizedEntries :: "filter_query \<Rightarrow> filter_query" where
  "normalizedEntries q = filter (\<lambda>(k, f). case f of Many vs \<Rightarrow> vs \<noteq> [] | One v \<Rightarrow> v \<noteq> []) q"

fun entry_values :: "filter_value \<Rightarrow> string list" where
  "entry_values (One v) = [v]"
| "entry_values (Many vs) = sort vs"

definition paramsEqual :: "filter_query \<Rightarrow> filter_query \<Rightarrow> bool" where
  "paramsEqual a b \<longleftrightarrow>
     (let ae = sort_key fst (normalizedEntries a); be = sort_key fst (normalizedEntries b)
      in length ae = length be \<and> list_all2 (\<lambda>(k, x) (k', y). k = k' \<and> entry_values x = entry_values y) ae be)"

definition hasActiveFilters :: "filter_query \<Rightarrow> bool" where
  "hasActiveFilters q \<longleftrightarrow> normalizedEntries q \<noteq> []"

definition activeViewId :: "saved_view list \<Rightarrow> filter_query \<Rightarrow> (string \<times> string) option \<Rightarrow> string option" where
  "activeViewId views filters sort_o =
     map_option sv_id (find (\<lambda>view. paramsEqual (vs_filters view) filters \<and>
       (case (vs_sort view, sort_o) of (Some s, Some t) \<Rightarrow> s = t | _ \<Rightarrow> True)) views)"

subsection \<open>A fresh id is always found\<close>

lemma int_text_inj: "int_text a = int_text b \<Longrightarrow> a = b"
proof -
  assume "int_text a = int_text b"
  then have "js_parseInt (int_text a) = js_parseInt (int_text b)" by (rule arg_cong)
  then show ?thesis by (simp only: parseInt_int_text) simp
qed

lemma id_candidate_inj: "1 \<le> a \<Longrightarrow> 1 \<le> b \<Longrightarrow> id_candidate s a = id_candidate s b \<Longrightarrow> a = b"
proof -
  assume a: "1 \<le> a" "1 \<le> b" and eq: "id_candidate s a = id_candidate s b"
  consider "a \<le> 1 \<and> b \<le> 1" | "a \<le> 1 \<and> \<not> b \<le> 1" | "\<not> a \<le> 1 \<and> b \<le> 1" | "\<not> a \<le> 1 \<and> \<not> b \<le> 1" by blast
  then show ?thesis
  proof cases
    case 1
    with a show ?thesis by linarith
  next
    case 2
    with eq show ?thesis by (simp add: id_candidate_def del: append_assoc)
  next
    case 3
    with eq show ?thesis by (simp add: id_candidate_def del: append_assoc)
  next
    case 4
    with eq have "int_text (int a) = int_text (int b)" by (simp add: id_candidate_def)
    then have "int a = int b" by (rule int_text_inj)
    then show ?thesis by (simp only: of_nat_eq_iff)
  qed
qed

lemma pick_id_finds:
  "(\<exists>j. j < n \<and> id_candidate s (k + j) \<notin> set taken) \<Longrightarrow>
   \<exists>i. pick_id n taken s k = Some i \<and> i \<notin> set taken \<and> (\<exists>j. i = id_candidate s j)"
proof (induction n arbitrary: k)
  case (Suc n)
  show ?case
  proof (cases "id_candidate s k \<in> set taken")
    case True
    from Suc.prems obtain j where j: "j < Suc n" "id_candidate s (k + j) \<notin> set taken" by blast
    with True obtain j' where "j = Suc j'" by (cases j) auto
    with j have "\<exists>j. j < n \<and> id_candidate s (k + 1 + j) \<notin> set taken" by auto
    from Suc.IH [OF this] True show ?thesis by simp
  qed auto
qed simp

lemma name_slug_nonempty: "name_slug name \<noteq> []"
  by (simp add: name_slug_def Let_def)

lemma fresh_id: "\<exists>i. makeId name existing = Some i \<and> i \<notin> set (map sv_id existing) \<and> i \<noteq> []"
proof -
  let ?s = "name_slug name" and ?n = "length existing" and ?T = "set (map sv_id existing)"
  have "\<exists>j. j < Suc ?n \<and> id_candidate ?s (1 + j) \<notin> ?T"
  proof (rule ccontr)
    assume "\<not> ?thesis"
    then have "(\<lambda>j. id_candidate ?s (1 + j)) ` {..<Suc ?n} \<subseteq> ?T" by auto
    then have "card ((\<lambda>j. id_candidate ?s (1 + j)) ` {..<Suc ?n}) \<le> card ?T" by (intro card_mono) auto
    moreover have "inj_on (\<lambda>j. id_candidate ?s (1 + j)) {..<Suc ?n}"
    proof (rule inj_onI)
      fix a b
      assume "id_candidate ?s (1 + a) = id_candidate ?s (1 + b)"
      then have "1 + a = 1 + b" by (intro id_candidate_inj [of "1 + a" "1 + b" ?s]) simp_all
      then show "a = b" by simp
    qed
    then have "card ((\<lambda>j. id_candidate ?s (1 + j)) ` {..<Suc ?n}) = Suc ?n" by (simp add: card_image)
    moreover have "card ?T \<le> ?n" by (metis card_length length_map)
    ultimately show False by simp
  qed
  from pick_id_finds [OF this] obtain i j where i: "pick_id (Suc ?n) (map sv_id existing) ?s 1 = Some i"
    "i \<notin> ?T" "i = id_candidate ?s j" by auto
  then have "i \<noteq> []" using name_slug_nonempty [of name] by (simp add: id_candidate_def)
  with i show ?thesis by (simp add: makeId_def del: pick_id.simps)
qed

text \<open>The search for the id of a new view ends after at most one attempt more than there are views, with an id none of
  them has, whatever ids are stored.\<close>

theorem fresh_view_id:
  "\<exists>i. makeId name existing = Some i \<and> i \<notin> set (map sv_id existing) \<and> i \<noteq> []"
  by (rule fresh_id)

subsection \<open>What is written is read back\<close>

definition state_ok :: "('a) view_state_scheme \<Rightarrow> bool" where
  "state_ok st \<longleftrightarrow> distinct (map fst (vs_filters st)) \<and>
     (case vs_sort st of None \<Rightarrow> True | Some (c, d) \<Rightarrow> c \<noteq> [] \<and> d \<in> {''asc'', ''desc''})"

definition view_ok :: "saved_view \<Rightarrow> bool" where
  "view_ok v \<longleftrightarrow> state_ok v \<and> sv_id v \<noteq> [] \<and> sv_name v \<noteq> [] \<and>
     v = device_view (sv_id v) (sv_name v) (sv_isDefault v) (view_state.truncate v)"

definition views_ok :: "saved_view list \<Rightarrow> bool" where
  "views_ok vs \<longleftrightarrow> list_all view_ok vs \<and> distinct (map sv_id vs) \<and> length (filter sv_isDefault vs) \<le> 1"

lemma entries_distinct: "distinct (map fst es) \<Longrightarrow> js_map_of_entries es = es"
proof -
  have "distinct (map fst (m @ es)) \<Longrightarrow> foldl (\<lambda>m (k, v). AList.update k v m) m es = m @ es" for m :: "('a \<times> 'b) list"
  proof (induction es arbitrary: m)
    case (Cons e es)
    obtain k v where e: "e = (k, v)" by (cases e)
    with Cons.prems have "k \<notin> fst ` set m" by auto
    then have "AList.update k v m = m @ [(k, v)]" by (rule update_fresh)
    with Cons.IH [of "m @ [(k, v)]"] Cons.prems e show ?case by simp
  qed simp
  from this [of "[]"] show "distinct (map fst es) \<Longrightarrow> js_map_of_entries es = es" by (simp add: js_map_of_entries_def)
qed

lemma filter_of_filter_json [simp]: "filter_of_json (filter_json f) = Some f"
proof (cases f)
  case (Many vs)
  have "List.map_filter (\<lambda>v. case v of JStr s \<Rightarrow> Some s | _ \<Rightarrow> None) (map JStr vs) = vs"
    by (induction vs) (auto simp: List.map_filter_simps)
  then show ?thesis using Many by (simp add: filter_json_def list_all_iff)
qed (simp add: filter_json_def)

lemma filters_read_back:
  "distinct (map fst q) \<Longrightarrow> normalizeFilters (Some (JObj (map (\<lambda>(k, f). (k, filter_json f)) q))) = q"
proof -
  assume "distinct (map fst q)"
  then have "js_map_of_entries (map (\<lambda>(k, f). (k, filter_json f)) q) = map (\<lambda>(k, f). (k, filter_json f)) q"
    by (intro entries_distinct) (simp add: comp_def case_prod_unfold)
  moreover have "List.map_filter (\<lambda>(k, v). map_option (Pair k) (filter_of_json v)) (map (\<lambda>(k, f). (k, filter_json f)) q) = q"
    by (induction q) (auto simp: List.map_filter_simps)
  ultimately show ?thesis by (simp add: normalizeFilters_def)
qed

lemma strings_read_back: "List.map_filter (\<lambda>c. case c of JStr s \<Rightarrow> Some s | _ \<Rightarrow> None) (map JStr cs) = cs"
  by (induction cs) (auto simp: List.map_filter_simps)

lemma view_fields:
  "json_get (view_json v) ''id'' = Some (JStr (sv_id v))"
  "json_get (view_json v) ''name'' = Some (JStr (sv_name v))"
  "json_get (view_json v) ''filters'' = Some (JObj (map (\<lambda>(k, f). (k, filter_json f)) (vs_filters v)))"
  "json_get (view_json v) ''sort'' = map_option (\<lambda>(c, d). JObj [(''column'', JStr c), (''direction'', JStr d)]) (vs_sort v)"
  "json_get (view_json v) ''hiddenColumns'' = map_option (\<lambda>cs. JArr (map JStr cs)) (vs_hiddenColumns v)"
  "json_get (view_json v) ''density'' = map_option (\<lambda>d. JStr (density_text d)) (vs_density v)"
  "json_get (view_json v) ''isDefault'' = (if sv_isDefault v then Some (JBool True) else None)"
  by (cases "vs_sort v"; cases "vs_hiddenColumns v"; cases "vs_density v";
      simp add: view_json_def json_get_def map_add_def split: prod.splits)+

lemma view_read_back:
  assumes "view_ok v"
  shows "normalizeView (view_json v) = Some v"
proof -
  have st: "state_ok v" "sv_id v \<noteq> []" "sv_name v \<noteq> []" and v: "v = device_view (sv_id v) (sv_name v) (sv_isDefault v) (view_state.truncate v)"
    using assms by (auto simp: view_ok_def)
  have sort: "normalizeSort (map_option (\<lambda>(c, d). JObj [(''column'', JStr c), (''direction'', JStr d)]) (vs_sort v)) = vs_sort v"
    using st(1) by (cases "vs_sort v") (auto simp: normalizeSort_def json_get_def state_ok_def)
  have dens: "density_of (map_option (\<lambda>d. JStr (density_text d)) (vs_density v)) = vs_density v"
    by (cases "vs_density v"; cases "the (vs_density v)") (auto simp: density_of_def density_text_def)
  have filters: "normalizeFilters (Some (JObj (map (\<lambda>(k, f). (k, filter_json f)) (vs_filters v)))) = vs_filters v"
    using st(1) by (intro filters_read_back) (simp add: state_ok_def)
  have "normalizeView (view_json v) = Some (device_view (sv_id v) (sv_name v) (sv_isDefault v)
      \<lparr>vs_filters = vs_filters v, vs_sort = vs_sort v, vs_hiddenColumns = vs_hiddenColumns v, vs_density = vs_density v\<rparr>)"
    using st(2,3) sort dens filters
    by (cases "vs_hiddenColumns v") (simp_all add: normalizeView_def view_fields strings_read_back)
  also have "\<dots> = Some v"
    using v by (simp add: device_view_def view_state.truncate_def)
  finally show ?thesis .
qed

lemma views_read_back: "list_all view_ok vs \<Longrightarrow> parseViews (Json (JArr (map view_json vs))) = Some vs"
  unfolding parseViews_def by (induction vs) (auto simp: List.map_filter_simps view_read_back)


subsection \<open>The views of a device stay well-formed\<close>

fun op_state_ok :: "view_op \<Rightarrow> bool" where
  "op_state_ok (Save_view name st) = state_ok st"
| "op_state_ok _ = True"

lemma device_view_ok: "state_ok st \<Longrightarrow> i \<noteq> [] \<Longrightarrow> name \<noteq> [] \<Longrightarrow> view_ok (device_view i name d st)"
  by (simp add: view_ok_def device_view_def state_ok_def view_state.truncate_def)

lemma same_defaults:
  "map sv_isDefault vs = map sv_isDefault ws \<Longrightarrow> length (filter sv_isDefault vs) = length (filter sv_isDefault ws)"
  by (induction vs ws rule: list_induct2') (auto split: if_splits)

lemma first_index: "x \<in> set xs \<Longrightarrow> P x \<Longrightarrow> length (takeWhile (\<lambda>x. \<not> P x) xs) < length xs"
  by (induction xs) auto

lemma views_ok_save:
  assumes "views_ok vs" "state_ok st" "trimmed \<noteq> []"
  shows "views_ok (save_local trimmed st vs)"
proof (cases "list_ex (same_name trimmed) vs")
  case True
  define i where "i = length (takeWhile (\<lambda>v. \<not> same_name trimmed v) vs)"
  let ?v = "device_view (sv_id (vs ! i)) (sv_name (vs ! i)) (sv_isDefault (vs ! i)) st"
  have "i < length vs"
    using True by (auto simp: i_def list_ex_iff intro: first_index)
  moreover have "view_ok (vs ! i)"
    using assms(1) calculation by (auto simp: views_ok_def list_all_iff)
  then have "view_ok ?v" using assms(2) by (intro device_view_ok) (auto simp: view_ok_def)
  moreover have "map sv_id (vs[i := ?v]) = map sv_id vs" "map sv_isDefault (vs[i := ?v]) = map sv_isDefault vs"
    by (simp_all add: map_update device_view_def) (metis list_update_id map_update)+
  moreover have "length (filter sv_isDefault (vs[i := ?v])) = length (filter sv_isDefault vs)"
    using calculation(4) by (rule same_defaults)
  ultimately have "views_ok (vs[i := ?v])"
    using assms(1) set_update_subset_insert [of vs i ?v] by (auto simp: views_ok_def list_all_iff)
  moreover have "save_local trimmed st vs = vs[i := ?v]"
    using True by (simp add: save_local_def overwrite_first_def i_def Let_def)
  ultimately show ?thesis by simp
next
  case False
  obtain i where i: "makeId trimmed vs = Some i" "i \<notin> set (map sv_id vs)" "i \<noteq> []"
    using fresh_id [of trimmed vs] by auto
  then show ?thesis
    using False assms device_view_ok [OF assms(2) i(3) assms(3), of False]
    by (auto simp: save_local_def views_ok_def device_view_def)
qed

lemma views_ok_map:
  assumes "views_ok vs" "\<And>v. sv_id (f v) = sv_id v" "\<And>v. view_ok v \<Longrightarrow> view_ok (f v)"
    "length (filter sv_isDefault (map f vs)) \<le> 1"
  shows "views_ok (map f vs)"
  using assms by (auto simp: views_ok_def list_all_iff comp_def)

lemma views_ok_rename:
  assumes "views_ok vs" "trimmed \<noteq> []"
  shows "views_ok (rename_local i trimmed vs)"
  unfolding rename_local_def
proof (rule views_ok_map [OF assms(1)])
  have "filter sv_isDefault (map (\<lambda>v. if sv_id v = i then v\<lparr>sv_name := trimmed\<rparr> else v) xs) =
      map (\<lambda>v. if sv_id v = i then v\<lparr>sv_name := trimmed\<rparr> else v) (filter sv_isDefault xs)" for xs :: "saved_view list"
    by (induction xs) auto
  then show "length (filter sv_isDefault (map (\<lambda>v. if sv_id v = i then v\<lparr>sv_name := trimmed\<rparr> else v) vs)) \<le> 1"
    using assms(1) by (simp only: views_ok_def length_map)
next
  fix v
  assume v: "view_ok v"
  then show "view_ok (if sv_id v = i then v\<lparr>sv_name := trimmed\<rparr> else v)"
    using assms(2) by (cases v) (auto simp: view_ok_def state_ok_def device_view_def view_state.truncate_def)
qed simp

lemma views_ok_default:
  assumes "views_ok vs"
  shows "views_ok (default_local i vs)"
  unfolding default_local_def
proof (rule views_ok_map [OF assms])
  have "length (filter sv_isDefault (map (\<lambda>v. v\<lparr>sv_isDefault := (i = Some (sv_id v))\<rparr>) xs)) =
      length (filter (\<lambda>j. i = Some j) (map sv_id xs))" for xs :: "saved_view list"
    by (induction xs) auto
  moreover have "length (filter (\<lambda>j. i = Some j) js) \<le> 1" if "distinct js" for js :: "string list"
    using that by (induction js) (auto simp: filter_empty_conv)
  ultimately show "length (filter sv_isDefault (map (\<lambda>v. v\<lparr>sv_isDefault := (i = Some (sv_id v))\<rparr>) vs)) \<le> 1"
    using assms by (simp only: views_ok_def)
next
  fix v
  assume "view_ok v"
  then show "view_ok (v\<lparr>sv_isDefault := (i = Some (sv_id v))\<rparr>)"
    by (cases v) (auto simp: view_ok_def state_ok_def device_view_def view_state.truncate_def)
qed simp

lemma views_ok_delete: "views_ok vs \<Longrightarrow> views_ok (delete_local i vs)"
proof -
  assume v: "views_ok vs"
  have "length (filter sv_isDefault (filter P xs)) \<le> length (filter sv_isDefault xs)" for P and xs :: "saved_view list"
    by (induction xs) auto
  then have "length (filter sv_isDefault (delete_local i vs)) \<le> length (filter sv_isDefault vs)"
    unfolding delete_local_def by blast
  with v show ?thesis by (auto simp: views_ok_def delete_local_def list_all_iff distinct_map_filter)
qed

lemma local_update_ok:
  "views_ok vs \<Longrightarrow> op_state_ok op \<Longrightarrow> local_update op = Some f \<Longrightarrow> views_ok (f vs)"
  by (cases op) (auto simp: views_ok_save views_ok_rename views_ok_default views_ok_delete split: if_splits)

text \<open>The storage holds the views of the tab, or nothing yet and the tab has none.\<close>

definition tab_synced :: "string \<Rightarrow> view_tab \<Rightarrow> bool" where
  "tab_synced routeKey t \<longleftrightarrow> views_ok (vt_views t) \<and>
     (vt_storage t (storageKey routeKey) = Json (JArr (map view_json (vt_views t))) \<or>
      parseViews (vt_storage t (storageKey routeKey)) = None \<and> parseViews (vt_storage t (legacyKey routeKey)) = None \<and>
        vt_views t = [])"

lemma tab_synced_reads:
  assumes "tab_synced routeKey t"
  shows "readViews quota_ok routeKey (vt_storage t) = (vt_views t, vt_storage t)"
  using assms views_read_back [of "vt_views t"] by (auto simp: tab_synced_def readViews_def views_ok_def)

lemma tab_synced_step:
  assumes "tab_synced routeKey t" "op_state_ok op"
  shows "tab_synced routeKey (view_op_step True routeKey t op)"
proof (cases "local_update op")
  case (Some f)
  have "views_ok (f (vt_views t))"
    using local_update_ok [OF _ assms(2) Some] assms(1) by (simp add: tab_synced_def)
  then show ?thesis using Some by (simp add: view_op_step_def persist_views_def tab_synced_def writeViews_def Let_def)
qed (use assms in \<open>simp add: view_op_step_def\<close>)



subsection \<open>An applied view is the active one\<close>

lemma values_of_apply_filters:
  assumes "distinct (map fst fs)" "\<forall>u \<in> set fs. values_of (fst u) ps = []" "\<forall>u \<in> set fs. \<not> reserved (fst u)"
    "\<forall>u \<in> set fs. \<forall>vs. snd u = Many vs \<longrightarrow> [] \<notin> set vs"
  shows "values_of k (foldl apply_filter ps fs) =
    (case map_of fs k of None \<Rightarrow> values_of k ps | Some u \<Rightarrow> update_values (Some u))"
  using assms
proof (induction fs arbitrary: ps)
  case (Cons u fs)
  obtain k' x where u: "u = (k', x)" by (cases u)
  have keep: "filter (\<lambda>v. v \<noteq> []) vs = vs" if "x = Many vs" for vs
    using Cons.prems(4) u that by (auto simp: filter_id_conv)
  have step: "values_of j (apply_filter ps u) = (if j = k' then update_values (Some x) else values_of j ps)" for j
    using Cons.prems(2,3) u keep by (cases x) (auto simp: apply_filter_def update_values_def)
  have "\<forall>w \<in> set fs. values_of (fst w) (apply_filter ps u) = []"
    using Cons.prems(1,2) u unfolding step by (auto simp: image_iff)
  with Cons.IH [of "apply_filter ps u"] Cons.prems
  have "values_of k (foldl apply_filter ps (u # fs)) =
      (case map_of fs k of None \<Rightarrow> values_of k (apply_filter ps u) | Some u \<Rightarrow> update_values (Some u))"
    by simp
  moreover have "map_of fs k' = None" using Cons.prems(1) u by (simp add: map_of_eq_None_iff)
  ultimately show ?case using u by (auto simp: step [unfolded u] split: option.splits)
qed simp

definition swap_input :: "filter_query \<Rightarrow> (string \<times> string) option \<Rightarrow> replace_input" where
  "swap_input fs sort_o =
     \<lparr>rq_filters = map (\<lambda>(k, v). (k, Some v)) fs, rq_sort = map_option Some sort_o, rq_search = None\<rparr>"

text \<open>What a page captures: filters of its own, no empty text in a list of them, and a sort with both parts.\<close>

definition captured :: "filter_query \<Rightarrow> (string \<times> string) option \<Rightarrow> bool" where
  "captured fs sort_o \<longleftrightarrow> distinct (map fst fs) \<and>
     list_all (\<lambda>(k, f). \<not> reserved k \<and> (case f of One v \<Rightarrow> True | Many vs \<Rightarrow> [] \<notin> set vs)) fs \<and>
     (case sort_o of None \<Rightarrow> True | Some (c, d) \<Rightarrow> c \<noteq> [] \<and> d \<noteq> [])"

lemma map_of_some: "map_of (map (\<lambda>(k, v). (k, Some v)) fs) k = map_option Some (map_of fs k)"
  by (induction fs) auto

lemma values_of_applied:
  assumes "captured fs sort_o"
  shows "values_of k (applySavedViewState fs sort_o ps) = values_of k (replaceQuery (swap_input fs sort_o) ps)"
proof -
  have fs: "distinct (map fst fs)" "\<forall>u \<in> set fs. \<not> reserved (fst u)"
    "\<forall>u \<in> set fs. \<forall>vs. snd u = Many vs \<longrightarrow> [] \<notin> set vs"
    using assms by (auto simp: captured_def list_all_iff)
  define base where "base = preserve ps ''search'' (preserve ps ''per_page'' [])"
  have base: "values_of j base =
      (if j = ''search'' \<or> j = ''per_page'' then text_values (map_of ps j) else [])" for j
    by (simp add: base_def preserve_def values_of_set_if)
  have free: "\<forall>u \<in> set fs. values_of (fst u) base = []"
    using fs(2) unfolding base by (auto simp: reserved_iff)
  have p1: "values_of j (foldl apply_filter base fs) =
      (case map_of fs j of None \<Rightarrow> values_of j base | Some u \<Rightarrow> update_values (Some u))" for j
    by (rule values_of_apply_filters [OF fs(1) free fs(2,3)])
  have none: "map_of fs j = None" if "reserved j" for j
    using fs(2) that by (auto simp: map_of_eq_None_iff)
  have ok: "op_ok (Replace_query (swap_input fs sort_o))"
    using fs(1,2) by (auto simp: swap_input_def list_all_iff comp_def case_prod_unfold)
  have applied: "applySavedViewState fs sort_o ps = sp_set ''page'' ''1''
      (case sort_o of Some (c, d) \<Rightarrow> sp_set ''order'' d (sp_set ''sort'' c (foldl apply_filter base fs))
       | None \<Rightarrow> preserve ps ''order'' (preserve ps ''sort'' (foldl apply_filter base fs)))"
    unfolding applySavedViewState_def base_def Let_def by (rule refl)
  define F where "F = foldl apply_filter base fs"
  have Fr: "values_of j F = (if j = ''search'' \<or> j = ''per_page'' then text_values (map_of ps j) else [])" if "reserved j" for j
    using none [OF that] unfolding F_def p1 base by simp
  have Ff: "values_of j F = (case map_of fs j of None \<Rightarrow> [] | Some u \<Rightarrow> update_values (Some u))" if "\<not> reserved j" for j
    using that unfolding F_def p1 base by (auto simp: reserved_iff split: option.split)
  have vals: "values_of j (applySavedViewState fs sort_o ps) =
      (if j = ''page'' then [''1'']
       else if j = ''sort'' then text_values (case sort_o of None \<Rightarrow> map_of ps ''sort'' | Some s \<Rightarrow> Some (fst s))
       else if j = ''order'' then text_values (case sort_o of None \<Rightarrow> map_of ps ''order'' | Some s \<Rightarrow> Some (snd s))
       else values_of j F)" for j
  proof (cases sort_o)
    case None
    have "values_of ''sort'' F = []" "values_of ''order'' F = []" by (simp_all add: Fr RESERVED_SEARCH_PARAMS_def)
    then show ?thesis
      unfolding applied F_def [symmetric] unfolding None
      by (simp add: preserve_def values_of_set_if)
  next
    case (Some s)
    then have "text_values (Some (fst s)) = [fst s]" "text_values (Some (snd s)) = [snd s]"
      using assms by (auto simp: captured_def text_values_def)
    then show ?thesis unfolding applied F_def [symmetric] unfolding Some by (cases s) simp
  qed
  show ?thesis
  proof (cases "reserved k")
    case True
    then consider "k = ''page''" | "k = ''per_page''" | "k = ''sort''" | "k = ''order''" | "k = ''search''"
      unfolding reserved_iff by blast
    then show ?thesis
      unfolding vals values_of_replace [OF ok]
      by cases (cases sort_o; simp add: RESERVED_SEARCH_PARAMS_def Fr replaced_def swap_input_def text_values_def)+
  next
    case False
    then have "k \<noteq> ''page''" "k \<noteq> ''sort''" "k \<noteq> ''order''" by (auto simp: reserved_iff)
    then show ?thesis
      using False unfolding vals values_of_replace [OF ok]
      by (simp add: Ff swap_input_def map_of_some split: option.split)
  qed
qed

lemma table_state_of_values:
  assumes "\<And>k. values_of k ps = values_of k qs"
  shows "table_state opts ps = table_state opts qs"
  unfolding table_state_values assms by (rule refl)

lemma applied_state:
  assumes "captured fs sort_o" "reserved_ok ps"
  shows "table_state opts (applySavedViewState fs sort_o ps) =
    spec_step opts (Replace_query (swap_input fs sort_o)) (table_state opts ps)"
proof -
  have "op_ok (Replace_query (swap_input fs sort_o))"
    using assms(1) by (auto simp: captured_def swap_input_def list_all_iff comp_def case_prod_unfold)
  from handler_refines [OF this assms(2), of opts] show ?thesis
    using table_state_of_values [OF values_of_applied [OF assms(1)], of opts ps] by simp
qed

lemma distinct_activeFilters: "distinct (map fst (activeFilters ps))"
proof -
  have "distinct (map fst (add_filter fs p))" if "distinct (map fst fs)" for fs p
    using that distinct_update [OF that] by (auto simp: add_filter_def split: prod.splits option.splits filter_value.splits)
  then show ?thesis
    unfolding activeFilters_def by (intro foldl_invariant [where P = "\<lambda>fs. distinct (map fst fs)"]) auto
qed

definition counts :: "filter_value \<Rightarrow> bool" where
  "counts f = (case f of One v \<Rightarrow> v \<noteq> [] | Many vs \<Rightarrow> vs \<noteq> [])"

lemma normalizedEntries_counts: "normalizedEntries q = filter (\<lambda>p. counts (snd p)) q"
  unfolding normalizedEntries_def counts_def by (rule filter_cong) (auto split: filter_value.split)

lemma map_of_normalizedEntries:
  "distinct (map fst q) \<Longrightarrow> map_of (normalizedEntries q) k =
     (case map_of q k of None \<Rightarrow> None | Some f \<Rightarrow> if counts f then Some f else None)"
  unfolding normalizedEntries_counts
proof (induction q)
  case (Cons p q)
  then have "map_of q (fst p) = None" by (simp add: map_of_eq_None_iff)
  with Cons show ?case by (cases p) (auto split: option.splits)
qed simp

lemma distinct_normalizedEntries: "distinct (map fst q) \<Longrightarrow> distinct (map fst (normalizedEntries q))"
  unfolding normalizedEntries_counts by (rule distinct_map_filter)

lemma sorted_entries:
  assumes "distinct (map fst q)"
  shows "sort_key fst q = map (\<lambda>k. (k, the (map_of q k))) (sorted_list_of_set (fst ` set q))"
proof -
  have d: "distinct (map fst (sort_key fst q))"
    using assms by (metis distinct_map distinct_sort set_sort)
  have "map fst (sort_key fst q) = sorted_list_of_set (fst ` set q)"
    by (rule sorted_distinct_set_unique) (use d in \<open>simp_all\<close>)
  moreover have "sort_key fst q = map (\<lambda>p. (fst p, the (map_of q (fst p)))) (sort_key fst q)"
    by (rule map_idI [symmetric]) (use assms in \<open>auto simp: map_of_is_SomeI\<close>)
  ultimately show ?thesis by (metis (no_types, lifting) List.map.compositionality comp_def map_eq_conv)
qed

lemma paramsEqual_by_key:
  assumes "distinct (map fst a)" "distinct (map fst b)"
    and "\<And>k. map_option entry_values (map_of (normalizedEntries a) k) = map_option entry_values (map_of (normalizedEntries b) k)"
  shows "paramsEqual a b"
proof -
  let ?a = "normalizedEntries a" and ?b = "normalizedEntries b"
  have keys: "fst ` set ?a = fst ` set ?b"
    using assms(3) by (metis (no_types, lifting) dom_map_of_conv_image_fst dom_map_option_comp domIff map_option_is_None subsetI subset_antisym)
  have "entry_values (the (map_of ?a k)) = entry_values (the (map_of ?b k))" if "k \<in> fst ` set ?a" for k
  proof -
    from that obtain x where x: "map_of ?a k = Some x" by (metis map_of_eq_None_iff not_Some_eq)
    with assms(3) [of k] obtain y where "map_of ?b k = Some y" "entry_values x = entry_values y" by (cases "map_of ?b k") auto
    with x show ?thesis by simp
  qed
  then show ?thesis
    unfolding paramsEqual_def Let_def sorted_entries [OF distinct_normalizedEntries [OF assms(1)]]
      sorted_entries [OF distinct_normalizedEntries [OF assms(2)]] keys [symmetric]
    by (auto simp: list_all2_map1 list_all2_map2 list_all2_same)
qed

lemma applied_filters_equal:
  assumes "captured fs sort_o" "reserved_ok ps"
  shows "paramsEqual fs (activeFilters (applySavedViewState fs sort_o ps))"
proof (rule paramsEqual_by_key)
  show d: "distinct (map fst fs)" using assms(1) by (simp add: captured_def)
  fix k
  have "map_of (activeFilters (applySavedViewState fs sort_o ps)) =
      (\<lambda>k. Option.bind (map_of (rq_filters (swap_input fs sort_o)) k) read_back)"
    using arg_cong [OF applied_state [OF assms, of undefined], of snd]
    by (cases "table_state undefined ps") (simp add: table_state_def)
  then have m: "map_of (activeFilters (applySavedViewState fs sort_o ps)) k = Option.bind (map_of fs k) (read_back \<circ> Some)"
    by (cases "map_of fs k") (simp_all add: swap_input_def map_of_some)
  have empties: "[] \<notin> set vs" if "map_of fs k = Some (Many vs)" for vs
    using assms(1) map_of_SomeD [OF that] by (auto simp: captured_def list_all_iff)
  show "map_option entry_values (map_of (normalizedEntries fs) k) =
      map_option entry_values (map_of (normalizedEntries (activeFilters (applySavedViewState fs sort_o ps))) k)"
  proof (cases "map_of fs k")
    case None
    then show ?thesis by (simp add: map_of_normalizedEntries [OF d] map_of_normalizedEntries [OF distinct_activeFilters] m)
  next
    case (Some f)
    show ?thesis
    proof (cases f)
      case (One v)
      with Some show ?thesis
        by (simp add: map_of_normalizedEntries [OF d] map_of_normalizedEntries [OF distinct_activeFilters] m read_back_def counts_def)
    next
      case (Many vs)
      consider "vs = []" | v where "vs = [v]" | "1 < length vs" by (cases vs; cases "tl vs") auto
      then have "map_option entry_values (if counts (Many vs) then Some (Many vs) else None) =
          map_option entry_values (case read_values vs of None \<Rightarrow> None | Some g \<Rightarrow> if counts g then Some g else None)"
      proof cases
        case 3
        with empties Some Many have "read_values vs = Some (Many vs)" by (intro read_values_list) simp_all
        then show ?thesis by simp
      qed (use empties Some Many in \<open>auto simp: counts_def\<close>)
      then show ?thesis
        using Some Many by (simp add: map_of_normalizedEntries [OF d] map_of_normalizedEntries [OF distinct_activeFilters] m read_back_def
            del: option.map split del: if_split)
    qed
  qed
qed (rule distinct_activeFilters)

lemma find_upto: "x \<in> set xs \<Longrightarrow> P x \<Longrightarrow> \<exists>y \<in> set (takeWhile (\<lambda>y. y \<noteq> x) xs) \<union> {x}. find P xs = Some y"
proof (induction xs)
  case (Cons a xs)
  then show ?case by (cases "a = x"; cases "P a") auto
qed simp


definition sample_view :: saved_view where
  "sample_view = device_view ''mine'' ''Mine'' False
     \<lparr>vs_filters = [(''status'', Many [''open'', ''late''])], vs_sort = Some (''due'', ''asc''), vs_hiddenColumns = None, vs_density = None\<rparr>"


end
