(* ===== verification/Spec2Isabelle.thy ===== *)
theory Spec2Isabelle
  imports SocketClient FormSchema TaskActions RouteGuard Middleware NodeMap WorkflowLint Canvas BoardLayout OrgEscalation CsvDialog AuthStore ApiClient StepAdapter RenewalQueue BulkAi LexLifecycle TableQuery OrgChart RequestHeaders SavedViews
begin

text \<open>
  A verification development of the client-side core of Clario360, the TypeScript under
  \<open>src/frontend/src\<close>. Paths below are relative to that directory.

  \<^bold>\<open>The program.\<close> Clario360 is a Next.js application in front of a Go backend. Its own core logic is in seven
  places. (1) The session: the middleware and the BFF routes of the Next.js server keep the tokens in
  httpOnly cookies and rotate the single-use refresh token; in the browser each tab keeps an access token,
  renews it, retries requests that met a 401 and ends the session in all tabs together. (2) Authorisation: the
  permission resolver, its registries and memo, the route guard and the redirect guard. (3) Live data: the
  notification socket, the registry of query keys its messages invalidate, the unread badge. (4) Plans and
  graphs: runbooks and dependency maps (topological order, critical path), workflow definitions (validation,
  lint, the designer's canvas and its stored form), the forms of human tasks, recovery clocks and insights.
  (5) The legal workspace: lifecycles of contracts, cases, investigations and settlements, selections and bulk
  runs over them, the renewal queue. (6) The organisation tree with its escalation previews. (7) Data
  that users move: dashboard boards and their grids, CSV export and import.

  \<^bold>\<open>How the parts interact.\<close> The middleware and the routes share the single-flight exchange of the BFF; a tab's
  interceptor, watchdog and hydration share one serialised refresh; its outcome \<open>Terminal\<close> ends the session,
  which the other tabs follow. The auth store feeds the permission resolver, which the guard consults. The
  socket hands its messages to the key registry, which invalidates the queries that are mounted. The
  linter and the canvas work on the steps the step adapter reads, the validation decides what may be
  activated, and a human task compiles its fields into the schema of its form. A table's selection scope becomes
  the payload of a bulk request; the bulk AI runs share a pool of lanes; the renewal queue and the bulk status
  dialog share the contract lifecycle. The importer reads what the exporters write.

  \<^bold>\<open>Theories.\<close>
  \<^item> \<open>Prelude\<close>: strings, arrays, maps in insertion order, folds with an invariant, and the collection \<open>js_simps\<close>.
  \<^item> \<open>Web\<close>: URLs, percent-encoding, headers, cookies, JSON values, \<open>Math.round\<close>. \<open>JsNumber\<close>: the text of a number,
    \<open>Number(text)\<close> and arithmetic with NaN and the infinities. \<open>JsDate\<close>: the UTC calendar, with the lengths of
    months and \<open>Date.UTC\<close> as inverse of the calendar date.
  \<^item> \<open>Permissions\<close> (\<open>stores/auth-store.ts\<close> checkPermission, \<open>lib/permissions.ts\<close>, \<open>components/lex/access\<close>):
    the resolver and the Lex registries. Lemmas: what a set of keys grants, wildcards, phantom verbs.
  \<^item> \<open>SafeRedirect\<close> (\<open>lib/safe-redirect.ts\<close>), \<open>RouteGuard\<close> (the Lex route guard).
  \<^item> \<open>Bff\<close> (\<open>lib/bff-refresh.ts\<close>, \<open>app/api/auth\<close>): the token exchange as a machine over calls, settlements
    and timers, and the session and refresh routes. \<open>Middleware\<close> (\<open>middleware.ts\<close>, \<open>lib/security-headers.ts\<close>).
  \<^item> \<open>SessionRefresh\<close> (\<open>lib/session-refresh.ts\<close>): promise chain, Web Lock and cooldown as a step relation over all
    tabs, the cookie and a server that accepts a token once. \<open>SessionExpiry\<close> (\<open>lib/session-expiry.ts\<close>): the
    module state of a tab and the messages between tabs. \<open>ApiClient\<close> (\<open>lib/api.ts\<close>): the 401 interceptor with
    its queue, and API errors. \<open>AuthStore\<close> (\<open>stores/auth-store.ts\<close>, \<open>components/providers/auth-provider.tsx\<close>):
    the actions, each split where it awaits, the memo of effective permissions, the watchdog.
  \<^item> \<open>SocketClient\<close> (\<open>hooks/use-websocket.ts\<close> and the client it drives): connections, retries and timers, one
    socket at a time. \<open>RealtimeStore\<close> (\<open>stores/realtime-store.ts\<close>): reference counts of query keys as the locale
    \<open>registry\<close>, interpreted on the store. \<open>NotificationStore\<close> (\<open>stores/notification-store.ts\<close>): the unread badge.
  \<^item> \<open>Kahn\<close>, \<open>Chains\<close>: an ordered worklist and weighted chains, shared by \<open>Runbook\<close> (\<open>lib/clario-dr.ts\<close>) and
    \<open>NodeMap\<close> (the dependency map of the DR pages). \<open>Recovery\<close> (\<open>recovery-utils.ts\<close>, \<open>dr/_lib/rto.ts\<close>): states
    and clocks of a failover run; the breach state only worsens. \<open>Insights\<close> (\<open>dr/insights/_lib\<close>): percentiles,
    attainment, duration series, drill trend, which agree with one another.
  \<^item> \<open>Workflow\<close> (\<open>lib/workflow-validation.ts\<close>), \<open>WorkflowLint\<close>, \<open>Canvas\<close>, \<open>StepAdapter\<close> (the designer).
    \<open>Canvas\<close> states the edit history as the locale \<open>edit_history\<close>, interpreted on the reducer.
  \<^item> \<open>FormConditions\<close>, \<open>FormSchema\<close>, \<open>TaskActions\<close> (\<open>lib/workflow-utils.ts\<close>): visibility conditions, the compiler
    from form fields to a schema and what it accepts, who may claim or delegate a task.
  \<^item> \<open>SelectionScope\<close> (\<open>components/shared/data-table\<close>): the selection of a table; the scope agrees with the
    checked rows. \<open>BulkScope\<close> (\<open>lex/contracts/_lib/use-bulk-scope.ts\<close>): its translation into a request.
    \<open>WorkerPool\<close> and \<open>BulkAi\<close> (\<open>use-bulk-ai.ts\<close>): lanes over a shared cursor and the runs on them.
    \<open>RenewalQueue\<close> (\<open>use-renewal-queue.ts\<close>): legal decisions, renewed terms and the sequential run.
    \<open>LexLifecycle\<close>: investigations with their four-eyes guard, settlements, bulk status of cases.
  \<^item> \<open>OrgTree\<close> and \<open>OrgEscalation\<close> (\<open>lex/admin/org-entities/_lib\<close>): valid parents, re-parenting and what-if
    previews against the tree itself.
  \<^item> \<open>WidgetBoard\<close> and \<open>BoardLayout\<close> (\<open>components/dashboard/widget-board\<close>): stored boards and the grid, the
    latter as the locale \<open>grid_placement\<close>, interpreted at each breakpoint.
  \<^item> \<open>Csv\<close> (\<open>lib/format/csv.ts\<close>, \<open>csv-parse.ts\<close>), \<open>CsvImport\<close>, \<open>CsvDialog\<close> (the guided import of documents).

  \<^bold>\<open>Conventions.\<close> A JavaScript object used as a map is an association list in insertion order; \<open>undefined\<close> is
  \<open>None\<close>; a number is a \<open>rat\<close> or \<open>js_num\<close> where NaN and the infinities matter, an \<open>int\<close> or \<open>nat\<close> where only whole
  numbers occur, so rounding of doubles is not modelled. Strings are character lists, in the CSV theories lists
  of UTF-16 code units. The parsing of dates, locale formatting, regular expressions the code only calls, the
  schema library's own checks and the server's answers are arguments, with what the code relies on as named
  hypotheses. Mutable module state is a record passed through; concurrency is a list of operations or an inductive
  step relation, so that a property holds for every interleaving. An asynchronous function is split where it
  awaits: the answer it waits for is an event. Some records carry a history the code does not keep (requests sent,
  items started, runs finished), which only the statements read.

  \<^bold>\<open>Bounds and fuel.\<close> The worklist of \<open>Kahn\<close> and the search of \<open>WorkflowLint\<close> have termination measures, and so
  has the walk over list pages in \<open>BulkScope\<close>, by the cap on the total. The
  depth-first search of \<open>Workflow\<close> has fuel one above the number of steps, which \<open>visit_spec\<close> shows to be
  enough. The walks of \<open>OrgTree\<close> take fuel because a cyclic tree makes the code run for ever; termination is
  characterised exactly. \<open>ApiClient\<close> has no fuel: its step relation is well-founded on any finite set of requests.

  \<^bold>\<open>Not modelled.\<close> The Go and Python services (other languages); React rendering, effects and styling, which
  are glue around the modelled logic; message catalogues and generated types, which are data; wrappers that
  make one HTTP call; DOM calls such as the download of a file. The request interceptor of \<open>lib/api.ts\<close> only sets
  headers. Planned next: the organisation chart layout and health rules, approval policy templates, the document
  editor session, calendar administration, saved views and the data-table hook.
\<close>

end
